(* ===== verification/Prelude.thy ===== *)
theory Prelude
  imports Main "HOL-Library.Word" "HOL-Library.Char_ord" "HOL-Library.List_Lexorder"
begin

text \<open>
  Shared vocabulary of the development: the machine types of the code, the model of the parts of
  the C and C++ standard library that several components call (decimal printing and reading,
  \<^verbatim>\<open>isspace\<close>, C strings), the lemma collections the component theories fill, and generic facts on
  lists, options and 64-bit words.
\<close>

unbundle bit_operations_syntax

section \<open>Machine types\<close>

text \<open>
  \<open>u64\<close> is \<^verbatim>\<open>std::uint64_t\<close>, with wrap-around. \<^verbatim>\<open>std::int64_t\<close> is \<^typ>\<open>int\<close>; the code checks
  its bounds before every addition that could leave them, and \<open>int64_ok\<close> is the type's range.
  \<^verbatim>\<open>std::size_t\<close> values that count elements or bytes in memory are \<^typ>\<open>nat\<close>.
  A \<^typ>\<open>char\<close> is one byte, so \<^typ>\<open>string\<close> is \<^verbatim>\<open>std::string\<close> and \<^verbatim>\<open>std::string_view\<close>.
\<close>

type_synonym u64 = "64 word"

abbreviation u64_max :: u64 where
  "u64_max \<equiv> -1"

abbreviation int64_max :: int where
  "int64_max \<equiv> 9223372036854775807"

abbreviation int64_min :: int where
  "int64_min \<equiv> -9223372036854775808"

definition int64_ok :: "int \<Rightarrow> bool" where
  "int64_ok n \<longleftrightarrow> int64_min \<le> n \<and> n \<le> int64_max"

text \<open>\<^verbatim>\<open>static_cast\<close> between the two 64-bit integer types.\<close>

abbreviation i64_to_u64 :: "int \<Rightarrow> u64" where
  "i64_to_u64 n \<equiv> word_of_int n"

abbreviation u64_to_i64 :: "u64 \<Rightarrow> int" where
  "u64_to_i64 w \<equiv> sint w"

section \<open>Collections of lemmas\<close>

text \<open>
  \<open>op_defs\<close> holds the definitions of the operations of a component, for proofs that unfold a whole
  operation; \<open>frame\<close> holds the facts that say what an operation leaves alone.
\<close>

named_theorems op_defs \<open>definitions of the operations of the components\<close>
named_theorems frame \<open>what an operation does not change\<close>

section \<open>Characters and C strings\<close>

definition is_digit :: "char \<Rightarrow> bool" where
  "is_digit c \<longleftrightarrow> 48 \<le> (of_char c :: nat) \<and> (of_char c :: nat) \<le> 57"

definition digit_val :: "char \<Rightarrow> nat" where
  "digit_val c = of_char c - 48"

definition digit_char :: "nat \<Rightarrow> char" where
  "digit_char d = char_of (48 + d)"

text \<open>\<^verbatim>\<open>std::isspace\<close> in the C locale: tab, line feed, vertical tab, form feed, carriage return
  and space.\<close>

definition isspace :: "char \<Rightarrow> bool" where
  "isspace c \<longleftrightarrow> (of_char c :: nat) = 32 \<or> (9 \<le> (of_char c :: nat) \<and> (of_char c :: nat) \<le> 13)"

text \<open>The characters a \<^verbatim>\<open>const char*\<close> from \<^verbatim>\<open>c_str()\<close> denotes: everything before the first NUL.\<close>

definition c_str :: "string \<Rightarrow> string" where
  "c_str s = takeWhile (\<lambda>c. (of_char c :: nat) \<noteq> 0) s"

lemma of_char_digit_char [simp]: "d < 10 \<Longrightarrow> (of_char (digit_char d) :: nat) = 48 + d"
  by (simp add: digit_char_def)

lemma is_digit_digit_char [simp]: "d < 10 \<Longrightarrow> is_digit (digit_char d)"
  by (simp add: is_digit_def)

lemma digit_val_digit_char [simp]: "d < 10 \<Longrightarrow> digit_val (digit_char d) = d"
  by (simp add: digit_val_def)

lemma digit_not_space [simp]: "is_digit c \<Longrightarrow> \<not> isspace c"
  by (auto simp: is_digit_def isspace_def)

lemma c_str_id: "(\<And>c. c \<in> set s \<Longrightarrow> (of_char c :: nat) \<noteq> 0) \<Longrightarrow> c_str s = s"
  by (simp add: c_str_def takeWhile_eq_all_conv)

section \<open>Decimal numbers: std::to_string, std::strtoll, std::from_chars\<close>

fun show_nat :: "nat \<Rightarrow> string" where
  "show_nat n = (if n < 10 then [digit_char n] else show_nat (n div 10) @ [digit_char (n mod 10)])"

declare show_nat.simps [simp del]

text \<open>\<^verbatim>\<open>std::to_string\<close> on signed and on unsigned 64-bit integers.\<close>

definition to_string :: "int \<Rightarrow> string" where
  "to_string n = (if n < 0 then CHR ''-'' # show_nat (nat (- n)) else show_nat (nat n))"

definition u64_to_string :: "u64 \<Rightarrow> string" where
  "u64_to_string w = show_nat (unat w)"

definition digits_val :: "string \<Rightarrow> nat" where
  "digits_val ds = foldl (\<lambda>v c. 10 * v + digit_val c) 0 ds"

text \<open>
  \<^verbatim>\<open>std::strtoll(s, &end, 10)\<close>: skip white space, read an optional sign, then the longest run of
  digits. The result is the value (clamped to the type's range), whether \<^verbatim>\<open>errno\<close> is \<^verbatim>\<open>ERANGE\<close>,
  and the characters from \<^verbatim>\<open>end\<close> on; with no digit there is no conversion and \<^verbatim>\<open>end\<close> is \<^verbatim>\<open>s\<close>.
\<close>

definition strtoll :: "string \<Rightarrow> int \<times> bool \<times> string" where
  "strtoll s =
     (let t = dropWhile isspace s;
          neg = (t \<noteq> [] \<and> hd t = CHR ''-'');
          u = (if t \<noteq> [] \<and> (hd t = CHR ''-'' \<or> hd t = CHR ''+'') then tl t else t);
          ds = takeWhile is_digit u;
          v = (if neg then - int (digits_val ds) else int (digits_val ds))
      in if ds = [] then (0, False, s)
         else if v > int64_max then (int64_max, True, dropWhile is_digit u)
         else if v < int64_min then (int64_min, True, dropWhile is_digit u)
         else (v, False, dropWhile is_digit u))"

text \<open>
  \<^verbatim>\<open>std::from_chars\<close> into an unsigned 64-bit integer, together with the callers' test that the
  whole text was consumed: no sign, at least one digit, the value in range.
\<close>

definition from_chars_u64 :: "string \<Rightarrow> u64 option" where
  "from_chars_u64 s =
     (if s \<noteq> [] \<and> list_all is_digit s \<and> digits_val s < 2 ^ 64
      then Some (of_nat (digits_val s)) else None)"

lemma digits_val_Nil [simp]: "digits_val [] = 0"
  by (simp add: digits_val_def)

lemma digits_val_snoc [simp]: "digits_val (ds @ [c]) = 10 * digits_val ds + digit_val c"
  by (simp add: digits_val_def)

lemma show_nat_not_Nil [simp]: "show_nat n \<noteq> []"
  by (subst show_nat.simps) simp

lemma show_nat_digits: "c \<in> set (show_nat n) \<Longrightarrow> is_digit c"
proof (induction n rule: show_nat.induct)
  case (1 n)
  then show ?case
    by (cases "n < 10") (auto simp: show_nat.simps [of n])
qed

lemma list_all_show_nat [simp]: "list_all is_digit (show_nat n)"
  by (auto simp: list_all_iff dest: show_nat_digits)

lemma digits_val_show_nat [simp]: "digits_val (show_nat n) = n"
proof (induction n rule: show_nat.induct)
  case (1 n)
  show ?case
  proof (cases "n < 10")
    case True
    then show ?thesis
      using digits_val_snoc [of "[]" "digit_char n"] by (simp add: show_nat.simps [of n])
  next
    case False
    then show ?thesis
      using "1.IH" by (simp add: show_nat.simps [of n])
  qed
qed

lemma show_nat_inject [simp]: "show_nat m = show_nat n \<longleftrightarrow> m = n"
  by (metis digits_val_show_nat)

lemma takeWhile_show_nat [simp]: "takeWhile is_digit (show_nat n) = show_nat n"
  by (simp add: takeWhile_eq_all_conv show_nat_digits)

lemma dropWhile_show_nat [simp]: "dropWhile is_digit (show_nat n) = []"
  by (simp add: show_nat_digits)

lemma hd_show_nat_digit [simp]: "is_digit (hd (show_nat n))"
  by (rule show_nat_digits [of _ n]) simp

lemma dropWhile_space_show_nat [simp]: "dropWhile isspace (show_nat n) = show_nat n"
  by (cases "show_nat n") (use hd_show_nat_digit [of n] in auto)

lemma show_nat_bounds: "n < 10 ^ length (show_nat n)" "0 < n \<Longrightarrow> 10 ^ (length (show_nat n) - 1) \<le> n"
proof (induction n rule: show_nat.induct)
  case (1 n)
  {
    case 1
    show ?case using "1.IH"(1) by (cases "n < 10") (auto simp: show_nat.simps [of n])
  next
    case 2
    show ?case
    proof (cases "n < 10")
      case True
      then show ?thesis using 2 by (simp add: show_nat.simps [of n])
    next
      case False
      then have "10 ^ (length (show_nat (n div 10)) - 1) \<le> n div 10" using "1.IH"(2) by simp
      moreover obtain k where "length (show_nat (n div 10)) = Suc k"
        by (cases "length (show_nat (n div 10))") auto
      ultimately show ?thesis using False by (simp add: show_nat.simps [of n])
    qed
  }
qed

lemma digit_char_0: "digit_char 0 = CHR ''0''"
  by code_simp

lemma show_nat_shift: "0 < n \<Longrightarrow> show_nat (n * 10 ^ k) = show_nat n @ replicate k CHR ''0''"
proof (induction k)
  case (Suc k)
  have "show_nat (n * 10 ^ Suc k) = show_nat (n * 10 ^ k) @ [digit_char 0]"
    using Suc.prems by (subst show_nat.simps) auto
  then show ?case using Suc by (simp add: replicate_append_same digit_char_0)
qed simp

lemma from_chars_u64_to_string [simp]: "from_chars_u64 (u64_to_string w) = Some w"
proof -
  have "unat w < 2 ^ 64" using unsigned_less [of w] by simp
  then show ?thesis by (simp add: from_chars_u64_def u64_to_string_def)
qed

lemma from_chars_u64_show_nat: "n < 2 ^ 64 \<Longrightarrow> from_chars_u64 (show_nat n) = Some (of_nat n)"
  by (simp add: from_chars_u64_def)

lemma sign_not_digit [simp]: "\<not> is_digit CHR ''-''" "\<not> is_digit CHR ''+''"
  by (simp_all add: is_digit_def)

lemma strtoll_to_string: "int64_ok n \<Longrightarrow> strtoll (to_string n) = (n, False, [])"
proof (cases "n < 0")
  case True
  assume "int64_ok n"
  moreover have "\<not> isspace CHR ''-''" by (simp add: isspace_def)
  ultimately show ?thesis
    using True by (simp add: strtoll_def to_string_def int64_ok_def Let_def)
next
  case False
  assume ok: "int64_ok n"
  have hd: "hd (show_nat (nat n)) \<noteq> CHR ''-''" "hd (show_nat (nat n)) \<noteq> CHR ''+''"
    using hd_show_nat_digit [of "nat n"] sign_not_digit by metis+
  from False ok hd show ?thesis
    by (simp add: strtoll_def to_string_def int64_ok_def Let_def)
qed

lemma to_string_chars: "c \<in> set (to_string n) \<Longrightarrow> is_digit c \<or> c = CHR ''-''"
  by (auto simp: to_string_def dest: show_nat_digits split: if_splits)

lemma to_string_not_Nil [simp]: "to_string n \<noteq> []"
  by (simp add: to_string_def)

lemma c_str_to_string [simp]: "c_str (to_string n) = to_string n"
  by (rule c_str_id) (auto dest!: to_string_chars simp: is_digit_def)

lemma hd_to_string_not_space [simp]: "\<not> isspace (hd (to_string n))"
  using to_string_chars [of "hd (to_string n)" n] by (auto simp: isspace_def is_digit_def)

section \<open>Generic facts\<close>

lemma option_case_eq_Some:
  "(case x of None \<Rightarrow> None | Some y \<Rightarrow> f y) = Some z \<longleftrightarrow> (\<exists>y. x = Some y \<and> f y = Some z)"
  by (cases x) auto

text \<open>A 64-bit counter that is not at its maximum counts up by one.\<close>

lemma unat_Suc_u64: "(w :: u64) \<noteq> u64_max \<Longrightarrow> unat (w + 1) = Suc (unat w)"
  by (metis add.commute eq_neg_iff_add_eq_0 unatSuc)

lemma u64_less_Suc: "(w :: u64) \<noteq> u64_max \<Longrightarrow> w < w + 1"
  by (simp add: word_less_nat_alt unat_Suc_u64)

lemma u64_less_Suc_iff: "(w :: u64) \<noteq> u64_max \<Longrightarrow> v < w + 1 \<longleftrightarrow> v \<le> w"
  by (simp add: word_less_nat_alt word_le_nat_alt unat_Suc_u64 less_Suc_eq_le)

end
