(* ===== verification/Common.thy ===== *)
theory Common
  imports Prelude
begin

text \<open>
  The helpers of \<^verbatim>\<open>src/common\<close>: the FNV-1a hash and the slot of a key (\<^verbatim>\<open>hash.h\<close>), integer parsing
  and upper-casing (\<^verbatim>\<open>parse_utils.cpp\<close>).
\<close>

section \<open>hash.h\<close>

definition kSlotCount :: nat where
  "kSlotCount = 100003"

definition Fnva64 :: "string \<Rightarrow> u64" where
  "Fnva64 value =
     foldl (\<lambda>hash ch. (hash XOR of_char ch) * 1099511628211) 14695981039346656037 value"

definition SlotForKey :: "string \<Rightarrow> nat" where
  "SlotForKey key = unat (Fnva64 key mod of_nat kSlotCount)"

lemma kSlotCount_pos [simp]: "0 < kSlotCount"
  by (simp add: kSlotCount_def)

text \<open>
  Every key has a slot below the slot count, so \<^verbatim>\<open>slots_.at(SlotForKey(key))\<close> never throws on a
  vector of \<open>kSlotCount\<close> slots.
\<close>

lemma SlotForKey_less [simp]: "SlotForKey key < kSlotCount"
proof -
  have "unat (Fnva64 key mod of_nat kSlotCount) = unat (Fnva64 key) mod kSlotCount"
    by (simp add: unat_mod_distrib kSlotCount_def)
  then show ?thesis by (simp add: SlotForKey_def)
qed

section \<open>parse_utils.cpp\<close>

definition ParseInt64 :: "string \<Rightarrow> int option" where
  "ParseInt64 text =
     (if text = [] then None
      else if isspace (hd text) then None
      else let str = c_str text; (value, erange, end) = strtoll str
           in if erange \<or> end = str \<or> end \<noteq> [] then None else Some value)"

definition ToUpperAscii :: "string \<Rightarrow> string" where
  "ToUpperAscii text =
     map (\<lambda>ch. if 97 \<le> (of_char ch :: nat) \<and> (of_char ch :: nat) \<le> 122
               then char_of ((of_char ch :: nat) - 97 + 65) else ch) text"

lemma ToUpperAscii_idem [simp]: "ToUpperAscii (ToUpperAscii s) = ToUpperAscii s"
  by (auto simp: ToUpperAscii_def)

lemma length_ToUpperAscii [simp]: "length (ToUpperAscii s) = length s"
  by (simp add: ToUpperAscii_def)

lemma strtoll_range: "strtoll s = (v, e, r) \<Longrightarrow> int64_ok v"
  by (auto simp: strtoll_def int64_ok_def Let_def split: if_splits)

lemma ParseInt64_range: "ParseInt64 s = Some n \<Longrightarrow> int64_ok n"
  by (auto simp: ParseInt64_def Let_def strtoll_range split: if_splits prod.splits)

lemma ParseInt64_to_string_ok [simp]: "int64_ok n \<Longrightarrow> ParseInt64 (to_string n) = Some n"
  by (simp add: ParseInt64_def strtoll_to_string) (metis to_string_not_Nil)

end
