(* ===== verification/GlobMatch.thy ===== *)
theory GlobMatch
  imports Common
begin

text \<open>
  The glob matcher of \<^verbatim>\<open>src/common/glob_match.cpp\<close>, with the code's indices into the pattern and the
  value: \<open>ParseClassAtom\<close>, \<open>MatchClass\<close>, \<open>MatchOne\<close> and the backtracking loop of \<open>MatchAt\<close>.
  The loop is a partial function (not returning is \<open>None\<close>); it is shown to return on every input
  and to decide the declarative relation \<open>globs\<close>, in which a star may cover any number of bytes.
\<close>

section \<open>The matcher\<close>

text \<open>
  An out-parameter that the code writes only on success is part of an \<open>option\<close> result: here the
  atom, whether it was escaped, and the index after it. Bytes are compared as \<^verbatim>\<open>unsigned char\<close>.
\<close>

definition ParseClassAtom :: "string \<Rightarrow> nat \<Rightarrow> nat \<Rightarrow> bool \<Rightarrow> (nat \<times> bool \<times> nat) option" where
  "ParseClassAtom pattern first_member_index index allow_closing_bracket =
     (if length pattern \<le> index \<or>
         (pattern ! index = CHR '']'' \<and> index \<noteq> first_member_index \<and> \<not> allow_closing_bracket)
      then None
      else let escaped = (of_char (pattern ! index) = (92 :: nat) \<and> index + 1 < length pattern);
               index' = (if escaped then index + 1 else index)
           in Some (of_char (pattern ! index'), escaped, index' + 1))"

lemma ParseClassAtom_greater:
  "ParseClassAtom p fmi i b = Some (a, e, j) \<Longrightarrow> i < j"
  by (auto simp: ParseClassAtom_def Let_def split: if_splits)

text \<open>
  The loop of \<^verbatim>\<open>MatchClass\<close>: whether a member matched, whether the class is closed, and the index
  where the loop ended. The test for a range that ends at a closing bracket reads \<^verbatim>\<open>last\<close> after the
  swap, as the code does.
\<close>

function MatchClass_loop :: "string \<Rightarrow> nat \<Rightarrow> nat \<Rightarrow> nat \<Rightarrow> bool \<Rightarrow> bool \<times> bool \<times> nat" where
  "MatchClass_loop pattern value first_member_index index matched =
     (if index < length pattern then
        if pattern ! index = CHR '']'' \<and> index \<noteq> first_member_index
        then (matched, True, index + 1)
        else case ParseClassAtom pattern first_member_index index False of
          None \<Rightarrow> (matched, False, index)
        | Some (atom1, first_escaped, index1) \<Rightarrow>
            (case (if \<not> first_escaped \<and> index1 + 1 < length pattern \<and> pattern ! index1 = CHR ''-''
                   then ParseClassAtom pattern first_member_index (index1 + 1) True else None) of
               Some (atom2, last_escaped, index2) \<Rightarrow>
                 let (first', last') = (if atom2 < atom1 then (atom2, atom1) else (atom1, atom2));
                     matched' = (matched \<or> (first' \<le> value \<and> value \<le> last'))
                 in if \<not> last_escaped \<and> last' = 93 then (matched', True, index2)
                    else MatchClass_loop pattern value first_member_index index2 matched'
             | None \<Rightarrow>
                 MatchClass_loop pattern value first_member_index index1
                   (matched \<or> atom1 = value))
      else (matched, False, index))"
  by pat_completeness auto
termination
  by (relation "measure (\<lambda>(pattern, value, fmi, index, matched). length pattern - index)")
     (auto split: if_splits dest!: ParseClassAtom_greater)

declare MatchClass_loop.simps [simp del]

definition MatchClass :: "string \<Rightarrow> nat \<Rightarrow> nat \<Rightarrow> nat option" where
  "MatchClass pattern pattern_index value =
     (let negate = (pattern_index < length pattern \<and> pattern ! pattern_index = CHR ''^'');
          index = (if negate then pattern_index + 1 else pattern_index);
          (matched, closed, index') = MatchClass_loop pattern value index index False
      in if \<not> closed then None
         else if (if negate then \<not> matched else matched) then Some index' else None)"

definition MatchOne :: "string \<Rightarrow> nat \<Rightarrow> nat \<Rightarrow> nat option" where
  "MatchOne pattern pattern_index value =
     (let token = pattern ! pattern_index
      in if token = CHR ''*'' then None
         else if token = CHR ''?'' then Some (pattern_index + 1)
         else if token = CHR ''['' then MatchClass pattern (pattern_index + 1) value
         else let escaped = (of_char token = (92 :: nat) \<and> pattern_index + 1 < length pattern);
                  next = (if escaped then pattern_index + 1 else pattern_index)
              in if of_char (pattern ! next) \<noteq> value then None else Some (next + 1))"

function skip_stars :: "string \<Rightarrow> nat \<Rightarrow> nat" where
  "skip_stars pattern i =
     (if i < length pattern \<and> pattern ! i = CHR ''*'' then skip_stars pattern (i + 1) else i)"
  by pat_completeness auto
termination
  by (relation "measure (\<lambda>(pattern, i). length pattern - i)") auto

declare skip_stars.simps [simp del]

text \<open>\<open>star_pattern_index\<close> is \<open>None\<close> where the code has \<^verbatim>\<open>kNoStar\<close>.\<close>

partial_function (option) MatchAt_loop ::
  "string \<Rightarrow> string \<Rightarrow> nat \<Rightarrow> nat \<Rightarrow> nat option \<Rightarrow> nat \<Rightarrow> bool option" where
  "MatchAt_loop pattern value pattern_index value_index star_pattern_index star_value_index =
     (if value_index < length value then
        if pattern_index < length pattern \<and> pattern ! pattern_index = CHR ''*'' then
          let pattern_index' = skip_stars pattern pattern_index
          in MatchAt_loop pattern value pattern_index' value_index (Some pattern_index') value_index
        else case (if pattern_index < length pattern
                   then MatchOne pattern pattern_index (of_char (value ! value_index)) else None) of
            Some next \<Rightarrow>
              MatchAt_loop pattern value next (value_index + 1) star_pattern_index star_value_index
          | None \<Rightarrow>
              (case star_pattern_index of
                 None \<Rightarrow> Some False
               | Some star \<Rightarrow>
                   MatchAt_loop pattern value star (star_value_index + 1)
                     star_pattern_index (star_value_index + 1))
      else Some (skip_stars pattern pattern_index = length pattern))"

definition MatchAt :: "string \<Rightarrow> string \<Rightarrow> bool option" where
  "MatchAt pattern value = MatchAt_loop pattern value 0 0 None 0"

definition GlobMatch :: "string \<Rightarrow> string \<Rightarrow> bool" where
  "GlobMatch pattern value \<longleftrightarrow> MatchAt pattern value = Some True"

section \<open>The language of a pattern\<close>

text \<open>
  \<open>globs p v i j\<close>: the pattern from index \<open>i\<close> matches the value from index \<open>j\<close>, where a star
  matches any run of bytes and every other token matches one byte by \<open>MatchOne\<close>.
\<close>

inductive globs :: "string \<Rightarrow> string \<Rightarrow> nat \<Rightarrow> nat \<Rightarrow> bool" for p v where
  globs_end: "globs p v (length p) (length v)"
| globs_star_none: "i < length p \<Longrightarrow> p ! i = CHR ''*'' \<Longrightarrow> globs p v (i + 1) j \<Longrightarrow> globs p v i j"
| globs_star_one: "i < length p \<Longrightarrow> p ! i = CHR ''*'' \<Longrightarrow> j < length v \<Longrightarrow>
    globs p v i (j + 1) \<Longrightarrow> globs p v i j"
| globs_one: "i < length p \<Longrightarrow> j < length v \<Longrightarrow> MatchOne p i (of_char (v ! j)) = Some k \<Longrightarrow>
    globs p v k (j + 1) \<Longrightarrow> globs p v i j"

text \<open>A token's length does not depend on the byte it is matched against.\<close>

lemma MatchClass_loop_single:
  assumes "i < length p" and "\<not> (p ! i = CHR '']'' \<and> i \<noteq> fmi)"
    and "ParseClassAtom p fmi i False = Some (a, e, i1)"
    and "(if \<not> e \<and> i1 + 1 < length p \<and> p ! i1 = CHR ''-''
          then ParseClassAtom p fmi (i1 + 1) True else None) = None"
  shows "MatchClass_loop p v fmi i m = MatchClass_loop p v fmi i1 (m \<or> a = v)"
  by (subst MatchClass_loop.simps) (simp only: assms if_True if_False option.case prod.case)

lemma MatchClass_loop_range:
  assumes "i < length p" and "\<not> (p ! i = CHR '']'' \<and> i \<noteq> fmi)"
    and "ParseClassAtom p fmi i False = Some (a, e, i1)"
    and "(if \<not> e \<and> i1 + 1 < length p \<and> p ! i1 = CHR ''-''
          then ParseClassAtom p fmi (i1 + 1) True else None) = Some (b, e2, i2)"
    and "(lo, hi) = (if b < a then (b, a) else (a, b))"
  shows "MatchClass_loop p v fmi i m =
    (if \<not> e2 \<and> hi = 93 then (m \<or> (lo \<le> v \<and> v \<le> hi), True, i2)
     else MatchClass_loop p v fmi i2 (m \<or> (lo \<le> v \<and> v \<le> hi)))"
  by (subst MatchClass_loop.simps)
     (simp only: assms(1-4) assms(5) [symmetric] if_True if_False option.case prod.case Let_def)

lemma MatchClass_loop_stop:
  assumes "\<not> (i < length p \<and> \<not> (p ! i = CHR '']'' \<and> i \<noteq> fmi)) \<or>
    ParseClassAtom p fmi i False = None"
  shows "snd (MatchClass_loop p v fmi i m) = snd (MatchClass_loop p v' fmi i m')"
  using assms by (subst (1 2) MatchClass_loop.simps) auto

lemma MatchClass_loop_shape:
  "snd (MatchClass_loop p v fmi i m) = snd (MatchClass_loop p v' fmi i m')"
proof (induction p v fmi i m arbitrary: m' rule: MatchClass_loop.induct)
  case (1 p v fmi i m)
  show ?case
  proof (cases "\<not> (i < length p \<and> \<not> (p ! i = CHR '']'' \<and> i \<noteq> fmi)) \<or>
      ParseClassAtom p fmi i False = None")
    case True
    then show ?thesis by (rule MatchClass_loop_stop)
  next
    case False
    then have i: "i < length p" "\<not> (p ! i = CHR '']'' \<and> i \<noteq> fmi)" by auto
    from False obtain a e i1 where atom: "ParseClassAtom p fmi i False = Some (a, e, i1)"
      by (metis option.exhaust prod_cases3)
    let ?range = "if \<not> e \<and> i1 + 1 < length p \<and> p ! i1 = CHR ''-''
                  then ParseClassAtom p fmi (i1 + 1) True else None"
    show ?thesis
    proof (cases ?range)
      case None
      show ?thesis
        unfolding MatchClass_loop_single [OF i atom None]
        by (rule "1.IH"(1) [OF i atom refl refl None])
    next
      case (Some q)
      obtain b e2 i2 where q: "q = (b, e2, i2)" by (cases q)
      obtain lo hi where lh: "(lo, hi) = (if b < a then (b, a) else (a, b))" by (metis surj_pair)
      note IH = "1.IH"(2) [OF i atom refl refl Some [unfolded q] refl refl refl lh refl]
      show ?thesis
        unfolding MatchClass_loop_range [OF i atom Some [unfolded q] lh]
        using IH by auto
    qed
  qed
qed

lemma MatchClass_index:
  "MatchClass p i v = Some j \<Longrightarrow> MatchClass p i v' = Some j' \<Longrightarrow> j = j'"
  using MatchClass_loop_shape [of p v _ _ False v' False]
  by (auto simp: MatchClass_def Let_def split: if_splits prod.splits) (metis snd_conv)+

lemma MatchOne_index:
  "MatchOne p i v = Some j \<Longrightarrow> MatchOne p i v' = Some j' \<Longrightarrow> j = j'"
  by (auto simp: MatchOne_def Let_def split: if_splits dest: MatchClass_index)

lemma MatchOne_not_star: "MatchOne p i v = Some j \<Longrightarrow> p ! i \<noteq> CHR ''*''"
  by (auto simp: MatchOne_def)

lemma MatchClass_loop_index: "i \<le> snd (snd (MatchClass_loop p v fmi i m))"
proof (induction p v fmi i m rule: MatchClass_loop.induct)
  case (1 p v fmi i m)
  show ?case
  proof (cases "\<not> (i < length p \<and> \<not> (p ! i = CHR '']'' \<and> i \<noteq> fmi)) \<or>
      ParseClassAtom p fmi i False = None")
    case True
    then show ?thesis by (subst MatchClass_loop.simps) auto
  next
    case False
    then have i: "i < length p" "\<not> (p ! i = CHR '']'' \<and> i \<noteq> fmi)" by auto
    from False obtain a e i1 where atom: "ParseClassAtom p fmi i False = Some (a, e, i1)"
      by (metis option.exhaust prod_cases3)
    from ParseClassAtom_greater [OF atom] have "i < i1" .
    let ?range = "if \<not> e \<and> i1 + 1 < length p \<and> p ! i1 = CHR ''-''
                  then ParseClassAtom p fmi (i1 + 1) True else None"
    show ?thesis
    proof (cases ?range)
      case None
      from "1.IH"(1) [OF i atom refl refl None] \<open>i < i1\<close> show ?thesis
        unfolding MatchClass_loop_single [OF i atom None] by simp
    next
      case (Some q)
      obtain b e2 i2 where q: "q = (b, e2, i2)" by (cases q)
      obtain lo hi where lh: "(lo, hi) = (if b < a then (b, a) else (a, b))" by (metis surj_pair)
      from Some q have "i1 < i2" by (auto split: if_splits dest: ParseClassAtom_greater)
      with "1.IH"(2) [OF i atom refl refl Some [unfolded q] refl refl refl lh refl] \<open>i < i1\<close>
      show ?thesis
        unfolding MatchClass_loop_range [OF i atom Some [unfolded q] lh] by (auto split: if_split)
    qed
  qed
qed

lemma MatchClass_greater: "MatchClass p i v = Some j \<Longrightarrow> i \<le> j"
  using MatchClass_loop_index [of i p v i False] MatchClass_loop_index [of "i + 1" p v "i + 1" False]
  by (auto simp: MatchClass_def Let_def split: if_splits prod.splits)

lemma MatchOne_greater: "MatchOne p i v = Some j \<Longrightarrow> i < j"
  by (auto simp: MatchOne_def Let_def split: if_splits dest: MatchClass_greater)

lemma skip_stars_ge: "i \<le> skip_stars p i"
proof (induction p i rule: skip_stars.induct)
  case (1 p i)
  then show ?case by (subst skip_stars.simps) auto
qed

lemma skip_stars_greater: "i < length p \<Longrightarrow> p ! i = CHR ''*'' \<Longrightarrow> i < skip_stars p i"
  using skip_stars_ge [of "i + 1" p] by (subst skip_stars.simps) simp

lemma globs_bound: "globs p v i j \<Longrightarrow> j \<le> length v"
  by (induction rule: globs.induct) auto

lemma globs_star_skip:
  assumes "globs p v i k" and "i' < length p" and "p ! i' = CHR ''*''" and "i = i' + 1" and "j \<le> k"
  shows "globs p v i' j"
  using assms(5)
proof (induction "k - j" arbitrary: j)
  case 0
  with assms show ?case by (auto intro: globs_star_none)
next
  case (Suc n)
  have "j < length v" using globs_bound [OF assms(1)] Suc.hyps(2) by simp
  moreover have "globs p v i' (j + 1)" using Suc by simp
  ultimately show ?case using assms by (auto intro: globs_star_one)
qed

lemma globs_star_iff:
  assumes "i < length p" and "p ! i = CHR ''*''"
  shows "globs p v i j \<longleftrightarrow> (\<exists>k\<ge>j. globs p v (i + 1) k)"
proof
  assume "globs p v i j"
  then show "\<exists>k\<ge>j. globs p v (i + 1) k"
    using assms
  proof (induction rule: globs.induct)
    case (globs_star_one i j)
    then obtain k where "j + 1 \<le> k" "globs p v (i + 1) k" by blast
    then show ?case by (intro exI [of _ k]) simp
  qed (auto dest: MatchOne_not_star)
qed (use assms globs_star_skip in blast)

lemma globs_skip_stars:
  "i < length p \<Longrightarrow> p ! i = CHR ''*'' \<Longrightarrow>
   globs p v i j \<longleftrightarrow> (\<exists>k\<ge>j. globs p v (skip_stars p i) k)"
proof (induction p i arbitrary: j rule: skip_stars.induct)
  case (1 p i)
  show ?case
  proof (cases "i + 1 < length p \<and> p ! (i + 1) = CHR ''*''")
    case True
    then have "\<And>j. globs p v (i + 1) j \<longleftrightarrow> (\<exists>k\<ge>j. globs p v (skip_stars p (i + 1)) k)"
      using "1.IH" "1.prems" by blast
    then show ?thesis
      using "1.prems" by (subst skip_stars.simps) (auto simp: globs_star_iff intro: order_trans)
  next
    case False
    then have "skip_stars p (i + 1) = i + 1" by (subst skip_stars.simps) auto
    then show ?thesis
      using "1.prems" by (subst skip_stars.simps) (simp add: globs_star_iff)
  qed
qed

lemma globs_at_end: "globs p v i (length v) \<longleftrightarrow> skip_stars p i = length p"
proof (induction p i rule: skip_stars.induct)
  case (1 p i)
  show ?case
  proof (cases "i < length p \<and> p ! i = CHR ''*''")
    case True
    have "globs p v i (length v) \<longleftrightarrow> globs p v (i + 1) (length v)"
      using True by (auto simp: globs_star_iff dest: globs_bound le_antisym)
    with True "1.IH" show ?thesis by (subst skip_stars.simps) simp
  next
    case False
    then show ?thesis
      by (subst skip_stars.simps) (auto intro: globs_end elim: globs.cases)
  qed
qed

text \<open>\<open>seg p i j n\<close>: the pattern between \<open>i\<close> and \<open>j\<close> is \<open>n\<close> tokens, none of them a star.\<close>

inductive seg :: "string \<Rightarrow> nat \<Rightarrow> nat \<Rightarrow> nat \<Rightarrow> bool" for p i where
  seg_refl: "seg p i i 0"
| seg_step: "seg p i j n \<Longrightarrow> j < length p \<Longrightarrow> MatchOne p j c = Some k \<Longrightarrow> seg p i k (n + 1)"

lemma seg_le: "seg p i j n \<Longrightarrow> i \<le> j"
  by (induction rule: seg.induct) (auto dest: MatchOne_greater)

lemma globs_one_iff:
  assumes "i < length p" and "p ! i \<noteq> CHR ''*''" and "j < length v"
  shows "globs p v i j \<longleftrightarrow> (\<exists>k. MatchOne p i (of_char (v ! j)) = Some k \<and> globs p v k (j + 1))"
  using assms by (auto elim: globs.cases intro: globs_one)

lemma seg_globs: "seg p i j n \<Longrightarrow> globs p v i a \<Longrightarrow> globs p v j (a + n)"
proof (induction rule: seg.induct)
  case (seg_step j n c k)
  then have g: "globs p v j (a + n)" by simp
  from this seg_step show ?case
    by (cases rule: globs.cases) (auto dest: MatchOne_index MatchOne_not_star)
qed simp

definition star_ok :: "string \<Rightarrow> nat \<Rightarrow> nat \<Rightarrow> nat option \<Rightarrow> nat \<Rightarrow> bool" where
  "star_ok p i j star a \<longleftrightarrow> (\<forall>s. star = Some s \<longrightarrow> a \<le> j \<and> seg p s i (j - a))"

text \<open>
  Trying a later position for the last star only is enough: what a match from an earlier star
  consumes up to the last one is a fixed number of bytes, and the last star absorbs the rest.
\<close>

lemma new_star_absorbs:
  assumes "star_ok p i j (Some s) a" and "i < length p" and "p ! i = CHR ''*''"
    and "a < k" and "globs p v s k"
  shows "\<exists>k\<ge>j. globs p v (skip_stars p i) k"
proof -
  from assms(1) have "seg p s i (j - a)" by (simp add: star_ok_def)
  then have "globs p v i (k + (j - a))" using assms(5) by (rule seg_globs)
  then obtain k' where "k + (j - a) \<le> k'" "globs p v (skip_stars p i) k'"
    using assms globs_skip_stars by blast
  with assms show ?thesis by (auto simp: star_ok_def intro!: exI [of _ k'])
qed

lemma star_exhausted:
  assumes "star_ok p i (length v) (Some s) a" and "a < k"
  shows "\<not> globs p v s k"
proof
  assume "globs p v s k"
  from assms(1) have "seg p s i (length v - a)" by (simp add: star_ok_def)
  then have "globs p v i (k + (length v - a))" using \<open>globs p v s k\<close> by (rule seg_globs)
  then have "k + (length v - a) \<le> length v" by (rule globs_bound)
  with assms show False by (simp add: star_ok_def)
qed

definition star_rank :: "string \<Rightarrow> nat option \<Rightarrow> nat" where
  "star_rank p star = (case star of None \<Rightarrow> length p + 2 | Some s \<Rightarrow> length p + 1 - s)"

lemma star_rank_decreases:
  assumes "star_ok p i j star a" and "i < length p" and "i < i'"
  shows "star_rank p (Some i') < star_rank p star"
proof (cases star)
  case (Some s)
  with assms have "s \<le> i" by (auto simp: star_ok_def dest: seg_le)
  with assms Some show ?thesis by (simp add: star_rank_def)
qed (use assms in \<open>simp add: star_rank_def\<close>)

lemma MatchAt_loop_correct:
  assumes "j \<le> length v" and "star_ok p i j star a"
  shows "MatchAt_loop p v i j star a =
    Some (globs p v i j \<or> (\<exists>s k. star = Some s \<and> a < k \<and> globs p v s k))"
  using assms
proof (induction "(i, j, star, a)" arbitrary: i j star a
    rule: wf_induct_rule [OF wf_measures, of "[\<lambda>(i, j, star, a). star_rank p star,
      \<lambda>(i, j, star, a). length v - a, \<lambda>(i, j, star, a). length v - j]"])
  case (1 i j star a)
  note IH = "1.hyps" and ok = "1.prems"(2)
  let ?one = "if i < length p then MatchOne p i (of_char (v ! j)) else None"
  consider (stop) "j = length v" | (star) "j < length v" "i < length p" "p ! i = CHR ''*''"
    | (one) k where "j < length v" "\<not> (i < length p \<and> p ! i = CHR ''*'')" "?one = Some k"
    | (fail) "j < length v" "\<not> (i < length p \<and> p ! i = CHR ''*'')" "?one = None"
    using "1.prems"(1) by fastforce
  then show ?case
  proof cases
    case stop
    then show ?thesis
      using star_exhausted [of p i v] ok by (subst MatchAt_loop.simps) (auto simp: globs_at_end)
  next
    case star
    let ?i = "skip_stars p i"
    have lt: "star_rank p (Some ?i) < star_rank p star"
      using star_rank_decreases [OF ok] skip_stars_greater star by blast
    have "MatchAt_loop p v ?i j (Some ?i) j =
        Some (globs p v ?i j \<or> (\<exists>s k. Some ?i = Some s \<and> j < k \<and> globs p v s k))"
      by (rule IH) (use lt star in \<open>auto simp: star_ok_def intro: seg_refl\<close>)
    moreover have "(\<exists>k\<ge>j. globs p v ?i k) \<longleftrightarrow> globs p v i j" using globs_skip_stars star by blast
    moreover have "globs p v s k \<Longrightarrow> star = Some s \<Longrightarrow> a < k \<Longrightarrow> globs p v i j" for s k
      using new_star_absorbs [of p i j s a k v] ok star globs_skip_stars by blast
    ultimately show ?thesis
      using star by (subst MatchAt_loop.simps) (auto simp: le_less Let_def)
  next
    case one
    then have i: "i < length p" "p ! i \<noteq> CHR ''*''" "MatchOne p i (of_char (v ! j)) = Some k"
      by (auto split: if_splits)
    have "star_ok p k (j + 1) star a"
      using ok i seg_step [of p _ i _ "of_char (v ! j)" k] by (fastforce simp: star_ok_def Suc_diff_le)
    then have "MatchAt_loop p v k (j + 1) star a =
        Some (globs p v k (j + 1) \<or> (\<exists>s k. star = Some s \<and> a < k \<and> globs p v s k))"
      by (intro IH) (use one in auto)
    with one i show ?thesis
      by (subst MatchAt_loop.simps) (simp add: globs_one_iff)
  next
    case fail
    then have no: "\<not> globs p v i j"
      by (auto simp: globs_one_iff split: if_splits elim: globs.cases)
    show ?thesis
    proof (cases star)
      case None
      with fail no show ?thesis by (subst MatchAt_loop.simps) auto
    next
      case (Some s)
      have "MatchAt_loop p v s (a + 1) (Some s) (a + 1) =
          Some (globs p v s (a + 1) \<or> (\<exists>s' k. Some s = Some s' \<and> a + 1 < k \<and> globs p v s' k))"
        by (rule IH) (use ok fail Some in \<open>auto simp: star_ok_def intro: seg_refl\<close>)
      moreover have "globs p v s (a + 1) \<or> (\<exists>k>a + 1. globs p v s k) \<longleftrightarrow> (\<exists>k>a. globs p v s k)"
        by (metis Suc_eq_plus1 Suc_lessI lessI less_trans)
      ultimately show ?thesis
        using fail no Some by (subst MatchAt_loop.simps) auto
    qed
  qed
qed

section \<open>Properties\<close>

text \<open>(C30) The backtracking loop of the glob matcher returns on every pattern and value, and its
  answer is whether the pattern matches: some way of letting each star cover a run of bytes, with
  every other token matching one byte, consumes the whole value.\<close>

theorem MatchAt_decides_globs: "MatchAt pattern value = Some (globs pattern value 0 0)"
  unfolding MatchAt_def by (subst MatchAt_loop_correct) (auto simp: star_ok_def)

corollary GlobMatch_iff: "GlobMatch pattern value \<longleftrightarrow> globs pattern value 0 0"
  unfolding GlobMatch_def MatchAt_def by (subst MatchAt_loop_correct) (auto simp: star_ok_def)

text \<open>A class whose first range has its ends in descending order is read wrongly when one end is
  a closing bracket, because the test for the closing bracket reads the larger end: the pattern
  \<^verbatim>\<open>[]-0]\<close> does not match the byte \<^verbatim>\<open>5\<close> inside the range but matches \<^verbatim>\<open>5]\<close>, and
  \<^verbatim>\<open>[a-]\<close> matches nothing although \<^verbatim>\<open>[0-]\<close> is a closed class.\<close>

theorem GlobMatch_descending_bracket_range:
  "\<not> GlobMatch ''[]-0]'' ''5'' \<and> GlobMatch ''[]-0]'' ''5]'' \<and>
   \<not> GlobMatch ''[a-]'' ''_'' \<and> GlobMatch ''[0-]'' '':''"
  by (simp add: GlobMatch_def MatchAt_def MatchAt_loop.simps skip_stars.simps MatchOne_def
      MatchClass_def MatchClass_loop.simps ParseClassAtom_def Let_def numeral_eq_Suc)

end
