(* ===== verification/Binlog.thy ===== *)
theory Binlog
  imports Prelude
begin

text \<open>
  The write log of a slot, \<^verbatim>\<open>src/cache/binlog.h\<close> and \<^verbatim>\<open>binlog.cpp\<close>: records with their sequence
  number, replay arguments and times, and the buffer that retains them with a byte count.
\<close>

section \<open>Records\<close>

record BinlogRecord =
  rec_seq :: u64
  rec_args :: "string list"
  rec_written_at_us :: u64
  rec_deadline_us :: u64

definition new_record :: BinlogRecord where
  "new_record = \<lparr>rec_seq = 0, rec_args = [], rec_written_at_us = 0, rec_deadline_us = 0\<rparr>"

text \<open>\<^verbatim>\<open>sizeof(BinlogRecord)\<close> and \<^verbatim>\<open>sizeof(std::string)\<close> on x86-64 with libstdc++: three 64-bit fields
  and a three-word vector; a string object of four words.\<close>

definition sizeof_BinlogRecord :: nat where
  "sizeof_BinlogRecord = 48"

definition sizeof_string :: nat where
  "sizeof_string = 32"

definition EstimateBinlogRecordBytes :: "BinlogRecord \<Rightarrow> nat" where
  "EstimateBinlogRecordBytes r =
     foldl (\<lambda>bytes arg. bytes + (sizeof_string + length arg)) sizeof_BinlogRecord (rec_args r)"

section \<open>The buffer\<close>

record BinlogBuffer =
  log_records :: "BinlogRecord list"
  retained_bytes :: nat

definition BinlogBuffer_new :: BinlogBuffer where
  "BinlogBuffer_new = \<lparr>log_records = [], retained_bytes = 0\<rparr>"

definition BinlogBuffer_Append :: "BinlogBuffer \<Rightarrow> BinlogRecord \<Rightarrow> BinlogBuffer" where
  "BinlogBuffer_Append b r =
     b\<lparr>retained_bytes := retained_bytes b + EstimateBinlogRecordBytes r,
       log_records := log_records b @ [r]\<rparr>"

definition BinlogBuffer_Clear :: "BinlogBuffer \<Rightarrow> BinlogBuffer" where
  "BinlogBuffer_Clear b = b\<lparr>log_records := [], retained_bytes := 0\<rparr>"

text \<open>
  The loop of \<^verbatim>\<open>CopyAfter\<close>. The code's \<^verbatim>\<open>max_bytes - copied_bytes\<close> is unsigned; it is read only when
  a record was copied and the loop went on, so \<^verbatim>\<open>copied_bytes < max_bytes\<close> and it does not wrap.
\<close>

fun CopyAfter_loop ::
  "u64 \<Rightarrow> nat \<Rightarrow> nat \<Rightarrow> BinlogRecord list \<Rightarrow> nat \<Rightarrow> BinlogRecord list \<Rightarrow> BinlogRecord list" where
  "CopyAfter_loop seq limit max_bytes result copied_bytes [] = result"
| "CopyAfter_loop seq limit max_bytes result copied_bytes (r # rs) =
     (if seq < rec_seq r then
        let bytes = EstimateBinlogRecordBytes r
        in if result \<noteq> [] \<and> max_bytes - copied_bytes < bytes then result
           else let result' = result @ [r]; copied_bytes' = copied_bytes + bytes
                in if length result' = limit \<or> max_bytes \<le> copied_bytes' then result'
                   else CopyAfter_loop seq limit max_bytes result' copied_bytes' rs
      else CopyAfter_loop seq limit max_bytes result copied_bytes rs)"

definition BinlogBuffer_CopyAfter ::
  "BinlogBuffer \<Rightarrow> u64 \<Rightarrow> nat \<Rightarrow> nat \<Rightarrow> BinlogRecord list" where
  "BinlogBuffer_CopyAfter b seq limit max_bytes =
     (if limit = 0 then [] else CopyAfter_loop seq limit max_bytes [] 0 (log_records b))"

text \<open>The loop of \<^verbatim>\<open>AckThroughAndCountBytes\<close>: what is left and the bytes removed.\<close>

fun AckThrough_loop :: "u64 \<Rightarrow> nat \<Rightarrow> BinlogRecord list \<Rightarrow> BinlogRecord list \<times> nat" where
  "AckThrough_loop seq removed [] = ([], removed)"
| "AckThrough_loop seq removed (r # rs) =
     (if rec_seq r \<le> seq then AckThrough_loop seq (removed + EstimateBinlogRecordBytes r) rs
      else (r # rs, removed))"

definition BinlogBuffer_AckThroughAndCountBytes :: "BinlogBuffer \<Rightarrow> u64 \<Rightarrow> BinlogBuffer \<times> nat" where
  "BinlogBuffer_AckThroughAndCountBytes b seq =
     (let (rest, removed) = AckThrough_loop seq 0 (log_records b)
      in (b\<lparr>log_records := rest,
            retained_bytes := (if retained_bytes b \<le> removed then 0 else retained_bytes b - removed)\<rparr>,
          removed))"

definition BinlogBuffer_AckThrough :: "BinlogBuffer \<Rightarrow> u64 \<Rightarrow> BinlogBuffer" where
  "BinlogBuffer_AckThrough b seq = fst (BinlogBuffer_AckThroughAndCountBytes b seq)"

definition BinlogBuffer_MinSeq :: "BinlogBuffer \<Rightarrow> u64" where
  "BinlogBuffer_MinSeq b = (if log_records b = [] then 0 else rec_seq (hd (log_records b)))"

definition BinlogBuffer_MaxSeq :: "BinlogBuffer \<Rightarrow> u64" where
  "BinlogBuffer_MaxSeq b = (if log_records b = [] then 0 else rec_seq (last (log_records b)))"

definition BinlogBuffer_RetainedBytes :: "BinlogBuffer \<Rightarrow> nat" where
  "BinlogBuffer_RetainedBytes b = retained_bytes b"

definition BinlogBuffer_Empty :: "BinlogBuffer \<Rightarrow> bool" where
  "BinlogBuffer_Empty b \<longleftrightarrow> log_records b = []"

section \<open>The byte count\<close>

abbreviation log_bytes :: "BinlogRecord list \<Rightarrow> nat" where
  "log_bytes rs \<equiv> sum_list (map EstimateBinlogRecordBytes rs)"

definition bytes_ok :: "BinlogBuffer \<Rightarrow> bool" where
  "bytes_ok b \<longleftrightarrow> retained_bytes b = log_bytes (log_records b)"

lemma EstimateBinlogRecordBytes_pos [simp]: "0 < EstimateBinlogRecordBytes r"
proof -
  have "m \<le> foldl (\<lambda>bytes arg. bytes + (sizeof_string + length arg)) m xs" for m and xs :: "string list"
    by (induction xs arbitrary: m) (auto, metis add_leE)
  from this [of sizeof_BinlogRecord "rec_args r"] show ?thesis
    by (simp add: EstimateBinlogRecordBytes_def sizeof_BinlogRecord_def)
qed

lemma AckThrough_loop_eq:
  "AckThrough_loop seq n rs =
     (dropWhile (\<lambda>r. rec_seq r \<le> seq) rs, n + log_bytes (takeWhile (\<lambda>r. rec_seq r \<le> seq) rs))"
  by (induction rs arbitrary: n) auto

lemma log_bytes_split:
  "log_bytes rs = log_bytes (takeWhile P rs) + log_bytes (dropWhile P rs)"
  by (metis map_append sum_list_append takeWhile_dropWhile_id)

lemma records_AckThrough [simp]:
  "log_records (BinlogBuffer_AckThrough b seq) = dropWhile (\<lambda>r. rec_seq r \<le> seq) (log_records b)"
  by (simp add: BinlogBuffer_AckThrough_def BinlogBuffer_AckThroughAndCountBytes_def AckThrough_loop_eq)

lemma AckThroughAndCountBytes_fst [simp]:
  "fst (BinlogBuffer_AckThroughAndCountBytes b seq) = BinlogBuffer_AckThrough b seq"
  by (simp add: BinlogBuffer_AckThrough_def)

lemma bytes_ok_new [simp]: "bytes_ok BinlogBuffer_new"
  by (simp add: bytes_ok_def BinlogBuffer_new_def)

lemma bytes_ok_Append [simp]: "bytes_ok b \<Longrightarrow> bytes_ok (BinlogBuffer_Append b r)"
  by (simp add: bytes_ok_def BinlogBuffer_Append_def)

lemma bytes_ok_Clear [simp]: "bytes_ok (BinlogBuffer_Clear b)"
  by (simp add: bytes_ok_def BinlogBuffer_Clear_def)

lemma bytes_ok_AckThrough [simp]: "bytes_ok b \<Longrightarrow> bytes_ok (BinlogBuffer_AckThrough b seq)"
  using log_bytes_split [of "log_records b" "\<lambda>r. rec_seq r \<le> seq"]
  by (simp add: bytes_ok_def BinlogBuffer_AckThrough_def BinlogBuffer_AckThroughAndCountBytes_def
      AckThrough_loop_eq)

lemma records_Append [simp]: "log_records (BinlogBuffer_Append b r) = log_records b @ [r]"
  by (simp add: BinlogBuffer_Append_def)

lemma records_Clear [simp]: "log_records (BinlogBuffer_Clear b) = []"
  by (simp add: BinlogBuffer_Clear_def)

lemma records_new [simp]: "log_records BinlogBuffer_new = []"
  by (simp add: BinlogBuffer_new_def)

section \<open>What CopyAfter returns\<close>

text \<open>
  The loop is a greedy choice: with \<open>n\<close> records already copied out of the pending ones \<open>xs\<close>, it ends
  with a longer prefix that respects both limits unless it is a single record.
\<close>

definition greedy_prefix :: "nat \<Rightarrow> nat \<Rightarrow> BinlogRecord list \<Rightarrow> nat \<Rightarrow> bool" where
  "greedy_prefix limit max_bytes xs n \<longleftrightarrow>
     n \<le> limit \<and> n \<le> length xs \<and> (xs \<noteq> [] \<longrightarrow> 0 < n) \<and>
     (1 < n \<longrightarrow> log_bytes (take n xs) \<le> max_bytes) \<and>
     (n < limit \<and> n < length xs \<longrightarrow> max_bytes < log_bytes (take (n + 1) xs))"

lemma log_bytes_take_Suc:
  "n < length xs \<Longrightarrow> log_bytes (take (Suc n) xs) = log_bytes (take n xs) + EstimateBinlogRecordBytes (xs ! n)"
  by (simp add: take_Suc_conv_app_nth)

lemma CopyAfter_loop_greedy:
  assumes "xs = result @ filter (\<lambda>r. seq < rec_seq r) rs"
    and "length result < limit" and "copied = log_bytes result" and "result \<noteq> [] \<longrightarrow> copied < max_bytes"
  shows "\<exists>n. CopyAfter_loop seq limit max_bytes result copied rs = take n xs \<and>
    greedy_prefix limit max_bytes xs n"
  using assms
proof (induction seq limit max_bytes result copied rs rule: CopyAfter_loop.induct)
  case (1 seq limit max_bytes result copied)
  then show ?case
    by (intro exI [of _ "length result"]) (auto simp: greedy_prefix_def)
next
  case (2 seq limit max_bytes result copied r rs)
  let ?b = "EstimateBinlogRecordBytes r"
  show ?case
  proof (cases "seq < rec_seq r")
    case False
    with "2.IH"(2) "2.prems" show ?thesis by simp
  next
    case new: True
    then have xs: "xs = result @ r # filter (\<lambda>r. seq < rec_seq r) rs" using "2.prems"(1) by simp
    have bytes: "log_bytes (take (Suc (length result)) xs) = copied + ?b"
      using "2.prems"(3) xs by simp
    consider (full) "result \<noteq> []" "max_bytes - copied < ?b"
      | (last) "\<not> (result \<noteq> [] \<and> max_bytes - copied < ?b)"
          "Suc (length result) = limit \<or> max_bytes \<le> copied + ?b"
      | (more) "\<not> (result \<noteq> [] \<and> max_bytes - copied < ?b)"
          "\<not> (Suc (length result) = limit \<or> max_bytes \<le> copied + ?b)"
      by blast
    then show ?thesis
    proof cases
      case full
      then show ?thesis
        using "2.prems" new bytes xs
        by (intro exI [of _ "length result"]) (auto simp: greedy_prefix_def)
    next
      case last
      have "max_bytes < log_bytes (take (Suc (Suc (length result))) xs)"
        if "Suc (length result) \<noteq> limit" "Suc (length result) < length xs"
        using last that bytes log_bytes_take_Suc [of "Suc (length result)" xs]
          EstimateBinlogRecordBytes_pos [of "xs ! Suc (length result)"] by linarith
      then show ?thesis
        using "2.prems" new bytes xs last
        by (intro exI [of _ "Suc (length result)"]) (auto simp: greedy_prefix_def Let_def)
    next
      case more
      then show ?thesis
        using "2.prems" new xs "2.IH"(1) [OF new refl more(1) refl refl] by (auto simp: Let_def)
    qed
  qed
qed

section \<open>Properties\<close>

text \<open>A poll of the log for what follows a sequence number returns the pending records in order
  from the first one on, at least one when there is one (so a small budget cannot stall), never
  more than the limit, within the byte budget unless it is a single record, and stops early only
  when the next record would not fit.\<close>

theorem CopyAfter_greedy_prefix:
  assumes "0 < limit"
  shows "\<exists>n. BinlogBuffer_CopyAfter b seq limit max_bytes =
      take n (filter (\<lambda>r. seq < rec_seq r) (log_records b)) \<and>
    greedy_prefix limit max_bytes (filter (\<lambda>r. seq < rec_seq r) (log_records b)) n"
  using CopyAfter_loop_greedy [of _ "[]" seq "log_records b" limit 0 max_bytes] assms
  by (simp add: BinlogBuffer_CopyAfter_def)

theorem CopyAfter_greedy_prefix_witness:
  "\<exists>n. BinlogBuffer_CopyAfter (BinlogBuffer_Append BinlogBuffer_new (new_record\<lparr>rec_seq := 1\<rparr>)) 0 1 10 =
      take n [new_record\<lparr>rec_seq := 1\<rparr>] \<and> greedy_prefix 1 10 [new_record\<lparr>rec_seq := 1\<rparr>] n \<and> 0 < n"
  using CopyAfter_greedy_prefix [of 1 "BinlogBuffer_Append BinlogBuffer_new (new_record\<lparr>rec_seq := 1\<rparr>)" 0 10]
  by (auto simp: greedy_prefix_def)

end
