(* ===== verification/Containers.thy ===== *)
theory Containers
  imports Prelude "HOL-Library.DAList" "HOL-Library.Dlist"
begin

text \<open>
  The persistent containers the code takes from \<^verbatim>\<open>thirdparty/cpp_util/immutable_container\<close>:
  \<^verbatim>\<open>ImtMap\<close> keyed by \<^verbatim>\<open>PackedString\<close> and \<^verbatim>\<open>ImtSet\<close> of \<^verbatim>\<open>PackedString\<close>. Their sources are not part of
  the repository, so the operations the code calls are parameters of the model, collected in the
  records \<open>ImtMap\<close> and \<open>ImtSet\<close> over an abstract type of containers, and what the code relies on is
  stated as the laws of the locales \<open>imt_map\<close> and \<open>imt_set\<close>. A \<^verbatim>\<open>PackedString\<close> is an immutable byte
  string, and stands here for its bytes.
\<close>

section \<open>Operations\<close>

record ('m, 'v) ImtMap =
  Map_empty :: 'm
  Map_Find :: "'m \<Rightarrow> string \<Rightarrow> 'v option"
  Map_Set :: "'m \<Rightarrow> string \<Rightarrow> 'v \<Rightarrow> 'm"
  Map_Erase :: "'m \<Rightarrow> string \<Rightarrow> 'm option"
  Map_ForEach :: "'m \<Rightarrow> (string \<times> 'v) list"
  Map_Size :: "'m \<Rightarrow> nat"
  Map_Empty :: "'m \<Rightarrow> bool"

record 's ImtSet =
  Set_empty :: 's
  Set_Contains :: "'s \<Rightarrow> string \<Rightarrow> bool"
  Set_Add :: "'s \<Rightarrow> string \<Rightarrow> 's"
  Set_Erase :: "'s \<Rightarrow> string \<Rightarrow> 's option"
  Set_ToVector :: "'s \<Rightarrow> string list"
  Set_ForEach :: "'s \<Rightarrow> string list"
  Set_Size :: "'s \<Rightarrow> nat"
  Set_Empty :: "'s \<Rightarrow> bool"

section \<open>What the code relies on\<close>

text \<open>
  \<open>Find\<close> after each constructor; \<open>Erase\<close> is \<^verbatim>\<open>nullopt\<close> exactly on an absent key; \<open>ForEach\<close> visits
  every entry once (no order is assumed); \<open>Size\<close> and \<open>Empty\<close> count what \<open>ForEach\<close> visits.
\<close>

locale imt_map =
  fixes M :: "('m, 'v) ImtMap"
  assumes find_empty: "Map_Find M (Map_empty M) k = None"
    and find_set: "Map_Find M (Map_Set M m k v) k' = (if k' = k then Some v else Map_Find M m k')"
    and erase_None: "Map_Erase M m k = None \<longleftrightarrow> Map_Find M m k = None"
    and erase_Some: "Map_Erase M m k = Some m' \<Longrightarrow>
      Map_Find M m' k' = (if k' = k then None else Map_Find M m k')"
    and foreach_find: "map_of (Map_ForEach M m) k = Map_Find M m k"
    and foreach_distinct: "distinct (map fst (Map_ForEach M m))"
    and size_foreach: "Map_Size M m = length (Map_ForEach M m)"
    and empty_foreach: "Map_Empty M m \<longleftrightarrow> Map_ForEach M m = []"
begin

lemmas find_simps = find_empty find_set erase_None

lemma find_erase: "Map_Find M m k = Some v \<Longrightarrow>
    \<exists>m'. Map_Erase M m k = Some m' \<and> Map_Find M m' = (Map_Find M m)(k := None)"
  using erase_None [of m k] by (cases "Map_Erase M m k") (auto simp: erase_Some fun_eq_iff)

lemma mem_foreach: "(k, v) \<in> set (Map_ForEach M m) \<longleftrightarrow> Map_Find M m k = Some v"
  by (metis foreach_distinct foreach_find map_of_eq_Some_iff)

lemma empty_iff: "Map_Empty M m \<longleftrightarrow> (\<forall>k. Map_Find M m k = None)"
proof -
  have "Map_ForEach M m = [] \<longleftrightarrow> (\<forall>k. map_of (Map_ForEach M m) k = None)"
    by (metis empty_eq_map_of_iff ext)
  then show ?thesis by (simp add: empty_foreach foreach_find)
qed

lemma size_card: "Map_Size M m = card (dom (Map_Find M m))"
proof -
  have "Map_Find M m = map_of (Map_ForEach M m)" by (simp add: fun_eq_iff foreach_find)
  then have "dom (Map_Find M m) = fst ` set (Map_ForEach M m)" by (simp add: dom_map_of_conv_image_fst)
  then show ?thesis
    using distinct_card [OF foreach_distinct, of m] by (simp add: size_foreach)
qed

end

locale imt_set =
  fixes S :: "'s ImtSet"
  assumes contains_empty: "\<not> Set_Contains S (Set_empty S) x"
    and contains_add: "Set_Contains S (Set_Add S s x) y \<longleftrightarrow> y = x \<or> Set_Contains S s y"
    and set_erase_None: "Set_Erase S s x = None \<longleftrightarrow> \<not> Set_Contains S s x"
    and set_erase_Some: "Set_Erase S s x = Some s' \<Longrightarrow>
      Set_Contains S s' y \<longleftrightarrow> y \<noteq> x \<and> Set_Contains S s y"
    and to_vector: "x \<in> set (Set_ToVector S s) \<longleftrightarrow> Set_Contains S s x"
    and to_vector_distinct: "distinct (Set_ToVector S s)"
    and set_foreach: "x \<in> set (Set_ForEach S s) \<longleftrightarrow> Set_Contains S s x"
    and set_foreach_distinct: "distinct (Set_ForEach S s)"
    and set_size: "Set_Size S s = length (Set_ToVector S s)"
    and set_empty: "Set_Empty S s \<longleftrightarrow> Set_ToVector S s = []"
begin

abbreviation elems :: "'s \<Rightarrow> string set" where
  "elems s \<equiv> {x. Set_Contains S s x}"

lemma set_to_vector: "set (Set_ToVector S s) = elems s"
  by (auto simp: to_vector)

lemma set_empty_iff: "Set_Empty S s \<longleftrightarrow> elems s = {}"
  using set_to_vector [of s] by (auto simp: set_empty)

lemma set_size_card: "Set_Size S s = card (elems s)"
  using distinct_card [OF to_vector_distinct, of s] by (simp add: set_size set_to_vector)

lemma set_find_erase: "Set_Contains S s x \<Longrightarrow>
    \<exists>s'. Set_Erase S s x = Some s' \<and> elems s' = elems s - {x}"
  using set_erase_None [of s x] by (cases "Set_Erase S s x") (auto simp: set_erase_Some)

end

section \<open>A reference implementation of the laws\<close>

text \<open>
  Association lists with distinct keys and lists without duplicates satisfy all the laws, so the
  theorems that assume them are about something.
\<close>

definition ref_map :: "((string, 'v) alist, 'v) ImtMap" where
  "ref_map = \<lparr>Map_empty = DAList.empty, Map_Find = DAList.lookup,
     Map_Set = (\<lambda>m k v. DAList.update k v m),
     Map_Erase = (\<lambda>m k. if DAList.lookup m k = None then None else Some (DAList.delete k m)),
     Map_ForEach = DAList.impl_of, Map_Size = (\<lambda>m. length (DAList.impl_of m)),
     Map_Empty = (\<lambda>m. DAList.impl_of m = [])\<rparr>"

definition ref_set :: "string dlist ImtSet" where
  "ref_set = \<lparr>Set_empty = Dlist.empty, Set_Contains = Dlist.member,
     Set_Add = (\<lambda>s x. Dlist.insert x s),
     Set_Erase = (\<lambda>s x. if Dlist.member s x then Some (Dlist.remove x s) else None),
     Set_ToVector = list_of_dlist, Set_ForEach = list_of_dlist, Set_Size = Dlist.length, Set_Empty = Dlist.null\<rparr>"

interpretation ref_map: imt_map ref_map
proof
  fix m :: "(string, 'v) alist" and k
  show "map_of (Map_ForEach ref_map m) k = Map_Find ref_map m k"
    by (simp add: ref_map_def DAList.lookup_def)
  show "distinct (map fst (Map_ForEach ref_map m))"
    using DAList.impl_of [of m] by (simp add: ref_map_def)
qed (auto simp: ref_map_def split: if_splits)

interpretation ref_set: imt_set ref_set
  by unfold_locales
     (auto simp: ref_set_def Dlist.member_def Dlist.length_def Dlist.null_def List.member_iff
       split: if_splits)

end
