(* ===== verification/Double.thy ===== *)
theory Double
  imports Prelude
begin

text \<open>
  \<^verbatim>\<open>double\<close> as the 64 bits of an IEEE 754 binary64 number, and the operations on it the code uses:
  comparison, addition, \<^verbatim>\<open>std::isfinite\<close>, \<^verbatim>\<open>std::strtod\<close> in the C locale and printing through a stream
  with \<^verbatim>\<open>setprecision(17)\<close>. A finite double is an integer multiple of \<open>2 ^ -1074\<close>; all arithmetic here
  is exact on integers and rounds once, to nearest with ties to even, as the hardware and glibc do.
\<close>

section \<open>Representation\<close>

datatype double = Double (bits: u64)

definition exponent_field :: "double \<Rightarrow> nat" where
  "exponent_field d = (unat (bits d) div 2 ^ 52) mod 2048"

definition fraction_field :: "double \<Rightarrow> nat" where
  "fraction_field d = unat (bits d) mod 2 ^ 52"

definition is_negative :: "double \<Rightarrow> bool" where
  "is_negative d \<longleftrightarrow> 2 ^ 63 \<le> unat (bits d)"

definition isfinite :: "double \<Rightarrow> bool" where
  "isfinite d \<longleftrightarrow> exponent_field d \<noteq> 2047"

definition isnan :: "double \<Rightarrow> bool" where
  "isnan d \<longleftrightarrow> exponent_field d = 2047 \<and> fraction_field d \<noteq> 0"

text \<open>The magnitude in units of \<open>2 ^ -1074\<close>; for an infinity a value above every finite one.\<close>

definition magnitude :: "double \<Rightarrow> nat" where
  "magnitude d =
     (if exponent_field d = 0 then fraction_field d
      else (2 ^ 52 + fraction_field d) * 2 ^ (exponent_field d - 1))"

definition signed_magnitude :: "double \<Rightarrow> int" where
  "signed_magnitude d = (if is_negative d then - int (magnitude d) else int (magnitude d))"

definition make_double :: "bool \<Rightarrow> nat \<Rightarrow> double" where
  "make_double neg b = Double (of_nat (if neg then 2 ^ 63 + b else b))"

definition zero_double :: double where
  "zero_double = make_double False 0"

definition infinity_bits :: nat where
  "infinity_bits = 2047 * 2 ^ 52"

definition infinity_double :: "bool \<Rightarrow> double" where
  "infinity_double neg = make_double neg infinity_bits"

definition nan_double :: double where
  "nan_double = make_double False (infinity_bits + 2 ^ 51)"

section \<open>Comparison\<close>

definition dless :: "double \<Rightarrow> double \<Rightarrow> bool" where
  "dless a b \<longleftrightarrow> \<not> isnan a \<and> \<not> isnan b \<and> signed_magnitude a < signed_magnitude b"

definition deq :: "double \<Rightarrow> double \<Rightarrow> bool" where
  "deq a b \<longleftrightarrow> \<not> isnan a \<and> \<not> isnan b \<and> signed_magnitude a = signed_magnitude b"

definition dle :: "double \<Rightarrow> double \<Rightarrow> bool" where
  "dle a b \<longleftrightarrow> dless a b \<or> deq a b"

section \<open>Rounding\<close>

fun bit_len :: "nat \<Rightarrow> nat" where
  "bit_len n = (if n = 0 then 0 else Suc (bit_len (n div 2)))"

declare bit_len.simps [simp del]

text \<open>\<open>round_div num den\<close> is the quotient rounded to nearest, ties to even.\<close>

definition round_div :: "nat \<Rightarrow> nat \<Rightarrow> nat" where
  "round_div num den =
     (let q = num div den; r = num mod den
      in if den < 2 * r \<or> (2 * r = den \<and> odd q) then q + 1 else q)"

text \<open>
  The double nearest to \<open>num / den\<close> units. With \<open>k\<close> the number of bits to drop, the rounded
  significand plus \<open>k * 2 ^ 52\<close> is the bit pattern, carries into the exponent included; from the
  pattern of infinity on the number overflows.
\<close>

definition round_units :: "bool \<Rightarrow> nat \<Rightarrow> nat \<Rightarrow> double" where
  "round_units neg num den =
     (let k = bit_len (num div den) - 53;
          b = k * 2 ^ 52 + round_div num (den * 2 ^ k)
      in if infinity_bits \<le> b then infinity_double neg else make_double neg b)"

text \<open>The operator \<^verbatim>\<open>+\<close>: exact sum, one rounding; a zero sum is negative only for two negative zeros.\<close>

definition dadd :: "double \<Rightarrow> double \<Rightarrow> double" where
  "dadd a b =
     (if isnan a \<or> isnan b then nan_double
      else if \<not> isfinite a then
        (if \<not> isfinite b \<and> is_negative a \<noteq> is_negative b then nan_double else a)
      else if \<not> isfinite b then b
      else let s = signed_magnitude a + signed_magnitude b
           in if s = 0 then make_double (is_negative a \<and> is_negative b) 0
              else round_units (s < 0) (nat \<bar>s\<bar>) 1)"

section \<open>Reading: std::strtod\<close>

definition is_hex :: "char \<Rightarrow> bool" where
  "is_hex c \<longleftrightarrow> (let n = (of_char c :: nat) in (48 \<le> n \<and> n \<le> 57) \<or> (65 \<le> n \<and> n \<le> 70) \<or> (97 \<le> n \<and> n \<le> 102))"

definition hex_val :: "char \<Rightarrow> nat" where
  "hex_val c = (let n = (of_char c :: nat) in if n \<le> 57 then n - 48 else if n \<le> 70 then n - 55 else n - 87)"

definition hex_digits_val :: "string \<Rightarrow> nat" where
  "hex_digits_val ds = foldl (\<lambda>v c. 16 * v + hex_val c) 0 ds"

text \<open>The digits before and after a decimal point and the rest; \<open>None\<close> without any digit.\<close>

definition read_mantissa :: "(char \<Rightarrow> bool) \<Rightarrow> string \<Rightarrow> (string \<times> string \<times> string) option" where
  "read_mantissa digit s =
     (let i = takeWhile digit s; t = dropWhile digit s
      in if t \<noteq> [] \<and> hd t = CHR ''.'' then
           (let f = takeWhile digit (tl t)
            in if i = [] \<and> f = [] then None else Some (i, f, dropWhile digit (tl t)))
         else if i = [] then None else Some (i, [], t))"

text \<open>An optional exponent introduced by one of \<open>marks\<close>: consumed only when it has a digit.\<close>

definition read_exponent :: "string \<Rightarrow> string \<Rightarrow> int \<times> string" where
  "read_exponent marks s =
     (if s \<noteq> [] \<and> hd s \<in> set marks then
        (let t = tl s;
             neg = (t \<noteq> [] \<and> hd t = CHR ''-'');
             u = (if t \<noteq> [] \<and> (hd t = CHR ''-'' \<or> hd t = CHR ''+'') then tl t else t);
             ds = takeWhile is_digit u
         in if ds = [] then (0, s)
            else (if neg then - int (digits_val ds) else int (digits_val ds), dropWhile is_digit u))
      else (0, s))"

text \<open>
  The value of \<open>m * base ^ e\<close> in units, and whether \<^verbatim>\<open>errno\<close> becomes \<^verbatim>\<open>ERANGE\<close>: on overflow, and on an
  inexact result that is below the normal range after rounding to 53 bits.
\<close>

definition scale_to_double :: "bool \<Rightarrow> nat \<Rightarrow> nat \<Rightarrow> int \<Rightarrow> double \<times> bool" where
  "scale_to_double neg m base e =
     (let num = m * 2 ^ 1074 * base ^ nat e; den = base ^ nat (- e);
          d = round_units neg num den;
          inexact = (magnitude d * den \<noteq> num)
      in (d, \<not> isfinite d \<or> (inexact \<and> 4 * num < (2 ^ 54 - 1) * den)))"

definition lower :: "char \<Rightarrow> char" where
  "lower c = (if 65 \<le> (of_char c :: nat) \<and> (of_char c :: nat) \<le> 90 then char_of ((of_char c :: nat) + 32) else c)"

definition starts_ci :: "string \<Rightarrow> string \<Rightarrow> bool" where
  "starts_ci word s \<longleftrightarrow> map lower (take (length word) s) = word"

text \<open>
  \<^verbatim>\<open>strtod(s, &end)\<close>: the value, whether \<^verbatim>\<open>errno\<close> is \<^verbatim>\<open>ERANGE\<close>, and the text from \<^verbatim>\<open>end\<close> on, which is
  \<open>s\<close> itself when there is no number. Decimal and hexadecimal numbers, infinities and NaN.
\<close>

definition strtod :: "string \<Rightarrow> double \<times> bool \<times> string" where
  "strtod s =
     (let t = dropWhile isspace s;
          neg = (t \<noteq> [] \<and> hd t = CHR ''-'');
          u = (if t \<noteq> [] \<and> (hd t = CHR ''-'' \<or> hd t = CHR ''+'') then tl t else t);
          hex = (if starts_ci ''0x'' u then read_mantissa is_hex (drop 2 u) else None)
      in if starts_ci ''infinity'' u then (infinity_double neg, False, drop 8 u)
         else if starts_ci ''inf'' u then (infinity_double neg, False, drop 3 u)
         else if starts_ci ''nan'' u then (nan_double, False, drop 3 u)
         else (case hex of
                 Some (i, f, rest) \<Rightarrow>
                   (let (e, rest') = read_exponent ''pP'' rest;
                        (d, erange) = scale_to_double neg (hex_digits_val (i @ f)) 2 (e - 4 * int (length f))
                    in (d, erange, rest'))
               | None \<Rightarrow>
                   (case read_mantissa is_digit u of
                      None \<Rightarrow> (zero_double, False, s)
                    | Some (i, f, rest) \<Rightarrow>
                        (let (e, rest') = read_exponent ''eE'' rest;
                             (d, erange) = scale_to_double neg (digits_val (i @ f)) 10 (e - int (length f))
                         in (d, erange, rest')))))"

text \<open>\<^verbatim>\<open>ParseFiniteDouble\<close> of \<^verbatim>\<open>parse_utils.cpp\<close>.\<close>

definition ParseFiniteDouble :: "string \<Rightarrow> double option" where
  "ParseFiniteDouble text =
     (if text = [] then None
      else let str = c_str text; (value, erange, end) = strtod str
           in if erange \<or> end = str \<or> end \<noteq> [] \<or> \<not> isfinite value then None else Some value)"

section \<open>Printing: a stream with precision 17\<close>

definition strip_zeros :: "string \<Rightarrow> string" where
  "strip_zeros s = rev (dropWhile (\<lambda>c. c = CHR ''0'') (rev s))"

definition with_point :: "string \<Rightarrow> string \<Rightarrow> string" where
  "with_point i f = (let f' = strip_zeros f in if f' = [] then i else i @ CHR ''.'' # f')"

text \<open>
  The 17 significant digits of a positive number of units as an integer, and the decimal exponent of
  the first one. \<open>10 ^ 400\<close> scales the smallest double above 1, so the length of the scaled integer
  part gives the exponent.
\<close>

definition significant_digits :: "nat \<Rightarrow> nat \<times> int" where
  "significant_digits m =
     (let x = int (length (show_nat (m * 10 ^ 400 div 2 ^ 1074))) - 401;
          s = round_div (m * 10 ^ nat (16 - x)) (2 ^ 1074 * 10 ^ nat (x - 16))
      in if s = 10 ^ 17 then (10 ^ 16, x + 1) else (s, x))"

definition print_exponent :: "int \<Rightarrow> string" where
  "print_exponent x =
     (let ds = show_nat (nat \<bar>x\<bar>)
      in [CHR ''e'', if x < 0 then CHR ''-'' else CHR ''+''] @ (if length ds < 2 then CHR ''0'' # ds else ds))"

text \<open>The conversion \<^verbatim>\<open>%.17g\<close> that the stream uses.\<close>

definition print17 :: "double \<Rightarrow> string" where
  "print17 d =
     (let sign = (if is_negative d then ''-'' else [])
      in if isnan d then sign @ ''nan''
         else if \<not> isfinite d then sign @ ''inf''
         else if magnitude d = 0 then sign @ ''0''
         else let (s, x) = significant_digits (magnitude d); ds = show_nat s
              in if x < -4 \<or> 17 \<le> x then
                   sign @ with_point (take 1 ds) (drop 1 ds) @ print_exponent x
                 else if 0 \<le> x then sign @ with_point (take (nat x + 1) ds) (drop (nat x + 1) ds)
                 else sign @ with_point ''0'' (replicate (nat (- x) - 1) CHR ''0'' @ ds))"

section \<open>Facts\<close>

lemma dless_irrefl [simp]: "\<not> dless a a"
  by (simp add: dless_def)

lemma dless_trans: "dless a b \<Longrightarrow> dless b c \<Longrightarrow> dless a c"
  by (auto simp: dless_def)

lemma dless_linear: "\<not> isnan a \<Longrightarrow> \<not> isnan b \<Longrightarrow> dless a b \<or> deq a b \<or> dless b a"
  by (auto simp: dless_def deq_def)

lemma deq_refl [simp]: "deq a a \<longleftrightarrow> \<not> isnan a"
  by (simp add: deq_def)

lemma deq_sym: "deq a b \<longleftrightarrow> deq b a"
  by (auto simp: deq_def)

lemma isfinite_not_isnan: "isfinite d \<Longrightarrow> \<not> isnan d"
  by (simp add: isfinite_def isnan_def)

lemma ParseFiniteDouble_isfinite: "ParseFiniteDouble s = Some d \<Longrightarrow> isfinite d"
  by (auto simp: ParseFiniteDouble_def Let_def split: if_splits prod.splits)

section \<open>Integers as doubles\<close>

lemma bit_len_0 [simp]: "bit_len 0 = 0"
  by (simp add: bit_len.simps)

lemma bit_len_bounds: "0 < n \<Longrightarrow> 2 ^ (bit_len n - 1) \<le> n \<and> n < 2 ^ bit_len n"
proof (induction n rule: bit_len.induct)
  case (1 n)
  show ?case
  proof (cases "n div 2 = 0")
    case True
    then have "n = 1" using 1 by linarith
    then show ?thesis by (simp add: bit_len.simps [of "Suc 0"])
  next
    case False
    then have IH: "2 ^ (bit_len (n div 2) - 1) \<le> n div 2" "n div 2 < 2 ^ bit_len (n div 2)" using 1 by auto
    have "bit_len (n div 2) \<noteq> 0" using IH(2) False by (intro notI) simp
    then obtain j where j: "bit_len (n div 2) = Suc j" by (cases "bit_len (n div 2)") auto
    have "bit_len n = Suc (Suc j)" using 1 j by (simp add: bit_len.simps [of n])
    with IH j show ?thesis by auto
  qed
qed

lemma bit_len_unique: "2 ^ j \<le> n \<Longrightarrow> n < 2 ^ Suc j \<Longrightarrow> bit_len n = Suc j"
proof -
  assume a: "2 ^ j \<le> n" "n < 2 ^ Suc j"
  then have pos: "0 < n" by (metis gr0I le_zero_eq power_not_zero zero_neq_numeral)
  from bit_len_bounds [OF this] have b: "2 ^ (bit_len n - 1) \<le> n" "n < 2 ^ bit_len n" by auto
  have "j < bit_len n" using a(1) b(2) power_less_imp_less_exp [of "2::nat" j "bit_len n"] by linarith
  moreover have "bit_len n - 1 < Suc j" using a(2) b(1) power_less_imp_less_exp [of "2::nat" "bit_len n - 1" "Suc j"] by linarith
  ultimately show ?thesis by linarith
qed

lemma bit_len_shift:
  assumes "0 < n"
  shows "bit_len (n * 2 ^ k) = bit_len n + k"
proof -
  from bit_len_bounds [OF assms] have b: "2 ^ (bit_len n - 1) \<le> n" "n < 2 ^ bit_len n" by auto
  have "0 < bit_len n" using b(2) assms by (cases "bit_len n") auto
  then obtain j where j: "bit_len n = Suc j" by (cases "bit_len n") auto
  have "bit_len (n * 2 ^ k) = Suc (j + k)"
  proof (rule bit_len_unique)
    show "2 ^ (j + k) \<le> n * 2 ^ k" using b(1) j by (simp add: power_add)
    show "n * 2 ^ k < 2 ^ Suc (j + k)" using b(2) j by (simp add: power_add)
  qed
  with j show ?thesis by simp
qed

lemma round_div_exact: "0 < d \<Longrightarrow> round_div (q * d) d = q"
  by (simp add: round_div_def)

definition int_bits :: "nat \<Rightarrow> nat" where
  "int_bits n = (if n = 0 then 0 else (bit_len n + 1021) * 2 ^ 52 + n * 2 ^ (53 - bit_len n))"

lemma bit_len_le: "n < 2 ^ j \<Longrightarrow> bit_len n \<le> j"
proof (cases "n = 0")
  case False
  assume "n < 2 ^ j"
  moreover have "2 ^ (bit_len n - 1) \<le> n" using bit_len_bounds [of n] False by simp
  ultimately have "(2::nat) ^ (bit_len n - 1) < 2 ^ j" by linarith
  then have "bit_len n - 1 < j" using power_less_imp_less_exp [of "2::nat" "bit_len n - 1" j] by simp
  then show ?thesis by simp
qed simp

lemma significand_range:
  assumes "0 < n" and "n < 2 ^ 53"
  shows "2 ^ 52 \<le> n * 2 ^ (53 - bit_len n)" "n * 2 ^ (53 - bit_len n) < 2 ^ 53"
proof -
  have "bit_len n \<le> 53" using bit_len_le [OF assms(2)] .
  moreover have "0 < bit_len n" using bit_len_bounds [OF assms(1)] assms(1) by (cases "bit_len n") auto
  ultimately obtain j where j: "bit_len n = Suc j" "j \<le> 52" by (cases "bit_len n") auto
  have e: "(2::nat) ^ 52 = 2 ^ j * 2 ^ (52 - j)" "(2::nat) ^ 53 = 2 ^ Suc j * 2 ^ (52 - j)"
    using j(2) by (simp_all add: power_add [symmetric] del: power_Suc)
  have d: "53 - bit_len n = 52 - j" using j by simp
  from bit_len_bounds [OF assms(1)] j have "2 ^ j \<le> n" "n < 2 ^ Suc j" by auto
  then show "2 ^ 52 \<le> n * 2 ^ (53 - bit_len n)" "n * 2 ^ (53 - bit_len n) < 2 ^ 53"
    unfolding d e by (simp_all del: power_Suc)
qed

lemma int_bits_less: "n < 2 ^ 53 \<Longrightarrow> int_bits n < infinity_bits"
  using significand_range [of n] bit_len_le [of n 53]
  by (auto simp: int_bits_def infinity_bits_def)

lemma round_units_int:
  assumes "n < 2 ^ 53"
  shows "round_units neg (n * 2 ^ 1074) 1 = make_double neg (int_bits n)"
proof (cases "n = 0")
  case True
  then show ?thesis by (simp add: round_units_def round_div_def int_bits_def infinity_bits_def)
next
  case False
  let ?k = "bit_len n + 1021"
  have bl: "bit_len n \<le> 53" using bit_len_le [OF assms] .
  have k: "bit_len (n * 2 ^ 1074 div 1) - 53 = ?k" using False bit_len_shift [of n 1074] unfolding div_by_1 by linarith
  have "n * 2 ^ 1074 = n * 2 ^ (53 - bit_len n) * 2 ^ ?k"
    using bl by (simp add: power_add [symmetric] mult.assoc del: power_Suc)
  then have "round_div (n * 2 ^ 1074) (1 * 2 ^ ?k) = n * 2 ^ (53 - bit_len n)"
    using round_div_exact [of "2 ^ ?k" "n * 2 ^ (53 - bit_len n)"] by (simp only: mult_1 zero_less_power zero_less_numeral)
  with k int_bits_less [OF assms] False show ?thesis
    unfolding round_units_def Let_def k by (simp add: int_bits_def)
qed

lemma make_double_fields:
  assumes "b < 2 ^ 63"
  shows "unat (bits (make_double neg b)) = (if neg then 2 ^ 63 + b else b)"
    "is_negative (make_double neg b) = neg"
    "exponent_field (make_double neg b) = b div 2 ^ 52" "fraction_field (make_double neg b) = b mod 2 ^ 52"
proof -
  show u: "unat (bits (make_double neg b)) = (if neg then 2 ^ 63 + b else b)"
    using assms by (simp add: make_double_def unat_of_nat)
  show "is_negative (make_double neg b) = neg" using assms by (simp add: is_negative_def u)
  have "(2 ^ 63 + b) div 2 ^ 52 = 2048 + b div 2 ^ 52" "b div 2 ^ 52 < 2048" using assms by simp_all
  then show "exponent_field (make_double neg b) = b div 2 ^ 52" by (simp add: exponent_field_def u)
  have "(2 ^ 63 + b) mod 2 ^ 52 = b mod 2 ^ 52"
    using mod_mult_self1 [of b 2048 "2 ^ 52"] by (simp add: add.commute)
  then show "fraction_field (make_double neg b) = b mod 2 ^ 52" by (simp add: fraction_field_def u)
qed

definition int_double :: "int \<Rightarrow> double" where
  "int_double n = make_double (n < 0) (int_bits (nat \<bar>n\<bar>))"

lemma int_bits_fields:
  assumes "0 < n" and "n < 2 ^ 53"
  shows "int_bits n div 2 ^ 52 = bit_len n + 1022" "int_bits n mod 2 ^ 52 = n * 2 ^ (53 - bit_len n) - 2 ^ 52"
proof -
  obtain f where f: "n * 2 ^ (53 - bit_len n) = 2 ^ 52 + f" "f < 2 ^ 52"
    using significand_range [OF assms] by (metis add_less_imp_less_left le_Suc_ex mult_2 power_Suc numeral_eq_Suc pred_numeral_simps(3))
  have "int_bits n = (bit_len n + 1022) * 2 ^ 52 + f" using assms f(1) by (simp add: int_bits_def)
  then show "int_bits n div 2 ^ 52 = bit_len n + 1022" "int_bits n mod 2 ^ 52 = n * 2 ^ (53 - bit_len n) - 2 ^ 52"
    using f div_mult_self3 [of "2 ^ 52" "bit_len n + 1022" f] mod_mult_self3 [of "bit_len n + 1022" "2 ^ 52" f]
    by (simp_all only: div_less mod_less)
qed

lemma magnitude_int:
  assumes "n < 2 ^ 53"
  shows "magnitude (make_double neg (int_bits n)) = n * 2 ^ 1074"
    "isfinite (make_double neg (int_bits n))" "is_negative (make_double neg (int_bits n)) = neg"
proof -
  have lt: "int_bits n < 2 ^ 63" using int_bits_less [OF assms] by (simp add: infinity_bits_def)
  note fields = make_double_fields [OF lt, of neg]
  show "is_negative (make_double neg (int_bits n)) = neg" by (rule fields(2))
  have bl: "bit_len n \<le> 53" using bit_len_le [OF assms] .
  show "isfinite (make_double neg (int_bits n))"
  proof (cases "n = 0")
    case True
    then show ?thesis unfolding isfinite_def fields by (simp add: int_bits_def)
  next
    case False
    then show ?thesis using int_bits_fields [of n] assms bl by (simp add: isfinite_def fields)
  qed
  show "magnitude (make_double neg (int_bits n)) = n * 2 ^ 1074"
  proof (cases "n = 0")
    case True
    then show ?thesis unfolding magnitude_def fields by (simp add: int_bits_def)
  next
    case False
    have "n * 2 ^ 1074 = n * 2 ^ (53 - bit_len n) * 2 ^ (bit_len n + 1021)"
      using bl by (simp add: power_add [symmetric] mult.assoc del: power_Suc)
    moreover have "2 ^ 52 + (n * 2 ^ (53 - bit_len n) - 2 ^ 52) = n * 2 ^ (53 - bit_len n)"
      using significand_range [of n] False assms by simp
    ultimately show ?thesis
      using int_bits_fields [of n] False assms unfolding magnitude_def fields by (simp add: add.commute)
  qed
qed

lemma lower_digit: "is_digit c \<Longrightarrow> lower c = c"
  by (auto simp: is_digit_def lower_def)

lemma starts_ci_digits: "list_all is_digit s \<Longrightarrow> \<not> list_all is_digit w \<Longrightarrow> \<not> starts_ci w s"
proof
  assume a: "list_all is_digit s" "\<not> list_all is_digit w" "starts_ci w s"
  have "map lower (take (length w) s) = take (length w) s"
    using a(1) by (intro map_idI) (auto simp: list_all_iff lower_digit dest: in_set_takeD)
  with a(3) have "w = take (length w) s" by (simp add: starts_ci_def)
  with a(1,2) show False by (metis in_set_takeD list_all_iff)
qed

lemma hd_dropWhile_show: "\<not> isspace (hd (show_nat m))"
  using hd_show_nat_digit [of m] digit_not_space by blast

lemma strtod_show_nat:
  assumes "m < 2 ^ 53"
  shows "strtod (show_nat m) = (make_double False (int_bits m), False, [])"
    and "strtod (CHR ''-'' # show_nat m) = (make_double True (int_bits m), False, [])"
proof -
  have nd: "\<not> list_all is_digit ''infinity''" "\<not> list_all is_digit ''inf''" "\<not> list_all is_digit ''nan''"
    "\<not> list_all is_digit ''0x''" by (simp_all add: is_digit_def)
  note no = starts_ci_digits [OF list_all_show_nat nd(1)] starts_ci_digits [OF list_all_show_nat nd(2)]
    starts_ci_digits [OF list_all_show_nat nd(3)] starts_ci_digits [OF list_all_show_nat nd(4)]
  have mant: "read_mantissa is_digit (show_nat m) = Some (show_nat m, [], [])"
    by (simp add: read_mantissa_def)
  have scale: "scale_to_double neg m 10 0 = (make_double neg (int_bits m), False)" for neg
    using round_units_int [OF assms, of neg] magnitude_int [OF assms, of neg]
    by (simp add: scale_to_double_def Let_def del: power_numeral)
  have hd: "hd (show_nat m) \<noteq> CHR ''-''" "hd (show_nat m) \<noteq> CHR ''+''"
    using hd_show_nat_digit [of m] sign_not_digit by metis+
  show "strtod (show_nat m) = (make_double False (int_bits m), False, [])"
    using hd no mant scale [of False] by (simp add: strtod_def read_exponent_def Let_def)
  have "\<not> isspace CHR ''-''" by (simp add: isspace_def)
  then show "strtod (CHR ''-'' # show_nat m) = (make_double True (int_bits m), False, [])"
    using no mant scale [of True] by (simp add: strtod_def read_exponent_def Let_def)
qed

lemma significant_digits_int:
  assumes "0 < m" and "m < 2 ^ 53" and "L = length (show_nat m)"
  shows "significant_digits (m * 2 ^ 1074) = (m * 10 ^ (17 - L), int L - 1)" "0 < L" "L \<le> 16"
proof -
  show "0 < L" using assms(3) by simp
  have "(10::nat) ^ (L - 1) < 10 ^ 16"
    using show_nat_bounds(2) [OF assms(1)] assms(2,3) by (rule_tac le_less_trans) auto
  then show L: "L \<le> 16" using power_less_imp_less_exp [of "10::nat" "L - 1" 16] by simp
  have div: "m * 2 ^ 1074 * 10 ^ 400 div 2 ^ 1074 = m * 10 ^ 400"
  proof -
    have "m * 2 ^ 1074 * 10 ^ 400 = (m * 10 ^ 400) * 2 ^ 1074" by (rule mult.commute [THEN trans]) (simp only: mult.assoc mult.commute mult.left_commute)
    then show ?thesis by (metis nonzero_mult_div_cancel_right power_not_zero zero_neq_numeral)
  qed
  have x: "int (length (show_nat (m * 2 ^ 1074 * 10 ^ 400 div 2 ^ 1074))) - 401 = int L - 1"
    unfolding div show_nat_shift [OF assms(1)] by (simp add: assms(3))
  have e: "nat (16 - (int L - 1)) = 17 - L" "nat (int L - 1 - 16) = 0" using L \<open>0 < L\<close> by auto
  have "m * 2 ^ 1074 * 10 ^ (17 - L) = m * 10 ^ (17 - L) * (2 ^ 1074 * 10 ^ 0)"
    by (simp only: power_0 mult_1_right mult.assoc mult.commute mult.left_commute)
  then have s: "round_div (m * 2 ^ 1074 * 10 ^ (17 - L)) (2 ^ 1074 * 10 ^ 0) = m * 10 ^ (17 - L)"
    using round_div_exact [of "2 ^ 1074 * 10 ^ 0" "m * 10 ^ (17 - L)"] by (simp only: power_0 mult_1_right zero_less_power zero_less_numeral)
  have "m * 10 ^ (17 - L) < 10 ^ L * 10 ^ (17 - L)" using show_nat_bounds(1) [of m] assms(3) by simp
  also have "\<dots> = 10 ^ 17" using L by (simp add: power_add [symmetric])
  finally have ne: "m * 10 ^ (17 - L) \<noteq> 10 ^ 17" by simp
  show "significant_digits (m * 2 ^ 1074) = (m * 10 ^ (17 - L), int L - 1)"
    unfolding significant_digits_def x Let_def e s using ne by simp
qed

lemma strip_zeros_replicate [simp]: "strip_zeros (replicate k CHR ''0'') = []"
  by (simp add: strip_zeros_def)

lemma print17_int:
  assumes "m < 2 ^ 53"
  shows "print17 (make_double neg (int_bits m)) = (if neg then ''-'' else []) @ show_nat m"
proof (cases "m = 0")
  case True
  then have "magnitude (make_double neg (int_bits m)) = 0" using magnitude_int(1) [OF assms, of neg] by simp
  moreover have "show_nat m = ''0''" using True by (simp add: show_nat.simps digit_char_0)
  ultimately show ?thesis
    using magnitude_int(2,3) [OF assms, of neg] isfinite_not_isnan by (auto simp: print17_def Let_def)
next
  case False
  define L where "L = length (show_nat m)"
  note sd = significant_digits_int [OF _ assms L_def]
  have m: "0 < m" using False by simp
  have ds: "show_nat (m * 10 ^ (17 - L)) = show_nat m @ replicate (17 - L) CHR ''0''"
    by (rule show_nat_shift [OF m])
  have "nat (int L - 1) + 1 = L" using sd(2) [OF m] by simp
  moreover have "magnitude (make_double neg (int_bits m)) \<noteq> 0" using magnitude_int(1) [OF assms, of neg] m by simp
  ultimately show ?thesis
    using magnitude_int [OF assms, of neg] isfinite_not_isnan [of "make_double neg (int_bits m)"] sd [OF m]
    by (auto simp: print17_def with_point_def ds L_def [symmetric] Let_def simp del: power_numeral)
qed

lemma parse_int_double:
  assumes "\<bar>n\<bar> < 2 ^ 53"
  shows "ParseFiniteDouble (to_string n) = Some (int_double n)"
proof -
  have m: "nat \<bar>n\<bar> < 2 ^ 53" using assms by (simp add: nat_less_iff)
  have "strtod (to_string n) = (int_double n, False, [])"
    using strtod_show_nat [OF m] by (cases "n < 0") (simp_all add: to_string_def int_double_def)
  then show ?thesis
    using magnitude_int(2) [OF m] by (simp add: ParseFiniteDouble_def int_double_def) (metis to_string_not_Nil)
qed

lemma print_int_double:
  assumes "\<bar>n\<bar> < 2 ^ 53"
  shows "print17 (int_double n) = to_string n" "CHR ''.'' \<notin> set (to_string n)"
proof -
  have m: "nat \<bar>n\<bar> < 2 ^ 53" using assms by (simp add: nat_less_iff)
  show "print17 (int_double n) = to_string n"
    using print17_int [OF m, of "n < 0"] by (cases "n < 0") (simp_all add: int_double_def to_string_def)
  show "CHR ''.'' \<notin> set (to_string n)"
    using to_string_chars [of "CHR ''.''" n] by (auto simp: is_digit_def)
qed

section \<open>A large score\<close>

definition score_1_5e20 :: double where
  "score_1_5e20 = Double 4908997630925220144"

lemma magnitude_1_5e20:
  "magnitude score_1_5e20 = 15 * 10 ^ 19 * 2 ^ 1074" "isfinite score_1_5e20" "\<not> is_negative score_1_5e20"
proof -
  have e: "exponent_field score_1_5e20 = 1090" "fraction_field score_1_5e20 = 74037091379504"
    by (simp_all add: exponent_field_def fraction_field_def score_1_5e20_def)
  show "isfinite score_1_5e20" "\<not> is_negative score_1_5e20"
    unfolding isfinite_def e is_negative_def by (simp_all add: score_1_5e20_def)
  show "magnitude score_1_5e20 = 15 * 10 ^ 19 * 2 ^ 1074" by (simp add: magnitude_def e)
qed

lemma digit_char_digits: "digit_char 1 = CHR ''1''" "digit_char 2 = CHR ''2''" "digit_char 5 = CHR ''5''"
  by code_simp+

lemma show_nat_15: "show_nat 15 = ''15''" "show_nat 20 = ''20''"
  by (simp_all add: show_nat.simps [of 15] show_nat.simps [of 20] show_nat.simps [of "Suc 0"] show_nat.simps [of 2]
      digit_char_digits [simplified] digit_char_0)

lemma significant_1_5e20: "significant_digits (15 * 10 ^ 19 * 2 ^ 1074) = (15 * 10 ^ 15, 20)"
proof -
  have "15 * 10 ^ 19 * 2 ^ 1074 * 10 ^ 400 = (15 * 10 ^ 419) * (2 ^ 1074 :: nat)"
    using power_add [of "10::nat" 19 400] by (simp del: power_numeral)
  then have div: "15 * 10 ^ 19 * 2 ^ 1074 * 10 ^ 400 div 2 ^ 1074 = (15 * 10 ^ 419 :: nat)"
    by (metis nonzero_mult_div_cancel_right power_not_zero zero_neq_numeral)
  have x: "int (length (show_nat (15 * 10 ^ 19 * 2 ^ 1074 * 10 ^ 400 div 2 ^ 1074))) - 401 = 20"
    using show_nat_shift [of 15 419] unfolding div by (simp add: show_nat_15 del: power_numeral)
  have "15 * 10 ^ 19 * 2 ^ 1074 * 10 ^ nat (16 - 20) = (15 * 10 ^ 15) * (2 ^ 1074 * 10 ^ nat (20 - 16) :: nat)"
    by (simp del: power_numeral) 
  then have s: "round_div (15 * 10 ^ 19 * 2 ^ 1074 * 10 ^ nat (16 - 20)) (2 ^ 1074 * 10 ^ nat (20 - 16)) = 15 * 10 ^ 15"
    using round_div_exact [of "2 ^ 1074 * 10 ^ nat (20 - 16)" "15 * 10 ^ 15"] by simp
  show ?thesis unfolding significant_digits_def x Let_def s by simp
qed

lemma print17_1_5e20: "print17 score_1_5e20 = ''1.5e+20''"
proof -
  have ds: "show_nat (15 * 10 ^ 15) = ''15'' @ replicate 15 CHR ''0''"
    using show_nat_shift [of 15 15] show_nat_15(1) by simp
  have "with_point (take 1 (show_nat (15 * 10 ^ 15))) (drop 1 (show_nat (15 * 10 ^ 15))) = ''1.5''"
    unfolding ds by (simp add: with_point_def strip_zeros_def numeral_eq_Suc)
  moreover have "print_exponent 20 = ''e+20''" by (simp add: print_exponent_def show_nat_15)
  ultimately show ?thesis
    unfolding print17_def Let_def magnitude_1_5e20(1) significant_1_5e20
    using magnitude_1_5e20(2,3) isfinite_not_isnan [OF magnitude_1_5e20(2)] by simp
qed

lemma strtod_1_5e20: "strtod ''1.5e20'' = (score_1_5e20, False, [])"
proof -
  have "bit_len (15 * 10 ^ 19) = 68" using bit_len_unique [of 67 "15 * 10 ^ 19"] by simp
  then have bl: "bit_len (15 * 10 ^ 19 * 2 ^ 1074 div 1) - 53 = 1089"
    unfolding div_by_1 using bit_len_shift [of "15 * 10 ^ 19" 1074] by (simp del: power_numeral)
  have "15 * 10 ^ 19 * 2 ^ 1074 = 4577636718750000 * (1 * 2 ^ 1089 :: nat)" by simp
  then have "round_div (15 * 10 ^ 19 * 2 ^ 1074) (1 * 2 ^ 1089) = 4577636718750000"
    using round_div_exact [of "1 * 2 ^ 1089" 4577636718750000] by (simp only: mult_1 zero_less_power zero_less_numeral)
  then have r: "round_units False (15 * 10 ^ 19 * 2 ^ 1074) 1 = score_1_5e20"
    unfolding round_units_def bl Let_def by (simp add: infinity_bits_def make_double_def score_1_5e20_def)
  have "15 * 2 ^ 1074 * 10 ^ nat 19 = 15 * 10 ^ 19 * (2 ^ 1074 :: nat)" by (simp del: power_numeral)
  moreover have "(10::nat) ^ nat (- 19) = 1" by simp
  ultimately have "scale_to_double False 15 10 19 = (score_1_5e20, False)"
    unfolding scale_to_double_def Let_def using r magnitude_1_5e20(1,2) by (simp only: mult_1_right) simp
  then show ?thesis
    by (simp add: strtod_def isspace_def starts_ci_def lower_def read_mantissa_def is_digit_def
        read_exponent_def digits_val_def digit_val_def Let_def)
qed

lemma parse_1_5e2: "ParseFiniteDouble ''1.5e+2'' = Some (int_double 150)"
proof -
  have m: "(150::nat) < 2 ^ 53" by simp
  have "15 * 2 ^ 1074 * 10 ^ nat 1 = 150 * (2 ^ 1074 :: nat)" by (simp del: power_numeral)
  then have "scale_to_double False 15 10 1 = (int_double 150, False)"
    unfolding scale_to_double_def Let_def using round_units_int [OF m, of False] magnitude_int [OF m, of False]
    by (simp add: int_double_def del: power_numeral)
  then have "strtod ''1.5e+2'' = (int_double 150, False, [])"
    by (simp add: strtod_def isspace_def starts_ci_def lower_def read_mantissa_def is_digit_def
        read_exponent_def digits_val_def digit_val_def Let_def)
  moreover have "c_str ''1.5e+2'' = ''1.5e+2''" by (simp add: c_str_def)
  moreover have "isfinite (int_double 150)" using magnitude_int(2) [OF m, of False] by (simp add: int_double_def)
  ultimately show ?thesis by (simp add: ParseFiniteDouble_def)
qed

end
