(* ===== verification/RedisObject.thy ===== *)
theory RedisObject
  imports Binlog Containers Double
begin

text \<open>
  The stored values, \<^verbatim>\<open>src/cache/redis_object.h\<close> and \<^verbatim>\<open>redis_object.cpp\<close>: a type tag, an expiry
  deadline (0 for none) and a variant of the four kinds of value. The container types are
  parameters: \<open>'h\<close> for \<^verbatim>\<open>HashValue\<close>, \<open>'s\<close> for \<^verbatim>\<open>SetValue\<close>, \<open>'z\<close> for \<^verbatim>\<open>ZSetValue\<close> and \<open>'o\<close> for
  \<^verbatim>\<open>ObjectMap\<close>; the record \<open>containers\<close> collects their operations.
\<close>

section \<open>Values\<close>

datatype RedisObjectType = kString | kHash | kSet | kZSet

datatype ('h, 's, 'z) ObjectValue = StringVal string | HashVal 'h | SetVal 's | ZSetVal 'z

record ('h, 's, 'z) RedisObject =
  obj_type :: RedisObjectType
  obj_deadline_us :: u64
  obj_value :: "('h, 's, 'z) ObjectValue"

definition MakeString :: "string \<Rightarrow> ('h, 's, 'z) RedisObject" where
  "MakeString v = \<lparr>obj_type = kString, obj_deadline_us = 0, obj_value = StringVal v\<rparr>"

definition MakeHash :: "'h \<Rightarrow> ('h, 's, 'z) RedisObject" where
  "MakeHash v = \<lparr>obj_type = kHash, obj_deadline_us = 0, obj_value = HashVal v\<rparr>"

definition MakeSet :: "'s \<Rightarrow> ('h, 's, 'z) RedisObject" where
  "MakeSet v = \<lparr>obj_type = kSet, obj_deadline_us = 0, obj_value = SetVal v\<rparr>"

definition MakeZSet :: "'z \<Rightarrow> ('h, 's, 'z) RedisObject" where
  "MakeZSet v = \<lparr>obj_type = kZSet, obj_deadline_us = 0, obj_value = ZSetVal v\<rparr>"

definition Type :: "('h, 's, 'z) RedisObject \<Rightarrow> RedisObjectType" where
  "Type obj = obj_type obj"

definition IsExpired :: "('h, 's, 'z) RedisObject \<Rightarrow> u64 \<Rightarrow> bool" where
  "IsExpired obj now_us \<longleftrightarrow> obj_deadline_us obj \<noteq> 0 \<and> obj_deadline_us obj \<le> now_us"

definition DeadlineUs :: "('h, 's, 'z) RedisObject \<Rightarrow> u64" where
  "DeadlineUs obj = obj_deadline_us obj"

definition WithDeadline :: "('h, 's, 'z) RedisObject \<Rightarrow> u64 \<Rightarrow> ('h, 's, 'z) RedisObject" where
  "WithDeadline obj deadline_us = obj\<lparr>obj_deadline_us := deadline_us\<rparr>"

definition ClearDeadline :: "('h, 's, 'z) RedisObject \<Rightarrow> ('h, 's, 'z) RedisObject" where
  "ClearDeadline obj = obj\<lparr>obj_deadline_us := 0\<rparr>"

text \<open>\<^verbatim>\<open>std::get_if\<close> on the variant: a null pointer is \<open>None\<close>.\<close>

definition StringValue :: "('h, 's, 'z) RedisObject \<Rightarrow> string option" where
  "StringValue obj = (case obj_value obj of StringVal v \<Rightarrow> Some v | _ \<Rightarrow> None)"

definition Hash :: "('h, 's, 'z) RedisObject \<Rightarrow> 'h option" where
  "Hash obj = (case obj_value obj of HashVal v \<Rightarrow> Some v | _ \<Rightarrow> None)"

definition SetOf :: "('h, 's, 'z) RedisObject \<Rightarrow> 's option" where
  "SetOf obj = (case obj_value obj of SetVal v \<Rightarrow> Some v | _ \<Rightarrow> None)"

definition ZSet :: "('h, 's, 'z) RedisObject \<Rightarrow> 'z option" where
  "ZSet obj = (case obj_value obj of ZSetVal v \<Rightarrow> Some v | _ \<Rightarrow> None)"

section \<open>Results of writes\<close>

datatype Status = kOk | kNotFound | kWrongType | kInvalidArgument

record WriteResult =
  wr_status :: Status
  wr_changed :: bool
  wr_created :: bool
  wr_seq :: u64

record ('h, 's, 'z) MutationResult =
  mut_changed :: bool
  mut_object :: "('h, 's, 'z) RedisObject option"
  mut_record :: "BinlogRecord option"

text \<open>\<^verbatim>\<open>MutationResult{changed, object}\<close> leaves \<^verbatim>\<open>record\<close> empty.\<close>

abbreviation mutation :: "bool \<Rightarrow> ('h, 's, 'z) RedisObject option \<Rightarrow> ('h, 's, 'z) MutationResult" where
  "mutation c ob \<equiv> \<lparr>mut_changed = c, mut_object = ob, mut_record = None\<rparr>"

section \<open>The containers of the store\<close>

record ('o, 'h, 's, 'z) containers =
  objects :: "('o, ('h, 's, 'z) RedisObject) ImtMap"
  hashes :: "('h, string) ImtMap"
  sets :: "'s ImtSet"
  zsets :: "('z, double) ImtMap"

locale imt_lib =
  fixes C :: "('o, 'h, 's, 'z) containers"
  assumes objects_map: "imt_map (objects C)"
    and hashes_map: "imt_map (hashes C)"
    and sets_set: "imt_set (sets C)"
    and zsets_map: "imt_map (zsets C)"

sublocale imt_lib \<subseteq> om: imt_map "objects C"
  by (rule objects_map)

sublocale imt_lib \<subseteq> hm: imt_map "hashes C"
  by (rule hashes_map)

sublocale imt_lib \<subseteq> sm: imt_set "sets C"
  by (rule sets_set)

sublocale imt_lib \<subseteq> zm: imt_map "zsets C"
  by (rule zsets_map)

type_synonym ref_hash = "(string, string) alist"
type_synonym ref_sets = "string dlist"
type_synonym ref_zset = "(string, double) alist"
type_synonym ref_object = "(ref_hash, ref_sets, ref_zset) RedisObject"
type_synonym ref_objects = "(string, ref_object) alist"

definition ref_containers :: "(ref_objects, ref_hash, ref_sets, ref_zset) containers" where
  "ref_containers = \<lparr>objects = ref_map, hashes = ref_map, sets = ref_set, zsets = ref_map\<rparr>"

interpretation ref_lib: imt_lib ref_containers
  by (rule imt_lib.intro) (simp_all add: ref_containers_def ref_map.imt_map_axioms ref_set.imt_set_axioms)

section \<open>Facts\<close>

lemma obj_simps [simp]:
  "obj_type (MakeString v) = kString" "obj_deadline_us (MakeString v) = 0"
  "obj_value (MakeString v) = StringVal v"
  "obj_type (MakeHash h) = kHash" "obj_deadline_us (MakeHash h) = 0"
  "obj_value (MakeHash h) = HashVal h"
  "obj_type (MakeSet s) = kSet" "obj_deadline_us (MakeSet s) = 0"
  "obj_value (MakeSet s) = SetVal s"
  "obj_type (MakeZSet z) = kZSet" "obj_deadline_us (MakeZSet z) = 0"
  "obj_value (MakeZSet z) = ZSetVal z"
  by (simp_all add: MakeString_def MakeHash_def MakeSet_def MakeZSet_def)

lemma WithDeadline_simps [simp]:
  "obj_type (WithDeadline ob d) = obj_type ob" "obj_deadline_us (WithDeadline ob d) = d"
  "obj_value (WithDeadline ob d) = obj_value ob"
  "WithDeadline (WithDeadline ob d) d' = WithDeadline ob d'"
  by (simp_all add: WithDeadline_def)

lemma WithDeadline_same [simp]: "WithDeadline ob (obj_deadline_us ob) = ob"
  by (simp add: WithDeadline_def)

lemma ClearDeadline_simps [simp]:
  "obj_type (ClearDeadline ob) = obj_type ob" "obj_deadline_us (ClearDeadline ob) = 0"
  "obj_value (ClearDeadline ob) = obj_value ob"
  by (simp_all add: ClearDeadline_def)

lemmas accessor_defs = Type_def DeadlineUs_def StringValue_def Hash_def SetOf_def ZSet_def

text \<open>The tag of a stored object agrees with its variant; every constructor and update keeps it.\<close>

definition value_type :: "('h, 's, 'z) ObjectValue \<Rightarrow> RedisObjectType" where
  "value_type v =
     (case v of StringVal _ \<Rightarrow> kString | HashVal _ \<Rightarrow> kHash | SetVal _ \<Rightarrow> kSet | ZSetVal _ \<Rightarrow> kZSet)"

definition obj_ok :: "('h, 's, 'z) RedisObject \<Rightarrow> bool" where
  "obj_ok ob \<longleftrightarrow> obj_type ob = value_type (obj_value ob)"

lemma obj_ok_simps [simp]:
  "obj_ok (MakeString v)" "obj_ok (MakeHash h)" "obj_ok (MakeSet s)" "obj_ok (MakeZSet z)"
  "obj_ok (WithDeadline ob d) = obj_ok ob" "obj_ok (ClearDeadline ob) = obj_ok ob"
  by (simp_all add: obj_ok_def value_type_def)

lemma IsExpired_0 [simp]: "\<not> IsExpired ob 0"
  by (auto simp: IsExpired_def)

lemma IsExpired_mono: "IsExpired ob t \<Longrightarrow> t \<le> t' \<Longrightarrow> IsExpired ob t'"
  by (auto simp: IsExpired_def)

end
