(* ===== verification/HashSlot.thy ===== *)
theory HashSlot
  imports RedisObject
begin

text \<open>
  One slot of the store, \<^verbatim>\<open>src/cache/hash_slot.h\<close> and \<^verbatim>\<open>hash_slot.cpp\<close>: the object map, the write log,
  the sequence number of the last write and the published one. Every operation is a function on the
  slot; the two mutexes serialise writers (\<^verbatim>\<open>write_mutex_\<close>) and publish a map together with its
  sequence number (\<^verbatim>\<open>value_mutex_\<close>), so an operation that holds the write lock throughout is one
  step. A callback that writes captured variables returns their values beside its result.
\<close>

section \<open>State\<close>

record 'o HashSlot =
  slot_map :: 'o
  slot_binlog :: BinlogBuffer
  slot_seq :: u64
  slot_published_seq :: u64
  slot_log_writes :: bool

record 'o SlotSnapshot =
  snap_map :: 'o
  snap_published_seq :: u64

definition HashSlot_new :: "('o, 'h, 's, 'z) containers \<Rightarrow> 'o HashSlot" where
  "HashSlot_new C = \<lparr>slot_map = Map_empty (objects C), slot_binlog = BinlogBuffer_new,
     slot_seq = 0, slot_published_seq = 0, slot_log_writes = True\<rparr>"

section \<open>Deadlines\<close>

definition kMicrosPerSecond :: u64 where
  "kMicrosPerSecond = 1000000"

definition SaturatingTtlUs :: "int \<Rightarrow> u64" where
  "SaturatingTtlUs seconds =
     (let seconds_u = i64_to_u64 seconds
      in if u64_max div kMicrosPerSecond < seconds_u then u64_max
         else seconds_u * kMicrosPerSecond)"

definition SaturatingDeadlineUs :: "u64 \<Rightarrow> u64 \<Rightarrow> u64" where
  "SaturatingDeadlineUs now_us ttl_us =
     (if u64_max - now_us < ttl_us then u64_max else now_us + ttl_us)"

section \<open>Reading\<close>

definition HashSlot_Get ::
  "('o, 'h, 's, 'z) containers \<Rightarrow> 'o HashSlot \<Rightarrow> string \<Rightarrow> u64 \<Rightarrow> ('h, 's, 'z) RedisObject option" where
  "HashSlot_Get C s key now_us =
     (case Map_Find (objects C) (slot_map s) key of
        None \<Rightarrow> None
      | Some found \<Rightarrow> if IsExpired found now_us then None else Some found)"

text \<open>The pairs the visitor of \<^verbatim>\<open>ForEachLiveObject\<close> is called with, in order.\<close>

definition HashSlot_ForEachLiveObject ::
  "('o, 'h, 's, 'z) containers \<Rightarrow> 'o HashSlot \<Rightarrow> u64 \<Rightarrow> (string \<times> ('h, 's, 'z) RedisObject) list" where
  "HashSlot_ForEachLiveObject C s now_us =
     filter (\<lambda>(key, object). \<not> IsExpired object now_us) (Map_ForEach (objects C) (slot_map s))"

definition HashSlot_Ttl :: "('o, 'h, 's, 'z) containers \<Rightarrow> 'o HashSlot \<Rightarrow> string \<Rightarrow> u64 \<Rightarrow> int" where
  "HashSlot_Ttl C s key now_us =
     (case Map_Find (objects C) (slot_map s) key of
        None \<Rightarrow> -2
      | Some object \<Rightarrow>
          if IsExpired object now_us then -2
          else if DeadlineUs object = 0 then -1
          else u64_to_i64 ((DeadlineUs object - now_us) div 1000000))"

definition HashSlot_Snapshot :: "'o HashSlot \<Rightarrow> 'o SlotSnapshot" where
  "HashSlot_Snapshot s = \<lparr>snap_map = slot_map s, snap_published_seq = slot_published_seq s\<rparr>"

definition HashSlot_CopyLogsAfter :: "'o HashSlot \<Rightarrow> u64 \<Rightarrow> nat \<Rightarrow> nat \<Rightarrow> BinlogRecord list" where
  "HashSlot_CopyLogsAfter s seq limit max_bytes =
     BinlogBuffer_CopyAfter (slot_binlog s) seq limit max_bytes"

definition HashSlot_MinRetainedLogSeq :: "'o HashSlot \<Rightarrow> u64" where
  "HashSlot_MinRetainedLogSeq s = BinlogBuffer_MinSeq (slot_binlog s)"

definition HashSlot_MaxRetainedLogSeq :: "'o HashSlot \<Rightarrow> u64" where
  "HashSlot_MaxRetainedLogSeq s = BinlogBuffer_MaxSeq (slot_binlog s)"

definition HashSlot_RetainedLogBytes :: "'o HashSlot \<Rightarrow> nat" where
  "HashSlot_RetainedLogBytes s = BinlogBuffer_RetainedBytes (slot_binlog s)"

section \<open>Writing\<close>

definition HashSlot_AppendLog :: "'o HashSlot \<Rightarrow> BinlogRecord \<Rightarrow> u64 \<Rightarrow> u64 \<Rightarrow> 'o HashSlot" where
  "HashSlot_AppendLog s r now_us deadline_us =
     (if \<not> slot_log_writes s then s
      else s\<lparr>slot_binlog := BinlogBuffer_Append (slot_binlog s)
               (r\<lparr>rec_written_at_us := now_us, rec_deadline_us := deadline_us\<rparr>)\<rparr>)"

text \<open>
  The statements every write ends with, under the write lock: number the record, append it to the
  log, advance the slot's sequence number, then publish the new map with that number.
\<close>

definition HashSlot_publish ::
  "'o HashSlot \<Rightarrow> BinlogRecord \<Rightarrow> u64 \<Rightarrow> u64 \<Rightarrow> 'o \<Rightarrow> 'o HashSlot" where
  "HashSlot_publish s r now_us deadline_us next_map =
     (let next_seq = slot_seq s + 1;
          s1 = HashSlot_AppendLog s (r\<lparr>rec_seq := next_seq\<rparr>) now_us deadline_us;
          s2 = s1\<lparr>slot_seq := next_seq\<rparr>
      in s2\<lparr>slot_map := next_map, slot_published_seq := next_seq\<rparr>)"

definition write_result :: "bool \<Rightarrow> bool \<Rightarrow> u64 \<Rightarrow> WriteResult" where
  "write_result changed created seq =
     \<lparr>wr_status = kOk, wr_changed = changed, wr_created = created, wr_seq = seq\<rparr>"

definition HashSlot_Set ::
  "('o, 'h, 's, 'z) containers \<Rightarrow> 'o HashSlot \<Rightarrow> string \<Rightarrow> ('h, 's, 'z) RedisObject \<Rightarrow>
   BinlogRecord \<Rightarrow> u64 \<Rightarrow> 'o HashSlot \<times> WriteResult" where
  "HashSlot_Set C s key obj r now_us =
     (let created = (Map_Find (objects C) (slot_map s) key = None);
          next_map = Map_Set (objects C) (slot_map s) key obj
      in (HashSlot_publish s r now_us (DeadlineUs obj) next_map,
          write_result True created (slot_seq s + 1)))"

definition HashSlot_Mutate ::
  "('o, 'h, 's, 'z) containers \<Rightarrow> 'o HashSlot \<Rightarrow> string \<Rightarrow>
   (('h, 's, 'z) RedisObject option \<Rightarrow> ('h, 's, 'z) MutationResult \<times> 'c) \<Rightarrow>
   BinlogRecord \<Rightarrow> u64 \<Rightarrow> 'o HashSlot \<times> WriteResult \<times> 'c" where
  "HashSlot_Mutate C s key mutator r now_us =
     (let existing = (case Map_Find (objects C) (slot_map s) key of
                        None \<Rightarrow> None
                      | Some found \<Rightarrow> if \<not> IsExpired found now_us then Some found else None);
          had_existing = (existing \<noteq> None);
          (mutation, captured) = mutator existing;
          unchanged = (s, write_result False False (slot_seq s), captured)
      in if \<not> mut_changed mutation then unchanged
         else let deadline_us = (case mut_object mutation of None \<Rightarrow> 0 | Some ob \<Rightarrow> DeadlineUs ob);
                  r' = (case mut_record mutation of None \<Rightarrow> r | Some r' \<Rightarrow> r');
                  next_map = (case mut_object mutation of
                      Some ob \<Rightarrow> Some (Map_Set (objects C) (slot_map s) key ob)
                    | None \<Rightarrow> if \<not> had_existing then None
                              else Map_Erase (objects C) (slot_map s) key)
              in (case next_map of
                    None \<Rightarrow> unchanged
                  | Some m \<Rightarrow>
                      (HashSlot_publish s r' now_us deadline_us m,
                       write_result True (\<not> had_existing \<and> mut_object mutation \<noteq> None) (slot_seq s + 1),
                       captured)))"

definition HashSlot_Update ::
  "('o, 'h, 's, 'z) containers \<Rightarrow> 'o HashSlot \<Rightarrow> string \<Rightarrow>
   (('h, 's, 'z) RedisObject option \<Rightarrow> ('h, 's, 'z) RedisObject option \<times> 'c) \<Rightarrow>
   BinlogRecord \<Rightarrow> u64 \<Rightarrow> 'o HashSlot \<times> WriteResult \<times> 'c" where
  "HashSlot_Update C s key updater r now_us =
     HashSlot_Mutate C s key
       (\<lambda>existing. let (next, captured) = updater existing in (mutation (next \<noteq> None) next, captured))
       r now_us"

definition HashSlot_Del ::
  "('o, 'h, 's, 'z) containers \<Rightarrow> 'o HashSlot \<Rightarrow> string \<Rightarrow> u64 \<Rightarrow> 'o HashSlot \<times> WriteResult" where
  "HashSlot_Del C s key now_us =
     (let unchanged = (s, write_result False False (slot_seq s))
      in case Map_Find (objects C) (slot_map s) key of
           None \<Rightarrow> unchanged
         | Some found \<Rightarrow>
             if IsExpired found now_us then unchanged
             else (case Map_Erase (objects C) (slot_map s) key of
                     None \<Rightarrow> unchanged
                   | Some m \<Rightarrow>
                       (HashSlot_publish s (new_record\<lparr>rec_args := [''DEL'', key]\<rparr>) now_us 0 m,
                        write_result True False (slot_seq s + 1))))"

text \<open>
  \<^verbatim>\<open>DeleteExpired\<close> collects at most \<open>max_keys\<close> expired keys of a snapshot, then takes the write lock
  for each one and deletes it if it is still expired. \<open>HashSlot_DeleteExpired_key\<close> is that loop body,
  on whatever state the slot has by then.
\<close>

definition HashSlot_expired_keys ::
  "('o, 'h, 's, 'z) containers \<Rightarrow> 'o \<Rightarrow> nat \<Rightarrow> u64 \<Rightarrow> string list" where
  "HashSlot_expired_keys C snapshot max_keys now_us =
     foldl (\<lambda>expired_keys (key, object).
              if max_keys \<le> length expired_keys then expired_keys
              else if IsExpired object now_us then expired_keys @ [key] else expired_keys)
           [] (Map_ForEach (objects C) snapshot)"

definition HashSlot_DeleteExpired_key ::
  "('o, 'h, 's, 'z) containers \<Rightarrow> u64 \<Rightarrow> 'o HashSlot \<times> nat \<Rightarrow> string \<Rightarrow> 'o HashSlot \<times> nat" where
  "HashSlot_DeleteExpired_key C now_us = (\<lambda>(s, deleted) key.
     case Map_Find (objects C) (slot_map s) key of
       None \<Rightarrow> (s, deleted)
     | Some found \<Rightarrow>
         if \<not> IsExpired found now_us then (s, deleted)
         else (case Map_Erase (objects C) (slot_map s) key of
                 None \<Rightarrow> (s, deleted)
               | Some m \<Rightarrow>
                   (HashSlot_publish s (new_record\<lparr>rec_args := [''DEL'', key]\<rparr>) now_us 0 m,
                    deleted + 1)))"

definition HashSlot_DeleteExpired ::
  "('o, 'h, 's, 'z) containers \<Rightarrow> 'o HashSlot \<Rightarrow> nat \<Rightarrow> u64 \<Rightarrow> 'o HashSlot \<times> nat" where
  "HashSlot_DeleteExpired C s max_keys now_us =
     (if max_keys = 0 then (s, 0)
      else foldl (HashSlot_DeleteExpired_key C now_us) (s, 0)
             (HashSlot_expired_keys C (slot_map s) max_keys now_us))"

definition HashSlot_Expire ::
  "('o, 'h, 's, 'z) containers \<Rightarrow> 'o HashSlot \<Rightarrow> string \<Rightarrow> int \<Rightarrow> u64 \<Rightarrow> 'o HashSlot \<times> bool" where
  "HashSlot_Expire C s key seconds now_us =
     (if seconds \<le> 0 then (let (s', wr) = HashSlot_Del C s key now_us in (s', wr_changed wr))
      else let ttl_us = SaturatingTtlUs seconds;
               deadline_us = SaturatingDeadlineUs now_us ttl_us
           in case Map_Find (objects C) (slot_map s) key of
                None \<Rightarrow> (s, False)
              | Some found \<Rightarrow>
                  if IsExpired found now_us then (s, False)
                  else (HashSlot_publish s
                          (new_record\<lparr>rec_args := [''EXPIRE'', key, to_string seconds]\<rparr>)
                          now_us deadline_us
                          (Map_Set (objects C) (slot_map s) key (WithDeadline found deadline_us)),
                        True))"

section \<open>Replication and log maintenance\<close>

definition HashSlot_InstallReplicaSnapshot :: "'o HashSlot \<Rightarrow> 'o \<Rightarrow> u64 \<Rightarrow> 'o HashSlot" where
  "HashSlot_InstallReplicaSnapshot s m seq =
     s\<lparr>slot_binlog := BinlogBuffer_Clear (slot_binlog s), slot_seq := seq,
       slot_map := m, slot_published_seq := seq\<rparr>"

definition HashSlot_MarkReplicaAppliedSeq :: "'o HashSlot \<Rightarrow> u64 \<Rightarrow> 'o HashSlot" where
  "HashSlot_MarkReplicaAppliedSeq s seq =
     (if seq \<le> slot_seq s then s
      else let s1 = s\<lparr>slot_seq := seq\<rparr>
           in if slot_published_seq s1 < seq then s1\<lparr>slot_published_seq := seq\<rparr> else s1)"

definition HashSlot_AckLogsThroughAndCountBytes :: "'o HashSlot \<Rightarrow> u64 \<Rightarrow> 'o HashSlot \<times> nat" where
  "HashSlot_AckLogsThroughAndCountBytes s seq =
     (let (b, removed) = BinlogBuffer_AckThroughAndCountBytes (slot_binlog s) seq
      in (s\<lparr>slot_binlog := b\<rparr>, removed))"

definition HashSlot_AckLogsThrough :: "'o HashSlot \<Rightarrow> u64 \<Rightarrow> 'o HashSlot" where
  "HashSlot_AckLogsThrough s seq = s\<lparr>slot_binlog := BinlogBuffer_AckThrough (slot_binlog s) seq\<rparr>"

definition HashSlot_SetLogWrites :: "'o HashSlot \<Rightarrow> bool \<Rightarrow> 'o HashSlot" where
  "HashSlot_SetLogWrites s enabled =
     (let s1 = s\<lparr>slot_log_writes := enabled\<rparr>
      in if \<not> enabled then s1\<lparr>slot_binlog := BinlogBuffer_Clear (slot_binlog s1)\<rparr> else s1)"

definition HashSlot_SetReplicaDeadline ::
  "('o, 'h, 's, 'z) containers \<Rightarrow> 'o HashSlot \<Rightarrow> string \<Rightarrow> u64 \<Rightarrow> 'o HashSlot" where
  "HashSlot_SetReplicaDeadline C s key deadline_us =
     (case Map_Find (objects C) (slot_map s) key of
        None \<Rightarrow> s
      | Some object \<Rightarrow>
          s\<lparr>slot_map := Map_Set (objects C) (slot_map s) key (WithDeadline object deadline_us)\<rparr>)"

section \<open>What a write commits\<close>

text \<open>
  The abstract state of a slot is its map from keys to stored objects, expired ones included.
  \<open>committed\<close> is the contract of a write: the key alone changes, both sequence numbers move to the
  next one, and the record that replays the write is logged under that number with the time of the
  write and the resulting deadline.
\<close>

definition slot_view ::
  "('o, 'h, 's, 'z) containers \<Rightarrow> 'o HashSlot \<Rightarrow> string \<Rightarrow> ('h, 's, 'z) RedisObject option" where
  "slot_view C s = Map_Find (objects C) (slot_map s)"

abbreviation slot_log :: "'o HashSlot \<Rightarrow> BinlogRecord list" where
  "slot_log s \<equiv> log_records (slot_binlog s)"

definition logged_record :: "'o HashSlot \<Rightarrow> BinlogRecord \<Rightarrow> u64 \<Rightarrow> u64 \<Rightarrow> BinlogRecord" where
  "logged_record s r now_us deadline_us =
     r\<lparr>rec_seq := slot_seq s + 1, rec_written_at_us := now_us, rec_deadline_us := deadline_us\<rparr>"

definition deadline_of :: "('h, 's, 'z) RedisObject option \<Rightarrow> u64" where
  "deadline_of x = (case x of None \<Rightarrow> 0 | Some ob \<Rightarrow> obj_deadline_us ob)"

definition committed ::
  "('o, 'h, 's, 'z) containers \<Rightarrow> 'o HashSlot \<Rightarrow> 'o HashSlot \<Rightarrow> string \<Rightarrow>
   ('h, 's, 'z) RedisObject option \<Rightarrow> BinlogRecord \<Rightarrow> u64 \<Rightarrow> bool" where
  "committed C s s' key x r now_us \<longleftrightarrow>
     slot_view C s' = (slot_view C s)(key := x) \<and>
     slot_seq s' = slot_seq s + 1 \<and> slot_published_seq s' = slot_seq s + 1 \<and>
     slot_log_writes s' = slot_log_writes s \<and>
     slot_binlog s' = (if slot_log_writes s
       then BinlogBuffer_Append (slot_binlog s) (logged_record s r now_us (deadline_of x))
       else slot_binlog s)"

lemma publish_simps [simp]:
  "slot_map (HashSlot_publish s r now d m) = m"
  "slot_seq (HashSlot_publish s r now d m) = slot_seq s + 1"
  "slot_published_seq (HashSlot_publish s r now d m) = slot_seq s + 1"
  "slot_log_writes (HashSlot_publish s r now d m) = slot_log_writes s"
  "slot_binlog (HashSlot_publish s r now d m) = (if slot_log_writes s
     then BinlogBuffer_Append (slot_binlog s) (logged_record s r now d) else slot_binlog s)"
  by (simp_all add: HashSlot_publish_def HashSlot_AppendLog_def Let_def logged_record_def)

lemma publish_committed:
  assumes "Map_Find (objects C) m = (slot_view C s)(key := x)" and "d = deadline_of x"
  shows "committed C s (HashSlot_publish s r now d m) key x r now"
  using assms by (simp add: committed_def slot_view_def)

lemma write_result_simps [simp]:
  "wr_status (write_result c n q) = kOk" "wr_changed (write_result c n q) = c"
  "wr_created (write_result c n q) = n" "wr_seq (write_result c n q) = q"
  by (simp_all add: write_result_def)

lemma Get_view:
  "HashSlot_Get C s key now =
     (case slot_view C s key of None \<Rightarrow> None | Some ob \<Rightarrow> if IsExpired ob now then None else Some ob)"
  by (simp add: HashSlot_Get_def slot_view_def)

lemma Get_Some_view: "HashSlot_Get C s key now = Some ob \<Longrightarrow> slot_view C s key = Some ob"
  by (auto simp: Get_view split: option.splits if_splits)

text \<open>What a callback decided, as the object the key should hold afterwards: \<open>None\<close> when nothing is
  to be written.\<close>

definition mutation_effect ::
  "('h, 's, 'z) RedisObject option \<Rightarrow> ('h, 's, 'z) MutationResult \<Rightarrow>
   ('h, 's, 'z) RedisObject option option" where
  "mutation_effect existing m =
     (if \<not> mut_changed m \<or> (mut_object m = None \<and> existing = None) then None
      else Some (mut_object m))"

definition mutation_log_record :: "BinlogRecord \<Rightarrow> ('h, 's, 'z) MutationResult \<Rightarrow> BinlogRecord" where
  "mutation_log_record r m = (case mut_record m of None \<Rightarrow> r | Some r' \<Rightarrow> r')"

lemma Mutate_existing:
  "HashSlot_Mutate C s key f r now =
     (let existing = HashSlot_Get C s key now; (m, out) = f existing;
          next_map = (case mut_object m of
              Some ob \<Rightarrow> Some (Map_Set (objects C) (slot_map s) key ob)
            | None \<Rightarrow> if existing = None then None else Map_Erase (objects C) (slot_map s) key)
      in if \<not> mut_changed m \<or> next_map = None
         then (s, write_result False False (slot_seq s), out)
         else (HashSlot_publish s (mutation_log_record r m) now (deadline_of (mut_object m)) (the next_map),
               write_result True (existing = None \<and> mut_object m \<noteq> None) (slot_seq s + 1), out))"
proof -
  have "(case Map_Find (objects C) (slot_map s) key of None \<Rightarrow> None
      | Some found \<Rightarrow> if \<not> IsExpired found now then Some found else None) = HashSlot_Get C s key now"
    by (simp add: HashSlot_Get_def split: option.splits)
  then show ?thesis
    by (auto simp: HashSlot_Mutate_def mutation_log_record_def deadline_of_def DeadlineUs_def Let_def
        split: prod.splits option.splits)
qed

lemma Mutate_captured: "snd (snd (HashSlot_Mutate C s key f r now)) = snd (f (HashSlot_Get C s key now))"
  by (auto simp: Mutate_existing Let_def split: prod.splits)

lemma Mutate_slot_only:
  "fst (HashSlot_Mutate C s key f r now) = fst (HashSlot_Mutate C s key (\<lambda>e. (fst (f e), ())) r now)"
  by (auto simp: Mutate_existing Let_def split: prod.splits)

context imt_lib begin

lemma erase_view: "slot_view C s key = Some ob \<Longrightarrow>
    \<exists>m. Map_Erase (objects C) (slot_map s) key = Some m \<and>
        Map_Find (objects C) m = (slot_view C s)(key := None)"
  unfolding slot_view_def by (rule om.find_erase)

lemma set_view: "Map_Find (objects C) (Map_Set (objects C) (slot_map s) key ob) =
    (slot_view C s)(key := Some ob)"
  by (auto simp: fun_eq_iff om.find_set slot_view_def)

lemma Set_committed: "committed C s (fst (HashSlot_Set C s key ob r now)) key (Some ob) r now"
  by (simp add: HashSlot_Set_def publish_committed set_view deadline_of_def DeadlineUs_def)

lemma Mutate_unchanged:
  assumes "mutation_effect (HashSlot_Get C s key now) (fst (f (HashSlot_Get C s key now))) = None"
  shows "HashSlot_Mutate C s key f r now =
    (s, write_result False False (slot_seq s), snd (f (HashSlot_Get C s key now)))"
  using assms by (auto simp: Mutate_existing mutation_effect_def Let_def split: prod.splits if_splits)

lemma Mutate_committed:
  assumes "mutation_effect (HashSlot_Get C s key now) (fst (f (HashSlot_Get C s key now))) = Some x"
  shows "committed C s (fst (HashSlot_Mutate C s key f r now)) key x
      (mutation_log_record r (fst (f (HashSlot_Get C s key now)))) now \<and>
    fst (snd (HashSlot_Mutate C s key f r now)) =
      write_result True (HashSlot_Get C s key now = None) (slot_seq s + 1)"
proof -
  obtain m out where f: "f (HashSlot_Get C s key now) = (m, out)" by (cases "f (HashSlot_Get C s key now)")
  with assms have m: "mut_changed m" "x = mut_object m" "mut_object m = None \<Longrightarrow> HashSlot_Get C s key now \<noteq> None"
    by (auto simp: mutation_effect_def split: if_splits)
  show ?thesis
  proof (cases "mut_object m")
    case None
    with m obtain ob where ex: "HashSlot_Get C s key now = Some ob" by auto
    from erase_view [OF Get_Some_view [OF this]]
    obtain n where "Map_Erase (objects C) (slot_map s) key = Some n"
      "Map_Find (objects C) n = (slot_view C s)(key := None)" by blast
    with None m ex f show ?thesis by (simp add: Mutate_existing publish_committed)
  next
    case (Some ob)
    with m f show ?thesis by (simp add: Mutate_existing publish_committed set_view)
  qed
qed

lemma Del_live:
  assumes "HashSlot_Get C s key now = Some ob"
  shows "committed C s (fst (HashSlot_Del C s key now)) key None
      (new_record\<lparr>rec_args := [''DEL'', key]\<rparr>) now \<and>
    snd (HashSlot_Del C s key now) = write_result True False (slot_seq s + 1)"
proof -
  from erase_view [OF Get_Some_view [OF assms]]
  obtain n where "Map_Erase (objects C) (slot_map s) key = Some n"
    "Map_Find (objects C) n = (slot_view C s)(key := None)" by blast
  with assms show ?thesis
    by (auto simp: HashSlot_Del_def HashSlot_Get_def publish_committed deadline_of_def
        split: option.splits if_splits)
qed

lemma Del_missing:
  "HashSlot_Get C s key now = None \<Longrightarrow>
   HashSlot_Del C s key now = (s, write_result False False (slot_seq s))"
  by (auto simp: HashSlot_Del_def HashSlot_Get_def split: option.splits if_splits)

lemma Expire_live:
  assumes "HashSlot_Get C s key now = Some ob" and "0 < seconds"
  shows "committed C s (fst (HashSlot_Expire C s key seconds now)) key
      (Some (WithDeadline ob (SaturatingDeadlineUs now (SaturatingTtlUs seconds))))
      (new_record\<lparr>rec_args := [''EXPIRE'', key, to_string seconds]\<rparr>) now \<and>
    snd (HashSlot_Expire C s key seconds now)"
  using assms
  by (auto simp: HashSlot_Expire_def HashSlot_Get_def publish_committed set_view deadline_of_def Let_def
      split: option.splits if_splits)

lemma Expire_missing:
  "HashSlot_Get C s key now = None \<Longrightarrow> HashSlot_Expire C s key seconds now = (s, False)"
  by (auto simp: HashSlot_Expire_def HashSlot_Get_def Del_missing Let_def split: option.splits if_splits)

lemma Expire_Del:
  "seconds \<le> 0 \<Longrightarrow> HashSlot_Expire C s key seconds now =
     (fst (HashSlot_Del C s key now), wr_changed (snd (HashSlot_Del C s key now)))"
  by (simp add: HashSlot_Expire_def split: prod.splits)

lemma DeleteExpired_key_cases:
  "HashSlot_DeleteExpired_key C now (s, n) key = (s, n) \<and>
     (\<forall>ob. slot_view C s key = Some ob \<longrightarrow> \<not> IsExpired ob now) \<or>
   (\<exists>ob s'. slot_view C s key = Some ob \<and> IsExpired ob now \<and>
     HashSlot_DeleteExpired_key C now (s, n) key = (s', n + 1) \<and>
     committed C s s' key None (new_record\<lparr>rec_args := [''DEL'', key]\<rparr>) now)"
proof (cases "slot_view C s key")
  case None
  then show ?thesis by (simp add: HashSlot_DeleteExpired_key_def slot_view_def)
next
  case (Some ob)
  from erase_view [OF this] obtain m where "Map_Erase (objects C) (slot_map s) key = Some m"
    "Map_Find (objects C) m = (slot_view C s)(key := None)" by blast
  with Some show ?thesis
    by (cases "IsExpired ob now")
       (auto simp: HashSlot_DeleteExpired_key_def slot_view_def [symmetric] publish_committed deadline_of_def)
qed

end

end
