(* ===== verification/SlotSteps.thy ===== *)
theory SlotSteps
  imports HashSlot
begin

text \<open>
  The life of one slot as a step relation over the operations of \<open>HashSlot\<close>, the invariant of its
  log and sequence numbers, and the properties that rest on it: a slot whose log is on retains the
  records of its last writes without a gap.
\<close>

section \<open>The invariant\<close>

text \<open>The retained records are the last ones up to sequence number \<open>n\<close>, numbered without a gap.\<close>

definition log_upto :: "u64 \<Rightarrow> BinlogRecord list \<Rightarrow> bool" where
  "log_upto n rs \<longleftrightarrow> length rs \<le> unat n \<and>
     map (\<lambda>r. unat (rec_seq r)) rs = [Suc (unat n) - length rs ..< Suc (unat n)]"

definition view_ok :: "(string \<Rightarrow> ('h, 's, 'z) RedisObject option) \<Rightarrow> bool" where
  "view_ok v \<longleftrightarrow> (\<forall>key ob. v key = Some ob \<longrightarrow> obj_ok ob)"

definition slot_inv :: "('o, 'h, 's, 'z) containers \<Rightarrow> 'o HashSlot \<Rightarrow> bool" where
  "slot_inv C s \<longleftrightarrow>
     slot_published_seq s = slot_seq s \<and> bytes_ok (slot_binlog s) \<and>
     (\<not> slot_log_writes s \<longrightarrow> slot_log s = []) \<and> log_upto (slot_seq s) (slot_log s) \<and>
     view_ok (slot_view C s)"

lemma log_upto_Nil [simp]: "log_upto n []"
  by (simp add: log_upto_def)

lemma log_upto_snoc:
  assumes "log_upto n rs" and "n \<noteq> u64_max" and "rec_seq r = n + 1"
  shows "log_upto (n + 1) (rs @ [r])"
  using assms unat_Suc_u64 [of n] by (auto simp: log_upto_def)

lemma log_upto_drop: "log_upto n rs \<Longrightarrow> log_upto n (drop k rs)"
  by (cases "k \<le> length rs") (auto simp: log_upto_def drop_map [symmetric] Suc_diff_le)

lemma log_upto_dropWhile: "log_upto n rs \<Longrightarrow> log_upto n (dropWhile P rs)"
  by (simp add: dropWhile_eq_drop log_upto_drop)

lemma log_upto_filter:
  assumes "log_upto n rs"
  shows "map (\<lambda>r. unat (rec_seq r)) (filter (\<lambda>r. seq < rec_seq r) rs) =
    [max (Suc (unat n) - length rs) (Suc (unat seq)) ..< Suc (unat n)]"
proof -
  have flt: "filter (\<lambda>k. m < k) [a..<b] = [max a (Suc m)..<b]" for a b m :: nat
    by (induction b) (auto simp: max_def)
  have "map (\<lambda>r. unat (rec_seq r)) (filter (\<lambda>r. seq < rec_seq r) rs) =
      filter (\<lambda>k. unat seq < k) (map (\<lambda>r. unat (rec_seq r)) rs)"
    by (simp add: filter_map comp_def word_less_nat_alt)
  with assms show ?thesis by (simp add: log_upto_def flt)
qed

lemma view_ok_upd [simp]:
  "view_ok v \<Longrightarrow> (\<And>ob. x = Some ob \<Longrightarrow> obj_ok ob) \<Longrightarrow> view_ok (v(key := x))"
  by (auto simp: view_ok_def)

lemma slot_inv_committed:
  assumes "slot_inv C s" and "slot_seq s \<noteq> u64_max" and "committed C s s' key x r now"
    and "\<And>ob. x = Some ob \<Longrightarrow> obj_ok ob"
  shows "slot_inv C s'"
  using assms
  by (auto simp: slot_inv_def committed_def logged_record_def intro!: log_upto_snoc)

section \<open>Steps\<close>

text \<open>A callback that, given a well-formed object or none, answers with one.\<close>

definition mutator_ok ::
  "(('h, 's, 'z) RedisObject option \<Rightarrow> ('h, 's, 'z) MutationResult) \<Rightarrow> bool" where
  "mutator_ok f \<longleftrightarrow>
     (\<forall>e ob. (\<forall>o'. e = Some o' \<longrightarrow> obj_ok o') \<and> mut_object (f e) = Some ob \<longrightarrow> obj_ok ob)"

text \<open>
  Every operation that changes a slot. A write needs a sequence number left (after \<open>2 ^ 64\<close> writes
  the code would wrap to 0); a replica marks applied sequence numbers only with its own log off,
  as \<^verbatim>\<open>main.cpp\<close> sets it up. \<open>HashSlot_DeleteExpired\<close> takes the write lock once per key, so other
  writers run between its keys: its step is one key.
\<close>

inductive slot_step :: "('o, 'h, 's, 'z) containers \<Rightarrow> 'o HashSlot \<Rightarrow> 'o HashSlot \<Rightarrow> bool"
  for C :: "('o, 'h, 's, 'z) containers" where
  step_Set: "slot_seq s \<noteq> u64_max \<Longrightarrow> obj_ok ob \<Longrightarrow>
    slot_step C s (fst (HashSlot_Set C s key ob r now))"
| step_Mutate: "slot_seq s \<noteq> u64_max \<Longrightarrow> mutator_ok f \<Longrightarrow>
    slot_step C s (fst (HashSlot_Mutate C s key (\<lambda>e. (f e, ())) r now))"
| step_Del: "slot_seq s \<noteq> u64_max \<Longrightarrow> slot_step C s (fst (HashSlot_Del C s key now))"
| step_Expire: "slot_seq s \<noteq> u64_max \<Longrightarrow> slot_step C s (fst (HashSlot_Expire C s key secs now))"
| step_DeleteExpired: "slot_seq s \<noteq> u64_max \<Longrightarrow>
    slot_step C s (fst (HashSlot_DeleteExpired_key C now (s, n) key))"
| step_Install: "view_ok (Map_Find (objects C) m) \<Longrightarrow>
    slot_step C s (HashSlot_InstallReplicaSnapshot s m seq)"
| step_Mark: "\<not> slot_log_writes s \<Longrightarrow> slot_step C s (HashSlot_MarkReplicaAppliedSeq s seq)"
| step_Ack: "slot_step C s (HashSlot_AckLogsThrough s seq)"
| step_AckCount: "slot_step C s (fst (HashSlot_AckLogsThroughAndCountBytes s seq))"
| step_LogWrites: "slot_step C s (HashSlot_SetLogWrites s enabled)"
| step_Deadline: "slot_step C s (HashSlot_SetReplicaDeadline C s key d)"

inductive_cases slot_stepE: "slot_step C s s'"

definition slot_reachable :: "('o, 'h, 's, 'z) containers \<Rightarrow> 'o HashSlot \<Rightarrow> bool" where
  "slot_reachable C = (slot_step C)\<^sup>*\<^sup>* (HashSlot_new C)"

lemma AckLogsThroughAndCountBytes_fst [simp]:
  "fst (HashSlot_AckLogsThroughAndCountBytes s seq) = HashSlot_AckLogsThrough s seq"
  by (simp add: HashSlot_AckLogsThroughAndCountBytes_def HashSlot_AckLogsThrough_def
      case_prod_beta Let_def)

context imt_lib begin

lemma slot_inv_new: "slot_inv C (HashSlot_new C)"
  by (simp add: slot_inv_def HashSlot_new_def view_ok_def slot_view_def om.find_empty)

lemma slot_inv_Get: "slot_inv C s \<Longrightarrow> HashSlot_Get C s key now = Some ob \<Longrightarrow> obj_ok ob"
  by (auto simp: slot_inv_def view_ok_def dest: Get_Some_view)

lemma slot_inv_Mutate:
  assumes "slot_inv C s" and "slot_seq s \<noteq> u64_max" and "mutator_ok f"
  shows "slot_inv C (fst (HashSlot_Mutate C s key (\<lambda>e. (f e, ())) r now))"
proof (cases "mutation_effect (HashSlot_Get C s key now) (f (HashSlot_Get C s key now))")
  case None
  with assms(1) show ?thesis by (subst Mutate_unchanged) auto
next
  case (Some x)
  moreover have "obj_ok ob" if "x = Some ob" for ob
  proof -
    from Some that have "mut_object (f (HashSlot_Get C s key now)) = Some ob"
      by (simp add: mutation_effect_def split: if_splits)
    moreover have "\<forall>o'. HashSlot_Get C s key now = Some o' \<longrightarrow> obj_ok o'"
      using slot_inv_Get [OF assms(1)] by blast
    ultimately show ?thesis using assms(3) unfolding mutator_ok_def by blast
  qed
  ultimately show ?thesis
    using Mutate_committed [of s key now "\<lambda>e. (f e, ())" x r] slot_inv_committed [OF assms(1,2)] by auto
qed

lemma slot_inv_Del:
  assumes "slot_inv C s" and "slot_seq s \<noteq> u64_max"
  shows "slot_inv C (fst (HashSlot_Del C s key now))"
proof (cases "HashSlot_Get C s key now")
  case None
  then show ?thesis using assms by (simp add: Del_missing)
next
  case (Some ob)
  from Del_live [OF this] slot_inv_committed [OF assms] show ?thesis by blast
qed

lemma slot_inv_Expire:
  assumes "slot_inv C s" and "slot_seq s \<noteq> u64_max"
  shows "slot_inv C (fst (HashSlot_Expire C s key secs now))"
proof (cases "HashSlot_Get C s key now")
  case None
  then show ?thesis using assms by (simp add: Expire_missing)
next
  case (Some ob)
  show ?thesis
  proof (cases "0 < secs")
    case True
    have "obj_ok ob" using slot_inv_Get [OF assms(1) Some] .
    with Expire_live [OF Some True] slot_inv_committed [OF assms] show ?thesis by force
  next
    case False
    then show ?thesis using slot_inv_Del [OF assms] by (simp add: Expire_Del)
  qed
qed

lemma slot_inv_DeleteExpired_key:
  assumes "slot_inv C s" and "slot_seq s \<noteq> u64_max"
  shows "slot_inv C (fst (HashSlot_DeleteExpired_key C now (s, n) key))"
  using DeleteExpired_key_cases [of now s n key] assms slot_inv_committed [OF assms] by fastforce

lemma slot_inv_SetReplicaDeadline:
  assumes "slot_inv C s"
  shows "slot_inv C (HashSlot_SetReplicaDeadline C s key d)"
proof (cases "slot_view C s key")
  case None
  then show ?thesis using assms by (simp add: HashSlot_SetReplicaDeadline_def slot_view_def)
next
  case (Some ob)
  then have "obj_ok ob" using assms by (auto simp: slot_inv_def view_ok_def)
  then have "view_ok ((slot_view C s)(key := Some (WithDeadline ob d)))"
    using assms by (intro view_ok_upd) (auto simp: slot_inv_def)
  with Some assms set_view [of s key "WithDeadline ob d"] show ?thesis
    by (simp add: HashSlot_SetReplicaDeadline_def slot_inv_def slot_view_def)
qed

lemma slot_inv_AckLogsThrough:
  "slot_inv C s \<Longrightarrow> slot_inv C (HashSlot_AckLogsThrough s seq)"
  by (auto simp: slot_inv_def HashSlot_AckLogsThrough_def slot_view_def log_upto_dropWhile)

lemma slot_inv_SetLogWrites:
  "slot_inv C s \<Longrightarrow> slot_inv C (HashSlot_SetLogWrites s e)"
  by (auto simp: slot_inv_def HashSlot_SetLogWrites_def slot_view_def Let_def)

lemma slot_inv_MarkReplicaAppliedSeq:
  "slot_inv C s \<Longrightarrow> \<not> slot_log_writes s \<Longrightarrow> slot_inv C (HashSlot_MarkReplicaAppliedSeq s seq)"
  by (auto simp: slot_inv_def HashSlot_MarkReplicaAppliedSeq_def slot_view_def Let_def)

lemma slot_inv_InstallReplicaSnapshot:
  "slot_inv C s \<Longrightarrow> view_ok (Map_Find (objects C) m) \<Longrightarrow>
   slot_inv C (HashSlot_InstallReplicaSnapshot s m seq)"
  by (auto simp: slot_inv_def HashSlot_InstallReplicaSnapshot_def slot_view_def)

lemma slot_inv_step: "slot_step C s s' \<Longrightarrow> slot_inv C s \<Longrightarrow> slot_inv C s'"
  by (induction rule: slot_step.induct)
     (auto intro: slot_inv_committed Set_committed slot_inv_Mutate slot_inv_Del slot_inv_Expire
       slot_inv_DeleteExpired_key slot_inv_SetReplicaDeadline slot_inv_AckLogsThrough
       slot_inv_SetLogWrites slot_inv_MarkReplicaAppliedSeq slot_inv_InstallReplicaSnapshot)

lemma slot_inv_reachable: "slot_reachable C s \<Longrightarrow> slot_inv C s"
  unfolding slot_reachable_def
  by (induction rule: rtranclp_induct) (auto intro: slot_inv_new slot_inv_step)

lemma CopyLogsAfter_seqs:
  assumes "slot_inv C s" and "0 < limit" and "seq < slot_published_seq s"
    and "HashSlot_MinRetainedLogSeq s \<le> seq + 1"
  shows "\<exists>k. map (\<lambda>r. unat (rec_seq r)) (HashSlot_CopyLogsAfter s seq limit max_bytes) =
      [Suc (unat seq) ..< Suc (unat seq) + k] \<and> (slot_log s \<noteq> [] \<longrightarrow> 0 < k)"
proof -
  let ?n = "unat (slot_seq s)" and ?f = "filter (\<lambda>r. seq < rec_seq r) (slot_log s)"
  have log: "log_upto (slot_seq s) (slot_log s)" and lt: "unat seq < ?n"
    using assms(1,3) by (auto simp: slot_inv_def word_less_nat_alt)
  have "max (Suc ?n - length (slot_log s)) (Suc (unat seq)) = Suc (unat seq)" if "slot_log s \<noteq> []"
  proof -
    from that log have "unat (rec_seq (hd (slot_log s))) = Suc ?n - length (slot_log s)"
      by (cases "slot_log s") (auto simp: log_upto_def upt_rec split: if_splits)
    moreover have "seq \<noteq> u64_max" using assms(3) by (metis word_not_simps(3))
    then have "unat (rec_seq (hd (slot_log s))) \<le> Suc (unat seq)"
      using assms(4) that unat_Suc_u64 [of seq]
      by (simp add: HashSlot_MinRetainedLogSeq_def BinlogBuffer_MinSeq_def word_le_nat_alt)
    ultimately show ?thesis by simp
  qed
  then have seqs: "map (\<lambda>r. unat (rec_seq r)) ?f = (if slot_log s = [] then [] else [Suc (unat seq) ..< Suc ?n])"
    using log_upto_filter [OF log, of seq] by (auto simp del: upt_Suc)
  obtain m where m: "HashSlot_CopyLogsAfter s seq limit max_bytes = take m ?f"
    "?f \<noteq> [] \<longrightarrow> 0 < m"
    using CopyAfter_loop_greedy [of ?f "[]" seq "slot_log s" limit 0 max_bytes] assms(2)
    by (auto simp: HashSlot_CopyLogsAfter_def BinlogBuffer_CopyAfter_def greedy_prefix_def)
  show ?thesis
  proof (cases "slot_log s = []")
    case True
    then show ?thesis using m by (intro exI [of _ 0]) simp
  next
    case False
    then have "length ?f = ?n - unat seq" using arg_cong [OF seqs, of length] by (simp del: upt_Suc)
    with lt have "?f \<noteq> []" by auto
    then have "0 < m" using m by simp
    moreover have "map (\<lambda>r. unat (rec_seq r)) (take m ?f) = take m [Suc (unat seq) ..< Suc ?n]"
      using seqs False by (simp add: take_map [symmetric])
    then have "map (\<lambda>r. unat (rec_seq r)) (take m ?f) =
        [Suc (unat seq) ..< Suc (unat seq) + min m (?n - unat seq)]"
      using lt by (cases "m \<le> ?n - unat seq") (simp_all add: take_upt min_def del: upt_Suc)
    ultimately show ?thesis using m lt by (intro exI [of _ "min m (?n - unat seq)"]) simp
  qed
qed

end

section \<open>Properties\<close>

definition demo_slot :: "ref_objects HashSlot" where
  "demo_slot = fst (HashSlot_Set ref_containers (HashSlot_new ref_containers) ''k''
     (MakeString ''v'') (new_record\<lparr>rec_args := [''SET'', ''k'', ''v'']\<rparr>) 7)"

text \<open>(C8) Whatever sequence of operations a slot goes through, its published sequence number is the
  number of its last write, its log holds the last writes numbered without a gap up to that number
  (and is empty while logging is off), its byte count is the sum over the retained records, and
  every stored object has the type its value has.\<close>

theorem slot_invariant:
  assumes "imt_lib C" and "slot_reachable C s"
  shows "slot_inv C s"
  using imt_lib.slot_inv_reachable [OF assms] .

theorem slot_invariant_witness:
  "slot_inv ref_containers (fst (HashSlot_Set ref_containers (HashSlot_new ref_containers) ''k''
     (MakeString ''v'') (new_record\<lparr>rec_args := [''SET'', ''k'', ''v'']\<rparr>) 7))"
proof (rule slot_invariant [OF ref_lib.imt_lib_axioms])
  show "slot_reachable ref_containers (fst (HashSlot_Set ref_containers (HashSlot_new ref_containers) ''k''
     (MakeString ''v'') (new_record\<lparr>rec_args := [''SET'', ''k'', ''v'']\<rparr>) 7))"
    unfolding slot_reachable_def
    by (rule r_into_rtranclp, rule step_Set) (simp_all add: HashSlot_new_def)
qed

text \<open>(C9) A replica that asks a reachable slot for the log after sequence number \<open>seq\<close>, when the slot
  still retains record \<open>seq + 1\<close>, gets records \<open>seq + 1\<close>, \<open>seq + 2\<close>, ... without a gap, and at
  least one of them, whatever the limits.\<close>

theorem CopyLogsAfter_contiguous:
  assumes "imt_lib C" and "slot_reachable C s" and "0 < limit" and "seq < slot_published_seq s"
    and "HashSlot_MinRetainedLogSeq s \<le> seq + 1"
  shows "\<exists>k. map (\<lambda>r. unat (rec_seq r)) (HashSlot_CopyLogsAfter s seq limit max_bytes) =
      [Suc (unat seq) ..< Suc (unat seq) + k] \<and> (slot_log s \<noteq> [] \<longrightarrow> 0 < k)"
  using imt_lib.CopyLogsAfter_seqs [OF assms(1) imt_lib.slot_inv_reachable [OF assms(1,2)] assms(3-5)] .

theorem CopyLogsAfter_contiguous_witness:
  "\<exists>k. map (\<lambda>r. unat (rec_seq r)) (HashSlot_CopyLogsAfter demo_slot 0 1 1) = [1 ..< 1 + k] \<and> 0 < k"
proof -
  have "slot_reachable ref_containers demo_slot"
    unfolding slot_reachable_def demo_slot_def
    by (rule r_into_rtranclp, rule step_Set) (simp_all add: HashSlot_new_def)
  from CopyLogsAfter_contiguous [OF ref_lib.imt_lib_axioms this, of 1 0 1] show ?thesis
    by (simp add: demo_slot_def HashSlot_Set_def HashSlot_new_def HashSlot_MinRetainedLogSeq_def
        BinlogBuffer_MinSeq_def logged_record_def)
qed

end
