(* ===== verification/SlotExpiry.thy ===== *)
theory SlotExpiry
  imports SlotSteps
begin

text \<open>
  Expiry in one slot: the saturating deadline arithmetic of \<^verbatim>\<open>hash_slot.cpp\<close>, what \<^verbatim>\<open>TTL\<close> answers
  after \<^verbatim>\<open>EXPIRE\<close>, and what a pass of \<^verbatim>\<open>DeleteExpired\<close> removes.
\<close>

section \<open>Deadlines\<close>

lemma unat_u64_max: "unat u64_max = 2 ^ 64 - 1"
  by (simp add: unsigned_minus_1_eq_mask mask_eq_exp_minus_1)

lemma unat_u64_less: "unat (w :: u64) < 18446744073709551616"
  using unsigned_less [of w, where ?'a = nat] by simp

lemma u64_to_i64_small: "unat w < 2 ^ 63 \<Longrightarrow> u64_to_i64 w = int (unat w)"
proof -
  assume "unat w < 2 ^ 63"
  moreover have w: "uint w = int (unat w)" by simp
  ultimately have "- (2 ^ 63) \<le> int (unat w)" "int (unat w) < 2 ^ 63" by (simp_all del: of_nat_unat)
  then have "signed_take_bit 63 (int (unat w)) = int (unat w)" by (rule signed_take_bit_int_eq_self)
  then show ?thesis by (simp add: sint_uint)
qed

lemma unat_i64_to_u64: "0 \<le> n \<Longrightarrow> int64_ok n \<Longrightarrow> unat (i64_to_u64 n) = nat n"
  by (simp add: int64_ok_def unat_eq_nat_uint uint_word_of_int)

lemma unat_SaturatingTtlUs:
  assumes "0 \<le> secs" and "int64_ok secs"
  shows "unat (SaturatingTtlUs secs) = min (2 ^ 64 - 1) (nat secs * 1000000)"
proof (cases "18446744073709 < nat secs")
  case True
  then have "u64_max div kMicrosPerSecond < i64_to_u64 secs"
    using unat_i64_to_u64 [OF assms] by (simp add: word_less_nat_alt unat_div_distrib kMicrosPerSecond_def)
  with True show ?thesis by (simp add: SaturatingTtlUs_def unat_u64_max)
next
  case False
  then have "\<not> u64_max div kMicrosPerSecond < i64_to_u64 secs"
    using unat_i64_to_u64 [OF assms] by (simp add: word_less_nat_alt unat_div_distrib kMicrosPerSecond_def)
  moreover have "unat (i64_to_u64 secs * kMicrosPerSecond) = nat secs * 1000000"
    using False unat_i64_to_u64 [OF assms] by (simp add: unat_word_ariths kMicrosPerSecond_def)
  ultimately show ?thesis using False by (simp add: SaturatingTtlUs_def)
qed

lemma unat_SaturatingDeadlineUs:
  "unat (SaturatingDeadlineUs now ttl) = min (2 ^ 64 - 1) (unat now + unat ttl)"
proof -
  have diff: "unat (u64_max - now) = 2 ^ 64 - 1 - unat now"
    by (simp add: unat_sub unat_u64_max)
  show ?thesis
  proof (cases "u64_max - now < ttl")
    case True
    with diff show ?thesis by (simp add: SaturatingDeadlineUs_def word_less_nat_alt unat_u64_max)
  next
    case False
    with diff have "unat now + unat ttl < 2 ^ 64"
      using unat_u64_less [of now] by (simp add: word_less_nat_alt)
    then have "unat (now + ttl) = unat now + unat ttl" by (simp add: unat_word_ariths)
    with False \<open>unat now + unat ttl < 2 ^ 64\<close> show ?thesis by (simp add: SaturatingDeadlineUs_def)
  qed
qed

definition expire_deadline :: "u64 \<Rightarrow> int \<Rightarrow> nat" where
  "expire_deadline now secs = min (2 ^ 64 - 1) (unat now + nat secs * 1000000)"

lemma unat_expire_deadline:
  assumes "0 \<le> secs" and "int64_ok secs"
  shows "unat (SaturatingDeadlineUs now (SaturatingTtlUs secs)) = expire_deadline now secs"
  using unat_SaturatingTtlUs [OF assms] by (auto simp: unat_SaturatingDeadlineUs expire_deadline_def)

lemma Ttl_view:
  assumes "slot_view C s key = Some ob" and "obj_deadline_us ob \<noteq> 0"
  shows "HashSlot_Ttl C s key now =
    (if unat (obj_deadline_us ob) \<le> unat now then -2
     else (int (unat (obj_deadline_us ob)) - int (unat now)) div 1000000)"
proof (cases "obj_deadline_us ob \<le> now")
  case True
  with assms show ?thesis
    by (simp add: HashSlot_Ttl_def slot_view_def IsExpired_def word_le_nat_alt)
next
  case False
  let ?d = "obj_deadline_us ob"
  have "unat (?d - now) = unat ?d - unat now" using False by (simp add: unat_sub)
  then have *: "unat ((?d - now) div 1000000) = (unat ?d - unat now) div 1000000"
    by (simp add: unat_div_distrib)
  have "(unat ?d - unat now) div 1000000 < 2 ^ 63" using unat_u64_less [of ?d] by simp
  then have "u64_to_i64 ((?d - now) div 1000000) = int ((unat ?d - unat now) div 1000000)"
    using * by (simp add: u64_to_i64_small)
  also have "\<dots> = (int (unat ?d) - int (unat now)) div 1000000"
    using False by (simp add: zdiv_int of_nat_diff word_le_nat_alt)
  finally show ?thesis
    using assms False by (simp add: HashSlot_Ttl_def slot_view_def IsExpired_def DeadlineUs_def word_le_nat_alt)
qed

section \<open>DeleteExpired\<close>

definition expired_in :: "('o, 'h, 's, 'z) containers \<Rightarrow> 'o HashSlot \<Rightarrow> u64 \<Rightarrow> string set" where
  "expired_in C s now = {key. \<exists>ob. slot_view C s key = Some ob \<and> IsExpired ob now}"

lemma expired_keys_take:
  "HashSlot_expired_keys C m n now =
     take n (map fst (filter (\<lambda>(key, ob). IsExpired ob now) (Map_ForEach (objects C) m)))"
proof -
  let ?f = "\<lambda>ks (key, ob). if n \<le> length ks then ks else if IsExpired ob now then ks @ [key] else ks"
  have "foldl ?f ks xs = ks @ take (n - length ks) (map fst (filter (\<lambda>(key, ob). IsExpired ob now) xs))"
    for ks :: "string list" and xs
  proof (induction xs arbitrary: ks)
    case (Cons x xs)
    then show ?case
      by (cases x, cases "n \<le> length ks") (auto simp: Suc_diff_le not_le take_Cons' Suc_diff_Suc)
  qed simp
  from this [of "[]"] show ?thesis by (simp add: HashSlot_expired_keys_def)
qed

context imt_lib begin

lemma set_expired_foreach:
  "set (map fst (filter (\<lambda>(key, ob). IsExpired ob now) (Map_ForEach (objects C) (slot_map s)))) =
   expired_in C s now"
  by (force simp: expired_in_def slot_view_def om.mem_foreach)

lemma distinct_expired_foreach:
  "distinct (map fst (filter P (Map_ForEach (objects C) m)))"
  using om.foreach_distinct [of m] by (simp add: distinct_map_filter)

lemma expired_keys_card:
  "length (HashSlot_expired_keys C (slot_map s) n now) = min n (card (expired_in C s now))"
proof -
  let ?xs = "map fst (filter (\<lambda>(key, ob). IsExpired ob now) (Map_ForEach (objects C) (slot_map s)))"
  have "length ?xs = card (expired_in C s now)"
    using distinct_card [OF distinct_expired_foreach] set_expired_foreach by metis
  then show ?thesis by (simp add: expired_keys_take min.commute)
qed

lemma expired_keys_set:
  "set (HashSlot_expired_keys C (slot_map s) n now) \<subseteq> expired_in C s now"
  "distinct (HashSlot_expired_keys C (slot_map s) n now)"
  using set_take_subset set_expired_foreach
  by (fastforce simp: expired_keys_take, simp add: expired_keys_take distinct_expired_foreach)

lemma DeleteExpired_fold:
  assumes "distinct ks" and "set ks \<subseteq> expired_in C s now"
    and "foldl (HashSlot_DeleteExpired_key C now) (s, n) ks = (s', n')"
  shows "slot_view C s' = (\<lambda>key. if key \<in> set ks then None else slot_view C s key) \<and>
    n' = n + length ks \<and> slot_seq s' = slot_seq s + of_nat (length ks)"
  using assms
proof (induction ks arbitrary: s n)
  case (Cons k ks)
  from Cons.prems obtain ob where "slot_view C s k = Some ob" "IsExpired ob now"
    by (auto simp: expired_in_def)
  with DeleteExpired_key_cases [of now s n k] obtain s1 where
    s1: "HashSlot_DeleteExpired_key C now (s, n) k = (s1, n + 1)" and
    c: "committed C s s1 k None (new_record\<lparr>rec_args := [''DEL'', k]\<rparr>) now" by auto
  from c have view: "slot_view C s1 = (slot_view C s)(k := None)" and seq: "slot_seq s1 = slot_seq s + 1"
    by (auto simp: committed_def)
  have "set ks \<subseteq> expired_in C s1 now"
    using Cons.prems by (auto simp: expired_in_def view)
  with Cons.IH [of s1 "n + 1"] Cons.prems s1 view seq show ?case
    by (auto simp: fun_eq_iff)
qed simp

lemma DeleteExpired_removed:
  assumes "HashSlot_DeleteExpired C s max_keys now = (s', n)"
  shows "\<exists>ks. ks \<subseteq> expired_in C s now \<and> card ks = n \<and>
    n = min max_keys (card (expired_in C s now)) \<and>
    slot_view C s' = (\<lambda>key. if key \<in> ks then None else slot_view C s key) \<and>
    slot_seq s' = slot_seq s + of_nat n"
proof (cases "max_keys = 0")
  case True
  with assms show ?thesis by (intro exI [of _ "{}"]) (auto simp: HashSlot_DeleteExpired_def)
next
  case False
  let ?ks = "HashSlot_expired_keys C (slot_map s) max_keys now"
  have "foldl (HashSlot_DeleteExpired_key C now) (s, 0) ?ks = (s', n)"
    using assms False by (simp add: HashSlot_DeleteExpired_def)
  from DeleteExpired_fold [OF expired_keys_set(2) expired_keys_set(1) this]
  show ?thesis using expired_keys_set [of s max_keys now] expired_keys_card [of s max_keys now]
    by (intro exI [of _ "set ?ks"]) (simp add: distinct_card)
qed

lemma DeleteExpired_live:
  assumes "HashSlot_DeleteExpired C s max_keys now = (s', n)"
  shows "HashSlot_Get C s' key now = HashSlot_Get C s key now"
proof -
  from DeleteExpired_removed [OF assms] obtain ks where
    ks: "ks \<subseteq> expired_in C s now" "slot_view C s' = (\<lambda>key. if key \<in> ks then None else slot_view C s key)"
    by blast
  then show ?thesis
    by (cases "key \<in> ks") (auto simp: Get_view expired_in_def)
qed

lemma Ttl_Expire:
  assumes "HashSlot_Get C s key now = Some ob" and "0 < secs" and "int64_ok secs"
  shows "HashSlot_Ttl C (fst (HashSlot_Expire C s key secs now)) key now' =
    (if expire_deadline now secs \<le> unat now' then -2
     else (int (expire_deadline now secs) - int (unat now')) div 1000000)"
proof -
  let ?d = "SaturatingDeadlineUs now (SaturatingTtlUs secs)"
  have d: "unat ?d = expire_deadline now secs" using assms by (simp add: unat_expire_deadline)
  have "expire_deadline now secs \<noteq> 0" using assms by (auto simp: expire_deadline_def min_def)
  with d have "?d \<noteq> 0" by (metis unat_0)
  moreover have "slot_view C (fst (HashSlot_Expire C s key secs now)) key = Some (WithDeadline ob ?d)"
    using Expire_live [OF assms(1,2)] by (simp add: committed_def)
  ultimately show ?thesis using d by (simp add: Ttl_view)
qed

end

section \<open>Properties\<close>

text \<open>After \<^verbatim>\<open>EXPIRE key seconds\<close> on a live key the time to live counts down from the requested
  duration in whole seconds and the key reads as missing from the deadline on; the deadline
  saturates at the largest 64-bit time instead of wrapping round.\<close>

theorem Expire_then_Ttl:
  assumes "imt_lib C" and "HashSlot_Get C s key now = Some ob" and "0 < secs" and "int64_ok secs"
  shows "HashSlot_Ttl C (fst (HashSlot_Expire C s key secs now)) key now' =
    (if expire_deadline now secs \<le> unat now' then -2
     else (int (expire_deadline now secs) - int (unat now')) div 1000000)"
  using imt_lib.Ttl_Expire [OF assms] .

theorem Expire_then_Ttl_witness:
  "HashSlot_Ttl ref_containers (fst (HashSlot_Expire ref_containers demo_slot ''k'' 5 1000000)) ''k'' 3000000 = 3"
proof -
  have "HashSlot_Get ref_containers demo_slot ''k'' 1000000 = Some (MakeString ''v'')"
    by (simp add: demo_slot_def HashSlot_Set_def HashSlot_new_def HashSlot_Get_def IsExpired_def
        ref_containers_def ref_map_def)
  from Expire_then_Ttl [OF ref_lib.imt_lib_axioms this, of 5 3000000] show ?thesis
    by (simp add: int64_ok_def expire_deadline_def)
qed

text \<open>A pass over the expired keys of a slot removes only expired ones, exactly as many as it
  reports, which is all of them up to the limit it was given, one logged write each, and no live
  key reads differently afterwards.\<close>

theorem DeleteExpired_correct:
  assumes "imt_lib C" and "HashSlot_DeleteExpired C s max_keys now = (s', n)"
  shows "(\<exists>ks. ks \<subseteq> expired_in C s now \<and> card ks = n \<and>
      n = min max_keys (card (expired_in C s now)) \<and>
      slot_view C s' = (\<lambda>key. if key \<in> ks then None else slot_view C s key) \<and>
      slot_seq s' = slot_seq s + of_nat n) \<and>
    HashSlot_Get C s' key now = HashSlot_Get C s key now"
  using imt_lib.DeleteExpired_removed [OF assms] imt_lib.DeleteExpired_live [OF assms] by blast

theorem DeleteExpired_correct_witness:
  "HashSlot_Get ref_containers (fst (HashSlot_DeleteExpired ref_containers demo_slot 9 1)) ''k'' 1 =
   HashSlot_Get ref_containers demo_slot ''k'' 1"
  using DeleteExpired_correct [OF ref_lib.imt_lib_axioms surjective_pairing, of demo_slot 1 9 "''k''"] by blast

end
