(* ===== verification/RespLib.thy ===== *)
theory RespLib
  imports Common "HOL-Library.Sublist"
begin

text \<open>
  The RESP library the server calls, \<^verbatim>\<open>redis/resp.h\<close> of the \<^verbatim>\<open>cpp_util\<close> package, as a parameter: a
  record of its functions, with the wire format of RESP that the code relies on as the laws of the
  locale \<open>resp_lib\<close>, and a small parser that has the laws.
\<close>

section \<open>The interface\<close>

text \<open>\<open>RespOther\<close> stands for every value that is neither a bulk string nor an array.\<close>

datatype RespValue = RespBulk string | RespArray "RespValue list" | RespOther

text \<open>\<open>RespFail\<close> stands for every status other than the two the code names.\<close>

datatype RespStatus = RespOk | RespNeedMore | RespFail

record RespResult =
  res_status :: RespStatus
  res_value :: "RespValue option"
  res_consumed :: nat
  res_error :: string

record RespLimits =
  max_depth :: nat
  max_array_elements :: nat
  max_bulk_bytes :: nat

text \<open>
  \<open>UnpackOne\<close> takes the input, the number of scratch values and the limits. The functions that
  write take the output so far and give it back extended.
\<close>

record Resp =
  UnpackOne :: "string \<Rightarrow> nat \<Rightarrow> RespLimits \<Rightarrow> RespResult"
  PackArrayHeader :: "nat \<Rightarrow> string \<Rightarrow> string"
  PackBulkString :: "string \<Rightarrow> string \<Rightarrow> string"
  PackSimpleString :: "string \<Rightarrow> string \<Rightarrow> string"
  PackError :: "string \<Rightarrow> string \<Rightarrow> string"
  PackInteger :: "int \<Rightarrow> string \<Rightarrow> string"
  PackNullBulkString :: "string \<Rightarrow> string"

section \<open>The wire format\<close>

definition CRLF :: string where
  "CRLF = [CHR 0x0D, CHR 0x0A]"

definition resp_header :: "nat \<Rightarrow> string" where
  "resp_header n = CHR ''*'' # show_nat n @ CRLF"

definition resp_bulk :: "string \<Rightarrow> string" where
  "resp_bulk s = CHR ''$'' # show_nat (length s) @ CRLF @ s @ CRLF"

definition resp_array :: "string list \<Rightarrow> string" where
  "resp_array args = resp_header (length args) @ concat (map resp_bulk args)"

definition fits_limits :: "RespLimits \<Rightarrow> string list \<Rightarrow> bool" where
  "fits_limits L args \<longleftrightarrow>
     length args \<le> max_array_elements L \<and> list_all (\<lambda>a. length a \<le> max_bulk_bytes L) args \<and> 0 < max_depth L"

locale resp_lib =
  fixes P :: Resp
  assumes pack_header: "PackArrayHeader P n out = out @ resp_header n"
    and pack_bulk: "PackBulkString P s out = out @ resp_bulk s"
    and pack_simple: "PackSimpleString P s out = out @ PackSimpleString P s []"
    and pack_error: "PackError P s out = out @ PackError P s []"
    and pack_integer: "PackInteger P k out = out @ PackInteger P k []"
    and pack_null: "PackNullBulkString P out = out @ PackNullBulkString P []"
    and unpack_bulk: "length s \<le> max_bulk_bytes L \<Longrightarrow> 0 < scratch \<Longrightarrow>
      \<exists>err. UnpackOne P (resp_bulk s @ rest) scratch L =
        \<lparr>res_status = RespOk, res_value = Some (RespBulk s), res_consumed = length (resp_bulk s), res_error = err\<rparr>"
    and unpack_bulk_more: "length s \<le> max_bulk_bytes L \<Longrightarrow> 0 < scratch \<Longrightarrow> strict_prefix w (resp_bulk s) \<Longrightarrow>
      res_status (UnpackOne P w scratch L) = RespNeedMore"
    and unpack_array: "fits_limits L args \<Longrightarrow> length args < scratch \<Longrightarrow>
      \<exists>err. UnpackOne P (resp_array args @ rest) scratch L =
        \<lparr>res_status = RespOk, res_value = Some (RespArray (map RespBulk args)),
         res_consumed = length (resp_array args), res_error = err\<rparr>"
    and unpack_array_more: "fits_limits L args \<Longrightarrow> length args < scratch \<Longrightarrow> strict_prefix w (resp_array args) \<Longrightarrow>
      res_status (UnpackOne P w scratch L) = RespNeedMore"
    and consumed: "res_status (UnpackOne P w scratch L) = RespOk \<Longrightarrow>
      0 < res_consumed (UnpackOne P w scratch L) \<and> res_consumed (UnpackOne P w scratch L) \<le> length w"

section \<open>Looking for the end of a line\<close>

text \<open>\<^verbatim>\<open>find("\r\n")\<close> on a string; the result is \<^verbatim>\<open>npos\<close> when it is \<open>None\<close>.\<close>

fun find_crlf :: "string \<Rightarrow> nat option" where
  "find_crlf (a # b # s) =
     (if a = CHR 0x0D \<and> b = CHR 0x0A then Some 0 else map_option Suc (find_crlf (b # s)))"
| "find_crlf _ = None"

lemma find_crlf_Cons: "CHR 0x0D \<noteq> c \<Longrightarrow> find_crlf (c # s) = map_option Suc (find_crlf s)"
  by (cases s) auto

lemma find_crlf_line: "CHR 0x0D \<notin> set d \<Longrightarrow> find_crlf (d @ CRLF @ t) = Some (length d)"
  by (induction d) (simp_all add: find_crlf_Cons CRLF_def)

lemma prefix_append_cases:
  assumes "prefix w (a @ b)"
  obtains "strict_prefix w a" | w' where "w = a @ w'" and "prefix w' b"
  using assms by (cases "w = a") (auto simp: prefix_append strict_prefix_def)

lemma find_crlf_none: "CHR 0x0D \<notin> set w \<Longrightarrow> find_crlf w = None"
  by (induction w rule: find_crlf.induct) auto

text \<open>A part of a text that starts with a line: the line is not complete, or the rest is cut.\<close>

lemma crlf_prefix:
  assumes "prefix w (d @ CRLF @ t)" and "CHR 0x0D \<notin> set d"
  shows "(find_crlf w = None \<and> strict_prefix w (d @ CRLF)) \<or>
    (\<exists>t'. w = d @ CRLF @ t' \<and> prefix t' t \<and> find_crlf w = Some (length d))"
proof -
  from assms(1) have "prefix w (d @ [CHR 0x0D]) \<or> (\<exists>t'. w = d @ CRLF @ t' \<and> prefix t' t)"
    by (auto simp: prefix_append prefix_Cons CRLF_def)
  then show ?thesis
  proof
    assume "prefix w (d @ [CHR 0x0D])"
    moreover have "find_crlf (d @ [CHR 0x0D]) = None"
      using assms(2) by (induction d) (simp_all add: find_crlf_Cons)
    moreover have "find_crlf w = None" if "prefix w d"
      using that assms(2) by (meson find_crlf_none set_mono_prefix subsetD)
    ultimately have "find_crlf w = None" by (auto simp: prefix_snoc)
    moreover from \<open>prefix w (d @ [CHR 0x0D])\<close> obtain zs where "d @ [CHR 0x0D] = w @ zs" by (auto simp: prefix_def)
    then have "d @ CRLF = w @ zs @ [CHR 0x0A]" by (simp add: CRLF_def)
    then have "strict_prefix w (d @ CRLF)" by (simp add: strict_prefix_def prefix_def)
    ultimately show ?thesis by blast
  qed (use assms(2) find_crlf_line in auto)
qed

lemma CR_show_nat [simp]: "CHR 0x0D \<notin> set (show_nat n)"
  using show_nat_digits [of "CHR 0x0D" n] by (auto simp: is_digit_def)

lemma header_prefix [consumes 2]:
  assumes "prefix w (c # show_nat n @ CRLF @ t)" and "c \<noteq> CHR 0x0D"
  obtains (cut) "find_crlf w = None" and "strict_prefix w (c # show_nat n @ CRLF)"
  | (line) t' where "w = c # show_nat n @ CRLF @ t'" and "prefix t' t"
      and "find_crlf (c # show_nat n @ CRLF @ t') = Some (Suc (length (show_nat n)))"
  using crlf_prefix [of w "c # show_nat n" t] assms by auto

lemma length_CRLF [simp]: "length CRLF = 2"
  by (simp add: CRLF_def)

lemma resp_bulk_ge [simp]: "6 \<le> length (resp_bulk s)"
  using length_greater_0_conv [of "show_nat (length s)"] by (simp add: resp_bulk_def Suc_le_eq)

lemma resp_bulks_ge: "6 * length args \<le> length (concat (map resp_bulk args))"
  by (induction args) (auto intro: add_le_mono)

section \<open>A parser with the laws\<close>

datatype 'a chunk = Got 'a string | More | Bad

definition take_bulk :: "nat \<Rightarrow> string \<Rightarrow> string chunk" where
  "take_bulk limit s =
     (if s = [] then More
      else if hd s \<noteq> CHR ''$'' then Bad
      else case find_crlf s of
             None \<Rightarrow> More
           | Some i \<Rightarrow>
               let n = digits_val (take (i - 1) (tl s)); body = drop (i + 2) s
               in if limit < n then Bad else if length body < n + 2 then More
                  else Got (take n body) (drop (n + 2) body))"

fun take_bulks :: "nat \<Rightarrow> nat \<Rightarrow> string \<Rightarrow> string list chunk" where
  "take_bulks limit 0 s = Got [] s"
| "take_bulks limit (Suc n) s =
     (case take_bulk limit s of
        Got a s' \<Rightarrow> (case take_bulks limit n s' of Got as s'' \<Rightarrow> Got (a # as) s'' | More \<Rightarrow> More | Bad \<Rightarrow> Bad)
      | More \<Rightarrow> More | Bad \<Rightarrow> Bad)"

definition chunk_result :: "string \<Rightarrow> ('a \<Rightarrow> RespValue) \<Rightarrow> 'a chunk \<Rightarrow> RespResult" where
  "chunk_result s f c =
     (case c of
        Got a rest \<Rightarrow> \<lparr>res_status = RespOk, res_value = Some (f a), res_consumed = length s - length rest, res_error = []\<rparr>
      | More \<Rightarrow> \<lparr>res_status = RespNeedMore, res_value = None, res_consumed = 0, res_error = []\<rparr>
      | Bad \<Rightarrow> \<lparr>res_status = RespFail, res_value = None, res_consumed = 0, res_error = ''invalid RESP''\<rparr>)"

definition ref_UnpackOne :: "string \<Rightarrow> nat \<Rightarrow> RespLimits \<Rightarrow> RespResult" where
  "ref_UnpackOne s scratch L =
     (if s \<noteq> [] \<and> hd s = CHR ''*'' then
        (case find_crlf s of
           None \<Rightarrow> chunk_result s RespBulk More
         | Some i \<Rightarrow>
             let n = digits_val (take (i - 1) (tl s))
             in if max_array_elements L < n \<or> scratch \<le> n then chunk_result s RespBulk Bad
                else chunk_result s (\<lambda>as. RespArray (map RespBulk as))
                       (take_bulks (max_bulk_bytes L) n (drop (i + 2) s)))
      else chunk_result s RespBulk (take_bulk (max_bulk_bytes L) s))"

definition ref_resp :: Resp where
  "ref_resp = \<lparr>UnpackOne = ref_UnpackOne,
     PackArrayHeader = (\<lambda>n out. out @ resp_header n),
     PackBulkString = (\<lambda>s out. out @ resp_bulk s),
     PackSimpleString = (\<lambda>s out. out @ CHR ''+'' # s @ CRLF),
     PackError = (\<lambda>s out. out @ CHR ''-'' # s @ CRLF),
     PackInteger = (\<lambda>k out. out @ CHR '':'' # to_string k @ CRLF),
     PackNullBulkString = (\<lambda>out. out @ ''$-1'' @ CRLF)\<rparr>"

lemma find_crlf_less: "find_crlf s = Some i \<Longrightarrow> i + 2 \<le> length s"
  by (induction s arbitrary: i rule: find_crlf.induct) (fastforce split: if_splits)+

lemma take_bulk_ok: "length s \<le> limit \<Longrightarrow> take_bulk limit (resp_bulk s @ rest) = Got s rest"
proof -
  have "find_crlf (resp_bulk s @ rest) = Some (Suc (length (show_nat (length s))))"
    using find_crlf_line [of "CHR ''$'' # show_nat (length s)" "s @ CRLF @ rest"] by (simp add: resp_bulk_def)
  then show "length s \<le> limit \<Longrightarrow> ?thesis" by (simp add: take_bulk_def resp_bulk_def CRLF_def)
qed

lemma take_bulk_more:
  assumes "strict_prefix w (resp_bulk s)" and "length s \<le> limit"
  shows "take_bulk limit w = More"
proof -
  have "prefix w (CHR ''$'' # show_nat (length s) @ CRLF @ s @ CRLF)"
    using assms(1) by (simp add: resp_bulk_def strict_prefix_def)
  moreover have "CHR ''$'' \<noteq> CHR 0x0D" by simp
  ultimately show ?thesis
  proof (cases rule: header_prefix)
    case cut
    then show ?thesis by (cases w) (auto simp: take_bulk_def)
  next
    case (line t')
    with assms(1) have "strict_prefix t' (s @ CRLF)" by (simp add: resp_bulk_def strict_prefix_def)
    then have "length t' < length s + 2" using prefix_length_less by fastforce
    with line assms(2) show ?thesis by (simp add: take_bulk_def)
  qed
qed

lemma take_bulks_ok:
  "list_all (\<lambda>a. length a \<le> limit) args \<Longrightarrow>
   take_bulks limit (length args) (concat (map resp_bulk args) @ rest) = Got args rest"
  by (induction args arbitrary: rest) (simp_all add: take_bulk_ok)

lemma take_bulks_more:
  "strict_prefix w (concat (map resp_bulk args)) \<Longrightarrow> list_all (\<lambda>a. length a \<le> limit) args \<Longrightarrow>
   take_bulks limit (length args) w = More"
proof (induction args arbitrary: w)
  case (Cons a as)
  have "prefix w (resp_bulk a @ concat (map resp_bulk as))" using Cons.prems(1) by (simp add: strict_prefix_def)
  then show ?case
  proof (cases rule: prefix_append_cases)
    case 1
    then show ?thesis using Cons.prems(2) by (simp add: take_bulk_more)
  next
    case (2 w')
    then have "strict_prefix w' (concat (map resp_bulk as))" using Cons.prems(1) by (auto simp: strict_prefix_def)
    with 2 Cons show ?thesis by (simp add: take_bulk_ok)
  qed
qed simp

lemma take_bulk_rest: "take_bulk limit s = Got a rest \<Longrightarrow> length rest < length s"
  by (auto simp: take_bulk_def Let_def dest!: find_crlf_less split: if_splits option.splits)

lemma take_bulks_rest: "take_bulks limit n s = Got as rest \<Longrightarrow> length rest \<le> length s"
  by (induction n arbitrary: s as) (fastforce dest: take_bulk_rest split: chunk.splits)+

lemma take_bulks_line:
  "find_crlf w = Some i \<Longrightarrow> take_bulks limit n (drop (Suc (Suc i)) w) = Got as rest \<Longrightarrow> length rest < length w"
  using find_crlf_less [of w i] take_bulks_rest [of limit n "drop (Suc (Suc i)) w" as rest] by simp

lemma chunk_result_consumed:
  assumes "res_status (chunk_result s f c) = RespOk" and "\<And>a rest. c = Got a rest \<Longrightarrow> length rest < length s"
  shows "0 < res_consumed (chunk_result s f c) \<and> res_consumed (chunk_result s f c) \<le> length s"
  using assms by (cases c) (auto simp: chunk_result_def)

lemma chunk_result_failed [simp]:
  "res_status (chunk_result s f More) = RespNeedMore" "res_status (chunk_result s f Bad) = RespFail"
  by (simp_all add: chunk_result_def)

interpretation ref_resp_lib: resp_lib ref_resp
proof
  fix args rest scratch and L :: RespLimits
  assume fits: "fits_limits L args" "length args < scratch"
  have line: "find_crlf (resp_header (length args) @ t) = Some (Suc (length (show_nat (length args))))" for t
    using find_crlf_line [of "CHR ''*'' # show_nat (length args)" t] by (simp add: resp_header_def)
  have "UnpackOne ref_resp (resp_array args @ rest) scratch L =
      \<lparr>res_status = RespOk, res_value = Some (RespArray (map RespBulk args)),
       res_consumed = length (resp_array args), res_error = []\<rparr>"
    using fits line [of "concat (map resp_bulk args) @ rest"]
    by (simp add: ref_resp_def ref_UnpackOne_def resp_array_def fits_limits_def chunk_result_def take_bulks_ok)
       (simp add: resp_header_def chunk_result_def take_bulks_ok)
  then show "\<exists>err. UnpackOne ref_resp (resp_array args @ rest) scratch L =
      \<lparr>res_status = RespOk, res_value = Some (RespArray (map RespBulk args)),
       res_consumed = length (resp_array args), res_error = err\<rparr>" by blast
next
  fix args w scratch and L :: RespLimits
  assume fits: "fits_limits L args" "length args < scratch" and w: "strict_prefix w (resp_array args)"
  have "prefix w (CHR ''*'' # show_nat (length args) @ CRLF @ concat (map resp_bulk args))"
    using w by (simp add: resp_array_def resp_header_def strict_prefix_def)
  moreover have "CHR ''*'' \<noteq> CHR 0x0D" by simp
  ultimately show "res_status (UnpackOne ref_resp w scratch L) = RespNeedMore"
  proof (cases rule: header_prefix)
    case cut
    then show ?thesis by (cases w) (auto simp: ref_resp_def ref_UnpackOne_def chunk_result_def take_bulk_def)
  next
    case (line t')
    with w have "strict_prefix t' (concat (map resp_bulk args))"
      by (simp add: resp_array_def resp_header_def strict_prefix_def)
    with line fits show ?thesis
      by (simp add: ref_resp_def ref_UnpackOne_def fits_limits_def chunk_result_def take_bulks_more)
  qed
next
  fix w scratch and L :: RespLimits
  assume "res_status (UnpackOne ref_resp w scratch L) = RespOk"
  then show "0 < res_consumed (UnpackOne ref_resp w scratch L) \<and> res_consumed (UnpackOne ref_resp w scratch L) \<le> length w"
    by (cases "w = []")
      (auto simp: ref_resp_def ref_UnpackOne_def take_bulk_def [of _ "[]"] Let_def split: if_splits option.splits
        intro!: chunk_result_consumed dest: take_bulk_rest take_bulks_line)
next
  fix s w scratch and L :: RespLimits
  assume w: "length s \<le> max_bulk_bytes L" "strict_prefix w (resp_bulk s)"
  then have "w \<noteq> [] \<Longrightarrow> hd w = CHR ''$''" by (cases w) (auto simp: resp_bulk_def strict_prefix_def)
  with w show "res_status (UnpackOne ref_resp w scratch L) = RespNeedMore"
    by (auto simp: ref_resp_def ref_UnpackOne_def take_bulk_more)
qed (simp_all add: ref_resp_def ref_UnpackOne_def chunk_result_def take_bulk_ok, simp add: resp_bulk_def)

end
