(* ===== verification/CacheEngine.thy ===== *)
theory CacheEngine
  imports SlotExpiry Common
begin

text \<open>
  The store as the commands see it, \<^verbatim>\<open>src/cache/cache_engine.h\<close> and \<^verbatim>\<open>cache_engine.cpp\<close>: a fixed
  vector of \<open>kSlotCount\<close> slots, the slot of a key chosen by its hash. The vector is a function on
  slot numbers; \<^verbatim>\<open>slots_.at(i)\<close> throws \<^verbatim>\<open>std::out_of_range\<close> from \<open>kSlotCount\<close> on, which is \<open>None\<close>
  here for the operations that take a slot number.
\<close>

section \<open>The engine\<close>

record 'o CacheEngine =
  slots :: "nat \<Rightarrow> 'o HashSlot"

definition CacheEngine_new :: "('o, 'h, 's, 'z) containers \<Rightarrow> 'o CacheEngine" where
  "CacheEngine_new C = \<lparr>slots = (\<lambda>i. HashSlot_new C)\<rparr>"

definition SlotCount :: "'o CacheEngine \<Rightarrow> nat" where
  "SlotCount e = kSlotCount"

definition SlotById :: "'o CacheEngine \<Rightarrow> nat \<Rightarrow> 'o HashSlot option" where
  "SlotById e slot_id = (if slot_id < SlotCount e then Some (slots e slot_id) else None)"

text \<open>The slot of a key; \<open>SlotForKey_less\<close> is why its \<^verbatim>\<open>at\<close> does not throw.\<close>

definition KeySlot :: "'o CacheEngine \<Rightarrow> string \<Rightarrow> 'o HashSlot" where
  "KeySlot e key = slots e (SlotForKey key)"

definition put_slot :: "'o CacheEngine \<Rightarrow> nat \<Rightarrow> 'o HashSlot \<Rightarrow> 'o CacheEngine" where
  "put_slot e i s = e\<lparr>slots := (slots e)(i := s)\<rparr>"

definition CacheEngine_Get ::
  "('o, 'h, 's, 'z) containers \<Rightarrow> 'o CacheEngine \<Rightarrow> string \<Rightarrow> u64 \<Rightarrow> ('h, 's, 'z) RedisObject option" where
  "CacheEngine_Get C e key now_us = HashSlot_Get C (KeySlot e key) key now_us"

definition CacheEngine_ForEachLiveObjectInSlot ::
  "('o, 'h, 's, 'z) containers \<Rightarrow> 'o CacheEngine \<Rightarrow> nat \<Rightarrow> u64 \<Rightarrow>
   (string \<times> ('h, 's, 'z) RedisObject) list option" where
  "CacheEngine_ForEachLiveObjectInSlot C e slot_id now_us =
     map_option (\<lambda>s. HashSlot_ForEachLiveObject C s now_us) (SlotById e slot_id)"

definition CacheEngine_Set ::
  "('o, 'h, 's, 'z) containers \<Rightarrow> 'o CacheEngine \<Rightarrow> string \<Rightarrow> ('h, 's, 'z) RedisObject \<Rightarrow>
   BinlogRecord \<Rightarrow> u64 \<Rightarrow> 'o CacheEngine \<times> WriteResult" where
  "CacheEngine_Set C e key obj r now_us =
     (let (s, wr) = HashSlot_Set C (KeySlot e key) key obj r now_us
      in (put_slot e (SlotForKey key) s, wr))"

definition CacheEngine_Mutate ::
  "('o, 'h, 's, 'z) containers \<Rightarrow> 'o CacheEngine \<Rightarrow> string \<Rightarrow>
   (('h, 's, 'z) RedisObject option \<Rightarrow> ('h, 's, 'z) MutationResult \<times> 'c) \<Rightarrow>
   BinlogRecord \<Rightarrow> u64 \<Rightarrow> 'o CacheEngine \<times> WriteResult \<times> 'c" where
  "CacheEngine_Mutate C e key mutator r now_us =
     (let (s, wr, captured) = HashSlot_Mutate C (KeySlot e key) key mutator r now_us
      in (put_slot e (SlotForKey key) s, wr, captured))"

definition CacheEngine_Update ::
  "('o, 'h, 's, 'z) containers \<Rightarrow> 'o CacheEngine \<Rightarrow> string \<Rightarrow>
   (('h, 's, 'z) RedisObject option \<Rightarrow> ('h, 's, 'z) RedisObject option \<times> 'c) \<Rightarrow>
   BinlogRecord \<Rightarrow> u64 \<Rightarrow> 'o CacheEngine \<times> WriteResult \<times> 'c" where
  "CacheEngine_Update C e key updater r now_us =
     (let (s, wr, captured) = HashSlot_Update C (KeySlot e key) key updater r now_us
      in (put_slot e (SlotForKey key) s, wr, captured))"

definition CacheEngine_Del ::
  "('o, 'h, 's, 'z) containers \<Rightarrow> 'o CacheEngine \<Rightarrow> string \<Rightarrow> u64 \<Rightarrow> 'o CacheEngine \<times> WriteResult" where
  "CacheEngine_Del C e key now_us =
     (let (s, wr) = HashSlot_Del C (KeySlot e key) key now_us
      in (put_slot e (SlotForKey key) s, wr))"

definition CacheEngine_DeleteExpiredInSlot ::
  "('o, 'h, 's, 'z) containers \<Rightarrow> 'o CacheEngine \<Rightarrow> nat \<Rightarrow> nat \<Rightarrow> u64 \<Rightarrow> ('o CacheEngine \<times> nat) option" where
  "CacheEngine_DeleteExpiredInSlot C e slot_id max_keys now_us =
     map_option (\<lambda>s. let (s', deleted) = HashSlot_DeleteExpired C s max_keys now_us
                     in (put_slot e slot_id s', deleted)) (SlotById e slot_id)"

definition CacheEngine_Expire ::
  "('o, 'h, 's, 'z) containers \<Rightarrow> 'o CacheEngine \<Rightarrow> string \<Rightarrow> int \<Rightarrow> u64 \<Rightarrow> 'o CacheEngine \<times> bool" where
  "CacheEngine_Expire C e key seconds now_us =
     (let (s, changed) = HashSlot_Expire C (KeySlot e key) key seconds now_us
      in (put_slot e (SlotForKey key) s, changed))"

definition CacheEngine_Ttl :: "('o, 'h, 's, 'z) containers \<Rightarrow> 'o CacheEngine \<Rightarrow> string \<Rightarrow> u64 \<Rightarrow> int" where
  "CacheEngine_Ttl C e key now_us = HashSlot_Ttl C (KeySlot e key) key now_us"

definition CacheEngine_InstallSlotReplicaSnapshot ::
  "'o CacheEngine \<Rightarrow> nat \<Rightarrow> 'o \<Rightarrow> u64 \<Rightarrow> 'o CacheEngine option" where
  "CacheEngine_InstallSlotReplicaSnapshot e slot_id m seq =
     map_option (\<lambda>s. put_slot e slot_id (HashSlot_InstallReplicaSnapshot s m seq)) (SlotById e slot_id)"

definition CacheEngine_MarkSlotReplicaAppliedSeq ::
  "'o CacheEngine \<Rightarrow> nat \<Rightarrow> u64 \<Rightarrow> 'o CacheEngine option" where
  "CacheEngine_MarkSlotReplicaAppliedSeq e slot_id seq =
     map_option (\<lambda>s. put_slot e slot_id (HashSlot_MarkReplicaAppliedSeq s seq)) (SlotById e slot_id)"

definition DisableBinlog :: "'o CacheEngine \<Rightarrow> 'o CacheEngine" where
  "DisableBinlog e = e\<lparr>slots := (\<lambda>i. HashSlot_SetLogWrites (slots e i) False)\<rparr>"

section \<open>The contract of an object store\<close>

text \<open>
  What the commands rely on, whatever keeps the objects: reading shows the unexpired objects of an
  abstract map, and every write changes the entry of its key alone. A slot and the whole engine
  both meet it.
\<close>

definition live :: "u64 \<Rightarrow> ('h, 's, 'z) RedisObject option \<Rightarrow> ('h, 's, 'z) RedisObject option" where
  "live now x = (case x of None \<Rightarrow> None | Some ob \<Rightarrow> if IsExpired ob now then None else Some ob)"

locale object_store =
  fixes view :: "'e \<Rightarrow> string \<Rightarrow> ('h, 's, 'z) RedisObject option"
    and get :: "'e \<Rightarrow> string \<Rightarrow> u64 \<Rightarrow> ('h, 's, 'z) RedisObject option"
    and set_op :: "'e \<Rightarrow> string \<Rightarrow> ('h, 's, 'z) RedisObject \<Rightarrow> BinlogRecord \<Rightarrow> u64 \<Rightarrow> 'e \<times> WriteResult"
    and mutate :: "'e \<Rightarrow> string \<Rightarrow>
      (('h, 's, 'z) RedisObject option \<Rightarrow> ('h, 's, 'z) MutationResult \<times> 'c) \<Rightarrow>
      BinlogRecord \<Rightarrow> u64 \<Rightarrow> 'e \<times> WriteResult \<times> 'c"
    and del :: "'e \<Rightarrow> string \<Rightarrow> u64 \<Rightarrow> 'e \<times> WriteResult"
    and expire :: "'e \<Rightarrow> string \<Rightarrow> int \<Rightarrow> u64 \<Rightarrow> 'e \<times> bool"
  assumes get_live: "get e k now = live now (view e k)"
    and set_view_law: "view (fst (set_op e k ob r now)) = (view e)(k := Some ob)"
    and set_created: "wr_created (snd (set_op e k ob r now)) \<longleftrightarrow> view e k = None"
    and mutate_captured: "snd (snd (mutate e k f r now)) = snd (f (get e k now))"
    and mutate_none: "mutation_effect (get e k now) (fst (f (get e k now))) = None \<Longrightarrow>
      fst (mutate e k f r now) = e \<and> \<not> wr_changed (fst (snd (mutate e k f r now)))"
    and mutate_some: "mutation_effect (get e k now) (fst (f (get e k now))) = Some x \<Longrightarrow>
      view (fst (mutate e k f r now)) = (view e)(k := x) \<and> wr_changed (fst (snd (mutate e k f r now))) \<and>
      (wr_created (fst (snd (mutate e k f r now))) \<longleftrightarrow> get e k now = None)"
    and del_missing: "get e k now = None \<Longrightarrow>
      fst (del e k now) = e \<and> \<not> wr_changed (snd (del e k now))"
    and del_live: "get e k now = Some ob \<Longrightarrow>
      view (fst (del e k now)) = (view e)(k := None) \<and> wr_changed (snd (del e k now))"
    and expire_missing: "get e k now = None \<Longrightarrow> expire e k secs now = (e, False)"
    and expire_live: "get e k now = Some ob \<Longrightarrow> 0 < secs \<Longrightarrow>
      view (fst (expire e k secs now)) =
        (view e)(k := Some (WithDeadline ob (SaturatingDeadlineUs now (SaturatingTtlUs secs)))) \<and>
      snd (expire e k secs now)"
    and expire_del: "secs \<le> 0 \<Longrightarrow>
      expire e k secs now = (fst (del e k now), wr_changed (snd (del e k now)))"
begin

lemma get_set: "get (fst (set_op e k ob r now)) k' now' = (if k' = k then live now' (Some ob) else get e k' now')"
  by (simp add: get_live set_view_law)

lemma del_get: "get (fst (del e k now)) k' now = (if k' = k then None else get e k' now)"
proof (cases "get e k now")
  case None
  then show ?thesis using del_missing [of e k now] by auto
next
  case (Some ob)
  then show ?thesis using del_live [of e k now ob] by (simp add: get_live live_def)
qed

lemma mutate_other: "k' \<noteq> k \<Longrightarrow> view (fst (mutate e k f r now)) k' = view e k'"
  using mutate_none [of e k now f r] mutate_some [of e k now f _ r]
  by (cases "mutation_effect (get e k now) (fst (f (get e k now)))") auto

lemma mutate_get:
  "get (fst (mutate e k f r now)) k now =
     (case mutation_effect (get e k now) (fst (f (get e k now))) of
        None \<Rightarrow> get e k now | Some x \<Rightarrow> live now x)"
  using mutate_none [of e k now f r] mutate_some [of e k now f _ r]
  by (auto simp: get_live split: option.splits)

lemma expire_get_other: "k' \<noteq> k \<Longrightarrow> get (fst (expire e k secs now)) k' now' = get e k' now'"
proof (cases "get e k now")
  case (Some ob)
  assume "k' \<noteq> k"
  then show ?thesis
    using Some expire_live [of e k now ob secs] del_live [of e k now ob]
    by (cases "0 < secs") (auto simp: expire_del get_live)
qed (simp add: expire_missing)

end

lemma HashSlot_Get_live: "HashSlot_Get C s key now = live now (slot_view C s key)"
  by (simp add: Get_view live_def)

sublocale imt_lib \<subseteq> slot_store: object_store "slot_view C" "HashSlot_Get C" "HashSlot_Set C"
  "HashSlot_Mutate C" "HashSlot_Del C" "HashSlot_Expire C"
proof unfold_locales
  fix e k f r now
  assume none: "mutation_effect (HashSlot_Get C e k now) (fst (f (HashSlot_Get C e k now))) = None"
  then show "fst (HashSlot_Mutate C e k f r now) = e \<and> \<not> wr_changed (fst (snd (HashSlot_Mutate C e k f r now)))"
    by (simp add: Mutate_unchanged)
next
  fix e k f r now x
  assume some: "mutation_effect (HashSlot_Get C e k now) (fst (f (HashSlot_Get C e k now))) = Some x"
  from Mutate_committed [of e k now f x r, OF some]
  show "slot_view C (fst (HashSlot_Mutate C e k f r now)) = (slot_view C e)(k := x) \<and>
     wr_changed (fst (snd (HashSlot_Mutate C e k f r now))) \<and>
     (wr_created (fst (snd (HashSlot_Mutate C e k f r now))) \<longleftrightarrow> HashSlot_Get C e k now = None)"
    by (simp add: committed_def)
next
  fix e k ob r now
  show "slot_view C (fst (HashSlot_Set C e k ob r now)) = (slot_view C e)(k := Some ob)"
    using Set_committed [of e k ob r now] by (simp add: committed_def)
next
  fix e k now ob
  assume "HashSlot_Get C e k now = Some ob"
  from Del_live [OF this] show "slot_view C (fst (HashSlot_Del C e k now)) = (slot_view C e)(k := None) \<and>
    wr_changed (snd (HashSlot_Del C e k now))" by (simp add: committed_def)
next
  fix e k now ob and secs :: int
  assume "HashSlot_Get C e k now = Some ob" "0 < secs"
  from Expire_live [OF this] show "slot_view C (fst (HashSlot_Expire C e k secs now)) =
     (slot_view C e)(k := Some (WithDeadline ob (SaturatingDeadlineUs now (SaturatingTtlUs secs)))) \<and>
     snd (HashSlot_Expire C e k secs now)" by (simp add: committed_def)
qed (simp_all add: HashSlot_Get_live Mutate_captured Del_missing Expire_missing Expire_Del
      HashSlot_Set_def slot_view_def)

section \<open>The engine meets the contract\<close>

definition engine_view ::
  "('o, 'h, 's, 'z) containers \<Rightarrow> 'o CacheEngine \<Rightarrow> string \<Rightarrow> ('h, 's, 'z) RedisObject option" where
  "engine_view C e key = slot_view C (KeySlot e key) key"

text \<open>A write commits in the slot of its key and leaves the other slots alone.\<close>

definition engine_committed ::
  "('o, 'h, 's, 'z) containers \<Rightarrow> 'o CacheEngine \<Rightarrow> 'o CacheEngine \<Rightarrow> string \<Rightarrow>
   ('h, 's, 'z) RedisObject option \<Rightarrow> BinlogRecord \<Rightarrow> u64 \<Rightarrow> bool" where
  "engine_committed C e e' key x r now \<longleftrightarrow>
     (\<exists>s. committed C (KeySlot e key) s key x r now \<and> e' = put_slot e (SlotForKey key) s)"

lemma put_slot_same [simp]: "put_slot e (SlotForKey key) (KeySlot e key) = e"
  by (simp add: put_slot_def KeySlot_def)

lemma slots_put_slot [simp]: "slots (put_slot e i s) = (slots e)(i := s)"
  by (simp add: put_slot_def)

lemma engine_committed_view:
  "engine_committed C e e' key x r now \<Longrightarrow> engine_view C e' = (engine_view C e)(key := x)"
  by (auto simp: engine_committed_def committed_def engine_view_def KeySlot_def fun_eq_iff)

lemma CacheEngine_Get_live: "CacheEngine_Get C e key now = live now (engine_view C e key)"
  by (simp add: CacheEngine_Get_def engine_view_def HashSlot_Get_live)

lemma CacheEngine_Get_Some: "CacheEngine_Get C e key now = Some ob \<Longrightarrow> engine_view C e key = Some ob"
  by (auto simp: CacheEngine_Get_live live_def split: option.splits if_splits)

context imt_lib begin

lemma engine_Set_committed:
  "engine_committed C e (fst (CacheEngine_Set C e key ob r now)) key (Some ob) r now"
  using Set_committed [of "KeySlot e key" key ob r now]
  by (auto simp: engine_committed_def CacheEngine_Set_def split: prod.splits)

lemma engine_Mutate_none:
  assumes "mutation_effect (CacheEngine_Get C e key now) (fst (f (CacheEngine_Get C e key now))) = None"
  shows "CacheEngine_Mutate C e key f r now =
    (e, write_result False False (slot_seq (KeySlot e key)), snd (f (CacheEngine_Get C e key now)))"
  using Mutate_unchanged [of "KeySlot e key" key now f r] assms
  by (simp add: CacheEngine_Mutate_def CacheEngine_Get_def)

lemma engine_Mutate_some:
  assumes "mutation_effect (CacheEngine_Get C e key now) (fst (f (CacheEngine_Get C e key now))) = Some x"
  obtains e' where "engine_committed C e e' key x
      (mutation_log_record r (fst (f (CacheEngine_Get C e key now)))) now"
    and "CacheEngine_Mutate C e key f r now =
      (e', write_result True (CacheEngine_Get C e key now = None) (slot_seq (KeySlot e key) + 1),
       snd (f (CacheEngine_Get C e key now)))"
proof -
  obtain s wr out where m: "HashSlot_Mutate C (KeySlot e key) key f r now = (s, wr, out)"
    by (cases "HashSlot_Mutate C (KeySlot e key) key f r now")
  have "engine_committed C e (put_slot e (SlotForKey key) s) key x
      (mutation_log_record r (fst (f (CacheEngine_Get C e key now)))) now"
    using Mutate_committed [of "KeySlot e key" key now f x r] assms m
    by (auto simp: engine_committed_def CacheEngine_Get_def)
  moreover have "CacheEngine_Mutate C e key f r now =
      (put_slot e (SlotForKey key) s,
       write_result True (CacheEngine_Get C e key now = None) (slot_seq (KeySlot e key) + 1),
       snd (f (CacheEngine_Get C e key now)))"
    using Mutate_committed [of "KeySlot e key" key now f x r] assms m Mutate_captured [of C "KeySlot e key" key f r now]
    by (simp add: CacheEngine_Mutate_def CacheEngine_Get_def)
  ultimately show ?thesis by (rule that)
qed

lemma engine_Del_live:
  assumes "CacheEngine_Get C e key now = Some ob"
  obtains e' where "engine_committed C e e' key None (new_record\<lparr>rec_args := [''DEL'', key]\<rparr>) now"
    and "CacheEngine_Del C e key now = (e', write_result True False (slot_seq (KeySlot e key) + 1))"
proof (rule that)
  let ?d = "HashSlot_Del C (KeySlot e key) key now"
  show "CacheEngine_Del C e key now = (put_slot e (SlotForKey key) (fst ?d), write_result True False (slot_seq (KeySlot e key) + 1))"
    using Del_live [of "KeySlot e key" key now ob] assms by (simp add: CacheEngine_Get_def CacheEngine_Del_def case_prod_beta)
qed (use Del_live [of "KeySlot e key" key now ob] assms in \<open>auto simp: engine_committed_def CacheEngine_Get_def\<close>)

lemma engine_Del_missing:
  "CacheEngine_Get C e key now = None \<Longrightarrow>
   CacheEngine_Del C e key now = (e, write_result False False (slot_seq (KeySlot e key)))"
  by (simp add: CacheEngine_Get_def CacheEngine_Del_def Del_missing)

lemma engine_Expire_live:
  assumes "CacheEngine_Get C e key now = Some ob" and "0 < secs"
  obtains e' where "engine_committed C e e' key
      (Some (WithDeadline ob (SaturatingDeadlineUs now (SaturatingTtlUs secs))))
      (new_record\<lparr>rec_args := [''EXPIRE'', key, to_string secs]\<rparr>) now"
    and "CacheEngine_Expire C e key secs now = (e', True)"
proof (rule that)
  let ?d = "HashSlot_Expire C (KeySlot e key) key secs now"
  show "CacheEngine_Expire C e key secs now = (put_slot e (SlotForKey key) (fst ?d), True)"
    using Expire_live [of "KeySlot e key" key now ob secs] assms by (simp add: CacheEngine_Get_def CacheEngine_Expire_def case_prod_beta)
qed (use Expire_live [of "KeySlot e key" key now ob secs] assms in \<open>auto simp: engine_committed_def CacheEngine_Get_def\<close>)

lemma engine_Expire_missing:
  "CacheEngine_Get C e key now = None \<Longrightarrow> CacheEngine_Expire C e key secs now = (e, False)"
  by (simp add: CacheEngine_Get_def CacheEngine_Expire_def Expire_missing)

lemma engine_Expire_Del:
  "secs \<le> 0 \<Longrightarrow> CacheEngine_Expire C e key secs now =
     (fst (CacheEngine_Del C e key now), wr_changed (snd (CacheEngine_Del C e key now)))"
  by (simp add: CacheEngine_Expire_def CacheEngine_Del_def Expire_Del split: prod.splits)

end

sublocale imt_lib \<subseteq> engine_store: object_store "engine_view C" "CacheEngine_Get C" "CacheEngine_Set C"
  "CacheEngine_Mutate C" "CacheEngine_Del C" "CacheEngine_Expire C"
proof unfold_locales
  fix e k f r now
  assume none: "mutation_effect (CacheEngine_Get C e k now) (fst (f (CacheEngine_Get C e k now))) = None"
  then show "fst (CacheEngine_Mutate C e k f r now) = e \<and> \<not> wr_changed (fst (snd (CacheEngine_Mutate C e k f r now)))"
    by (simp add: engine_Mutate_none)
next
  fix e k f r now x
  assume some: "mutation_effect (CacheEngine_Get C e k now) (fst (f (CacheEngine_Get C e k now))) = Some x"
  show "engine_view C (fst (CacheEngine_Mutate C e k f r now)) = (engine_view C e)(k := x) \<and>
     wr_changed (fst (snd (CacheEngine_Mutate C e k f r now))) \<and>
     (wr_created (fst (snd (CacheEngine_Mutate C e k f r now))) \<longleftrightarrow> CacheEngine_Get C e k now = None)"
    by (rule engine_Mutate_some [of e k now f x r, OF some]) (simp add: engine_committed_view)
next
  fix e k f r now
  show "snd (snd (CacheEngine_Mutate C e k f r now)) = snd (f (CacheEngine_Get C e k now))"
    using Mutate_captured [of C "KeySlot e k" k f r now]
    by (simp add: CacheEngine_Mutate_def CacheEngine_Get_def case_prod_beta)
next
  fix e k ob r now
  show "engine_view C (fst (CacheEngine_Set C e k ob r now)) = (engine_view C e)(k := Some ob)"
    by (rule engine_committed_view [OF engine_Set_committed])
  show "wr_created (snd (CacheEngine_Set C e k ob r now)) \<longleftrightarrow> engine_view C e k = None"
    using slot_store.set_created [of "KeySlot e k" k ob r now]
    by (simp add: CacheEngine_Set_def engine_view_def case_prod_beta)
next
  fix e k now ob
  assume "CacheEngine_Get C e k now = Some ob"
  from engine_Del_live [OF this]
  show "engine_view C (fst (CacheEngine_Del C e k now)) = (engine_view C e)(k := None) \<and>
    wr_changed (snd (CacheEngine_Del C e k now))"
    by (metis engine_committed_view fst_conv snd_conv write_result_simps(2))
next
  fix e k now ob and secs :: int
  assume "CacheEngine_Get C e k now = Some ob" "0 < secs"
  from engine_Expire_live [OF this]
  show "engine_view C (fst (CacheEngine_Expire C e k secs now)) =
     (engine_view C e)(k := Some (WithDeadline ob (SaturatingDeadlineUs now (SaturatingTtlUs secs)))) \<and>
     snd (CacheEngine_Expire C e k secs now)"
    by (metis engine_committed_view fst_conv snd_conv)
qed (auto simp: engine_Del_missing engine_Expire_missing engine_Expire_Del intro: CacheEngine_Get_live)

section \<open>Properties\<close>

text \<open>(C7) Every write of the engine refines one update of an abstract map from keys to objects: a
  callback decides on the live object of its key alone; when it decides to change nothing, or to
  delete what is not there, the engine is untouched; otherwise the entry of the key becomes what
  the callback returned, all other entries stay, the slot advances by exactly one sequence number,
  and the log gains exactly one record with that number, the time and the resulting deadline.\<close>

theorem Mutate_refines_map_update:
  fixes f :: "('h, 's, 'z) RedisObject option \<Rightarrow> ('h, 's, 'z) MutationResult \<times> 'c"
  assumes "imt_lib C"
    and "CacheEngine_Mutate C e key f r now = (e', wr, out)"
  shows "case mutation_effect (live now (engine_view C e key)) (fst (f (live now (engine_view C e key)))) of
      None \<Rightarrow> e' = e \<and> \<not> wr_changed wr \<and> wr_seq wr = slot_seq (KeySlot e key)
    | Some x \<Rightarrow> engine_view C e' = (engine_view C e)(key := x) \<and> wr_changed wr \<and>
        (\<forall>i. i \<noteq> SlotForKey key \<longrightarrow> slots e' i = slots e i) \<and>
        slot_seq (KeySlot e' key) = slot_seq (KeySlot e key) + 1 \<and>
        wr_seq wr = slot_seq (KeySlot e' key) \<and> slot_published_seq (KeySlot e' key) = wr_seq wr \<and>
        (slot_log_writes (KeySlot e key) \<longrightarrow> slot_log (KeySlot e' key) = slot_log (KeySlot e key) @
          [logged_record (KeySlot e key) (mutation_log_record r (fst (f (live now (engine_view C e key)))))
             now (deadline_of x)])"
proof (cases "mutation_effect (live now (engine_view C e key)) (fst (f (live now (engine_view C e key))))")
  case None
  with imt_lib.engine_Mutate_none [OF assms(1), of e key now f r] assms(2) show ?thesis
    by (simp add: CacheEngine_Get_live)
next
  case (Some x)
  then have "mutation_effect (CacheEngine_Get C e key now) (fst (f (CacheEngine_Get C e key now))) = Some x"
    by (simp add: CacheEngine_Get_live)
  from imt_lib.engine_Mutate_some [where f = f and e = e, OF assms(1) this] obtain e1 where
    e1: "engine_committed C e e1 key x
      (mutation_log_record r (fst (f (live now (engine_view C e key))))) now" and
    "CacheEngine_Mutate C e key f r now =
      (e1, write_result True (CacheEngine_Get C e key now = None) (slot_seq (KeySlot e key) + 1),
       snd (f (CacheEngine_Get C e key now)))"
    unfolding CacheEngine_Get_live by blast
  with assms(2) have e': "e' = e1" "wr_changed wr" "wr_seq wr = slot_seq (KeySlot e key) + 1" by auto
  from e1 obtain s where s: "committed C (KeySlot e key) s key x
      (mutation_log_record r (fst (f (live now (engine_view C e key))))) now"
    "e1 = put_slot e (SlotForKey key) s" by (auto simp: engine_committed_def)
  then have "KeySlot e1 key = s" by (simp add: KeySlot_def)
  with s e' Some engine_committed_view [OF e1] show ?thesis by (simp add: committed_def)
qed

theorem Mutate_refines_map_update_witness:
  "engine_view ref_containers (fst (CacheEngine_Mutate ref_containers (CacheEngine_new ref_containers) ''k''
      (\<lambda>e. (mutation True (Some (MakeString ''v'')), ())) new_record 5)) ''k'' = Some (MakeString ''v'')"
  using Mutate_refines_map_update [OF ref_lib.imt_lib_axioms, of "CacheEngine_new ref_containers" "''k''"
      "\<lambda>e. (mutation True (Some (MakeString ''v'')), ())" new_record 5]
  by (cases "CacheEngine_Mutate ref_containers (CacheEngine_new ref_containers) ''k''
      (\<lambda>e. (mutation True (Some (MakeString ''v'')), ())) new_record 5") (auto simp: mutation_effect_def)

end
