(* ===== verification/Response.thy ===== *)
theory Response
  imports CacheEngine
begin

text \<open>
  What the command classes share: replies (\<^verbatim>\<open>src/protocol/response.h\<close>), the common error texts, the
  replay record of a write, and the equational form of the engine's writes the command proofs use.
  A command is a function of its arguments, the engine and the time; \<^verbatim>\<open>ExecCmd\<close> is called only after
  \<^verbatim>\<open>CheckArity\<close> accepted the arguments, so its accesses by index are in range.
\<close>

section \<open>Replies\<close>

datatype Response =
    SimpleString string
  | Error string
  | Integer int
  | BulkString string
  | NullBulk
  | Array "Response list"

fun is_error :: "Response \<Rightarrow> bool" where
  "is_error (Error _) = True"
| "is_error _ = False"

definition kWrongTypeError :: string where
  "kWrongTypeError = ''WRONGTYPE Operation against a key holding the wrong kind of value''"

definition kSyntaxError :: string where
  "kSyntaxError = ''ERR syntax error''"

definition kInvalidExpireError :: string where
  "kInvalidExpireError = ''ERR invalid expire time in set''"

definition kIntegerError :: string where
  "kIntegerError = ''ERR value is not an integer or out of range''"

definition kOverflowError :: string where
  "kOverflowError = ''ERR increment or decrement would overflow''"

definition arity_error :: "string \<Rightarrow> string" where
  "arity_error name = ''ERR wrong number of arguments for '' @ [CHR 0x27] @ name @ [CHR 0x27] @ '' command''"

text \<open>\<^verbatim>\<open>MakeRecord\<close> of the command files: the upper-cased name, then the arguments from index 1 on.\<close>

definition MakeRecord :: "string \<Rightarrow> string list \<Rightarrow> BinlogRecord" where
  "MakeRecord command args = new_record\<lparr>rec_args := ToUpperAscii command # drop 1 args\<rparr>"

section \<open>Command objects\<close>

text \<open>\<^verbatim>\<open>src/command/redis_cmd.h\<close>: a command object is the record of its two virtual methods. A class that derives
  from \<^verbatim>\<open>RedisCmd\<close> has no data of its own, so it is a constant of this type.\<close>

record 'o RedisCmd =
  CheckArity :: "string list \<Rightarrow> string option"
  ExecCmd :: "string list \<Rightarrow> 'o CacheEngine \<Rightarrow> u64 \<Rightarrow> 'o CacheEngine \<times> Response"

section \<open>Writes as equations\<close>

text \<open>The engine after a write of \<open>x\<close> to \<open>key\<close> committed with record \<open>r\<close>.\<close>

definition commit ::
  "('o, 'h, 's, 'z) containers \<Rightarrow> 'o CacheEngine \<Rightarrow> string \<Rightarrow> ('h, 's, 'z) RedisObject option \<Rightarrow>
   BinlogRecord \<Rightarrow> u64 \<Rightarrow> 'o CacheEngine" where
  "commit C e key x r now =
     put_slot e (SlotForKey key) (HashSlot_publish (KeySlot e key) r now (deadline_of x)
       (case x of Some ob \<Rightarrow> Map_Set (objects C) (slot_map (KeySlot e key)) key ob
                | None \<Rightarrow> the (Map_Erase (objects C) (slot_map (KeySlot e key)) key)))"

context imt_lib begin

lemma commit_committed:
  assumes "x = None \<Longrightarrow> engine_view C e key \<noteq> None"
  shows "engine_committed C e (commit C e key x r now) key x r now"
proof (cases x)
  case None
  with assms obtain ob where "slot_view C (KeySlot e key) key = Some ob" by (auto simp: engine_view_def)
  from erase_view [OF this] obtain m where
    "Map_Erase (objects C) (slot_map (KeySlot e key)) key = Some m"
    "Map_Find (objects C) m = (slot_view C (KeySlot e key))(key := None)" by blast
  with None show ?thesis
    by (auto simp: engine_committed_def commit_def intro!: publish_committed)
next
  case (Some ob)
  have "committed C (KeySlot e key) (HashSlot_publish (KeySlot e key) r now (deadline_of x)
      (Map_Set (objects C) (slot_map (KeySlot e key)) key ob)) key x r now"
    by (rule publish_committed) (simp_all add: set_view Some)
  with Some show ?thesis by (auto simp: engine_committed_def commit_def)
qed

lemma commit_view [simp]:
  "(x = None \<Longrightarrow> engine_view C e key \<noteq> None) \<Longrightarrow>
   engine_view C (commit C e key x r now) = (engine_view C e)(key := x)"
  by (rule engine_committed_view [OF commit_committed])

lemma commit_Some_view: "engine_view C (commit C e key (Some ob) r now) = (engine_view C e)(key \<mapsto> ob)"
  by (rule commit_view) simp

lemma Get_commit:
  "(x = None \<Longrightarrow> engine_view C e key \<noteq> None) \<Longrightarrow>
   CacheEngine_Get C (commit C e key x r now) key' now' =
     (if key' = key then live now' x else CacheEngine_Get C e key' now')"
  by (simp add: CacheEngine_Get_live)

lemma Get_commit_Some:
  "CacheEngine_Get C (commit C e key (Some ob) r now) key' now' =
     (if key' = key then live now' (Some ob) else CacheEngine_Get C e key' now')"
  by (rule Get_commit) simp

lemma Mutate_eq:
  "CacheEngine_Mutate C e key f r now =
     (let g = CacheEngine_Get C e key now; m = fst (f g); out = snd (f g)
      in case mutation_effect g m of
           None \<Rightarrow> (e, write_result False False (slot_seq (KeySlot e key)), out)
         | Some x \<Rightarrow> (commit C e key x (mutation_log_record r m) now,
                      write_result True (g = None) (slot_seq (KeySlot e key) + 1), out))"
proof (cases "mutation_effect (CacheEngine_Get C e key now) (fst (f (CacheEngine_Get C e key now)))")
  case None
  then show ?thesis by (simp add: engine_Mutate_none Let_def)
next
  case (Some x)
  let ?s = "KeySlot e key"
  obtain m out where f: "f (HashSlot_Get C ?s key now) = (m, out)" by fastforce
  with Some have x: "mut_changed m" "x = mut_object m"
    "mut_object m = None \<Longrightarrow> HashSlot_Get C ?s key now \<noteq> None"
    by (auto simp: mutation_effect_def CacheEngine_Get_def split: if_splits)
  have "mut_object m = None \<Longrightarrow> Map_Erase (objects C) (slot_map ?s) key \<noteq> None"
    using x(3) by (auto simp: om.erase_None dest!: Get_Some_view simp: slot_view_def)
  with Some x f show ?thesis
    by (auto simp: CacheEngine_Mutate_def CacheEngine_Get_def Mutate_existing commit_def
        split: option.splits)
qed

lemma Update_eq:
  "CacheEngine_Update C e key f r now =
     (let g = CacheEngine_Get C e key now; out = snd (f g)
      in case fst (f g) of
           None \<Rightarrow> (e, write_result False False (slot_seq (KeySlot e key)), out)
         | Some ob \<Rightarrow> (commit C e key (Some ob) r now,
                       write_result True (g = None) (slot_seq (KeySlot e key) + 1), out))"
proof -
  have "CacheEngine_Update C e key f r now = CacheEngine_Mutate C e key
      (\<lambda>existing. let (next, captured) = f existing in (mutation (next \<noteq> None) next, captured)) r now"
    by (simp add: CacheEngine_Update_def CacheEngine_Mutate_def HashSlot_Update_def)
  then show ?thesis
    by (auto simp: Mutate_eq Let_def case_prod_beta mutation_effect_def mutation_log_record_def
        split: option.splits)
qed

lemma Del_eq:
  "CacheEngine_Del C e key now =
     (case CacheEngine_Get C e key now of
        None \<Rightarrow> (e, write_result False False (slot_seq (KeySlot e key)))
      | Some ob \<Rightarrow> (commit C e key None (new_record\<lparr>rec_args := [''DEL'', key]\<rparr>) now,
                    write_result True False (slot_seq (KeySlot e key) + 1)))"
proof (cases "CacheEngine_Get C e key now")
  case (Some ob)
  then have "HashSlot_Get C (KeySlot e key) key now = Some ob" by (simp add: CacheEngine_Get_def)
  moreover from erase_view [OF Get_Some_view [OF this]] obtain m where
    "Map_Erase (objects C) (slot_map (KeySlot e key)) key = Some m" by blast
  ultimately show ?thesis using Some
    by (auto simp: CacheEngine_Del_def HashSlot_Del_def HashSlot_Get_def commit_def deadline_of_def
        split: option.splits if_splits)
qed (simp add: engine_Del_missing)

lemma Expire_eq:
  "CacheEngine_Expire C e key secs now =
     (case CacheEngine_Get C e key now of
        None \<Rightarrow> (e, False)
      | Some ob \<Rightarrow>
          if secs \<le> 0 then (fst (CacheEngine_Del C e key now), True)
          else (commit C e key (Some (WithDeadline ob (SaturatingDeadlineUs now (SaturatingTtlUs secs))))
                  (new_record\<lparr>rec_args := [''EXPIRE'', key, to_string secs]\<rparr>) now, True))"
proof (cases "CacheEngine_Get C e key now")
  case (Some ob)
  show ?thesis
  proof (cases "secs \<le> 0")
    case True
    with Some show ?thesis by (simp add: engine_Expire_Del Del_eq)
  next
    case False
    with Some show ?thesis
      by (auto simp: CacheEngine_Expire_def HashSlot_Expire_def CacheEngine_Get_def HashSlot_Get_def
          commit_def deadline_of_def Let_def split: option.splits if_splits)
  qed
qed (simp add: engine_Expire_missing)

end

end
