(* ===== verification/RespCodec.thy ===== *)
theory RespCodec
  imports RespLib Response
begin

text \<open>
  The request parser and reply writer, \<^verbatim>\<open>src/protocol/resp_codec.cpp\<close>: a buffer of received bytes
  from which whole commands are taken. \<^verbatim>\<open>scratch_\<close> is working memory and has no state between calls.
\<close>

section \<open>Operations\<close>

record RespCodec =
  stream :: string
  codec_limits :: RespLimits
  max_stream_bytes :: nat
  protocol_error :: bool
  protocol_error_text :: string

definition RespCodec_new :: "nat \<Rightarrow> nat \<Rightarrow> nat \<Rightarrow> RespCodec" where
  "RespCodec_new max_stream max_bulk max_elements =
     \<lparr>stream = [],
      codec_limits = \<lparr>max_depth = 1, max_array_elements = max_elements, max_bulk_bytes = max_bulk\<rparr>,
      max_stream_bytes = max_stream, protocol_error = False, protocol_error_text = []\<rparr>"

definition codec_fail :: "RespCodec \<Rightarrow> string \<Rightarrow> RespCodec" where
  "codec_fail c msg = c\<lparr>protocol_error := True, protocol_error_text := msg\<rparr>"

definition AppendBytes :: "RespCodec \<Rightarrow> string \<Rightarrow> RespCodec \<times> bool" where
  "AppendBytes c bytes =
     (if protocol_error c then (c, False)
      else if max_stream_bytes c < length bytes \<or> max_stream_bytes c - length bytes < length (stream c)
      then (codec_fail c ''RESP stream size limit exceeded'', False)
      else (c\<lparr>stream := stream c @ bytes\<rparr>, True))"

definition ConvertCommand :: "RespValue \<Rightarrow> string list option" where
  "ConvertCommand value =
     (case value of
        RespArray elements \<Rightarrow>
          those (map (\<lambda>element. case element of RespBulk text \<Rightarrow> Some text | _ \<Rightarrow> None) elements)
      | _ \<Rightarrow> None)"

text \<open>The second half of \<^verbatim>\<open>NextCommand\<close>: the array whose length is known.\<close>

definition TakeCommand :: "Resp \<Rightarrow> RespCodec \<Rightarrow> nat \<Rightarrow> nat \<Rightarrow> RespCodec \<times> string list option" where
  "TakeCommand P c line_end count =
     (if (length (stream c) - line_end - 2) div 6 < count then (c, None)
      else let result = UnpackOne P (stream c) (count + 1) (codec_limits c);
               unpack_error = (codec_fail c (if res_error result = [] then ''RESP protocol error'' else res_error result), None)
           in case res_status result of
                RespNeedMore \<Rightarrow> (c, None)
              | RespFail \<Rightarrow> unpack_error
              | RespOk \<Rightarrow>
                  (case res_value result of
                     None \<Rightarrow> unpack_error
                   | Some value \<Rightarrow>
                       (case ConvertCommand value of
                          None \<Rightarrow> (codec_fail c ''expected RESP array of bulk strings'', None)
                        | Some args \<Rightarrow> (c\<lparr>stream := drop (res_consumed result) (stream c)\<rparr>, Some args))))"

text \<open>\<open>accept\<close> is the optional request policy.\<close>

definition NextCommand ::
  "Resp \<Rightarrow> (string \<Rightarrow> nat \<Rightarrow> bool) option \<Rightarrow> RespCodec \<Rightarrow> RespCodec \<times> string list option" where
  "NextCommand P accept c =
     (if protocol_error c \<or> stream c = [] then (c, None)
      else case find_crlf (stream c) of
        None \<Rightarrow> (c, None)
      | Some line_end \<Rightarrow>
          (case (if hd (stream c) \<noteq> CHR ''*'' then None else ParseInt64 (take (line_end - 1) (tl (stream c)))) of
             None \<Rightarrow> (codec_fail c ''invalid command array length'', None)
           | Some count \<Rightarrow>
               if count < 0 \<or> int (max_array_elements (codec_limits c)) < count
               then (codec_fail c ''invalid command array length'', None)
               else
                 (case accept of
                    None \<Rightarrow> TakeCommand P c line_end (nat count)
                  | Some policy \<Rightarrow>
                      if count = 0 then TakeCommand P c line_end (nat count)
                      else let parsed = UnpackOne P (drop (line_end + 2) (stream c)) 1 (codec_limits c)
                           in if res_status parsed = RespNeedMore then (c, None)
                              else (case (res_status parsed, res_value parsed) of
                                      (RespOk, Some (RespBulk name)) \<Rightarrow>
                                        if policy name (nat count) then TakeCommand P c line_end (nat count)
                                        else (codec_fail c ''command array length or name rejected'', None)
                                    | _ \<Rightarrow> (codec_fail c ''command array length or name rejected'', None)))))"

definition HasProtocolError :: "RespCodec \<Rightarrow> bool" where
  "HasProtocolError c = protocol_error c"

definition ProtocolError :: "RespCodec \<Rightarrow> string" where
  "ProtocolError c = protocol_error_text c"

definition BufferedBytes :: "RespCodec \<Rightarrow> nat" where
  "BufferedBytes c = length (stream c)"

fun PackResponse :: "Resp \<Rightarrow> Response \<Rightarrow> string \<Rightarrow> string" where
  "PackResponse P (SimpleString text) out = PackSimpleString P text out"
| "PackResponse P (Error text) out = PackError P text out"
| "PackResponse P (Integer n) out = PackInteger P n out"
| "PackResponse P (BulkString text) out = PackBulkString P text out"
| "PackResponse P NullBulk out = PackNullBulkString P out"
| "PackResponse P (Array elements) out = fold (PackResponse P) elements (PackArrayHeader P (length elements) out)"

section \<open>Taking commands from the buffer\<close>

text \<open>The loop of every caller: take commands until there is none.\<close>

partial_function (option) drain ::
  "Resp \<Rightarrow> (string \<Rightarrow> nat \<Rightarrow> bool) option \<Rightarrow> RespCodec \<Rightarrow> (RespCodec \<times> string list list) option" where
  "drain P accept c =
     (case NextCommand P accept c of
        (c', None) \<Rightarrow> Some (c', [])
      | (c', Some args) \<Rightarrow>
          Option.bind (drain P accept c') (\<lambda>(c'', rest). Some (c'', args # rest)))"

text \<open>A connection: each chunk of bytes is appended, then all commands are taken.\<close>

fun feed ::
  "Resp \<Rightarrow> (string \<Rightarrow> nat \<Rightarrow> bool) option \<Rightarrow> RespCodec \<Rightarrow> string list \<Rightarrow> (RespCodec \<times> string list list) option" where
  "feed P accept c [] = Some (c, [])"
| "feed P accept c (bytes # chunks) =
     (case AppendBytes c bytes of
        (c1, False) \<Rightarrow> Some (c1, [])
      | (c1, True) \<Rightarrow>
          (case drain P accept c1 of
             None \<Rightarrow> None
           | Some (c2, cmds) \<Rightarrow>
               (case feed P accept c2 chunks of None \<Rightarrow> None | Some (c3, rest) \<Rightarrow> Some (c3, cmds @ rest))))"

section \<open>Framing\<close>

lemma ConvertCommand_bulks [simp]: "ConvertCommand (RespArray (map RespBulk args)) = Some args"
  by (induction args) (simp_all add: ConvertCommand_def)

lemma codec_fail_simps [simp]:
  "protocol_error (codec_fail c msg)" "protocol_error_text (codec_fail c msg) = msg" "stream (codec_fail c msg) = stream c"
  by (simp_all add: codec_fail_def)

text \<open>A command the codec has to accept.\<close>

definition acceptable :: "(string \<Rightarrow> nat \<Rightarrow> bool) option \<Rightarrow> RespLimits \<Rightarrow> string list \<Rightarrow> bool" where
  "acceptable accept L args \<longleftrightarrow>
     fits_limits L args \<and> int (length args) \<le> int64_max \<and>
     (\<forall>policy. accept = Some policy \<and> args \<noteq> [] \<longrightarrow> policy (hd args) (length args))"

context resp_lib begin

lemma NextCommand_header:
  assumes "\<not> protocol_error c" and "acceptable accept (codec_limits c) args"
    and "stream c = resp_header (length args) @ w" and "parsed = UnpackOne P w 1 (codec_limits c)"
  shows "accept = None \<or> args = [] \<or> (res_status parsed = RespOk \<and> res_value parsed = Some (RespBulk (hd args))) \<Longrightarrow>
      NextCommand P accept c = TakeCommand P c (Suc (length (show_nat (length args)))) (length args)"
    and "accept \<noteq> None \<Longrightarrow> args \<noteq> [] \<Longrightarrow> res_status parsed = RespNeedMore \<Longrightarrow> NextCommand P accept c = (c, None)"
proof -
  let ?n = "length args"
  have line: "find_crlf (stream c) = Some (Suc (length (show_nat ?n)))"
    using find_crlf_line [of "CHR ''*'' # show_nat ?n" w] by (simp add: assms(3) resp_header_def)
  have "take (length (show_nat ?n)) (tl (stream c)) = to_string (int ?n)"
    by (simp add: assms(3) resp_header_def to_string_def)
  moreover have "int64_ok (int ?n)" using assms(2) by (simp add: acceptable_def int64_ok_def)
  ultimately have count: "ParseInt64 (take (length (show_nat ?n)) (tl (stream c))) = Some (int ?n)" by simp
  have "drop (Suc (length (show_nat ?n)) + 2) (stream c) = w" "stream c \<noteq> []" "hd (stream c) = CHR ''*''"
    by (simp_all add: assms(3) resp_header_def)
  moreover have "\<not> int (max_array_elements (codec_limits c)) < int ?n"
    using assms(2) by (simp add: acceptable_def fits_limits_def)
  ultimately show "accept = None \<or> args = [] \<or> (res_status parsed = RespOk \<and> res_value parsed = Some (RespBulk (hd args))) \<Longrightarrow>
      NextCommand P accept c = TakeCommand P c (Suc (length (show_nat (length args)))) (length args)"
    and "accept \<noteq> None \<Longrightarrow> args \<noteq> [] \<Longrightarrow> res_status parsed = RespNeedMore \<Longrightarrow> NextCommand P accept c = (c, None)"
    using assms(1,2,4) by (cases accept; auto simp: NextCommand_def line count acceptable_def Let_def)+
qed

lemma unpack_name:
  assumes "acceptable accept L args" and "args \<noteq> []"
  shows "res_status (UnpackOne P (concat (map resp_bulk args) @ rest) 1 L) = RespOk \<and>
    res_value (UnpackOne P (concat (map resp_bulk args) @ rest) 1 L) = Some (RespBulk (hd args))"
  using assms unpack_bulk [of "hd args" L 1 "concat (map resp_bulk (tl args)) @ rest"]
  by (cases args) (auto simp: acceptable_def fits_limits_def)

lemma NextCommand_taken:
  assumes "\<not> protocol_error c" and "acceptable accept (codec_limits c) args" and "stream c = resp_array args @ rest"
  shows "NextCommand P accept c = (c\<lparr>stream := rest\<rparr>, Some args)"
proof -
  let ?n = "length args"
  have "length (stream c) - Suc (length (show_nat ?n)) - 2 = length (concat (map resp_bulk args)) + length rest"
    by (simp add: assms(3) resp_array_def resp_header_def)
  then have room: "\<not> (length (stream c) - Suc (length (show_nat ?n)) - 2) div 6 < ?n"
    using resp_bulks_ge [of args] by linarith
  obtain err where "UnpackOne P (stream c) (?n + 1) (codec_limits c) =
      \<lparr>res_status = RespOk, res_value = Some (RespArray (map RespBulk args)),
       res_consumed = length (resp_array args), res_error = err\<rparr>"
    using unpack_array [of "codec_limits c" args "?n + 1" rest] assms(2,3) by (auto simp: acceptable_def)
  with room have "TakeCommand P c (Suc (length (show_nat ?n))) ?n = (c\<lparr>stream := rest\<rparr>, Some args)"
    by (simp add: TakeCommand_def Let_def assms(3))
  then show ?thesis
    using NextCommand_header(1) [OF assms(1,2) _ refl, of "concat (map resp_bulk args) @ rest"] assms(3)
      unpack_name [OF assms(2)] by (simp add: resp_array_def) blast
qed

text \<open>Part of a command: nothing is taken and nothing is lost.\<close>

lemma NextCommand_waits:
  assumes "\<not> protocol_error c" and "acceptable accept (codec_limits c) args" and "strict_prefix (stream c) (resp_array args)"
  shows "NextCommand P accept c = (c, None)"
proof -
  have "prefix (stream c) (CHR ''*'' # show_nat (length args) @ CRLF @ concat (map resp_bulk args))"
    using assms(3) by (simp add: resp_array_def resp_header_def strict_prefix_def)
  moreover have "CHR ''*'' \<noteq> CHR 0x0D" by simp
  ultimately show ?thesis
  proof (cases rule: header_prefix)
    case cut
    then show ?thesis by (simp add: NextCommand_def)
  next
    case (line t)
    have more: "res_status (UnpackOne P (stream c) (length args + 1) (codec_limits c)) = RespNeedMore"
      using unpack_array_more [OF _ _ assms(3), of "codec_limits c" "length args + 1"] assms(2)
      by (simp add: acceptable_def)
    then have take: "TakeCommand P c (Suc (length (show_nat (length args)))) (length args) = (c, None)"
      by (simp add: TakeCommand_def Let_def)
    have "stream c = resp_header (length args) @ t" using line by (simp add: resp_header_def)
    note header = NextCommand_header [OF assms(1,2) this refl]
    consider "args = []" | "args \<noteq> []" "strict_prefix t (resp_bulk (hd args))"
      | t' where "args \<noteq> []" "t = resp_bulk (hd args) @ t'"
    proof (cases args)
      case (Cons a as)
      with line(2) have "prefix t (resp_bulk a @ concat (map resp_bulk as))" by simp
      then show ?thesis by (cases rule: prefix_append_cases) (use that Cons in auto)
    qed (use that in simp)
    then show ?thesis
    proof cases
      case 2
      then have "res_status (UnpackOne P t 1 (codec_limits c)) = RespNeedMore"
        using assms(2) by (intro unpack_bulk_more [of "hd args"]) (cases args; auto simp: acceptable_def fits_limits_def)+
      with 2 header take show ?thesis by (cases accept) auto
    next
      case 3
      then have "res_status (UnpackOne P t 1 (codec_limits c)) = RespOk \<and>
          res_value (UnpackOne P t 1 (codec_limits c)) = Some (RespBulk (hd args))"
        using assms(2) unpack_bulk [of "hd args" "codec_limits c" 1 t']
        by (cases args) (auto simp: acceptable_def fits_limits_def)
      with header(1) take show ?thesis by auto
    qed (use header(1) take in auto)
  qed
qed

lemma drain_prefix:
  assumes "\<not> protocol_error c" and "list_all (acceptable accept (codec_limits c)) cmds"
    and "prefix (stream c) (concat (map resp_array cmds))"
  shows "\<exists>taken rest s. cmds = taken @ rest \<and> drain P accept c = Some (c\<lparr>stream := s\<rparr>, taken) \<and>
    stream c = concat (map resp_array taken) @ s \<and> (if rest = [] then s = [] else strict_prefix s (resp_array (hd rest)))"
  using assms
proof (induction cmds arbitrary: c)
  case Nil
  then have "drain P accept c = Some (c\<lparr>stream := []\<rparr>, [])" by (subst drain.simps) (simp add: NextCommand_def)
  with Nil show ?case by simp
next
  case (Cons args cmds)
  from Cons.prems(3) have "prefix (stream c) (resp_array args @ concat (map resp_array cmds))" by simp
  then show ?case
  proof (cases rule: prefix_append_cases)
    case 1
    with Cons.prems have "drain P accept c = Some (c\<lparr>stream := stream c\<rparr>, [])"
      by (subst drain.simps) (use NextCommand_waits [of c accept args] in simp)
    with 1 show ?thesis
      by (intro exI [of _ "[]"] exI [of _ "args # cmds"] exI [of _ "stream c"]) simp
  next
    case (2 w)
    let ?c = "c\<lparr>stream := w\<rparr>"
    from Cons.IH [of ?c] Cons.prems 2(2) obtain taken rest s where
      IH: "cmds = taken @ rest" "drain P accept ?c = Some (?c\<lparr>stream := s\<rparr>, taken)" "w = concat (map resp_array taken) @ s"
        "if rest = [] then s = [] else strict_prefix s (resp_array (hd rest))" by auto
    have "drain P accept c = Some (c\<lparr>stream := s\<rparr>, args # taken)"
      using Cons.prems IH(2) by (subst drain.simps) (use NextCommand_taken [of c accept args w] 2(1) in simp)
    with IH 2(1) show ?thesis
      by (intro exI [of _ "args # taken"] exI [of _ rest] exI [of _ s]) simp
  qed
qed

lemma AppendBytes_room:
  "\<not> protocol_error c \<Longrightarrow> length (stream c) + length bytes \<le> max_stream_bytes c \<Longrightarrow>
   AppendBytes c bytes = (c\<lparr>stream := stream c @ bytes\<rparr>, True)"
  by (auto simp: AppendBytes_def)

text \<open>A chunk arrives: the complete commands are taken, the rest of the buffer is the start of the next.\<close>

lemma append_drain:
  assumes "\<not> protocol_error c" and "list_all (acceptable accept (codec_limits c)) cmds"
    and "stream c @ bytes @ later = concat (map resp_array cmds)"
    and "if cmds = [] then stream c = [] else strict_prefix (stream c) (resp_array (hd cmds))"
    and "\<And>args. args \<in> set cmds \<Longrightarrow> length bytes + length (resp_array args) \<le> max_stream_bytes c"
  obtains taken rest s where "AppendBytes c bytes = (c\<lparr>stream := stream c @ bytes\<rparr>, True)" and "cmds = taken @ rest"
    and "drain P accept (c\<lparr>stream := stream c @ bytes\<rparr>) = Some (c\<lparr>stream := s\<rparr>, taken)"
    and "s @ later = concat (map resp_array rest)"
    and "if rest = [] then s = [] else strict_prefix s (resp_array (hd rest))"
proof -
  have "length (stream c) + length bytes \<le> max_stream_bytes c"
  proof (cases cmds)
    case Nil
    with assms(3) show ?thesis by simp
  next
    case (Cons args as)
    with assms(4) have "length (stream c) < length (resp_array args)" using prefix_length_less by simp
    with assms(5) [of args] Cons show ?thesis by simp
  qed
  note room = AppendBytes_room [OF assms(1) this]
  let ?c = "c\<lparr>stream := stream c @ bytes\<rparr>"
  have "prefix (stream ?c) (concat (map resp_array cmds))" using assms(3) by (simp add: prefix_def) metis
  with drain_prefix [of ?c accept cmds] assms(1,2) obtain taken rest s where
    d: "cmds = taken @ rest" "drain P accept ?c = Some (c\<lparr>stream := s\<rparr>, taken)"
      "stream c @ bytes = concat (map resp_array taken) @ s"
      "if rest = [] then s = [] else strict_prefix s (resp_array (hd rest))" by auto
  have "(stream c @ bytes) @ later = concat (map resp_array taken) @ concat (map resp_array rest)"
    using assms(3) d(1) by simp
  then have "s @ later = concat (map resp_array rest)" using d(3) by simp
  with that room d show ?thesis by blast
qed

lemma feed_all:
  assumes "\<not> protocol_error c" and "list_all (acceptable accept (codec_limits c)) cmds"
    and "stream c @ concat chunks = concat (map resp_array cmds)"
    and "if cmds = [] then stream c = [] else strict_prefix (stream c) (resp_array (hd cmds))"
    and "\<And>bytes args. bytes \<in> set chunks \<Longrightarrow> args \<in> set cmds \<Longrightarrow>
      length bytes + length (resp_array args) \<le> max_stream_bytes c"
  shows "feed P accept c chunks = Some (c\<lparr>stream := []\<rparr>, cmds)"
  using assms
proof (induction chunks arbitrary: c cmds)
  case Nil
  then have "cmds = []" by (cases cmds) (auto simp: strict_prefix_def)
  with Nil show ?case by simp
next
  case (Cons bytes chunks)
  obtain taken rest s where d: "AppendBytes c bytes = (c\<lparr>stream := stream c @ bytes\<rparr>, True)" "cmds = taken @ rest"
      "drain P accept (c\<lparr>stream := stream c @ bytes\<rparr>) = Some (c\<lparr>stream := s\<rparr>, taken)"
      "s @ concat chunks = concat (map resp_array rest)"
      "if rest = [] then s = [] else strict_prefix s (resp_array (hd rest))"
    using append_drain [of c accept cmds bytes "concat chunks"] Cons.prems by fastforce
  have "feed P accept (c\<lparr>stream := s\<rparr>) chunks = Some (c\<lparr>stream := s\<rparr>\<lparr>stream := []\<rparr>, rest)"
    using Cons.prems d(2,4,5) by (intro Cons.IH) auto
  with d(1-3) show ?case by simp
qed

lemma NextCommand_shrinks:
  "NextCommand P accept c = (c', Some args) \<Longrightarrow> length (stream c') < length (stream c)"
  using consumed [of "stream c"]
  by (auto simp: NextCommand_def TakeCommand_def Let_def
      split: if_splits option.splits RespStatus.splits RespValue.splits)

lemma drain_returns: "\<exists>c' cmds. drain P accept c = Some (c', cmds)"
proof (induction "length (stream c)" arbitrary: c rule: less_induct)
  case less
  show ?case
  proof (cases "NextCommand P accept c")
    case (Pair c' out)
    show ?thesis
    proof (cases out)
      case None
      then show ?thesis using Pair by (subst drain.simps) simp
    next
      case (Some args)
      with less [of c'] NextCommand_shrinks Pair obtain c'' rest where "drain P accept c' = Some (c'', rest)" by blast
      then show ?thesis using Pair Some by (subst drain.simps) simp
    qed
  qed
qed

end

section \<open>Properties\<close>

text \<open>(C15) Framing: however the network cuts the encoding of a sequence of commands into chunks, a
  connection takes exactly these commands, in order, with nothing left over and no error, as long as
  one command and one chunk together fit the buffer.\<close>

theorem codec_framing:
  assumes "resp_lib P" and "c = RespCodec_new max_stream max_bulk max_elements"
    and "concat chunks = concat (map resp_array cmds)"
    and "list_all (acceptable accept (codec_limits c)) cmds"
    and "\<And>bytes args. bytes \<in> set chunks \<Longrightarrow> args \<in> set cmds \<Longrightarrow> length bytes + length (resp_array args) \<le> max_stream"
  shows "feed P accept c chunks = Some (c, cmds)"
proof -
  have "stream c = []" "\<not> protocol_error c" "max_stream_bytes c = max_stream"
    by (simp_all add: assms(2) RespCodec_new_def)
  moreover have "cmds \<noteq> [] \<Longrightarrow> strict_prefix [] (resp_array (hd cmds))" by (simp add: resp_array_def resp_header_def)
  moreover have "c\<lparr>stream := []\<rparr> = c" by (simp add: assms(2) RespCodec_new_def)
  ultimately show ?thesis
    using resp_lib.feed_all [OF assms(1), of c accept cmds chunks] assms(3-5) by auto
qed

theorem codec_framing_witness:
  "feed ref_resp None (RespCodec_new 100 10 4)
     [''*2'', CRLF @ ''$3'' @ CRLF @ ''GE'', ''T'' @ CRLF @ ''$1'' @ CRLF @ ''k'' @ CRLF] =
   Some (RespCodec_new 100 10 4, [[''GET'', ''k'']])"
proof (rule codec_framing [OF ref_resp_lib.resp_lib_axioms refl])
  have enc: "resp_array [''GET'', ''k''] = ''*2'' @ CRLF @ ''$3'' @ CRLF @ ''GET'' @ CRLF @ ''$1'' @ CRLF @ ''k'' @ CRLF"
    by code_simp
  then show "concat [''*2'', CRLF @ ''$3'' @ CRLF @ ''GE'', ''T'' @ CRLF @ ''$1'' @ CRLF @ ''k'' @ CRLF] =
      concat (map resp_array [[''GET'', ''k'']])" by simp
  show "length bytes + length (resp_array args) \<le> 100"
    if "bytes \<in> set [''*2'', CRLF @ ''$3'' @ CRLF @ ''GE'', ''T'' @ CRLF @ ''$1'' @ CRLF @ ''k'' @ CRLF]"
      "args \<in> set [[''GET'', ''k'']]" for bytes args
    using that enc by auto
qed (simp add: acceptable_def fits_limits_def RespCodec_new_def)

end
