(* ===== verification/ResponseRep.thy ===== *)
theory ResponseRep
  imports RespCodec
begin

text \<open>
  Replies as the code stores them, \<^verbatim>\<open>src/protocol/response.h\<close> and the factories of \<^verbatim>\<open>resp_codec.cpp\<close>: one struct with a
  type tag and a field for each kind of content, of which a reply uses at most one. The commands are modelled on the
  datatype \<open>Response\<close>; here it is related to the struct: the factories give each reply its own struct,
  and packing the struct, which looks only at the tag, is packing the reply.
\<close>

datatype ResponseType = kSimpleString | kError | kInteger | kBulkString | kNullBulkString | kArray

datatype ResponseStruct =
  ResponseStruct (resp_type: ResponseType) (resp_text: string) (resp_integer: int) (resp_elements: "ResponseStruct list")

section \<open>The factories\<close>

definition Response_default :: ResponseStruct where
  "Response_default = ResponseStruct kNullBulkString [] 0 []"

definition Response_SimpleString :: "string \<Rightarrow> ResponseStruct" where
  "Response_SimpleString v = ResponseStruct kSimpleString v (resp_integer Response_default) (resp_elements Response_default)"

definition Response_Error :: "string \<Rightarrow> ResponseStruct" where
  "Response_Error v = ResponseStruct kError v (resp_integer Response_default) (resp_elements Response_default)"

definition Response_Integer :: "int \<Rightarrow> ResponseStruct" where
  "Response_Integer v = ResponseStruct kInteger (resp_text Response_default) v (resp_elements Response_default)"

definition Response_BulkString :: "string \<Rightarrow> ResponseStruct" where
  "Response_BulkString v = ResponseStruct kBulkString v (resp_integer Response_default) (resp_elements Response_default)"

definition Response_NullBulk :: ResponseStruct where
  "Response_NullBulk =
     ResponseStruct kNullBulkString (resp_text Response_default) (resp_integer Response_default) (resp_elements Response_default)"

definition Response_Array :: "ResponseStruct list \<Rightarrow> ResponseStruct" where
  "Response_Array vs = ResponseStruct kArray (resp_text Response_default) (resp_integer Response_default) vs"

lemmas factory_defs = Response_default_def Response_SimpleString_def Response_Error_def Response_Integer_def
  Response_BulkString_def Response_NullBulk_def Response_Array_def

section \<open>Packing\<close>

fun PackResponseStruct :: "Resp \<Rightarrow> ResponseStruct \<Rightarrow> string \<Rightarrow> string"
  and PackElements_loop :: "Resp \<Rightarrow> ResponseStruct list \<Rightarrow> string \<Rightarrow> string" where
  "PackResponseStruct P (ResponseStruct t content n elements) out =
     (case t of
        kSimpleString \<Rightarrow> PackSimpleString P content out
      | kError \<Rightarrow> PackError P content out
      | kInteger \<Rightarrow> PackInteger P n out
      | kBulkString \<Rightarrow> PackBulkString P content out
      | kNullBulkString \<Rightarrow> PackNullBulkString P out
      | kArray \<Rightarrow> PackElements_loop P elements (PackArrayHeader P (length elements) out))"
| "PackElements_loop P [] out = out"
| "PackElements_loop P (element # elements) out = PackElements_loop P elements (PackResponseStruct P element out)"

definition PackResponseElements :: "Resp \<Rightarrow> ResponseStruct list \<Rightarrow> string \<Rightarrow> string" where
  "PackResponseElements P elements out = PackElements_loop P elements (PackArrayHeader P (length elements) out)"

section \<open>The struct of a reply\<close>

primrec struct_of :: "Response \<Rightarrow> ResponseStruct" where
  "struct_of (SimpleString v) = Response_SimpleString v"
| "struct_of (Error v) = Response_Error v"
| "struct_of (Integer v) = Response_Integer v"
| "struct_of (BulkString v) = Response_BulkString v"
| "struct_of NullBulk = Response_NullBulk"
| "struct_of (Array vs) = Response_Array (map struct_of vs)"

text \<open>Reading a struct by its tag.\<close>

fun reply_of :: "ResponseStruct \<Rightarrow> Response" where
  "reply_of (ResponseStruct t content n elements) =
     (case t of
        kSimpleString \<Rightarrow> SimpleString content
      | kError \<Rightarrow> Error content
      | kInteger \<Rightarrow> Integer n
      | kBulkString \<Rightarrow> BulkString content
      | kNullBulkString \<Rightarrow> NullBulk
      | kArray \<Rightarrow> Array (map reply_of elements))"

lemma PackElements_fold: "PackElements_loop P elements out = fold (PackResponseStruct P) elements out"
  by (induction elements arbitrary: out) auto

lemma pack_reply_of: "PackResponseStruct P s out = PackResponse P (reply_of s) out"
proof (induction s arbitrary: out rule: reply_of.induct)
  case (1 t content n elements)
  have "fold (PackResponseStruct P) elements out' = fold (PackResponse P) (map reply_of elements) out'" if "t = kArray" for out'
    using 1 [OF that] by (induction elements arbitrary: out') auto
  then show ?case by (cases t) (simp_all add: PackElements_fold)
qed

lemma reply_of_struct: "reply_of (struct_of r) = r"
  by (induction r) (simp_all add: factory_defs map_idI)

text \<open>The struct a reply is stored in keeps all of it: reading the struct back gives the reply, whatever the fields the
  tag does not name hold, and the struct is packed as the reply, nested arrays included.\<close>

theorem reply_struct_refines:
  "reply_of (struct_of r) = r \<and> PackResponseStruct P (struct_of r) out = PackResponse P r out \<and>
   PackResponseStruct P (Response_Array (map struct_of rs)) out = PackResponseElements P (map struct_of rs) out"
proof (intro conjI)
  show "PackResponseStruct P (Response_Array (map struct_of rs)) out = PackResponseElements P (map struct_of rs) out"
    by (simp add: Response_Array_def PackResponseElements_def)
qed (simp_all add: reply_of_struct pack_reply_of)

end
