(* ===== verification/KeyCmd.thy ===== *)
theory KeyCmd
  imports Response
begin

text \<open>The key commands, \<^verbatim>\<open>src/command/key_cmd.cpp\<close>: EXISTS, TYPE, PTTL, DEL, EXPIRE and TTL.\<close>

section \<open>Commands\<close>

definition kMicrosPerMillisecond :: u64 where
  "kMicrosPerMillisecond = 1000"

definition RelativeMillisecondsFromTtl :: "u64 \<Rightarrow> int" where
  "RelativeMillisecondsFromTtl remaining_ttl_us =
     (let milliseconds = remaining_ttl_us div kMicrosPerMillisecond
      in if i64_to_u64 int64_max < milliseconds then int64_max else u64_to_i64 milliseconds)"

fun TypeName :: "RedisObjectType \<Rightarrow> string" where
  "TypeName kString = ''string''"
| "TypeName kHash = ''hash''"
| "TypeName kSet = ''set''"
| "TypeName kZSet = ''zset''"

definition ExistsCmd_CheckArity :: "string list \<Rightarrow> string option" where
  "ExistsCmd_CheckArity args = (if length args < 2 then Some (arity_error ''exists'') else None)"

definition ExistsCmd_ExecCmd ::
  "('o, 'h, 's, 'z) containers \<Rightarrow> string list \<Rightarrow> 'o CacheEngine \<Rightarrow> u64 \<Rightarrow> 'o CacheEngine \<times> Response" where
  "ExistsCmd_ExecCmd C args e now_us =
     (e, Integer (foldl (\<lambda>count key. if CacheEngine_Get C e key now_us \<noteq> None then count + 1 else count)
                        0 (drop 1 args)))"

definition TypeCmd_CheckArity :: "string list \<Rightarrow> string option" where
  "TypeCmd_CheckArity args = (if length args \<noteq> 2 then Some (arity_error ''type'') else None)"

definition TypeCmd_ExecCmd ::
  "('o, 'h, 's, 'z) containers \<Rightarrow> string list \<Rightarrow> 'o CacheEngine \<Rightarrow> u64 \<Rightarrow> 'o CacheEngine \<times> Response" where
  "TypeCmd_ExecCmd C args e now_us =
     (e, case CacheEngine_Get C e (args ! 1) now_us of
           None \<Rightarrow> SimpleString ''none''
         | Some object \<Rightarrow> SimpleString (TypeName (Type object)))"

definition PTtlCmd_CheckArity :: "string list \<Rightarrow> string option" where
  "PTtlCmd_CheckArity args = (if length args \<noteq> 2 then Some (arity_error ''pttl'') else None)"

definition PTtlCmd_ExecCmd ::
  "('o, 'h, 's, 'z) containers \<Rightarrow> string list \<Rightarrow> 'o CacheEngine \<Rightarrow> u64 \<Rightarrow> 'o CacheEngine \<times> Response" where
  "PTtlCmd_ExecCmd C args e now_us =
     (e, case CacheEngine_Get C e (args ! 1) now_us of
           None \<Rightarrow> Integer (-2)
         | Some object \<Rightarrow>
             if DeadlineUs object = 0 then Integer (-1)
             else Integer (RelativeMillisecondsFromTtl (DeadlineUs object - now_us)))"

definition DelCmd_CheckArity :: "string list \<Rightarrow> string option" where
  "DelCmd_CheckArity args = (if length args < 2 then Some (arity_error ''del'') else None)"

definition DelCmd_ExecCmd ::
  "('o, 'h, 's, 'z) containers \<Rightarrow> string list \<Rightarrow> 'o CacheEngine \<Rightarrow> u64 \<Rightarrow> 'o CacheEngine \<times> Response" where
  "DelCmd_ExecCmd C args e now_us =
     (let (e', deleted) = foldl (\<lambda>(e, deleted) key.
            let (e', wr) = CacheEngine_Del C e key now_us
            in (e', if wr_changed wr then deleted + 1 else deleted)) (e, 0) (drop 1 args)
      in (e', Integer deleted))"

definition ExpireCmd_CheckArity :: "string list \<Rightarrow> string option" where
  "ExpireCmd_CheckArity args = (if length args \<noteq> 3 then Some (arity_error ''expire'') else None)"

definition ExpireCmd_ExecCmd ::
  "('o, 'h, 's, 'z) containers \<Rightarrow> string list \<Rightarrow> 'o CacheEngine \<Rightarrow> u64 \<Rightarrow> 'o CacheEngine \<times> Response" where
  "ExpireCmd_ExecCmd C args e now_us =
     (case ParseInt64 (args ! 2) of
        None \<Rightarrow> (e, Error ''ERR value is not an integer or out of range'')
      | Some seconds \<Rightarrow>
          let (e', changed) = CacheEngine_Expire C e (args ! 1) seconds now_us
          in (e', Integer (if changed then 1 else 0)))"

definition TtlCmd_CheckArity :: "string list \<Rightarrow> string option" where
  "TtlCmd_CheckArity args = (if length args \<noteq> 2 then Some (arity_error ''ttl'') else None)"

definition TtlCmd_ExecCmd ::
  "('o, 'h, 's, 'z) containers \<Rightarrow> string list \<Rightarrow> 'o CacheEngine \<Rightarrow> u64 \<Rightarrow> 'o CacheEngine \<times> Response" where
  "TtlCmd_ExecCmd C args e now_us = (e, Integer (CacheEngine_Ttl C e (args ! 1) now_us))"

section \<open>The classes\<close>

text \<open>The command classes of \<^verbatim>\<open>src/command/key_cmd.h\<close>.\<close>

definition ExistsCmd :: "('o, 'h, 's, 'z) containers \<Rightarrow> 'o RedisCmd" where
  [simp]: "ExistsCmd C = \<lparr>CheckArity = ExistsCmd_CheckArity, ExecCmd = ExistsCmd_ExecCmd C\<rparr>"

definition TypeCmd :: "('o, 'h, 's, 'z) containers \<Rightarrow> 'o RedisCmd" where
  [simp]: "TypeCmd C = \<lparr>CheckArity = TypeCmd_CheckArity, ExecCmd = TypeCmd_ExecCmd C\<rparr>"

definition PTtlCmd :: "('o, 'h, 's, 'z) containers \<Rightarrow> 'o RedisCmd" where
  [simp]: "PTtlCmd C = \<lparr>CheckArity = PTtlCmd_CheckArity, ExecCmd = PTtlCmd_ExecCmd C\<rparr>"

definition DelCmd :: "('o, 'h, 's, 'z) containers \<Rightarrow> 'o RedisCmd" where
  [simp]: "DelCmd C = \<lparr>CheckArity = DelCmd_CheckArity, ExecCmd = DelCmd_ExecCmd C\<rparr>"

definition ExpireCmd :: "('o, 'h, 's, 'z) containers \<Rightarrow> 'o RedisCmd" where
  [simp]: "ExpireCmd C = \<lparr>CheckArity = ExpireCmd_CheckArity, ExecCmd = ExpireCmd_ExecCmd C\<rparr>"

definition TtlCmd :: "('o, 'h, 's, 'z) containers \<Rightarrow> 'o RedisCmd" where
  [simp]: "TtlCmd C = \<lparr>CheckArity = TtlCmd_CheckArity, ExecCmd = TtlCmd_ExecCmd C\<rparr>"

section \<open>DEL\<close>

context imt_lib begin

lemma DelCmd_fold:
  assumes "foldl (\<lambda>(e, deleted) key.
        let (e', wr) = CacheEngine_Del C e key now
        in (e', if wr_changed wr then deleted + 1 else deleted)) (e, n) keys = (e', n')"
  shows "engine_view C e' = (\<lambda>k. if k \<in> set keys \<and> CacheEngine_Get C e k now \<noteq> None then None else engine_view C e k) \<and>
    n' = n + int (card {k \<in> set keys. CacheEngine_Get C e k now \<noteq> None})"
  using assms
proof (induction keys arbitrary: e n)
  case (Cons k ks)
  show ?case
  proof (cases "CacheEngine_Get C e k now")
    case None
    have "{k' \<in> set (k # ks). CacheEngine_Get C e k' now \<noteq> None} = {k' \<in> set ks. CacheEngine_Get C e k' now \<noteq> None}"
      using None by auto
    with Cons None show ?thesis by (auto simp: Del_eq fun_eq_iff)
  next
    case (Some ob)
    let ?e1 = "commit C e k None (new_record\<lparr>rec_args := [''DEL'', k]\<rparr>) now"
    have ne: "engine_view C e k \<noteq> None" using Some by (auto dest: CacheEngine_Get_Some)
    have get: "CacheEngine_Get C ?e1 k' now = (if k' = k then None else CacheEngine_Get C e k' now)" for k'
      using ne by (simp add: Get_commit live_def)
    have "{k' \<in> set (k # ks). CacheEngine_Get C e k' now \<noteq> None} =
        insert k {k' \<in> set ks. CacheEngine_Get C ?e1 k' now \<noteq> None}"
      using Some by (auto simp: get)
    then have card: "card {k' \<in> set (k # ks). CacheEngine_Get C e k' now \<noteq> None} =
        Suc (card {k' \<in> set ks. CacheEngine_Get C ?e1 k' now \<noteq> None})"
      by (simp add: get)
    from Cons.prems have "foldl (\<lambda>(e, deleted) key.
        let (e', wr) = CacheEngine_Del C e key now
        in (e', if wr_changed wr then deleted + 1 else deleted)) (?e1, n + 1) ks = (e', n')"
      by (simp add: Del_eq Some)
    from Cons.IH [OF this] card ne Some show ?thesis by (auto simp: fun_eq_iff get)
  qed
qed simp

end

section \<open>Properties\<close>

text \<open>DEL removes exactly the named keys that are live, whatever repetitions the argument list
  has, and replies with how many distinct ones there were.\<close>

theorem DelCmd_correct:
  assumes "imt_lib C"
  shows "\<exists>e'. DelCmd_ExecCmd C args e now =
      (e', Integer (int (card {k \<in> set (drop 1 args). CacheEngine_Get C e k now \<noteq> None}))) \<and>
    engine_view C e' = (\<lambda>k. if k \<in> set (drop 1 args) \<and> CacheEngine_Get C e k now \<noteq> None then None
                             else engine_view C e k)"
proof -
  obtain e' n' where "foldl (\<lambda>(e, deleted) key.
        let (e', wr) = CacheEngine_Del C e key now
        in (e', if wr_changed wr then deleted + 1 else deleted)) (e, 0 :: int) (drop 1 args) = (e', n')"
    by fastforce
  with imt_lib.DelCmd_fold [OF assms this] show ?thesis by (simp add: DelCmd_ExecCmd_def)
qed

theorem DelCmd_correct_witness:
  "\<exists>e'. DelCmd_ExecCmd ref_containers [''DEL'', ''a'', ''a'']
     (fst (CacheEngine_Set ref_containers (CacheEngine_new ref_containers) ''a'' (MakeString ''v'') new_record 1)) 2 =
     (e', Integer 1)"
proof -
  let ?e = "fst (CacheEngine_Set ref_containers (CacheEngine_new ref_containers) ''a'' (MakeString ''v'') new_record 1)"
  have "CacheEngine_Get ref_containers ?e ''a'' 2 = Some (MakeString ''v'')"
    by (simp add: ref_lib.engine_store.get_set live_def IsExpired_def)
  then have "{k \<in> set (drop 1 [''DEL'', ''a'', ''a'']). CacheEngine_Get ref_containers ?e k 2 \<noteq> None} = {''a''}"
    by auto
  with DelCmd_correct [OF ref_lib.imt_lib_axioms, of "[''DEL'', ''a'', ''a'']" ?e 2]
  show ?thesis by auto
qed

end
