(* ===== verification/StringCmd.thy ===== *)
theory StringCmd
  imports Response
begin

text \<open>
  The string commands, \<^verbatim>\<open>src/command/string_cmd.cpp\<close>: SET with its options, GET, MGET, SETNX, GETSET,
  STRLEN, APPEND and the integer commands INCR, DECR, INCRBY, DECRBY. An \<^verbatim>\<open>out\<close> parameter with a
  \<^verbatim>\<open>bool\<close> result is an \<open>option\<close>; a parser that returns an error text is a sum with the error left.
\<close>

section \<open>Reading a string object\<close>

datatype StringReadStatus = kMissing | kWrongTypeRead | kOkRead

record StringRead =
  read_status :: StringReadStatus
  read_value :: string
  read_deadline_us :: u64

definition ReadStringObject :: "('h, 's, 'z) RedisObject option \<Rightarrow> StringRead" where
  "ReadStringObject object =
     (case object of
        None \<Rightarrow> \<lparr>read_status = kMissing, read_value = [], read_deadline_us = 0\<rparr>
      | Some ob \<Rightarrow>
          if Type ob \<noteq> kString \<or> StringValue ob = None
          then \<lparr>read_status = kWrongTypeRead, read_value = [], read_deadline_us = DeadlineUs ob\<rparr>
          else \<lparr>read_status = kOkRead, read_value = the (StringValue ob), read_deadline_us = DeadlineUs ob\<rparr>)"

section \<open>Checked arithmetic\<close>

definition CheckedAddInt64 :: "int \<Rightarrow> int \<Rightarrow> int option" where
  "CheckedAddInt64 left right =
     (if 0 < right \<and> int64_max - right < left then None
      else if right < 0 \<and> left < int64_min - right then None
      else Some (left + right))"

definition CheckedSubtractInt64 :: "int \<Rightarrow> int \<Rightarrow> int option" where
  "CheckedSubtractInt64 left right =
     (if 0 < right \<and> left < int64_min + right then None
      else if right < 0 \<and> int64_max + right < left then None
      else Some (left - right))"

definition CheckedMultiply :: "u64 \<Rightarrow> u64 \<Rightarrow> u64 option" where
  "CheckedMultiply value multiplier =
     (if u64_max div multiplier < value then None else Some (value * multiplier))"

definition CheckedAdd :: "u64 \<Rightarrow> u64 \<Rightarrow> u64 option" where
  "CheckedAdd left right = (if u64_max - left < right then None else Some (left + right))"

section \<open>The options of SET\<close>

record SetOptions =
  opt_nx :: bool
  opt_xx :: bool
  opt_get :: bool
  opt_keep_ttl :: bool
  opt_deadline_us :: u64

definition SetOptions_new :: SetOptions where
  "SetOptions_new = \<lparr>opt_nx = False, opt_xx = False, opt_get = False, opt_keep_ttl = False, opt_deadline_us = 0\<rparr>"

definition ApplyStringDeadline ::
  "('h, 's, 'z) RedisObject \<Rightarrow> u64 \<Rightarrow> bool \<Rightarrow> u64 \<Rightarrow> ('h, 's, 'z) RedisObject" where
  "ApplyStringDeadline object deadline_us keep_ttl existing_deadline =
     (if deadline_us \<noteq> 0 then WithDeadline object deadline_us
      else if keep_ttl \<and> existing_deadline \<noteq> 0 then WithDeadline object existing_deadline
      else ClearDeadline object)"

definition ParsePositiveExpiration :: "string \<Rightarrow> string + u64" where
  "ParsePositiveExpiration text =
     (case ParseInt64 text of
        None \<Rightarrow> Inl kInvalidExpireError
      | Some parsed \<Rightarrow> if parsed \<le> 0 then Inl kInvalidExpireError else Inr (i64_to_u64 parsed))"

definition ComputeDeadline :: "string \<Rightarrow> u64 \<Rightarrow> u64 \<Rightarrow> string + u64" where
  "ComputeDeadline option amount now_us =
     (if option = ''EX'' \<or> option = ''PX'' then
        (case CheckedMultiply amount (if option = ''EX'' then 1000000 else 1000) of
           None \<Rightarrow> Inl kInvalidExpireError
         | Some duration_us \<Rightarrow>
             (case CheckedAdd now_us duration_us of
                None \<Rightarrow> Inl kInvalidExpireError
              | Some deadline_us \<Rightarrow> Inr deadline_us))
      else (case CheckedMultiply amount (if option = ''EXAT'' then 1000000 else 1000) of
              None \<Rightarrow> Inl kInvalidExpireError
            | Some absolute_us \<Rightarrow> Inr absolute_us))"

text \<open>The loop over the arguments from index 3 on, with the flag \<^verbatim>\<open>has_expiration_option\<close>.\<close>

fun ParseSetOptions_loop :: "u64 \<Rightarrow> SetOptions \<Rightarrow> bool \<Rightarrow> string list \<Rightarrow> string + SetOptions" where
  "ParseSetOptions_loop now_us options has_exp [] = Inr options"
| "ParseSetOptions_loop now_us options has_exp (arg # rest) =
     (let option = ToUpperAscii arg
      in if option = ''NX'' then
           (if opt_nx options \<or> opt_xx options then Inl kSyntaxError
            else ParseSetOptions_loop now_us (options\<lparr>opt_nx := True\<rparr>) has_exp rest)
         else if option = ''XX'' then
           (if opt_nx options \<or> opt_xx options then Inl kSyntaxError
            else ParseSetOptions_loop now_us (options\<lparr>opt_xx := True\<rparr>) has_exp rest)
         else if option = ''GET'' then
           (if opt_get options then Inl kSyntaxError
            else ParseSetOptions_loop now_us (options\<lparr>opt_get := True\<rparr>) has_exp rest)
         else if option = ''KEEPTTL'' then
           (if has_exp then Inl kSyntaxError
            else ParseSetOptions_loop now_us (options\<lparr>opt_keep_ttl := True\<rparr>) True rest)
         else if option = ''EX'' \<or> option = ''PX'' \<or> option = ''EXAT'' \<or> option = ''PXAT'' then
           (if has_exp then Inl kSyntaxError
            else case rest of
                   [] \<Rightarrow> Inl kSyntaxError
                 | text # rest' \<Rightarrow>
                     (case ParsePositiveExpiration text of
                        Inl error \<Rightarrow> Inl error
                      | Inr amount \<Rightarrow>
                          (case ComputeDeadline option amount now_us of
                             Inl error \<Rightarrow> Inl error
                           | Inr deadline_us \<Rightarrow>
                               ParseSetOptions_loop now_us (options\<lparr>opt_deadline_us := deadline_us\<rparr>) True rest')))
         else Inl kSyntaxError)"

definition ParseSetOptions :: "string list \<Rightarrow> u64 \<Rightarrow> string + SetOptions" where
  "ParseSetOptions args now_us =
     (case ParseSetOptions_loop now_us SetOptions_new False (drop 3 args) of
        Inl error \<Rightarrow> Inl error
      | Inr options \<Rightarrow> if opt_nx options \<and> opt_get options then Inl kSyntaxError else Inr options)"

section \<open>SET and the simple string commands\<close>

text \<open>The variables the callback of SET writes.\<close>

record SetCaptured =
  cap_wrong_type :: bool
  cap_wrote :: bool
  cap_condition_failed :: bool
  cap_old_value :: "string option"

definition SetCmd_updater ::
  "SetOptions \<Rightarrow> string \<Rightarrow> ('h, 's, 'z) RedisObject option \<Rightarrow>
   ('h, 's, 'z) RedisObject option \<times> SetCaptured" where
  "SetCmd_updater options value existing =
     (let exists = (existing \<noteq> None);
          read = ReadStringObject existing;
          start = \<lparr>cap_wrong_type = False, cap_wrote = False, cap_condition_failed = False, cap_old_value = None\<rparr>
      in if opt_get options \<and> exists \<and> read_status read = kWrongTypeRead
         then (None, start\<lparr>cap_wrong_type := True\<rparr>)
         else let c = (if opt_get options \<and> exists then start\<lparr>cap_old_value := Some (read_value read)\<rparr> else start)
              in if (opt_nx options \<and> exists) \<or> (opt_xx options \<and> \<not> exists)
                 then (None, c\<lparr>cap_condition_failed := True\<rparr>)
                 else let existing_deadline = (case existing of None \<Rightarrow> 0 | Some ob \<Rightarrow> DeadlineUs ob)
                      in (Some (ApplyStringDeadline (MakeString value) (opt_deadline_us options)
                                  (opt_keep_ttl options) existing_deadline),
                          c\<lparr>cap_wrote := True\<rparr>))"

definition SetCmd_CheckArity :: "string list \<Rightarrow> string option" where
  "SetCmd_CheckArity args = (if length args < 3 then Some (arity_error ''set'') else None)"

definition SetCmd_ExecCmd ::
  "('o, 'h, 's, 'z) containers \<Rightarrow> string list \<Rightarrow> 'o CacheEngine \<Rightarrow> u64 \<Rightarrow> 'o CacheEngine \<times> Response" where
  "SetCmd_ExecCmd C args e now_us =
     (case ParseSetOptions args now_us of
        Inl error \<Rightarrow> (e, Error error)
      | Inr options \<Rightarrow>
          let (e', wr, c) = CacheEngine_Update C e (args ! 1) (SetCmd_updater options (args ! 2))
                              (MakeRecord ''SET'' args) now_us
          in (e', if cap_wrong_type c then Error kWrongTypeError
                  else if opt_get options then
                    (case cap_old_value c of
                       None \<Rightarrow> NullBulk
                     | Some v \<Rightarrow> if cap_condition_failed c then NullBulk else BulkString v)
                  else if \<not> cap_wrote c then NullBulk
                  else SimpleString ''OK''))"

definition GetCmd_CheckArity :: "string list \<Rightarrow> string option" where
  "GetCmd_CheckArity args = (if length args \<noteq> 2 then Some (arity_error ''get'') else None)"

definition GetCmd_ExecCmd ::
  "('o, 'h, 's, 'z) containers \<Rightarrow> string list \<Rightarrow> 'o CacheEngine \<Rightarrow> u64 \<Rightarrow> 'o CacheEngine \<times> Response" where
  "GetCmd_ExecCmd C args e now_us =
     (let read = ReadStringObject (CacheEngine_Get C e (args ! 1) now_us)
      in (e, if read_status read = kMissing then NullBulk
             else if read_status read = kWrongTypeRead then Error kWrongTypeError
             else BulkString (read_value read)))"

definition MGetCmd_CheckArity :: "string list \<Rightarrow> string option" where
  "MGetCmd_CheckArity args = (if length args < 2 then Some (arity_error ''mget'') else None)"

definition MGetCmd_ExecCmd ::
  "('o, 'h, 's, 'z) containers \<Rightarrow> string list \<Rightarrow> 'o CacheEngine \<Rightarrow> u64 \<Rightarrow> 'o CacheEngine \<times> Response" where
  "MGetCmd_ExecCmd C args e now_us =
     (e, Array (map (\<lambda>key. let read = ReadStringObject (CacheEngine_Get C e key now_us)
                            in if read_status read = kOkRead then BulkString (read_value read) else NullBulk)
                    (drop 1 args)))"

definition SetNxCmd_CheckArity :: "string list \<Rightarrow> string option" where
  "SetNxCmd_CheckArity args = (if length args \<noteq> 3 then Some (arity_error ''setnx'') else None)"

definition SetNxCmd_ExecCmd ::
  "('o, 'h, 's, 'z) containers \<Rightarrow> string list \<Rightarrow> 'o CacheEngine \<Rightarrow> u64 \<Rightarrow> 'o CacheEngine \<times> Response" where
  "SetNxCmd_ExecCmd C args e now_us =
     (let (e', wr, was_set) = CacheEngine_Update C e (args ! 1)
            (\<lambda>existing. if existing \<noteq> None then (None, False) else (Some (MakeString (args ! 2)), True))
            (MakeRecord ''SETNX'' args) now_us
      in (e', Integer (if was_set then 1 else 0)))"

definition GetSetCmd_CheckArity :: "string list \<Rightarrow> string option" where
  "GetSetCmd_CheckArity args = (if length args \<noteq> 3 then Some (arity_error ''getset'') else None)"

definition GetSetCmd_ExecCmd ::
  "('o, 'h, 's, 'z) containers \<Rightarrow> string list \<Rightarrow> 'o CacheEngine \<Rightarrow> u64 \<Rightarrow> 'o CacheEngine \<times> Response" where
  "GetSetCmd_ExecCmd C args e now_us =
     (let (e', wr, wrong_type, old_value) = CacheEngine_Update C e (args ! 1)
            (\<lambda>existing. let read = ReadStringObject existing
               in if existing \<noteq> None \<and> read_status read = kWrongTypeRead then (None, True, None)
                  else (Some (MakeString (args ! 2)), False,
                        if existing \<noteq> None then Some (read_value read) else None))
            (MakeRecord ''GETSET'' args) now_us
      in (e', if wrong_type then Error kWrongTypeError
              else case old_value of None \<Rightarrow> NullBulk | Some v \<Rightarrow> BulkString v))"

definition StrLenCmd_CheckArity :: "string list \<Rightarrow> string option" where
  "StrLenCmd_CheckArity args = (if length args \<noteq> 2 then Some (arity_error ''strlen'') else None)"

definition StrLenCmd_ExecCmd ::
  "('o, 'h, 's, 'z) containers \<Rightarrow> string list \<Rightarrow> 'o CacheEngine \<Rightarrow> u64 \<Rightarrow> 'o CacheEngine \<times> Response" where
  "StrLenCmd_ExecCmd C args e now_us =
     (let read = ReadStringObject (CacheEngine_Get C e (args ! 1) now_us)
      in (e, if read_status read = kMissing then Integer 0
             else if read_status read = kWrongTypeRead then Error kWrongTypeError
             else Integer (int (length (read_value read)))))"

definition AppendCmd_CheckArity :: "string list \<Rightarrow> string option" where
  "AppendCmd_CheckArity args = (if length args \<noteq> 3 then Some (arity_error ''append'') else None)"

definition AppendCmd_ExecCmd ::
  "('o, 'h, 's, 'z) containers \<Rightarrow> string list \<Rightarrow> 'o CacheEngine \<Rightarrow> u64 \<Rightarrow> 'o CacheEngine \<times> Response" where
  "AppendCmd_ExecCmd C args e now_us =
     (let (e', wr, wrong_type, len) = CacheEngine_Update C e (args ! 1)
            (\<lambda>existing. let read = ReadStringObject existing
               in if existing \<noteq> None \<and> read_status read = kWrongTypeRead then (None, True, 0)
                  else let next = (if existing \<noteq> None then read_value read else []) @ args ! 2;
                           deadline_us = (if existing \<noteq> None then read_deadline_us read else 0);
                           object = MakeString next
                       in (Some (if deadline_us \<noteq> 0 then WithDeadline object deadline_us else object),
                           False, int (length next)))
            (MakeRecord ''APPEND'' args) now_us
      in (e', if wrong_type then Error kWrongTypeError else Integer len))"

section \<open>The integer commands\<close>

datatype IntegerMutationMode = kAdd | kSubtract

record IntegerCaptured =
  int_wrong_type :: bool
  int_invalid :: bool
  int_overflow :: bool
  int_next :: int

definition IntegerMutation_updater ::
  "int \<Rightarrow> IntegerMutationMode \<Rightarrow> ('h, 's, 'z) RedisObject option \<Rightarrow>
   ('h, 's, 'z) RedisObject option \<times> IntegerCaptured" where
  "IntegerMutation_updater operand mode existing =
     (let start = \<lparr>int_wrong_type = False, int_invalid = False, int_overflow = False, int_next = 0\<rparr>;
          read = ReadStringObject existing;
          current = (if existing \<noteq> None then ParseInt64 (read_value read) else Some 0);
          deadline_us = (if existing \<noteq> None then read_deadline_us read else 0)
      in if existing \<noteq> None \<and> read_status read = kWrongTypeRead then (None, start\<lparr>int_wrong_type := True\<rparr>)
         else (case current of
                 None \<Rightarrow> (None, start\<lparr>int_invalid := True\<rparr>)
               | Some n \<Rightarrow>
                   (case (case mode of kAdd \<Rightarrow> CheckedAddInt64 n operand
                                     | kSubtract \<Rightarrow> CheckedSubtractInt64 n operand) of
                      None \<Rightarrow> (None, start\<lparr>int_overflow := True\<rparr>)
                    | Some next_value \<Rightarrow>
                        let object = MakeString (to_string next_value)
                        in (Some (if deadline_us \<noteq> 0 then WithDeadline object deadline_us else object),
                            start\<lparr>int_next := next_value\<rparr>))))"

definition ExecIntegerMutation ::
  "('o, 'h, 's, 'z) containers \<Rightarrow> string list \<Rightarrow> 'o CacheEngine \<Rightarrow> u64 \<Rightarrow> int \<Rightarrow> IntegerMutationMode \<Rightarrow>
   'o CacheEngine \<times> Response" where
  "ExecIntegerMutation C args e now_us operand mode =
     (let (e', wr, c) = CacheEngine_Update C e (args ! 1) (IntegerMutation_updater operand mode)
                          (MakeRecord (args ! 0) args) now_us
      in (e', if int_wrong_type c then Error kWrongTypeError
              else if int_invalid c then Error kIntegerError
              else if int_overflow c then Error kOverflowError
              else Integer (int_next c)))"

definition IncrCmd_CheckArity :: "string list \<Rightarrow> string option" where
  "IncrCmd_CheckArity args = (if length args \<noteq> 2 then Some (arity_error ''incr'') else None)"

definition IncrCmd_ExecCmd ::
  "('o, 'h, 's, 'z) containers \<Rightarrow> string list \<Rightarrow> 'o CacheEngine \<Rightarrow> u64 \<Rightarrow> 'o CacheEngine \<times> Response" where
  "IncrCmd_ExecCmd C args e now_us = ExecIntegerMutation C args e now_us 1 kAdd"

definition DecrCmd_CheckArity :: "string list \<Rightarrow> string option" where
  "DecrCmd_CheckArity args = (if length args \<noteq> 2 then Some (arity_error ''decr'') else None)"

definition DecrCmd_ExecCmd ::
  "('o, 'h, 's, 'z) containers \<Rightarrow> string list \<Rightarrow> 'o CacheEngine \<Rightarrow> u64 \<Rightarrow> 'o CacheEngine \<times> Response" where
  "DecrCmd_ExecCmd C args e now_us = ExecIntegerMutation C args e now_us 1 kSubtract"

definition IncrByCmd_CheckArity :: "string list \<Rightarrow> string option" where
  "IncrByCmd_CheckArity args = (if length args \<noteq> 3 then Some (arity_error ''incrby'') else None)"

definition IncrByCmd_ExecCmd ::
  "('o, 'h, 's, 'z) containers \<Rightarrow> string list \<Rightarrow> 'o CacheEngine \<Rightarrow> u64 \<Rightarrow> 'o CacheEngine \<times> Response" where
  "IncrByCmd_ExecCmd C args e now_us =
     (case ParseInt64 (args ! 2) of
        None \<Rightarrow> (e, Error kIntegerError)
      | Some delta \<Rightarrow> ExecIntegerMutation C args e now_us delta kAdd)"

definition DecrByCmd_CheckArity :: "string list \<Rightarrow> string option" where
  "DecrByCmd_CheckArity args = (if length args \<noteq> 3 then Some (arity_error ''decrby'') else None)"

definition DecrByCmd_ExecCmd ::
  "('o, 'h, 's, 'z) containers \<Rightarrow> string list \<Rightarrow> 'o CacheEngine \<Rightarrow> u64 \<Rightarrow> 'o CacheEngine \<times> Response" where
  "DecrByCmd_ExecCmd C args e now_us =
     (case ParseInt64 (args ! 2) of
        None \<Rightarrow> (e, Error kIntegerError)
      | Some amount \<Rightarrow> ExecIntegerMutation C args e now_us amount kSubtract)"

section \<open>The classes\<close>

text \<open>The command classes of \<^verbatim>\<open>src/command/string_cmd.h\<close>.\<close>

definition SetCmd :: "('o, 'h, 's, 'z) containers \<Rightarrow> 'o RedisCmd" where
  [simp]: "SetCmd C = \<lparr>CheckArity = SetCmd_CheckArity, ExecCmd = SetCmd_ExecCmd C\<rparr>"

definition GetCmd :: "('o, 'h, 's, 'z) containers \<Rightarrow> 'o RedisCmd" where
  [simp]: "GetCmd C = \<lparr>CheckArity = GetCmd_CheckArity, ExecCmd = GetCmd_ExecCmd C\<rparr>"

definition MGetCmd :: "('o, 'h, 's, 'z) containers \<Rightarrow> 'o RedisCmd" where
  [simp]: "MGetCmd C = \<lparr>CheckArity = MGetCmd_CheckArity, ExecCmd = MGetCmd_ExecCmd C\<rparr>"

definition SetNxCmd :: "('o, 'h, 's, 'z) containers \<Rightarrow> 'o RedisCmd" where
  [simp]: "SetNxCmd C = \<lparr>CheckArity = SetNxCmd_CheckArity, ExecCmd = SetNxCmd_ExecCmd C\<rparr>"

definition GetSetCmd :: "('o, 'h, 's, 'z) containers \<Rightarrow> 'o RedisCmd" where
  [simp]: "GetSetCmd C = \<lparr>CheckArity = GetSetCmd_CheckArity, ExecCmd = GetSetCmd_ExecCmd C\<rparr>"

definition StrLenCmd :: "('o, 'h, 's, 'z) containers \<Rightarrow> 'o RedisCmd" where
  [simp]: "StrLenCmd C = \<lparr>CheckArity = StrLenCmd_CheckArity, ExecCmd = StrLenCmd_ExecCmd C\<rparr>"

definition AppendCmd :: "('o, 'h, 's, 'z) containers \<Rightarrow> 'o RedisCmd" where
  [simp]: "AppendCmd C = \<lparr>CheckArity = AppendCmd_CheckArity, ExecCmd = AppendCmd_ExecCmd C\<rparr>"

definition IncrCmd :: "('o, 'h, 's, 'z) containers \<Rightarrow> 'o RedisCmd" where
  [simp]: "IncrCmd C = \<lparr>CheckArity = IncrCmd_CheckArity, ExecCmd = IncrCmd_ExecCmd C\<rparr>"

definition DecrCmd :: "('o, 'h, 's, 'z) containers \<Rightarrow> 'o RedisCmd" where
  [simp]: "DecrCmd C = \<lparr>CheckArity = DecrCmd_CheckArity, ExecCmd = DecrCmd_ExecCmd C\<rparr>"

definition IncrByCmd :: "('o, 'h, 's, 'z) containers \<Rightarrow> 'o RedisCmd" where
  [simp]: "IncrByCmd C = \<lparr>CheckArity = IncrByCmd_CheckArity, ExecCmd = IncrByCmd_ExecCmd C\<rparr>"

definition DecrByCmd :: "('o, 'h, 's, 'z) containers \<Rightarrow> 'o RedisCmd" where
  [simp]: "DecrByCmd C = \<lparr>CheckArity = DecrByCmd_CheckArity, ExecCmd = DecrByCmd_ExecCmd C\<rparr>"

section \<open>Facts\<close>

lemma CheckedAddInt64_exact:
  "int64_ok l \<Longrightarrow> int64_ok r \<Longrightarrow>
   CheckedAddInt64 l r = (if int64_ok (l + r) then Some (l + r) else None)"
  by (auto simp: CheckedAddInt64_def int64_ok_def)

lemma CheckedSubtractInt64_exact:
  "int64_ok l \<Longrightarrow> int64_ok r \<Longrightarrow>
   CheckedSubtractInt64 l r = (if int64_ok (l - r) then Some (l - r) else None)"
  by (auto simp: CheckedSubtractInt64_def int64_ok_def)

lemma CheckedAdd_exact:
  "CheckedAdd l r = (if unat l + unat r < 2 ^ 64 then Some (l + r) else None)"
  using unat_u64_less [of l]
  by (auto simp: CheckedAdd_def word_less_nat_alt unat_sub unat_u64_max)

lemma CheckedMultiply_exact:
  assumes "0 < m"
  shows "CheckedMultiply v m = (if unat v * unat m < 2 ^ 64 then Some (v * m) else None)"
proof -
  have m: "0 < unat m" using assms by (simp add: word_less_nat_alt)
  have "u64_max div m < v \<longleftrightarrow> (2 ^ 64 - 1) div unat m < unat v"
    by (simp add: word_less_nat_alt unat_div_distrib unat_u64_max)
  also have "\<dots> \<longleftrightarrow> \<not> unat v * unat m < 2 ^ 64"
    using m by (simp add: div_less_iff_less_mult) linarith
  finally show ?thesis by (simp add: CheckedMultiply_def)
qed

lemma ReadStringObject_simps [simp]:
  "ReadStringObject None = \<lparr>read_status = kMissing, read_value = [], read_deadline_us = 0\<rparr>"
  "read_status (ReadStringObject (Some ob)) = kMissing \<longleftrightarrow> False"
  "read_deadline_us (ReadStringObject (Some ob)) = obj_deadline_us ob"
  by (simp_all add: ReadStringObject_def DeadlineUs_def)

text \<open>The bytes of a string object, and the integer a key counts as for the integer commands.\<close>

definition string_bytes :: "('h, 's, 'z) RedisObject \<Rightarrow> string option" where
  "string_bytes ob = (if obj_type ob = kString then StringValue ob else None)"

definition counter_value :: "('h, 's, 'z) RedisObject option \<Rightarrow> int option" where
  "counter_value x = (case x of None \<Rightarrow> Some 0 | Some ob \<Rightarrow> Option.bind (string_bytes ob) ParseInt64)"

lemma ReadStringObject_bytes:
  "read_status (ReadStringObject (Some ob)) = kWrongTypeRead \<longleftrightarrow> string_bytes ob = None"
  "string_bytes ob = Some v \<Longrightarrow> read_value (ReadStringObject (Some ob)) = v"
  "read_status (ReadStringObject (Some ob)) = kOkRead \<longleftrightarrow> string_bytes ob \<noteq> None"
  by (auto simp: ReadStringObject_def string_bytes_def Type_def split: if_splits)

lemma string_bytes_MakeString [simp]: "string_bytes (MakeString v) = Some v"
  by (simp add: string_bytes_def StringValue_def)

lemma string_bytes_WithDeadline [simp]: "string_bytes (WithDeadline ob d) = string_bytes ob"
  by (simp add: string_bytes_def StringValue_def)

text \<open>A string object with the deadline \<open>d\<close>, 0 for none.\<close>

definition string_with :: "string \<Rightarrow> u64 \<Rightarrow> ('h, 's, 'z) RedisObject" where
  "string_with v d = WithDeadline (MakeString v) d"

lemma WithDeadline_MakeString_0 [simp]: "WithDeadline (MakeString v) 0 = MakeString v"
  by (simp add: WithDeadline_def MakeString_def)

lemma string_with_if:
  "(if d \<noteq> 0 then WithDeadline (MakeString v) d else MakeString v) = string_with v d"
  by (simp add: string_with_def WithDeadline_def MakeString_def)

lemma ApplyStringDeadline_string_with:
  "ApplyStringDeadline (MakeString v) d keep old = string_with v (if d \<noteq> 0 then d else if keep then old else 0)"
  by (simp add: ApplyStringDeadline_def string_with_def WithDeadline_def ClearDeadline_def)

lemma string_with_simps [simp]:
  "obj_type (string_with v d) = kString" "obj_deadline_us (string_with v d) = d"
  "string_bytes (string_with v d) = Some v" "obj_ok (string_with v d)"
  by (simp_all add: string_with_def)

definition combine :: "IntegerMutationMode \<Rightarrow> int \<Rightarrow> int \<Rightarrow> int" where
  "combine mode n d = (case mode of kAdd \<Rightarrow> n + d | kSubtract \<Rightarrow> n - d)"

lemma counter_value_ok: "counter_value x = Some n \<Longrightarrow> int64_ok n"
  by (auto simp: counter_value_def int64_ok_def [of 0] dest: ParseInt64_range
      split: option.splits Option.bind_splits)

lemma IntegerMutation_updater_eq:
  assumes "int64_ok operand"
  shows "case counter_value existing of
      None \<Rightarrow> fst (IntegerMutation_updater operand mode existing) = None \<and>
        (let c = snd (IntegerMutation_updater operand mode existing) in int_wrong_type c \<or> int_invalid c)
    | Some n \<Rightarrow> if int64_ok (combine mode n operand)
        then IntegerMutation_updater operand mode existing =
          (Some (string_with (to_string (combine mode n operand)) (deadline_of existing)),
           \<lparr>int_wrong_type = False, int_invalid = False, int_overflow = False, int_next = combine mode n operand\<rparr>)
        else fst (IntegerMutation_updater operand mode existing) = None \<and>
          int_overflow (snd (IntegerMutation_updater operand mode existing))"
proof (cases "counter_value existing")
  case None
  then obtain ob where ob: "existing = Some ob" by (cases existing) (auto simp: counter_value_def)
  show ?thesis
  proof (cases "string_bytes ob")
    case None
    with ob \<open>counter_value existing = None\<close> show ?thesis
      by (simp add: IntegerMutation_updater_def ReadStringObject_bytes Let_def)
  next
    case (Some v)
    with ob None show ?thesis
      by (auto simp: IntegerMutation_updater_def ReadStringObject_bytes counter_value_def Let_def)
  qed
next
  case (Some n)
  have ok: "int64_ok n" by (rule counter_value_ok [OF Some])
  have op: "(case mode of kAdd \<Rightarrow> CheckedAddInt64 n operand | kSubtract \<Rightarrow> CheckedSubtractInt64 n operand) =
      (if int64_ok (combine mode n operand) then Some (combine mode n operand) else None)"
    using ok assms by (cases mode) (simp_all add: CheckedAddInt64_exact CheckedSubtractInt64_exact combine_def)
  have "existing \<noteq> None \<longrightarrow> read_status (ReadStringObject existing) \<noteq> kWrongTypeRead \<and>
      ParseInt64 (read_value (ReadStringObject existing)) = Some n \<and>
      read_deadline_us (ReadStringObject existing) = deadline_of existing"
    using Some by (auto simp: counter_value_def ReadStringObject_bytes deadline_of_def
        split: option.splits Option.bind_splits)
  moreover have "existing = None \<longrightarrow> n = 0 \<and> deadline_of existing = 0"
    using Some by (auto simp: counter_value_def deadline_of_def)
  ultimately show ?thesis
    using Some op
    by (cases existing) (auto simp: IntegerMutation_updater_def string_with_def Let_def)
qed

text \<open>What SET decides from the live object of its key.\<close>

definition set_writes :: "SetOptions \<Rightarrow> ('h, 's, 'z) RedisObject option \<Rightarrow> bool" where
  "set_writes opts existing \<longleftrightarrow>
     \<not> (opt_get opts \<and> existing \<noteq> None \<and> string_bytes (the existing) = None) \<and>
     \<not> (opt_nx opts \<and> existing \<noteq> None) \<and> \<not> (opt_xx opts \<and> existing = None)"

definition set_deadline :: "SetOptions \<Rightarrow> ('h, 's, 'z) RedisObject option \<Rightarrow> u64" where
  "set_deadline opts existing =
     (if opt_deadline_us opts \<noteq> 0 then opt_deadline_us opts
      else if opt_keep_ttl opts then deadline_of existing else 0)"

definition set_reply :: "SetOptions \<Rightarrow> ('h, 's, 'z) RedisObject option \<Rightarrow> Response" where
  "set_reply opts existing =
     (if opt_get opts then
        (case existing of
           None \<Rightarrow> NullBulk
         | Some ob \<Rightarrow> (case string_bytes ob of
                         None \<Rightarrow> Error kWrongTypeError
                       | Some old \<Rightarrow> if set_writes opts existing then BulkString old else NullBulk))
      else if set_writes opts existing then SimpleString ''OK'' else NullBulk)"

lemma SetCmd_updater_fst:
  "fst (SetCmd_updater opts v existing) =
     (if set_writes opts existing then Some (string_with v (set_deadline opts existing)) else None)"
  by (cases existing)
     (auto simp: SetCmd_updater_def set_writes_def set_deadline_def ReadStringObject_bytes deadline_of_def
        DeadlineUs_def ApplyStringDeadline_string_with Let_def)

lemma SetCmd_updater_reply:
  "(let c = snd (SetCmd_updater opts v existing)
    in if cap_wrong_type c then Error kWrongTypeError
       else if opt_get opts then
         (case cap_old_value c of
            None \<Rightarrow> NullBulk
          | Some v \<Rightarrow> if cap_condition_failed c then NullBulk else BulkString v)
       else if \<not> cap_wrote c then NullBulk
       else SimpleString ''OK'') = set_reply opts existing"
proof (cases existing)
  case None
  then show ?thesis by (simp add: SetCmd_updater_def set_reply_def set_writes_def Let_def)
next
  case (Some ob)
  then show ?thesis
    by (cases "string_bytes ob")
       (auto simp: SetCmd_updater_def set_reply_def set_writes_def ReadStringObject_bytes Let_def)
qed

context imt_lib begin

lemma SetCmd_eq:
  assumes "ParseSetOptions args now = Inr opts"
  shows "SetCmd_ExecCmd C args e now =
    (let existing = CacheEngine_Get C e (args ! 1) now
     in (if set_writes opts existing
         then commit C e (args ! 1) (Some (string_with (args ! 2) (set_deadline opts existing)))
                (MakeRecord ''SET'' args) now
         else e, set_reply opts existing))"
  using assms SetCmd_updater_reply [of opts "args ! 2" "CacheEngine_Get C e (args ! 1) now"]
  by (simp add: SetCmd_ExecCmd_def Update_eq SetCmd_updater_fst Let_def)

lemma IntegerMutation_eq:
  assumes "int64_ok operand"
  shows "case counter_value (CacheEngine_Get C e (args ! 1) now) of
      None \<Rightarrow> fst (ExecIntegerMutation C args e now operand mode) = e \<and>
        snd (ExecIntegerMutation C args e now operand mode) \<in> {Error kWrongTypeError, Error kIntegerError}
    | Some n \<Rightarrow> ExecIntegerMutation C args e now operand mode =
        (if int64_ok (combine mode n operand)
         then (commit C e (args ! 1)
                 (Some (string_with (to_string (combine mode n operand))
                    (deadline_of (CacheEngine_Get C e (args ! 1) now))))
                 (MakeRecord (args ! 0) args) now, Integer (combine mode n operand))
         else (e, Error kOverflowError))"
proof (cases "counter_value (CacheEngine_Get C e (args ! 1) now)")
  case None
  then show ?thesis
    using IntegerMutation_updater_eq [OF assms, where mode = mode and existing = "CacheEngine_Get C e (args ! 1) now"]
    by (auto simp: ExecIntegerMutation_def Update_eq Let_def)
next
  case (Some n)
  have "\<not> int64_ok (combine mode n operand) \<Longrightarrow>
     \<not> int_wrong_type (snd (IntegerMutation_updater operand mode (CacheEngine_Get C e (args ! 1) now))) \<and>
     \<not> int_invalid (snd (IntegerMutation_updater operand mode (CacheEngine_Get C e (args ! 1) now)))"
    using IntegerMutation_updater_eq [OF assms, where mode = mode and existing = "CacheEngine_Get C e (args ! 1) now"] Some
    by (auto simp: IntegerMutation_updater_def Let_def split: option.splits if_splits)
  with Some show ?thesis
    using IntegerMutation_updater_eq [OF assms, where mode = mode and existing = "CacheEngine_Get C e (args ! 1) now"]
    by (auto simp: ExecIntegerMutation_def Update_eq Let_def)
qed

lemma AppendCmd_eq:
  "AppendCmd_ExecCmd C args e now =
     (let existing = CacheEngine_Get C e (args ! 1) now;
          old = (case existing of None \<Rightarrow> Some [] | Some ob \<Rightarrow> string_bytes ob)
      in case old of
           None \<Rightarrow> (e, Error kWrongTypeError)
         | Some v \<Rightarrow> (commit C e (args ! 1) (Some (string_with (v @ args ! 2) (deadline_of existing)))
                        (MakeRecord ''APPEND'' args) now,
                      Integer (int (length (v @ args ! 2)))))"
  by (auto simp: AppendCmd_ExecCmd_def Update_eq ReadStringObject_bytes string_with_def deadline_of_def Let_def
      split: option.splits)

lemma GetCmd_eq:
  "GetCmd_ExecCmd C args e now =
     (e, case CacheEngine_Get C e (args ! 1) now of
           None \<Rightarrow> NullBulk
         | Some ob \<Rightarrow> (case string_bytes ob of None \<Rightarrow> Error kWrongTypeError | Some v \<Rightarrow> BulkString v))"
  by (auto simp: GetCmd_ExecCmd_def ReadStringObject_bytes Let_def split: option.splits)

end

section \<open>The options of SET, declaratively\<close>

text \<open>
  What a list of option words means, independently of the parser: the words that were read and whether all were. An
  expiry takes the next argument as its amount.
\<close>

datatype SetWord = WordNX | WordXX | WordGET | WordKEEPTTL | WordExpiry string string

definition plain_words :: "(string \<times> SetWord) list" where
  "plain_words = [(''NX'', WordNX), (''XX'', WordXX), (''GET'', WordGET), (''KEEPTTL'', WordKEEPTTL)]"

definition expiry_units :: "string list" where
  "expiry_units = [''EX'', ''PX'', ''EXAT'', ''PXAT'']"

fun set_words :: "string list \<Rightarrow> SetWord list \<times> bool" where
  "set_words [] = ([], True)"
| "set_words (arg # args) =
     (case map_of plain_words (ToUpperAscii arg) of
        Some word \<Rightarrow> (word # fst (set_words args), snd (set_words args))
      | None \<Rightarrow>
          (case args of
             amount # args' \<Rightarrow>
               if ToUpperAscii arg \<in> set expiry_units
               then (WordExpiry (ToUpperAscii arg) amount # fst (set_words args'), snd (set_words args'))
               else ([], False)
           | [] \<Rightarrow> ([], False)))"

text \<open>The deadline of an expiry in exact arithmetic: a positive amount of seconds or milliseconds from now on or from the
  epoch, when the result is a 64-bit count of microseconds.\<close>

definition expiry_deadline :: "u64 \<Rightarrow> string \<Rightarrow> string \<Rightarrow> nat option" where
  "expiry_deadline now unit text =
     (case ParseInt64 text of
        None \<Rightarrow> None
      | Some n \<Rightarrow>
          let d = (if unit \<in> {''EX'', ''PX''} then unat now else 0) + nat n * (if unit \<in> {''EX'', ''EXAT''} then 1000000 else 1000)
          in if 0 < n \<and> d < 2 ^ 64 then Some d else None)"

fun is_condition :: "SetWord \<Rightarrow> bool" where
  "is_condition word \<longleftrightarrow> word = WordNX \<or> word = WordXX"

fun is_expiry :: "SetWord \<Rightarrow> bool" where
  "is_expiry (WordExpiry unit text) = True"
| "is_expiry word \<longleftrightarrow> word = WordKEEPTTL"

definition at_most_one :: "('a \<Rightarrow> bool) \<Rightarrow> 'a list \<Rightarrow> bool" where
  "at_most_one P xs \<longleftrightarrow> length (filter P xs) \<le> 1"

definition words_compatible :: "SetWord list \<Rightarrow> bool" where
  "words_compatible words \<longleftrightarrow> at_most_one is_condition words \<and> at_most_one (\<lambda>w. w = WordGET) words \<and>
     at_most_one is_expiry words \<and> \<not> (WordNX \<in> set words \<and> WordGET \<in> set words)"

definition amounts_ok :: "u64 \<Rightarrow> SetWord list \<Rightarrow> bool" where
  "amounts_ok now words \<longleftrightarrow> (\<forall>unit text. WordExpiry unit text \<in> set words \<longrightarrow> expiry_deadline now unit text \<noteq> None)"

definition words_deadline :: "u64 \<Rightarrow> SetWord list \<Rightarrow> u64" where
  "words_deadline now words =
     (case filter (\<lambda>w. is_expiry w \<and> w \<noteq> WordKEEPTTL) words of
        WordExpiry unit text # ws \<Rightarrow> of_nat (the (expiry_deadline now unit text))
      | ws \<Rightarrow> 0)"

definition words_options :: "u64 \<Rightarrow> SetWord list \<Rightarrow> SetOptions" where
  "words_options now words =
     \<lparr>opt_nx = WordNX \<in> set words, opt_xx = WordXX \<in> set words, opt_get = WordGET \<in> set words,
      opt_keep_ttl = WordKEEPTTL \<in> set words, opt_deadline_us = words_deadline now words\<rparr>"

lemma plain_words_simps:
  "map_of plain_words w = (if w = ''NX'' then Some WordNX else if w = ''XX'' then Some WordXX
     else if w = ''GET'' then Some WordGET else if w = ''KEEPTTL'' then Some WordKEEPTTL else None)"
  by (simp add: plain_words_def)

lemma expiry_computed:
  assumes "unit \<in> set expiry_units"
  shows "(case ParsePositiveExpiration text of Inl err \<Rightarrow> Inl err | Inr amount \<Rightarrow> ComputeDeadline unit amount now) =
    (case expiry_deadline now unit text of None \<Rightarrow> Inl kInvalidExpireError | Some d \<Rightarrow> Inr (of_nat d))"
proof (cases "ParseInt64 text")
  case (Some n)
  show ?thesis
  proof (cases "0 < n")
    case True
    let ?a = "i64_to_u64 n"
    have a: "unat ?a = nat n" using True ParseInt64_range [OF Some] by (simp add: unat_i64_to_u64)
    have mult: "CheckedMultiply ?a m = (if nat n * unat m < 2 ^ 64 then Some (of_nat (nat n * unat m)) else None)"
      if "0 < m" for m :: u64 using that by (simp add: CheckedMultiply_exact flip: a)
    have add: "CheckedAdd now (of_nat d) = (if unat now + d < 2 ^ 64 then Some (of_nat (unat now + d)) else None)"
      if "d < 2 ^ 64" for d using that by (simp add: CheckedAdd_exact unat_of_nat)
    define d where "d = nat n * (if unit \<in> {''EX'', ''EXAT''} then 1000000 else 1000)"
    have "CheckedMultiply ?a (if unit \<in> {''EX'', ''EXAT''} then 1000000 else 1000) = (if d < 2 ^ 64 then Some (of_nat d) else None)"
      using mult [of 1000000] mult [of 1000] by (simp add: d_def)
    moreover have "expiry_deadline now unit text =
        (let t = (if unit \<in> {''EX'', ''PX''} then unat now else 0) + d in if t < 2 ^ 64 then Some t else None)"
      using Some True by (simp add: expiry_deadline_def d_def)
    moreover have "ParsePositiveExpiration text = Inr ?a" using Some True by (simp add: ParsePositiveExpiration_def)
    ultimately show ?thesis using assms add [of d]
      by (cases "d < 2 ^ 64") (auto simp: expiry_units_def ComputeDeadline_def Let_def)
  qed (use Some in \<open>simp add: ParsePositiveExpiration_def expiry_deadline_def Let_def\<close>)
qed (simp add: ParsePositiveExpiration_def expiry_deadline_def)

text \<open>The parser, from a state in which some words have been read.\<close>

definition words_fit :: "SetOptions \<Rightarrow> bool \<Rightarrow> SetWord list \<Rightarrow> bool" where
  "words_fit opts has_exp words \<longleftrightarrow>
     length (filter is_condition words) + of_bool (opt_nx opts \<or> opt_xx opts) \<le> 1 \<and>
     length (filter (\<lambda>w. w = WordGET) words) + of_bool (opt_get opts) \<le> 1 \<and>
     length (filter is_expiry words) + of_bool has_exp \<le> 1"

definition with_words :: "u64 \<Rightarrow> SetOptions \<Rightarrow> SetWord list \<Rightarrow> SetOptions" where
  "with_words now opts words =
     \<lparr>opt_nx = opt_nx opts \<or> WordNX \<in> set words, opt_xx = opt_xx opts \<or> WordXX \<in> set words,
      opt_get = opt_get opts \<or> WordGET \<in> set words, opt_keep_ttl = opt_keep_ttl opts \<or> WordKEEPTTL \<in> set words,
      opt_deadline_us = (if filter (\<lambda>w. is_expiry w \<and> w \<noteq> WordKEEPTTL) words = [] then opt_deadline_us opts
                         else words_deadline now words)\<rparr>"

definition parsed_ok :: "u64 \<Rightarrow> SetOptions \<Rightarrow> bool \<Rightarrow> SetWord list \<times> bool \<Rightarrow> string + SetOptions \<Rightarrow> bool" where
  "parsed_ok now opts has_exp = (\<lambda>(words, complete) result.
     (case result of
        Inr opts' \<Rightarrow> complete \<and> words_fit opts has_exp words \<and> amounts_ok now words \<and> opts' = with_words now opts words
      | Inl err \<Rightarrow> err = kSyntaxError \<and> \<not> (complete \<and> words_fit opts has_exp words) \<or>
                   err = kInvalidExpireError \<and> \<not> amounts_ok now words))"

lemma no_expiry_left:
  assumes "words_fit opts True words"
  shows "filter (\<lambda>w. is_expiry w \<and> w \<noteq> WordKEEPTTL) words = []"
proof -
  have "filter is_expiry words = []" using assms by (simp add: words_fit_def)
  then show ?thesis by (auto simp: filter_empty_conv)
qed

lemma parsed_ok_step:
  assumes "parsed_ok now opts' has_exp' (words, complete) result"
    and "words_fit opts has_exp (word # words) \<longleftrightarrow> words_fit opts' has_exp' words"
    and "amounts_ok now (word # words) \<longleftrightarrow> amounts_ok now words"
    and "words_fit opts' has_exp' words \<Longrightarrow> with_words now opts (word # words) = with_words now opts' words"
  shows "parsed_ok now opts has_exp (word # words, complete) result"
  using assms by (auto simp: parsed_ok_def split: sum.splits)

lemma parsed_ok_plain:
  "words_fit opts has_exp [WordNX] \<Longrightarrow> parsed_ok now (opts\<lparr>opt_nx := True\<rparr>) has_exp (words, complete) result \<Longrightarrow>
    parsed_ok now opts has_exp (WordNX # words, complete) result"
  "words_fit opts has_exp [WordXX] \<Longrightarrow> parsed_ok now (opts\<lparr>opt_xx := True\<rparr>) has_exp (words, complete) result \<Longrightarrow>
    parsed_ok now opts has_exp (WordXX # words, complete) result"
  "words_fit opts has_exp [WordGET] \<Longrightarrow> parsed_ok now (opts\<lparr>opt_get := True\<rparr>) has_exp (words, complete) result \<Longrightarrow>
    parsed_ok now opts has_exp (WordGET # words, complete) result"
  "words_fit opts has_exp [WordKEEPTTL] \<Longrightarrow> parsed_ok now (opts\<lparr>opt_keep_ttl := True\<rparr>) True (words, complete) result \<Longrightarrow>
    parsed_ok now opts has_exp (WordKEEPTTL # words, complete) result"
  by (erule parsed_ok_step; simp add: words_fit_def with_words_def amounts_ok_def words_deadline_def)+

lemma parsed_ok_expiry:
  assumes "parsed_ok now (opts\<lparr>opt_deadline_us := of_nat d\<rparr>) True (words, complete) result"
    and "expiry_deadline now unit text = Some d" and "\<not> has_exp"
  shows "parsed_ok now opts has_exp (WordExpiry unit text # words, complete) result"
  using assms(2,3) no_expiry_left [of "opts\<lparr>opt_deadline_us := of_nat d\<rparr>" words]
  by (intro parsed_ok_step [OF assms(1)]) (auto simp: words_fit_def with_words_def amounts_ok_def words_deadline_def)

lemma not_fit_syntax:
  "\<not> words_fit opts has_exp [word] \<Longrightarrow> parsed_ok now opts has_exp (word # words, complete) (Inl kSyntaxError)"
  by (auto simp: parsed_ok_def words_fit_def)

lemma ParseSetOptions_loop_expiry:
  assumes "ToUpperAscii arg \<in> set expiry_units"
  shows "ParseSetOptions_loop now opts has_exp (arg # amt # args) =
    (if has_exp then Inl kSyntaxError
     else case expiry_deadline now (ToUpperAscii arg) amt of
       None \<Rightarrow> Inl kInvalidExpireError
     | Some d \<Rightarrow> ParseSetOptions_loop now (opts\<lparr>opt_deadline_us := of_nat d\<rparr>) True args)"
proof -
  let ?w = "ToUpperAscii arg"
  have unit: "?w = ''EX'' \<or> ?w = ''PX'' \<or> ?w = ''EXAT'' \<or> ?w = ''PXAT''" using assms by (auto simp: expiry_units_def)
  then have plain: "?w \<noteq> ''NX''" "?w \<noteq> ''XX''" "?w \<noteq> ''GET''" "?w \<noteq> ''KEEPTTL''" by auto
  have "ParseSetOptions_loop now opts has_exp (arg # amt # args) =
    (if has_exp then Inl kSyntaxError
     else case (case ParsePositiveExpiration amt of Inl err \<Rightarrow> Inl err | Inr amount \<Rightarrow> ComputeDeadline ?w amount now) of
       Inl err \<Rightarrow> Inl err | Inr d \<Rightarrow> ParseSetOptions_loop now (opts\<lparr>opt_deadline_us := d\<rparr>) True args)"
    using unit by (simp add: plain Let_def split: sum.splits)
  also note expiry_computed [OF assms]
  finally show ?thesis by (simp split: option.splits)
qed

lemma ParseSetOptions_loop_words:
  "parsed_ok now opts has_exp (set_words args) (ParseSetOptions_loop now opts has_exp args)"
proof (induction args arbitrary: opts has_exp rule: set_words.induct)
  case 1
  then show ?case by (simp add: parsed_ok_def words_fit_def with_words_def amounts_ok_def)
next
  case (2 arg args)
  let ?w = "ToUpperAscii arg"
  show ?case
  proof (cases "map_of plain_words ?w")
    case (Some word)
    note IH = 2(3) [OF Some]
    obtain words complete where w: "set_words args = (words, complete)" by fastforce
    have arg: "set_words (arg # args) = (word # words, complete)" using Some w by simp
    show ?thesis
    proof (cases "words_fit opts has_exp [word]")
      case True
      with Some show ?thesis unfolding arg using IH [unfolded w]
        by (auto simp: plain_words_simps words_fit_def split: if_splits intro: parsed_ok_plain)
    next
      case False
      then have "ParseSetOptions_loop now opts has_exp (arg # args) = Inl kSyntaxError"
        using Some by (auto simp: plain_words_simps words_fit_def of_bool_def split: if_splits)
      with False show ?thesis unfolding arg by (simp add: not_fit_syntax)
    qed
  next
    case None
    then have plain: "?w \<noteq> ''NX''" "?w \<noteq> ''XX''" "?w \<noteq> ''GET''" "?w \<noteq> ''KEEPTTL''" by (auto simp: plain_words_simps split: if_splits)
    show ?thesis
    proof (cases "?w \<in> set expiry_units \<and> args \<noteq> []")
      case False
      then have "ParseSetOptions_loop now opts has_exp (arg # args) = Inl kSyntaxError" using plain
        by (auto simp: expiry_units_def Let_def split: list.splits)
      moreover have "set_words (arg # args) = ([], False)" using None False by (auto split: list.splits)
      ultimately show ?thesis by (simp add: parsed_ok_def)
    next
      case True
      then obtain amt args' where args: "args = amt # args'" by (cases args) auto
      obtain words complete where w: "set_words args' = (words, complete)" by fastforce
      have arg: "set_words (arg # args) = (WordExpiry ?w amt # words, complete)" using None True args w by simp
      note run = ParseSetOptions_loop_expiry [OF conjunct1 [OF True], of now opts has_exp amt args']
      show ?thesis
      proof (cases "expiry_deadline now ?w amt")
        case None
        with run show ?thesis unfolding arg unfolding args by (auto simp: parsed_ok_def amounts_ok_def words_fit_def)
      next
        case (Some d)
        with run parsed_ok_expiry [OF 2(1) [OF None args conjunct1 [OF True], unfolded w] Some] show ?thesis
          unfolding arg unfolding args by (cases has_exp) (simp_all add: not_fit_syntax words_fit_def)
      qed
    qed
  qed
qed

lemma ParseSetOptions_words:
  assumes "set_words (drop 3 args) = (words, complete)"
  shows "if complete \<and> words_compatible words \<and> amounts_ok now words then ParseSetOptions args now = Inr (words_options now words)
    else \<exists>err. ParseSetOptions args now = Inl err \<and>
      (err = kSyntaxError \<and> \<not> (complete \<and> words_compatible words) \<or> err = kInvalidExpireError \<and> \<not> amounts_ok now words)"
proof -
  have fit: "words_compatible words \<longleftrightarrow> words_fit SetOptions_new False words \<and> \<not> (WordNX \<in> set words \<and> WordGET \<in> set words)"
    by (simp add: words_compatible_def words_fit_def at_most_one_def SetOptions_new_def)
  have opts: "with_words now SetOptions_new words = words_options now words"
    by (simp add: with_words_def words_options_def SetOptions_new_def words_deadline_def)
  show ?thesis
  proof (cases "ParseSetOptions_loop now SetOptions_new False (drop 3 args)")
    case (Inl err)
    with ParseSetOptions_loop_words [of now SetOptions_new False "drop 3 args", unfolded assms] fit show ?thesis
      by (auto simp: parsed_ok_def ParseSetOptions_def)
  next
    case (Inr o')
    with ParseSetOptions_loop_words [of now SetOptions_new False "drop 3 args", unfolded assms]
    have "complete" "words_fit SetOptions_new False words" "amounts_ok now words" "o' = words_options now words"
      by (simp_all add: parsed_ok_def opts)
    with Inr fit show ?thesis by (auto simp: ParseSetOptions_def words_options_def)
  qed
qed

section \<open>Properties\<close>

text \<open>(C31) INCR, DECR, INCRBY and DECRBY compute in the integers: when the key is missing or holds the
  text of an integer and the exact result fits in 64 bits, that result is the reply and its text
  is stored with the expiry kept; in every other case (wrong type, not an integer, or a result out
  of range) the reply is an error and the engine is unchanged.\<close>

theorem integer_commands_exact:
  assumes "imt_lib C" and "int64_ok operand"
    and "ExecIntegerMutation C args e now operand mode = (e', reply)"
  shows "case counter_value (CacheEngine_Get C e (args ! 1) now) of
      Some n \<Rightarrow> if int64_ok (combine mode n operand)
        then reply = Integer (combine mode n operand) \<and>
          engine_view C e' = (engine_view C e)(args ! 1 \<mapsto>
            string_with (to_string (combine mode n operand)) (deadline_of (CacheEngine_Get C e (args ! 1) now)))
        else e' = e \<and> reply = Error kOverflowError
    | None \<Rightarrow> e' = e \<and> is_error reply"
  using imt_lib.IntegerMutation_eq [OF assms(1,2), where args = args and e = e and now = now and mode = mode]
    assms(3)
  by (auto simp: imt_lib.commit_Some_view [OF assms(1)] split: option.splits if_splits)

theorem integer_commands_exact_witness:
  "snd (ExecIntegerMutation ref_containers [''INCRBY'', ''k'', ''7''] (CacheEngine_new ref_containers) 1 7 kAdd) =
     Integer 7"
proof -
  let ?r = "ExecIntegerMutation ref_containers [''INCRBY'', ''k'', ''7''] (CacheEngine_new ref_containers) 1 7 kAdd"
  have "CacheEngine_Get ref_containers (CacheEngine_new ref_containers) ''k'' 1 = None"
    by (simp add: CacheEngine_Get_def KeySlot_def CacheEngine_new_def HashSlot_new_def HashSlot_Get_def
        ref_containers_def ref_map_def)
  then show ?thesis
    using integer_commands_exact [OF ref_lib.imt_lib_axioms _ surjective_pairing, of 7
        "[''INCRBY'', ''k'', ''7'']" "CacheEngine_new ref_containers" 1 kAdd]
    by (simp add: counter_value_def combine_def int64_ok_def)
qed

text \<open>(C37) SET, for all arguments. The words after the value are read as a list of options. When a word is unknown, an expiry has
  no amount, or options exclude each other (two conditions, GET twice, two expiries, NX with GET), or when an amount is
  not a positive integer whose deadline fits in 64 bits, SET changes nothing and replies the syntax error or the expiry error, each
  only if there is one of its kind. Otherwise it writes exactly when NX finds no key, XX finds one, and GET does not meet a
  value of another type; it stores the text with the deadline of the expiry option, computed without wrap-around, the old
  deadline under KEEPTTL, and none otherwise, touching no other key; when it does not write the engine is unchanged. The
  reply is OK or nil, or under GET the previous text.\<close>

theorem SetCmd_correct:
  assumes "imt_lib C" and "SetCmd_ExecCmd C args e now = (e', reply)" and "set_words (drop 3 args) = (words, complete)"
    and "existing = CacheEngine_Get C e (args ! 1) now"
  shows "if complete \<and> words_compatible words \<and> amounts_ok now words
    then reply = set_reply (words_options now words) existing \<and>
      (if set_writes (words_options now words) existing
       then engine_view C e' = (engine_view C e)(args ! 1 \<mapsto>
              string_with (args ! 2) (set_deadline (words_options now words) existing))
       else e' = e)
    else e' = e \<and> (reply = Error kSyntaxError \<and> \<not> (complete \<and> words_compatible words) \<or>
      reply = Error kInvalidExpireError \<and> \<not> amounts_ok now words)"
proof (cases "complete \<and> words_compatible words \<and> amounts_ok now words")
  case True
  with ParseSetOptions_words [OF assms(3), of now] have "ParseSetOptions args now = Inr (words_options now words)" by simp
  from imt_lib.SetCmd_eq [OF assms(1) this, of e] assms(2,4) True show ?thesis
    by (cases "set_writes (words_options now words) existing") (auto simp: imt_lib.commit_Some_view [OF assms(1)] Let_def)
next
  case False
  with ParseSetOptions_words [OF assms(3), of now] assms(2) show ?thesis by (auto simp: SetCmd_ExecCmd_def)
qed

theorem SetCmd_correct_witness:
  "SetCmd_ExecCmd ref_containers [''SET'', ''k'', ''v'', ''nx'', ''Px'', ''30'', ''XX''] (CacheEngine_new ref_containers) 5 =
     (CacheEngine_new ref_containers, Error kSyntaxError) \<and>
   engine_view ref_containers (fst (SetCmd_ExecCmd ref_containers [''SET'', ''k'', ''v'', ''nx'', ''Px'', ''30''] (CacheEngine_new ref_containers) 5)) ''k'' =
     Some (string_with ''v'' 30005)"
proof -
  have upper: "ToUpperAscii ''nx'' = ''NX''" "ToUpperAscii ''Px'' = ''PX''" "ToUpperAscii ''XX'' = ''XX''" by code_simp+
  have n: "ParseInt64 ''30'' = Some 30" by code_simp
  have words: "set_words (drop 3 [''SET'', ''k'', ''v'', ''nx'', ''Px'', ''30'', ''XX'']) = ([WordNX, WordExpiry ''PX'' ''30'', WordXX], True)"
    "set_words (drop 3 [''SET'', ''k'', ''v'', ''nx'', ''Px'', ''30'']) = ([WordNX, WordExpiry ''PX'' ''30''], True)"
    by (simp_all add: plain_words_def expiry_units_def upper)
  have get: "CacheEngine_Get ref_containers (CacheEngine_new ref_containers) ''k'' 5 = None"
    by (simp add: CacheEngine_Get_def KeySlot_def CacheEngine_new_def HashSlot_new_def HashSlot_Get_def
        ref_containers_def ref_map_def)
  have ok: "amounts_ok 5 [WordNX, WordExpiry ''PX'' ''30'', WordXX]" "amounts_ok 5 [WordNX, WordExpiry ''PX'' ''30'']"
    "\<not> words_compatible [WordNX, WordExpiry ''PX'' ''30'', WordXX]" "words_compatible [WordNX, WordExpiry ''PX'' ''30'']"
    by (simp_all add: amounts_ok_def expiry_deadline_def n words_compatible_def at_most_one_def)
  have opts: "words_options 5 [WordNX, WordExpiry ''PX'' ''30''] = SetOptions_new\<lparr>opt_nx := True, opt_deadline_us := 30005\<rparr>"
    by (simp add: words_options_def words_deadline_def expiry_deadline_def n SetOptions_new_def)
  show ?thesis
    using SetCmd_correct [OF ref_lib.imt_lib_axioms surjective_pairing words(1) refl, where e = "CacheEngine_new ref_containers" and now = 5]
      SetCmd_correct [OF ref_lib.imt_lib_axioms surjective_pairing words(2) refl, where e = "CacheEngine_new ref_containers" and now = 5]
    by (simp add: ok opts get set_writes_def set_deadline_def SetOptions_new_def prod_eq_iff)
qed

text \<open>A value stored by SET is what GET returns, until its deadline and for every byte string,
  and GET of any other key is not affected.\<close>

theorem Set_then_Get:
  assumes "imt_lib C" and "SetCmd_ExecCmd C [cmd, key, v] e now = (e', reply)"
  shows "reply = SimpleString ''OK'' \<and>
    snd (GetCmd_ExecCmd C [get, key'] e' now') =
      (if key' = key then BulkString v else snd (GetCmd_ExecCmd C [get, key'] e now'))"
proof -
  have "ParseSetOptions [cmd, key, v] now = Inr SetOptions_new"
    by (simp add: ParseSetOptions_def SetOptions_new_def)
  from imt_lib.SetCmd_eq [OF assms(1) this, of e] assms(2)
  have "reply = SimpleString ''OK''" "e' = commit C e key (Some (string_with v 0)) (MakeRecord ''SET'' [cmd, key, v]) now"
    by (auto simp: SetOptions_new_def set_reply_def set_writes_def set_deadline_def Let_def)
  then show ?thesis
    by (simp add: imt_lib.GetCmd_eq [OF assms(1)] imt_lib.Get_commit_Some [OF assms(1)] live_def IsExpired_def)
qed

theorem Set_then_Get_witness:
  "snd (GetCmd_ExecCmd ref_containers [''GET'', ''k'']
     (fst (SetCmd_ExecCmd ref_containers [''SET'', ''k'', ''v''] (CacheEngine_new ref_containers) 1)) 2) = BulkString ''v''"
  using Set_then_Get [OF ref_lib.imt_lib_axioms surjective_pairing, of "''SET''" "''k''" "''v''"
      "CacheEngine_new ref_containers" 1 "''GET''" "''k''" 2] by simp

end
