(* ===== verification/HashCmd.thy ===== *)
theory HashCmd
  imports Response
begin

text \<open>
  The hash commands, \<^verbatim>\<open>src/command/hash_cmd.cpp\<close>: HSET, HGET, HDEL, HEXISTS, HLEN, HSTRLEN, HMGET, HMSET,
  HGETALL, HKEYS, HVALS and HINCRBY.
\<close>

section \<open>Helpers\<close>

definition CheckExactArity :: "string list \<Rightarrow> nat \<Rightarrow> string \<Rightarrow> string option" where
  "CheckExactArity args expected command =
     (if length args \<noteq> expected then Some (arity_error command) else None)"

definition CheckMinArity :: "string list \<Rightarrow> nat \<Rightarrow> string \<Rightarrow> string option" where
  "CheckMinArity args minimum command =
     (if length args < minimum then Some (arity_error command) else None)"

definition CheckFieldValueArity :: "string list \<Rightarrow> string \<Rightarrow> string option" where
  "CheckFieldValueArity args command =
     (if length args < 4 \<or> length args mod 2 \<noteq> 0 then Some (arity_error command) else None)"

definition HashMakeRecord :: "string list \<Rightarrow> string \<Rightarrow> BinlogRecord" where
  "HashMakeRecord args command = new_record\<lparr>rec_args := command # drop 1 args\<rparr>"

definition HashObjectWithDeadline :: "'h \<Rightarrow> u64 \<Rightarrow> ('h, 's, 'z) RedisObject" where
  "HashObjectWithDeadline hash deadline_us =
     (let obj = MakeHash hash in if deadline_us \<noteq> 0 then WithDeadline obj deadline_us else obj)"

text \<open>The hash pointer (\<open>None\<close> for null) and the flag \<^verbatim>\<open>*wrong_type\<close>.\<close>

definition HashOrWrongType :: "('h, 's, 'z) RedisObject option \<Rightarrow> 'h option \<times> bool" where
  "HashOrWrongType obj =
     (case obj of
        None \<Rightarrow> (None, False)
      | Some ob \<Rightarrow> if Type ob \<noteq> kHash then (None, True)
                   else case Hash ob of None \<Rightarrow> (None, True) | Some hash \<Rightarrow> (Some hash, False))"

text \<open>The loop over the arguments from index 2 on, two at a time; \<open>CheckFieldValueArity\<close> leaves no
  single argument over.\<close>

fun ApplyFieldValuePairs :: "('h, string) ImtMap \<Rightarrow> string list \<Rightarrow> 'h \<times> int \<Rightarrow> 'h \<times> int" where
  "ApplyFieldValuePairs M (field # value # rest) (hash, added) =
     ApplyFieldValuePairs M rest
       (Map_Set M hash field value, if Map_Find M hash field = None then added + 1 else added)"
| "ApplyFieldValuePairs M _ (hash, added) = (hash, added)"

definition AddWouldOverflow :: "int \<Rightarrow> int \<Rightarrow> bool" where
  "AddWouldOverflow value increment =
     (if 0 < increment then int64_max - increment < value
      else if increment < 0 then value < int64_min - increment
      else False)"

section \<open>Commands that write\<close>

text \<open>The start of the callbacks: \<open>None\<close> for a wrong type, otherwise the hash to work on (empty for a
  missing key) and its deadline.\<close>

definition hash_to_update ::
  "('o, 'h, 's, 'z) containers \<Rightarrow> ('h, 's, 'z) RedisObject option \<Rightarrow> ('h \<times> u64) option" where
  "hash_to_update C existing =
     (case existing of
        None \<Rightarrow> Some (Map_empty (hashes C), 0)
      | Some ob \<Rightarrow> if Type ob \<noteq> kHash \<or> Hash ob = None then None
                   else Some (the (Hash ob), DeadlineUs ob))"

definition HSetCmd_CheckArity :: "string list \<Rightarrow> string option" where
  "HSetCmd_CheckArity args = CheckFieldValueArity args ''hset''"

definition HSetCmd_ExecCmd ::
  "('o, 'h, 's, 'z) containers \<Rightarrow> string list \<Rightarrow> 'o CacheEngine \<Rightarrow> u64 \<Rightarrow> 'o CacheEngine \<times> Response" where
  "HSetCmd_ExecCmd C args e now_us =
     (let (e', wr, wrong_type, added) = CacheEngine_Update C e (args ! 1)
            (\<lambda>existing. case hash_to_update C existing of
               None \<Rightarrow> (None, True, 0)
             | Some (hash, deadline_us) \<Rightarrow>
                 let (hash', added) = ApplyFieldValuePairs (hashes C) (drop 2 args) (hash, 0)
                 in (Some (HashObjectWithDeadline hash' deadline_us), False, added))
            (HashMakeRecord args ''HSET'') now_us
      in (e', if wrong_type then Error kWrongTypeError else Integer added))"

definition HDelCmd_CheckArity :: "string list \<Rightarrow> string option" where
  "HDelCmd_CheckArity args = CheckMinArity args 3 ''hdel''"

definition HDelCmd_loop :: "('h, string) ImtMap \<Rightarrow> string list \<Rightarrow> 'h \<times> int \<Rightarrow> 'h \<times> int" where
  "HDelCmd_loop M flds start =
     foldl (\<lambda>(hash, removed) field.
        if Map_Find M hash field = None then (hash, removed)
        else (case Map_Erase M hash field of
                None \<Rightarrow> (hash, removed)
              | Some next \<Rightarrow> (next, removed + 1))) start flds"

definition HDelCmd_mutator ::
  "('o, 'h, 's, 'z) containers \<Rightarrow> string list \<Rightarrow> ('h, 's, 'z) RedisObject option \<Rightarrow>
   ('h, 's, 'z) MutationResult \<times> bool \<times> int" where
  "HDelCmd_mutator C flds existing =
     (case existing of
        None \<Rightarrow> (mutation False None, False, 0)
      | Some ob \<Rightarrow>
          if Type ob \<noteq> kHash \<or> Hash ob = None then (mutation False None, True, 0)
          else let (hash, removed) = HDelCmd_loop (hashes C) flds (the (Hash ob), 0)
               in if removed = 0 then (mutation False None, False, removed)
                  else if Map_Empty (hashes C) hash then (mutation True None, False, removed)
                  else (mutation True (Some (HashObjectWithDeadline hash (DeadlineUs ob))), False, removed))"

definition HDelCmd_ExecCmd ::
  "('o, 'h, 's, 'z) containers \<Rightarrow> string list \<Rightarrow> 'o CacheEngine \<Rightarrow> u64 \<Rightarrow> 'o CacheEngine \<times> Response" where
  "HDelCmd_ExecCmd C args e now_us =
     (let (e', wr, wrong_type, removed) = CacheEngine_Mutate C e (args ! 1)
            (HDelCmd_mutator C (drop 2 args)) (HashMakeRecord args ''HDEL'') now_us
      in (e', if wrong_type then Error kWrongTypeError else Integer removed))"

definition HMSetCmd_CheckArity :: "string list \<Rightarrow> string option" where
  "HMSetCmd_CheckArity args = CheckFieldValueArity args ''hmset''"

definition HMSetCmd_ExecCmd ::
  "('o, 'h, 's, 'z) containers \<Rightarrow> string list \<Rightarrow> 'o CacheEngine \<Rightarrow> u64 \<Rightarrow> 'o CacheEngine \<times> Response" where
  "HMSetCmd_ExecCmd C args e now_us =
     (let (e', wr, wrong_type) = CacheEngine_Update C e (args ! 1)
            (\<lambda>existing. case hash_to_update C existing of
               None \<Rightarrow> (None, True)
             | Some (hash, deadline_us) \<Rightarrow>
                 let (hash', added) = ApplyFieldValuePairs (hashes C) (drop 2 args) (hash, 0)
                 in (Some (HashObjectWithDeadline hash' deadline_us), False))
            (HashMakeRecord args ''HMSET'') now_us
      in (e', if wrong_type then Error kWrongTypeError else SimpleString ''OK''))"

definition HIncrByCmd_CheckArity :: "string list \<Rightarrow> string option" where
  "HIncrByCmd_CheckArity args = CheckExactArity args 4 ''hincrby''"

text \<open>The callback of HINCRBY; the captured value is the error flag that was set or the result.\<close>

definition HIncrByCmd_updater ::
  "('o, 'h, 's, 'z) containers \<Rightarrow> string \<Rightarrow> int \<Rightarrow> ('h, 's, 'z) RedisObject option \<Rightarrow>
   ('h, 's, 'z) RedisObject option \<times> (string + int)" where
  "HIncrByCmd_updater C field increment existing =
     (case hash_to_update C existing of
        None \<Rightarrow> (None, Inl kWrongTypeError)
      | Some (hash, deadline_us) \<Rightarrow>
          (case (case Map_Find (hashes C) hash field of None \<Rightarrow> Some 0 | Some found \<Rightarrow> ParseInt64 found) of
             None \<Rightarrow> (None, Inl kIntegerError)
           | Some current \<Rightarrow>
               if AddWouldOverflow current increment then (None, Inl kOverflowError)
               else let result = current + increment;
                        hash' = Map_Set (hashes C) hash field (to_string result)
                    in (Some (HashObjectWithDeadline hash' deadline_us), Inr result)))"

definition HIncrByCmd_ExecCmd ::
  "('o, 'h, 's, 'z) containers \<Rightarrow> string list \<Rightarrow> 'o CacheEngine \<Rightarrow> u64 \<Rightarrow> 'o CacheEngine \<times> Response" where
  "HIncrByCmd_ExecCmd C args e now_us =
     (case ParseInt64 (args ! 3) of
        None \<Rightarrow> (e, Error kIntegerError)
      | Some increment \<Rightarrow>
          let (e', wr, outcome) = CacheEngine_Update C e (args ! 1)
                (HIncrByCmd_updater C (args ! 2) increment) (HashMakeRecord args ''HINCRBY'') now_us
          in (e', case outcome of Inl error \<Rightarrow> Error error | Inr result \<Rightarrow> Integer result))"

section \<open>Commands that read\<close>

text \<open>The common start of the reading commands: fetch, check the type, hand over the hash pointer.\<close>

definition ReadHash ::
  "('o, 'h, 's, 'z) containers \<Rightarrow> 'o CacheEngine \<Rightarrow> string \<Rightarrow> u64 \<Rightarrow> ('h option \<Rightarrow> Response) \<Rightarrow>
   'o CacheEngine \<times> Response" where
  "ReadHash C e key now_us reader =
     (let (hash, wrong_type) = HashOrWrongType (CacheEngine_Get C e key now_us)
      in (e, if wrong_type then Error kWrongTypeError else reader hash))"

definition HGetCmd_CheckArity :: "string list \<Rightarrow> string option" where
  "HGetCmd_CheckArity args = CheckExactArity args 3 ''hget''"

definition HGetCmd_ExecCmd ::
  "('o, 'h, 's, 'z) containers \<Rightarrow> string list \<Rightarrow> 'o CacheEngine \<Rightarrow> u64 \<Rightarrow> 'o CacheEngine \<times> Response" where
  "HGetCmd_ExecCmd C args e now_us = ReadHash C e (args ! 1) now_us
     (\<lambda>hash. case hash of
        None \<Rightarrow> NullBulk
      | Some h \<Rightarrow> (case Map_Find (hashes C) h (args ! 2) of None \<Rightarrow> NullBulk | Some found \<Rightarrow> BulkString found))"

definition HExistsCmd_CheckArity :: "string list \<Rightarrow> string option" where
  "HExistsCmd_CheckArity args = CheckExactArity args 3 ''hexists''"

definition HExistsCmd_ExecCmd ::
  "('o, 'h, 's, 'z) containers \<Rightarrow> string list \<Rightarrow> 'o CacheEngine \<Rightarrow> u64 \<Rightarrow> 'o CacheEngine \<times> Response" where
  "HExistsCmd_ExecCmd C args e now_us = ReadHash C e (args ! 1) now_us
     (\<lambda>hash. Integer (if hash \<noteq> None \<and> Map_Find (hashes C) (the hash) (args ! 2) \<noteq> None then 1 else 0))"

definition HLenCmd_CheckArity :: "string list \<Rightarrow> string option" where
  "HLenCmd_CheckArity args = CheckExactArity args 2 ''hlen''"

definition HLenCmd_ExecCmd ::
  "('o, 'h, 's, 'z) containers \<Rightarrow> string list \<Rightarrow> 'o CacheEngine \<Rightarrow> u64 \<Rightarrow> 'o CacheEngine \<times> Response" where
  "HLenCmd_ExecCmd C args e now_us = ReadHash C e (args ! 1) now_us
     (\<lambda>hash. Integer (case hash of None \<Rightarrow> 0 | Some h \<Rightarrow> int (Map_Size (hashes C) h)))"

definition HStrLenCmd_CheckArity :: "string list \<Rightarrow> string option" where
  "HStrLenCmd_CheckArity args = CheckExactArity args 3 ''hstrlen''"

definition HStrLenCmd_ExecCmd ::
  "('o, 'h, 's, 'z) containers \<Rightarrow> string list \<Rightarrow> 'o CacheEngine \<Rightarrow> u64 \<Rightarrow> 'o CacheEngine \<times> Response" where
  "HStrLenCmd_ExecCmd C args e now_us = ReadHash C e (args ! 1) now_us
     (\<lambda>hash. case hash of
        None \<Rightarrow> Integer 0
      | Some h \<Rightarrow> Integer (case Map_Find (hashes C) h (args ! 2) of None \<Rightarrow> 0 | Some found \<Rightarrow> int (length found)))"

definition HMGetCmd_CheckArity :: "string list \<Rightarrow> string option" where
  "HMGetCmd_CheckArity args = CheckMinArity args 3 ''hmget''"

definition HMGetCmd_ExecCmd ::
  "('o, 'h, 's, 'z) containers \<Rightarrow> string list \<Rightarrow> 'o CacheEngine \<Rightarrow> u64 \<Rightarrow> 'o CacheEngine \<times> Response" where
  "HMGetCmd_ExecCmd C args e now_us = ReadHash C e (args ! 1) now_us
     (\<lambda>hash. Array (map (\<lambda>field.
        case (case hash of None \<Rightarrow> None | Some h \<Rightarrow> Map_Find (hashes C) h field) of
          None \<Rightarrow> NullBulk
        | Some found \<Rightarrow> BulkString found) (drop 2 args)))"

definition HGetAllCmd_CheckArity :: "string list \<Rightarrow> string option" where
  "HGetAllCmd_CheckArity args = CheckExactArity args 2 ''hgetall''"

definition HGetAllCmd_ExecCmd ::
  "('o, 'h, 's, 'z) containers \<Rightarrow> string list \<Rightarrow> 'o CacheEngine \<Rightarrow> u64 \<Rightarrow> 'o CacheEngine \<times> Response" where
  "HGetAllCmd_ExecCmd C args e now_us = ReadHash C e (args ! 1) now_us
     (\<lambda>hash. Array (case hash of
        None \<Rightarrow> []
      | Some h \<Rightarrow> concat (map (\<lambda>(field, value). [BulkString field, BulkString value]) (Map_ForEach (hashes C) h))))"

definition HKeysCmd_CheckArity :: "string list \<Rightarrow> string option" where
  "HKeysCmd_CheckArity args = CheckExactArity args 2 ''hkeys''"

definition HKeysCmd_ExecCmd ::
  "('o, 'h, 's, 'z) containers \<Rightarrow> string list \<Rightarrow> 'o CacheEngine \<Rightarrow> u64 \<Rightarrow> 'o CacheEngine \<times> Response" where
  "HKeysCmd_ExecCmd C args e now_us = ReadHash C e (args ! 1) now_us
     (\<lambda>hash. Array (case hash of
        None \<Rightarrow> []
      | Some h \<Rightarrow> map (\<lambda>(field, value). BulkString field) (Map_ForEach (hashes C) h)))"

definition HValsCmd_CheckArity :: "string list \<Rightarrow> string option" where
  "HValsCmd_CheckArity args = CheckExactArity args 2 ''hvals''"

definition HValsCmd_ExecCmd ::
  "('o, 'h, 's, 'z) containers \<Rightarrow> string list \<Rightarrow> 'o CacheEngine \<Rightarrow> u64 \<Rightarrow> 'o CacheEngine \<times> Response" where
  "HValsCmd_ExecCmd C args e now_us = ReadHash C e (args ! 1) now_us
     (\<lambda>hash. Array (case hash of
        None \<Rightarrow> []
      | Some h \<Rightarrow> map (\<lambda>(field, value). BulkString value) (Map_ForEach (hashes C) h)))"

section \<open>The classes\<close>

text \<open>The command classes of \<^verbatim>\<open>src/command/hash_cmd.h\<close>.\<close>

definition HSetCmd :: "('o, 'h, 's, 'z) containers \<Rightarrow> 'o RedisCmd" where
  [simp]: "HSetCmd C = \<lparr>CheckArity = HSetCmd_CheckArity, ExecCmd = HSetCmd_ExecCmd C\<rparr>"

definition HGetCmd :: "('o, 'h, 's, 'z) containers \<Rightarrow> 'o RedisCmd" where
  [simp]: "HGetCmd C = \<lparr>CheckArity = HGetCmd_CheckArity, ExecCmd = HGetCmd_ExecCmd C\<rparr>"

definition HDelCmd :: "('o, 'h, 's, 'z) containers \<Rightarrow> 'o RedisCmd" where
  [simp]: "HDelCmd C = \<lparr>CheckArity = HDelCmd_CheckArity, ExecCmd = HDelCmd_ExecCmd C\<rparr>"

definition HExistsCmd :: "('o, 'h, 's, 'z) containers \<Rightarrow> 'o RedisCmd" where
  [simp]: "HExistsCmd C = \<lparr>CheckArity = HExistsCmd_CheckArity, ExecCmd = HExistsCmd_ExecCmd C\<rparr>"

definition HLenCmd :: "('o, 'h, 's, 'z) containers \<Rightarrow> 'o RedisCmd" where
  [simp]: "HLenCmd C = \<lparr>CheckArity = HLenCmd_CheckArity, ExecCmd = HLenCmd_ExecCmd C\<rparr>"

definition HStrLenCmd :: "('o, 'h, 's, 'z) containers \<Rightarrow> 'o RedisCmd" where
  [simp]: "HStrLenCmd C = \<lparr>CheckArity = HStrLenCmd_CheckArity, ExecCmd = HStrLenCmd_ExecCmd C\<rparr>"

definition HMGetCmd :: "('o, 'h, 's, 'z) containers \<Rightarrow> 'o RedisCmd" where
  [simp]: "HMGetCmd C = \<lparr>CheckArity = HMGetCmd_CheckArity, ExecCmd = HMGetCmd_ExecCmd C\<rparr>"

definition HMSetCmd :: "('o, 'h, 's, 'z) containers \<Rightarrow> 'o RedisCmd" where
  [simp]: "HMSetCmd C = \<lparr>CheckArity = HMSetCmd_CheckArity, ExecCmd = HMSetCmd_ExecCmd C\<rparr>"

definition HGetAllCmd :: "('o, 'h, 's, 'z) containers \<Rightarrow> 'o RedisCmd" where
  [simp]: "HGetAllCmd C = \<lparr>CheckArity = HGetAllCmd_CheckArity, ExecCmd = HGetAllCmd_ExecCmd C\<rparr>"

definition HKeysCmd :: "('o, 'h, 's, 'z) containers \<Rightarrow> 'o RedisCmd" where
  [simp]: "HKeysCmd C = \<lparr>CheckArity = HKeysCmd_CheckArity, ExecCmd = HKeysCmd_ExecCmd C\<rparr>"

definition HValsCmd :: "('o, 'h, 's, 'z) containers \<Rightarrow> 'o RedisCmd" where
  [simp]: "HValsCmd C = \<lparr>CheckArity = HValsCmd_CheckArity, ExecCmd = HValsCmd_ExecCmd C\<rparr>"

definition HIncrByCmd :: "('o, 'h, 's, 'z) containers \<Rightarrow> 'o RedisCmd" where
  [simp]: "HIncrByCmd C = \<lparr>CheckArity = HIncrByCmd_CheckArity, ExecCmd = HIncrByCmd_ExecCmd C\<rparr>"

section \<open>The abstract hash of a key\<close>

text \<open>
  What a live object means to a hash command: \<open>None\<close> for an object of another type, the empty map
  for a missing key.
\<close>

definition hash_view ::
  "('o, 'h, 's, 'z) containers \<Rightarrow> ('h, 's, 'z) RedisObject option \<Rightarrow> (string \<Rightarrow> string option) option" where
  "hash_view C x =
     (case x of
        None \<Rightarrow> Some (\<lambda>_. None)
      | Some ob \<Rightarrow> if obj_type ob = kHash then map_option (Map_Find (hashes C)) (Hash ob) else None)"

text \<open>The field-value pairs of an argument list.\<close>

fun pairs :: "string list \<Rightarrow> (string \<times> string) list" where
  "pairs (f # v # rest) = (f, v) # pairs rest"
| "pairs _ = []"

lemma HashObject_simps [simp]:
  "obj_type (HashObjectWithDeadline h d) = kHash" "obj_deadline_us (HashObjectWithDeadline h d) = d"
  "Hash (HashObjectWithDeadline h d) = Some h" "obj_ok (HashObjectWithDeadline h d)"
  by (simp_all add: HashObjectWithDeadline_def Hash_def Let_def)

lemma hash_view_HashObject [simp]:
  "hash_view C (Some (HashObjectWithDeadline h d)) = Some (Map_Find (hashes C) h)"
  by (simp add: hash_view_def)

lemma AddWouldOverflow_exact:
  "int64_ok n \<Longrightarrow> int64_ok d \<Longrightarrow> AddWouldOverflow n d \<longleftrightarrow> \<not> int64_ok (n + d)"
  by (auto simp: AddWouldOverflow_def int64_ok_def)

context imt_lib begin

lemma hash_to_update_view:
  "hash_view C x = None \<Longrightarrow> hash_to_update C x = None"
  "hash_view C x = Some h \<Longrightarrow> \<exists>m. hash_to_update C x = Some (m, deadline_of x) \<and> Map_Find (hashes C) m = h"
  by (auto simp: hash_view_def hash_to_update_def Type_def DeadlineUs_def deadline_of_def hm.find_empty
      split: option.splits if_splits)

lemma HashOrWrongType_view:
  "hash_view C x = None \<Longrightarrow> HashOrWrongType x = (None, True)"
  "hash_view C x = Some h \<Longrightarrow> \<exists>m. HashOrWrongType x = (m, False) \<and>
     (case m of None \<Rightarrow> (\<lambda>_. None) | Some m' \<Rightarrow> Map_Find (hashes C) m') = h"
  by (auto simp: hash_view_def HashOrWrongType_def Type_def split: option.splits if_splits)

lemma ApplyFieldValuePairs_view:
  "ApplyFieldValuePairs (hashes C) xs (m, n) = (m', n') \<Longrightarrow>
   Map_Find (hashes C) m' = Map_Find (hashes C) m ++ map_of (rev (pairs xs)) \<and>
   n' = n + int (card (fst ` set (pairs xs) - dom (Map_Find (hashes C) m)))"
proof (induction "hashes C" xs "(m, n)" arbitrary: m n rule: ApplyFieldValuePairs.induct)
  case (1 field "value" rest m n)
  let ?m = "Map_Set (hashes C) m field value" and ?S = "fst ` set (pairs rest)" and ?D = "dom (Map_Find (hashes C) m)"
  have find: "Map_Find (hashes C) ?m = (Map_Find (hashes C) m)(field \<mapsto> value)"
    by (auto simp: hm.find_set)
  have "card (insert field ?S - ?D) = (if field \<in> ?D then 0 else 1) + card (?S - insert field ?D)"
  proof (cases "field \<in> ?D")
    case True
    then show ?thesis by (simp add: insert_absorb)
  next
    case False
    then have "insert field ?S - ?D = insert field (?S - insert field ?D)" by auto
    then show ?thesis using False by simp
  qed
  with 1 find show ?case
    by (auto simp: map_add_def fun_eq_iff split: option.splits)
qed auto

lemma HDelCmd_loop_view:
  "HDelCmd_loop (hashes C) flds (m, n) = (m', n') \<Longrightarrow>
   Map_Find (hashes C) m' = (Map_Find (hashes C) m) |` (- set flds) \<and>
   n' = n + int (card (set flds \<inter> dom (Map_Find (hashes C) m)))"
proof (induction flds arbitrary: m n)
  case Nil
  then show ?case by (simp add: HDelCmd_loop_def)
next
  case (Cons f fs)
  let ?D = "dom (Map_Find (hashes C) m)"
  show ?case
  proof (cases "Map_Find (hashes C) m f")
    case None
    then have "HDelCmd_loop (hashes C) fs (m, n) = (m', n')" using Cons.prems by (simp add: HDelCmd_loop_def)
    moreover have "set (f # fs) \<inter> ?D = set fs \<inter> ?D" using None by auto
    ultimately show ?thesis using Cons.IH None by (auto simp: restrict_map_def fun_eq_iff)
  next
    case (Some v)
    from hm.find_erase [OF this] obtain m1 where
      m1: "Map_Erase (hashes C) m f = Some m1" "Map_Find (hashes C) m1 = (Map_Find (hashes C) m)(f := None)" by blast
    then have "HDelCmd_loop (hashes C) fs (m1, n + 1) = (m', n')"
      using Cons.prems Some by (simp add: HDelCmd_loop_def)
    note IH = Cons.IH [OF this]
    have "set (f # fs) \<inter> ?D = insert f (set fs \<inter> (?D - {f}))" using Some by auto
    then have "card (set (f # fs) \<inter> ?D) = Suc (card (set fs \<inter> dom (Map_Find (hashes C) m1)))"
      by (simp add: m1)
    with IH have "n' = n + int (card (set (f # fs) \<inter> ?D))" by simp
    moreover have "Map_Find (hashes C) m' = Map_Find (hashes C) m |` (- set (f # fs))"
      using IH m1(2) by (auto simp: restrict_map_def fun_eq_iff)
    ultimately show ?thesis by blast
  qed
qed

lemma HSetCmd_eq:
  "HSetCmd_ExecCmd C args e now =
     (case hash_view C (CacheEngine_Get C e (args ! 1) now) of
        None \<Rightarrow> (e, Error kWrongTypeError)
      | Some h \<Rightarrow>
          let m = fst (the (hash_to_update C (CacheEngine_Get C e (args ! 1) now)));
              r = ApplyFieldValuePairs (hashes C) (drop 2 args) (m, 0)
          in (commit C e (args ! 1)
                (Some (HashObjectWithDeadline (fst r) (deadline_of (CacheEngine_Get C e (args ! 1) now))))
                (HashMakeRecord args ''HSET'') now,
              Integer (snd r)))"
  using hash_to_update_view [of "CacheEngine_Get C e (args ! 1) now"]
  by (cases "hash_view C (CacheEngine_Get C e (args ! 1) now)")
     (auto simp: HSetCmd_ExecCmd_def Update_eq Let_def case_prod_beta)

lemma HDelCmd_mutator_view:
  assumes "hash_view C (Some ob) = Some h"
    and "n = int (card (set flds \<inter> dom h))"
  shows "\<exists>m. HDelCmd_mutator C flds (Some ob) = (m, False, n) \<and> mut_record m = None \<and>
    (if n = 0 then mutation_effect (Some ob) m = None
     else if h |` (- set flds) = (\<lambda>_. None) then mutation_effect (Some ob) m = Some None
     else \<exists>m'. mutation_effect (Some ob) m = Some (Some (HashObjectWithDeadline m' (obj_deadline_us ob))) \<and>
            Map_Find (hashes C) m' = h |` (- set flds))"
proof -
  from assms(1) obtain hash where hash: "obj_type ob = kHash" "Hash ob = Some hash" "Map_Find (hashes C) hash = h"
    by (auto simp: hash_view_def split: if_splits)
  obtain m' n' where loop: "HDelCmd_loop (hashes C) flds (hash, 0) = (m', n')" by fastforce
  from HDelCmd_loop_view [OF this] hash assms(2) have
    m': "Map_Find (hashes C) m' = h |` (- set flds)" "n' = n" by auto
  have "Map_Empty (hashes C) m' \<longleftrightarrow> h |` (- set flds) = (\<lambda>_. None)"
    by (simp add: hm.empty_iff m' fun_eq_iff)
  with loop hash m' show ?thesis
    by (auto simp: HDelCmd_mutator_def mutation_effect_def Type_def DeadlineUs_def)
qed

end

section \<open>Properties\<close>

text \<open>HSET stores every field-value pair, the last value winning for a repeated field, keeps the
  other fields, the expiry and every other key, and replies with the number of distinct fields
  that were not there; on a value of another type it replies with an error and changes nothing.\<close>

theorem HSetCmd_correct:
  assumes "imt_lib C" and "HSetCmd_ExecCmd C args e now = (e', reply)"
  shows "case hash_view C (CacheEngine_Get C e (args ! 1) now) of
      None \<Rightarrow> e' = e \<and> reply = Error kWrongTypeError
    | Some h \<Rightarrow>
        reply = Integer (int (card (fst ` set (pairs (drop 2 args)) - dom h))) \<and>
        (\<exists>ob. engine_view C e' = (engine_view C e)(args ! 1 \<mapsto> ob) \<and>
          obj_deadline_us ob = deadline_of (CacheEngine_Get C e (args ! 1) now) \<and>
          hash_view C (Some ob) = Some (h ++ map_of (rev (pairs (drop 2 args)))))"
proof (cases "hash_view C (CacheEngine_Get C e (args ! 1) now)")
  case None
  with imt_lib.HSetCmd_eq [OF assms(1), of args e now] assms(2) show ?thesis by simp
next
  case (Some h)
  from imt_lib.hash_to_update_view(2) [OF assms(1) this] obtain m where
    m: "hash_to_update C (CacheEngine_Get C e (args ! 1) now) =
        Some (m, deadline_of (CacheEngine_Get C e (args ! 1) now))" "Map_Find (hashes C) m = h" by blast
  obtain m' n where loop: "ApplyFieldValuePairs (hashes C) (drop 2 args) (m, 0) = (m', n)" by fastforce
  from imt_lib.HSetCmd_eq [OF assms(1), of args e now] assms(2) Some m loop
  have "e' = commit C e (args ! 1)
      (Some (HashObjectWithDeadline m' (deadline_of (CacheEngine_Get C e (args ! 1) now))))
      (HashMakeRecord args ''HSET'') now" "reply = Integer n"
    by (simp_all add: Let_def)
  with imt_lib.ApplyFieldValuePairs_view [OF assms(1) loop] Some m show ?thesis
    by (auto simp: imt_lib.commit_Some_view [OF assms(1)])
qed

theorem HSetCmd_correct_witness:
  "snd (HSetCmd_ExecCmd ref_containers [''HSET'', ''k'', ''f'', ''1'', ''f'', ''2''] (CacheEngine_new ref_containers) 1) =
     Integer 1"
proof -
  have "CacheEngine_Get ref_containers (CacheEngine_new ref_containers) ''k'' 1 = None"
    by (simp add: CacheEngine_Get_def KeySlot_def CacheEngine_new_def HashSlot_new_def HashSlot_Get_def
        ref_containers_def ref_map_def)
  then show ?thesis
    using HSetCmd_correct [OF ref_lib.imt_lib_axioms surjective_pairing,
        of "[''HSET'', ''k'', ''f'', ''1'', ''f'', ''2'']" "CacheEngine_new ref_containers" 1]
    by (simp add: hash_view_def)
qed

text \<open>HDEL removes exactly the named fields and replies with how many distinct ones were there;
  the key goes with its last field, so no empty hash is kept, and when no named field is there, or
  the key is missing or of another type, nothing is written.\<close>

theorem HDelCmd_correct:
  assumes "imt_lib C" and "HDelCmd_ExecCmd C args e now = (e', reply)"
    and "CacheEngine_Get C e (args ! 1) now = Some ob" and "hash_view C (Some ob) = Some h"
    and "n = int (card (set (drop 2 args) \<inter> dom h))"
  shows "reply = Integer n \<and>
    (if n = 0 then e' = e
     else if h |` (- set (drop 2 args)) = (\<lambda>_. None) then engine_view C e' = (engine_view C e)(args ! 1 := None)
     else \<exists>ob'. engine_view C e' = (engine_view C e)(args ! 1 \<mapsto> ob') \<and>
       obj_deadline_us ob' = obj_deadline_us ob \<and>
       hash_view C (Some ob') = Some (h |` (- set (drop 2 args))))"
proof -
  from imt_lib.HDelCmd_mutator_view [OF assms(1,4,5)] obtain m where
    m: "HDelCmd_mutator C (drop 2 args) (Some ob) = (m, False, n)" and
    eff: "if n = 0 then mutation_effect (Some ob) m = None
     else if h |` (- set (drop 2 args)) = (\<lambda>_. None) then mutation_effect (Some ob) m = Some None
     else \<exists>m'. mutation_effect (Some ob) m = Some (Some (HashObjectWithDeadline m' (obj_deadline_us ob))) \<and>
            Map_Find (hashes C) m' = h |` (- set (drop 2 args))" by blast
  have run: "HDelCmd_ExecCmd C args e now =
      (case mutation_effect (Some ob) m of
         None \<Rightarrow> e
       | Some x \<Rightarrow> commit C e (args ! 1) x (mutation_log_record (HashMakeRecord args ''HDEL'') m) now, Integer n)"
    using assms(3) m by (simp add: HDelCmd_ExecCmd_def imt_lib.Mutate_eq [OF assms(1)] Let_def split: option.splits)
  have "engine_view C e (args ! 1) \<noteq> None" using CacheEngine_Get_Some [OF assms(3)] by simp
  then have "engine_view C (commit C e (args ! 1) None r now) = (engine_view C e)(args ! 1 := None)" for r
    using imt_lib.commit_view [OF assms(1)] by blast
  with run eff assms(2) show ?thesis
    by (auto simp: imt_lib.commit_Some_view [OF assms(1)] split: if_splits)
qed

text \<open>HINCRBY computes in the integers on the field, a missing one counting as 0: an exact result
  that fits in 64 bits is stored as text and returned; otherwise the reply is an error and nothing
  is written.\<close>

theorem HIncrByCmd_exact:
  assumes "imt_lib C" and "ParseInt64 (args ! 3) = Some d" and "HIncrByCmd_ExecCmd C args e now = (e', reply)"
  shows "case hash_view C (CacheEngine_Get C e (args ! 1) now) of
      None \<Rightarrow> e' = e \<and> reply = Error kWrongTypeError
    | Some h \<Rightarrow>
        (case (case h (args ! 2) of None \<Rightarrow> Some 0 | Some v \<Rightarrow> ParseInt64 v) of
           None \<Rightarrow> e' = e \<and> reply = Error kIntegerError
         | Some n \<Rightarrow>
             if int64_ok (n + d) then reply = Integer (n + d) \<and>
               (\<exists>ob. engine_view C e' = (engine_view C e)(args ! 1 \<mapsto> ob) \<and>
                  obj_deadline_us ob = deadline_of (CacheEngine_Get C e (args ! 1) now) \<and>
                  hash_view C (Some ob) = Some (h(args ! 2 \<mapsto> to_string (n + d))))
             else e' = e \<and> reply = Error kOverflowError)"
proof (cases "hash_view C (CacheEngine_Get C e (args ! 1) now)")
  case None
  with imt_lib.hash_to_update_view(1) [OF assms(1) this] assms(2,3) show ?thesis
    by (simp add: HIncrByCmd_ExecCmd_def HIncrByCmd_updater_def imt_lib.Update_eq [OF assms(1)] Let_def)
next
  case (Some h)
  from imt_lib.hash_to_update_view(2) [OF assms(1) this] obtain m where
    m: "hash_to_update C (CacheEngine_Get C e (args ! 1) now) =
        Some (m, deadline_of (CacheEngine_Get C e (args ! 1) now))" "Map_Find (hashes C) m = h" by blast
  let ?cur = "case h (args ! 2) of None \<Rightarrow> Some 0 | Some v \<Rightarrow> ParseInt64 v"
  show ?thesis
  proof (cases ?cur)
    case None
    with Some m assms(2,3) show ?thesis
      by (simp add: HIncrByCmd_ExecCmd_def HIncrByCmd_updater_def imt_lib.Update_eq [OF assms(1)] Let_def)
  next
    case cur: (Some n)
    have "int64_ok n" "int64_ok d"
      using cur ParseInt64_range assms(2) by (auto simp: int64_ok_def [of 0] split: option.splits)
    then have ov: "AddWouldOverflow n d \<longleftrightarrow> \<not> int64_ok (n + d)" by (rule AddWouldOverflow_exact)
    have set: "Map_Find (hashes C) (Map_Set (hashes C) m (args ! 2) (to_string (n + d))) =
        h(args ! 2 \<mapsto> to_string (n + d))"
      using m(2) imt_map.find_set [OF imt_lib.hashes_map [OF assms(1)]] by (auto simp: fun_eq_iff)
    show ?thesis
    proof (cases "int64_ok (n + d)")
      case True
      with Some m cur ov set assms(2,3) show ?thesis
        by (auto simp: HIncrByCmd_ExecCmd_def HIncrByCmd_updater_def imt_lib.Update_eq [OF assms(1)] Let_def
            imt_lib.commit_Some_view [OF assms(1)])
    next
      case False
      with Some m cur ov assms(2,3) show ?thesis
        by (simp add: HIncrByCmd_ExecCmd_def HIncrByCmd_updater_def imt_lib.Update_eq [OF assms(1)] Let_def)
    qed
  qed
qed

text \<open>An engine with the hash \<open>{f: 1}\<close> under one key, for the witness.\<close>

definition demo_hash :: "ref_objects CacheEngine" where
  "demo_hash = fst (CacheEngine_Set ref_containers (CacheEngine_new ref_containers) ''k''
     (MakeHash (Map_Set (hashes ref_containers) (Map_empty (hashes ref_containers)) ''f'' ''1'')) new_record 1)"

theorem HDelCmd_correct_witness:
  "snd (HDelCmd_ExecCmd ref_containers [''HDEL'', ''k'', ''f'', ''f''] demo_hash 2) = Integer 1"
proof -
  let ?ob = "MakeHash (Map_Set (hashes ref_containers) (Map_empty (hashes ref_containers)) ''f'' ''1'')"
  have get: "CacheEngine_Get ref_containers demo_hash ''k'' 2 = Some ?ob"
    by (simp add: demo_hash_def ref_lib.engine_store.get_set live_def IsExpired_def)
  have view: "hash_view ref_containers (Some ?ob) = Some [''f'' \<mapsto> ''1'']"
    by (simp add: hash_view_def Hash_def ref_containers_def ref_map_def fun_eq_iff)
  show ?thesis
    using HDelCmd_correct [OF ref_lib.imt_lib_axioms surjective_pairing, where args = "[''HDEL'', ''k'', ''f'', ''f'']"
        and e = demo_hash and now = 2 and ob = ?ob and h = "[''f'' \<mapsto> ''1'']" and n = 1] get view by simp
qed

theorem HIncrByCmd_exact_witness:
  "snd (HIncrByCmd_ExecCmd ref_containers [''HINCRBY'', ''k'', ''g'', to_string 5] demo_hash 2) = Integer 5"
proof -
  let ?ob = "MakeHash (Map_Set (hashes ref_containers) (Map_empty (hashes ref_containers)) ''f'' ''1'')"
  have get: "CacheEngine_Get ref_containers demo_hash ''k'' 2 = Some ?ob"
    by (simp add: demo_hash_def ref_lib.engine_store.get_set live_def IsExpired_def)
  have view: "hash_view ref_containers (Some ?ob) = Some [''f'' \<mapsto> ''1'']"
    by (simp add: hash_view_def Hash_def ref_containers_def ref_map_def fun_eq_iff)
  show ?thesis
    using HIncrByCmd_exact [OF ref_lib.imt_lib_axioms _ surjective_pairing,
        where args = "[''HINCRBY'', ''k'', ''g'', to_string 5]" and e = demo_hash and now = 2 and d = 5]
      get view by (simp add: int64_ok_def)
qed

end
