(* ===== verification/SetTypeCmd.thy ===== *)
theory SetTypeCmd
  imports Response "HOL-Library.Multiset"
begin

text \<open>
  The set commands, \<^verbatim>\<open>src/command/set_cmd.cpp\<close>: SADD, SISMEMBER, SREM, SCARD, SMEMBERS, SMISMEMBER, SPOP
  and SRANDMEMBER. What one execution draws from the thread's random engine is a parameter: the
  permutation \<^verbatim>\<open>std::shuffle\<close> applies and the sequence of indices the uniform distribution yields.
\<close>

section \<open>Randomness\<close>

record Rng =
  rng_shuffle :: "string list \<Rightarrow> string list"
  rng_index :: "nat \<Rightarrow> nat \<Rightarrow> nat"

text \<open>A shuffle permutes; draw number \<open>i\<close> of the distribution over \<open>0 ..< n\<close> is below \<open>n\<close>.\<close>

definition rng_ok :: "Rng \<Rightarrow> bool" where
  "rng_ok R \<longleftrightarrow> (\<forall>xs. mset (rng_shuffle R xs) = mset xs) \<and> (\<forall>n i. 0 < n \<longrightarrow> rng_index R n i < n)"

definition kOutOfRangeError :: string where
  "kOutOfRangeError = ''ERR value is out of range''"

definition MembersToResponses :: "string list \<Rightarrow> Response list" where
  "MembersToResponses members = map BulkString members"

definition PickUniqueMembers :: "Rng \<Rightarrow> string list \<Rightarrow> nat \<Rightarrow> string list" where
  "PickUniqueMembers R members cnt =
     (let shuffled = rng_shuffle R members
      in if cnt < length shuffled then take cnt shuffled else shuffled)"

definition PickMembersWithReplacement :: "Rng \<Rightarrow> string list \<Rightarrow> nat \<Rightarrow> string list" where
  "PickMembersWithReplacement R members cnt =
     (if members = [] \<or> cnt = 0 then []
      else map (\<lambda>i. members ! rng_index R (length members) i) [0..<cnt])"

section \<open>Commands that write\<close>

text \<open>The start of the callbacks: \<open>None\<close> for a wrong type.\<close>

definition set_to_update ::
  "('o, 'h, 's, 'z) containers \<Rightarrow> ('h, 's, 'z) RedisObject option \<Rightarrow> ('s \<times> u64) option" where
  "set_to_update C existing =
     (case existing of
        None \<Rightarrow> Some (Set_empty (sets C), 0)
      | Some ob \<Rightarrow> if Type ob \<noteq> kSet \<or> SetOf ob = None then None
                   else Some (the (SetOf ob), DeadlineUs ob))"

definition set_object :: "'s \<Rightarrow> u64 \<Rightarrow> ('h, 's, 'z) RedisObject" where
  "set_object s deadline_us =
     (let obj = MakeSet s in if deadline_us \<noteq> 0 then WithDeadline obj deadline_us else obj)"

definition SAddCmd_loop :: "'s ImtSet \<Rightarrow> string list \<Rightarrow> 's \<times> int \<Rightarrow> 's \<times> int" where
  "SAddCmd_loop S members start =
     foldl (\<lambda>(next, added_count) member.
        if \<not> Set_Contains S next member then (Set_Add S next member, added_count + 1)
        else (next, added_count)) start members"

definition SAddCmd_CheckArity :: "string list \<Rightarrow> string option" where
  "SAddCmd_CheckArity args = (if length args < 3 then Some (arity_error ''sadd'') else None)"

definition SAddCmd_ExecCmd ::
  "('o, 'h, 's, 'z) containers \<Rightarrow> string list \<Rightarrow> 'o CacheEngine \<Rightarrow> u64 \<Rightarrow> 'o CacheEngine \<times> Response" where
  "SAddCmd_ExecCmd C args e now_us =
     (let (e', wr, wrong_type, added_count) = CacheEngine_Update C e (args ! 1)
            (\<lambda>existing. case set_to_update C existing of
               None \<Rightarrow> (None, True, 0)
             | Some (s, deadline_us) \<Rightarrow>
                 let (next, added_count) = SAddCmd_loop (sets C) (drop 2 args) (s, 0)
                 in if added_count = 0 then (None, False, added_count)
                    else (Some (set_object next deadline_us), False, added_count))
            (MakeRecord ''SADD'' args) now_us
      in (e', if wrong_type then Error kWrongTypeError else Integer added_count))"

definition SRemCmd_loop :: "'s ImtSet \<Rightarrow> string list \<Rightarrow> 's \<times> int \<Rightarrow> 's \<times> int" where
  "SRemCmd_loop S members start =
     foldl (\<lambda>(next, removed_count) member.
        if Set_Contains S next member then
          (case Set_Erase S next member of
             Some erased \<Rightarrow> (erased, removed_count + 1)
           | None \<Rightarrow> (next, removed_count))
        else (next, removed_count)) start members"

definition SRemCmd_mutator ::
  "('o, 'h, 's, 'z) containers \<Rightarrow> string list \<Rightarrow> ('h, 's, 'z) RedisObject option \<Rightarrow>
   ('h, 's, 'z) MutationResult \<times> bool \<times> int" where
  "SRemCmd_mutator C members existing =
     (case existing of
        None \<Rightarrow> (mutation False None, False, 0)
      | Some ob \<Rightarrow>
          if Type ob \<noteq> kSet \<or> SetOf ob = None then (mutation False None, True, 0)
          else let (next, removed_count) = SRemCmd_loop (sets C) members (the (SetOf ob), 0)
               in if removed_count = 0 then (mutation False None, False, removed_count)
                  else if Set_Empty (sets C) next then (mutation True None, False, removed_count)
                  else (mutation True (Some (set_object next (DeadlineUs ob))), False, removed_count))"

definition SRemCmd_CheckArity :: "string list \<Rightarrow> string option" where
  "SRemCmd_CheckArity args = (if length args < 3 then Some (arity_error ''srem'') else None)"

definition SRemCmd_ExecCmd ::
  "('o, 'h, 's, 'z) containers \<Rightarrow> string list \<Rightarrow> 'o CacheEngine \<Rightarrow> u64 \<Rightarrow> 'o CacheEngine \<times> Response" where
  "SRemCmd_ExecCmd C args e now_us =
     (let (e', wr, wrong_type, removed_count) = CacheEngine_Mutate C e (args ! 1)
            (SRemCmd_mutator C (drop 2 args)) (MakeRecord ''SREM'' args) now_us
      in (e', if wrong_type then Error kWrongTypeError else Integer removed_count))"

text \<open>\<^verbatim>\<open>ReadSet\<close>: the reader gets the set pointer, null for a missing key.\<close>

definition ReadSet ::
  "('o, 'h, 's, 'z) containers \<Rightarrow> 'o CacheEngine \<Rightarrow> string \<Rightarrow> u64 \<Rightarrow> ('s option \<Rightarrow> Response) \<Rightarrow>
   'o CacheEngine \<times> Response" where
  "ReadSet C e key now_us reader =
     (e, case CacheEngine_Get C e key now_us of
           None \<Rightarrow> reader None
         | Some obj \<Rightarrow> if Type obj \<noteq> kSet then Error kWrongTypeError
                       else case SetOf obj of None \<Rightarrow> Error kWrongTypeError | Some s \<Rightarrow> reader (Some s))"

text \<open>The callback of SPOP: what is written, whether the type was wrong, and the members picked. The
  record it hands back replaces the SPOP record, so that a replica removes the same members.\<close>

definition SPopCmd_mutator ::
  "('o, 'h, 's, 'z) containers \<Rightarrow> Rng \<Rightarrow> string \<Rightarrow> nat \<Rightarrow> ('h, 's, 'z) RedisObject option \<Rightarrow>
   ('h, 's, 'z) MutationResult \<times> bool \<times> string list" where
  "SPopCmd_mutator C R key requested existing =
     (case existing of
        None \<Rightarrow> (mutation False None, False, [])
      | Some ob \<Rightarrow>
          if Type ob \<noteq> kSet \<or> SetOf ob = None then (mutation False None, True, [])
          else let existing_set = the (SetOf ob); members = Set_ToVector (sets C) existing_set
               in if members = [] then (mutation False None, False, [])
                  else let picked = PickUniqueMembers R members requested;
                           removal = new_record\<lparr>rec_args := [''SREM'', key] @ picked\<rparr>;
                           next = foldl (\<lambda>next member. case Set_Erase (sets C) next member of
                                           Some erased \<Rightarrow> erased | None \<Rightarrow> next) existing_set picked
                       in if Set_Empty (sets C) next
                          then (\<lparr>mut_changed = True, mut_object = None, mut_record = Some removal\<rparr>, False, picked)
                          else (\<lparr>mut_changed = True, mut_object = Some (set_object next (DeadlineUs ob)),
                                 mut_record = Some removal\<rparr>, False, picked))"

definition SPopCmd_CheckArity :: "string list \<Rightarrow> string option" where
  "SPopCmd_CheckArity args = (if length args \<noteq> 2 \<and> length args \<noteq> 3 then Some (arity_error ''spop'') else None)"

definition SPopCmd_ExecCmd ::
  "('o, 'h, 's, 'z) containers \<Rightarrow> Rng \<Rightarrow> string list \<Rightarrow> 'o CacheEngine \<Rightarrow> u64 \<Rightarrow> 'o CacheEngine \<times> Response" where
  "SPopCmd_ExecCmd C R args e now_us =
     (let has_count = (length args = 3);
          parsed_count = (if has_count then ParseInt64 (args ! 2) else Some 1);
          pop = (\<lambda>requested.
            let (e', wr, wrong_type, picked) = CacheEngine_Mutate C e (args ! 1)
                  (SPopCmd_mutator C R (args ! 1) requested) (MakeRecord ''SPOP'' args) now_us
            in (e', if wrong_type then Error kWrongTypeError
                    else if has_count then Array (MembersToResponses picked)
                    else if picked = [] then NullBulk
                    else BulkString (hd picked)))
      in case parsed_count of
           None \<Rightarrow> (e, Error kIntegerError)
         | Some n \<Rightarrow>
             if has_count then
               (if n < 0 then (e, Error kIntegerError)
                else if n = 0 then ReadSet C e (args ! 1) now_us (\<lambda>s. Array [])
                else pop (nat n))
             else pop 1)"

section \<open>Commands that read\<close>

definition SIsMemberCmd_CheckArity :: "string list \<Rightarrow> string option" where
  "SIsMemberCmd_CheckArity args = (if length args \<noteq> 3 then Some (arity_error ''sismember'') else None)"

definition SIsMemberCmd_ExecCmd ::
  "('o, 'h, 's, 'z) containers \<Rightarrow> string list \<Rightarrow> 'o CacheEngine \<Rightarrow> u64 \<Rightarrow> 'o CacheEngine \<times> Response" where
  "SIsMemberCmd_ExecCmd C args e now_us = ReadSet C e (args ! 1) now_us
     (\<lambda>s. Integer (if s \<noteq> None \<and> Set_Contains (sets C) (the s) (args ! 2) then 1 else 0))"

definition SCardCmd_CheckArity :: "string list \<Rightarrow> string option" where
  "SCardCmd_CheckArity args = (if length args \<noteq> 2 then Some (arity_error ''scard'') else None)"

definition SCardCmd_ExecCmd ::
  "('o, 'h, 's, 'z) containers \<Rightarrow> string list \<Rightarrow> 'o CacheEngine \<Rightarrow> u64 \<Rightarrow> 'o CacheEngine \<times> Response" where
  "SCardCmd_ExecCmd C args e now_us = ReadSet C e (args ! 1) now_us
     (\<lambda>s. Integer (case s of None \<Rightarrow> 0 | Some s' \<Rightarrow> int (Set_Size (sets C) s')))"

definition SMembersCmd_CheckArity :: "string list \<Rightarrow> string option" where
  "SMembersCmd_CheckArity args = (if length args \<noteq> 2 then Some (arity_error ''smembers'') else None)"

definition SMembersCmd_ExecCmd ::
  "('o, 'h, 's, 'z) containers \<Rightarrow> string list \<Rightarrow> 'o CacheEngine \<Rightarrow> u64 \<Rightarrow> 'o CacheEngine \<times> Response" where
  "SMembersCmd_ExecCmd C args e now_us = ReadSet C e (args ! 1) now_us
     (\<lambda>s. case s of None \<Rightarrow> Array [] | Some s' \<Rightarrow> Array (MembersToResponses (Set_ToVector (sets C) s')))"

definition SMIsMemberCmd_CheckArity :: "string list \<Rightarrow> string option" where
  "SMIsMemberCmd_CheckArity args = (if length args < 3 then Some (arity_error ''smismember'') else None)"

definition SMIsMemberCmd_ExecCmd ::
  "('o, 'h, 's, 'z) containers \<Rightarrow> string list \<Rightarrow> 'o CacheEngine \<Rightarrow> u64 \<Rightarrow> 'o CacheEngine \<times> Response" where
  "SMIsMemberCmd_ExecCmd C args e now_us = ReadSet C e (args ! 1) now_us
     (\<lambda>s. Array (map (\<lambda>member. Integer (if s \<noteq> None \<and> Set_Contains (sets C) (the s) member then 1 else 0))
                      (drop 2 args)))"

definition SRandMemberCmd_CheckArity :: "string list \<Rightarrow> string option" where
  "SRandMemberCmd_CheckArity args =
     (if length args \<noteq> 2 \<and> length args \<noteq> 3 then Some (arity_error ''srandmember'') else None)"

definition SRandMemberCmd_ExecCmd ::
  "('o, 'h, 's, 'z) containers \<Rightarrow> Rng \<Rightarrow> string list \<Rightarrow> 'o CacheEngine \<Rightarrow> u64 \<Rightarrow> 'o CacheEngine \<times> Response" where
  "SRandMemberCmd_ExecCmd C R args e now_us =
     (let has_count = (length args = 3);
          parsed_count = (if has_count then ParseInt64 (args ! 2) else Some 1)
      in case parsed_count of
           None \<Rightarrow> (e, Error kIntegerError)
         | Some n \<Rightarrow>
             if has_count \<and> n = int64_min then (e, Error kOutOfRangeError)
             else ReadSet C e (args ! 1) now_us
               (\<lambda>s. if s = None \<or> Set_Empty (sets C) (the s) then (if has_count then Array [] else NullBulk)
                    else let members = Set_ToVector (sets C) (the s)
                         in if \<not> has_count then BulkString (hd (PickMembersWithReplacement R members 1))
                            else if n = 0 then Array []
                            else if 0 < n then Array (MembersToResponses (PickUniqueMembers R members (nat n)))
                            else Array (MembersToResponses (PickMembersWithReplacement R members (nat (- n))))))"

section \<open>The classes\<close>

text \<open>The command classes of \<^verbatim>\<open>src/command/set_cmd.h\<close>.\<close>

definition SAddCmd :: "('o, 'h, 's, 'z) containers \<Rightarrow> 'o RedisCmd" where
  [simp]: "SAddCmd C = \<lparr>CheckArity = SAddCmd_CheckArity, ExecCmd = SAddCmd_ExecCmd C\<rparr>"

definition SIsMemberCmd :: "('o, 'h, 's, 'z) containers \<Rightarrow> 'o RedisCmd" where
  [simp]: "SIsMemberCmd C = \<lparr>CheckArity = SIsMemberCmd_CheckArity, ExecCmd = SIsMemberCmd_ExecCmd C\<rparr>"

definition SRemCmd :: "('o, 'h, 's, 'z) containers \<Rightarrow> 'o RedisCmd" where
  [simp]: "SRemCmd C = \<lparr>CheckArity = SRemCmd_CheckArity, ExecCmd = SRemCmd_ExecCmd C\<rparr>"

definition SCardCmd :: "('o, 'h, 's, 'z) containers \<Rightarrow> 'o RedisCmd" where
  [simp]: "SCardCmd C = \<lparr>CheckArity = SCardCmd_CheckArity, ExecCmd = SCardCmd_ExecCmd C\<rparr>"

definition SMembersCmd :: "('o, 'h, 's, 'z) containers \<Rightarrow> 'o RedisCmd" where
  [simp]: "SMembersCmd C = \<lparr>CheckArity = SMembersCmd_CheckArity, ExecCmd = SMembersCmd_ExecCmd C\<rparr>"

definition SMIsMemberCmd :: "('o, 'h, 's, 'z) containers \<Rightarrow> 'o RedisCmd" where
  [simp]: "SMIsMemberCmd C = \<lparr>CheckArity = SMIsMemberCmd_CheckArity, ExecCmd = SMIsMemberCmd_ExecCmd C\<rparr>"

definition SPopCmd :: "('o, 'h, 's, 'z) containers \<Rightarrow> Rng \<Rightarrow> 'o RedisCmd" where
  [simp]: "SPopCmd C R = \<lparr>CheckArity = SPopCmd_CheckArity, ExecCmd = SPopCmd_ExecCmd C R\<rparr>"

definition SRandMemberCmd :: "('o, 'h, 's, 'z) containers \<Rightarrow> Rng \<Rightarrow> 'o RedisCmd" where
  [simp]: "SRandMemberCmd C R = \<lparr>CheckArity = SRandMemberCmd_CheckArity, ExecCmd = SRandMemberCmd_ExecCmd C R\<rparr>"

section \<open>The abstract set of a key\<close>

definition members_view ::
  "('o, 'h, 's, 'z) containers \<Rightarrow> ('h, 's, 'z) RedisObject option \<Rightarrow> string set option" where
  "members_view C x =
     (case x of
        None \<Rightarrow> Some {}
      | Some ob \<Rightarrow> if obj_type ob = kSet then map_option (\<lambda>s. {m. Set_Contains (sets C) s m}) (SetOf ob) else None)"

text \<open>The callback of SREM and SPOP on a set \<open>A\<close>: nothing when no member goes, deletion when all do.\<close>

definition removal_effect :: "('o, 'h, 's, 'z) containers \<Rightarrow> ('h, 's, 'z) RedisObject \<Rightarrow> string set \<Rightarrow> string set \<Rightarrow>
    ('h, 's, 'z) MutationResult \<Rightarrow> bool" where
  "removal_effect C ob A gone m \<longleftrightarrow>
     (if gone \<inter> A = {} then mutation_effect (Some ob) m = None
      else if A \<subseteq> gone then mutation_effect (Some ob) m = Some None
      else \<exists>s. mutation_effect (Some ob) m = Some (Some (set_object s (obj_deadline_us ob))) \<and>
             {x. Set_Contains (sets C) s x} = A - gone)"

lemma set_object_simps [simp]:
  "obj_type (set_object s d) = kSet" "obj_deadline_us (set_object s d) = d"
  "SetOf (set_object s d) = Some s" "obj_ok (set_object s d)"
  by (simp_all add: set_object_def SetOf_def Let_def)

lemma members_view_set_object [simp]:
  "members_view C (Some (set_object s d)) = Some {m. Set_Contains (sets C) s m}"
  by (simp add: members_view_def)

lemma mset_shuffle: "rng_ok R \<Longrightarrow> mset (rng_shuffle R xs) = mset xs"
  by (simp add: rng_ok_def)

lemma PickUnique:
  assumes "rng_ok R" and "distinct xs"
  shows "distinct (PickUniqueMembers R xs n)" "set (PickUniqueMembers R xs n) \<subseteq> set xs"
    "length (PickUniqueMembers R xs n) = min n (length xs)"
proof -
  have "distinct (rng_shuffle R xs)" "set (rng_shuffle R xs) = set xs" "length (rng_shuffle R xs) = length xs"
    using mset_shuffle [OF assms(1), of xs] assms(2)
    by (metis mset_eq_imp_distinct_iff, metis mset_eq_setD, metis mset_eq_length)
  then show "distinct (PickUniqueMembers R xs n)" "set (PickUniqueMembers R xs n) \<subseteq> set xs"
    "length (PickUniqueMembers R xs n) = min n (length xs)"
    by (auto simp: PickUniqueMembers_def Let_def dest: in_set_takeD)
qed

lemma PickWithReplacement:
  assumes "rng_ok R"
  shows "set (PickMembersWithReplacement R xs n) \<subseteq> set xs"
    "xs \<noteq> [] \<Longrightarrow> length (PickMembersWithReplacement R xs n) = n"
  using assms by (auto simp: PickMembersWithReplacement_def rng_ok_def)

context imt_lib begin

lemma set_to_update_view:
  "members_view C x = None \<Longrightarrow> set_to_update C x = None"
  "members_view C x = Some A \<Longrightarrow> \<exists>s. set_to_update C x = Some (s, deadline_of x) \<and> {m. Set_Contains (sets C) s m} = A"
  by (auto simp: members_view_def set_to_update_def Type_def DeadlineUs_def deadline_of_def sm.contains_empty
      split: option.splits if_splits)

lemma SAddCmd_loop_view:
  "SAddCmd_loop (sets C) ms (s, n) = (s', n') \<Longrightarrow>
   {m. Set_Contains (sets C) s' m} = {m. Set_Contains (sets C) s m} \<union> set ms \<and>
   n' = n + int (card (set ms - {m. Set_Contains (sets C) s m}))"
proof (induction ms arbitrary: s n)
  case Nil
  then show ?case by (simp add: SAddCmd_loop_def)
next
  case (Cons x xs)
  let ?A = "{m. Set_Contains (sets C) s m}"
  show ?case
  proof (cases "Set_Contains (sets C) s x")
    case True
    then have "SAddCmd_loop (sets C) xs (s, n) = (s', n')" using Cons.prems by (simp add: SAddCmd_loop_def)
    moreover have "set (x # xs) - ?A = set xs - ?A" using True by auto
    ultimately show ?thesis using Cons.IH [of s n] True by auto
  next
    case False
    let ?s = "Set_Add (sets C) s x"
    have A: "{m. Set_Contains (sets C) ?s m} = insert x ?A" by (auto simp: sm.contains_add)
    have "SAddCmd_loop (sets C) xs (?s, n + 1) = (s', n')" using Cons.prems False by (simp add: SAddCmd_loop_def)
    note IH = Cons.IH [OF this, unfolded A]
    have "set (x # xs) - ?A = insert x (set xs - insert x ?A)" using False by auto
    then have "card (set (x # xs) - ?A) = Suc (card (set xs - insert x ?A))" by simp
    with IH show ?thesis by auto
  qed
qed

lemma SRemCmd_loop_view:
  "SRemCmd_loop (sets C) ms (s, n) = (s', n') \<Longrightarrow>
   {m. Set_Contains (sets C) s' m} = {m. Set_Contains (sets C) s m} - set ms \<and>
   n' = n + int (card (set ms \<inter> {m. Set_Contains (sets C) s m}))"
proof (induction ms arbitrary: s n)
  case Nil
  then show ?case by (simp add: SRemCmd_loop_def)
next
  case (Cons x xs)
  let ?A = "{m. Set_Contains (sets C) s m}"
  show ?case
  proof (cases "Set_Contains (sets C) s x")
    case False
    then have "SRemCmd_loop (sets C) xs (s, n) = (s', n')" using Cons.prems by (simp add: SRemCmd_loop_def)
    moreover have "set (x # xs) \<inter> ?A = set xs \<inter> ?A" using False by auto
    ultimately show ?thesis using Cons.IH [of s n] False by auto
  next
    case True
    from sm.set_find_erase [OF this] obtain s1 where
      s1: "Set_Erase (sets C) s x = Some s1" "{m. Set_Contains (sets C) s1 m} = ?A - {x}" by blast
    then have "SRemCmd_loop (sets C) xs (s1, n + 1) = (s', n')"
      using Cons.prems True by (simp add: SRemCmd_loop_def)
    note IH = Cons.IH [OF this, unfolded s1]
    have "set (x # xs) \<inter> ?A = insert x (set xs \<inter> (?A - {x}))" using True by auto
    then have "card (set (x # xs) \<inter> ?A) = Suc (card (set xs \<inter> (?A - {x})))" by simp
    with IH show ?thesis by auto
  qed
qed

lemma erase_all_view:
  "{m. Set_Contains (sets C) (foldl (\<lambda>next member. case Set_Erase (sets C) next member of
      Some erased \<Rightarrow> erased | None \<Rightarrow> next) s ms) m} = {m. Set_Contains (sets C) s m} - set ms"
proof (induction ms arbitrary: s)
  case (Cons x xs)
  show ?case
    using Cons.IH sm.set_erase_None [of s x] sm.set_erase_Some [of s x]
    by (cases "Set_Erase (sets C) s x") auto
qed simp

lemma SRemCmd_mutator_view:
  assumes "members_view C (Some ob) = Some A"
  shows "\<exists>m. SRemCmd_mutator C ms (Some ob) = (m, False, int (card (set ms \<inter> A))) \<and> mut_record m = None \<and>
    removal_effect C ob A (set ms) m"
proof -
  from assms obtain s where s: "obj_type ob = kSet" "SetOf ob = Some s" "{m. Set_Contains (sets C) s m} = A"
    by (auto simp: members_view_def split: if_splits)
  obtain s' n where loop: "SRemCmd_loop (sets C) ms (s, 0) = (s', n)" by fastforce
  from SRemCmd_loop_view [OF this] s have
    v: "{m. Set_Contains (sets C) s' m} = A - set ms" "n = int (card (set ms \<inter> A))" by auto
  have "Set_Empty (sets C) s' \<longleftrightarrow> A \<subseteq> set ms" using v by (simp add: sm.set_empty_iff)
  moreover have "card (set ms \<inter> A) = 0 \<longleftrightarrow> set ms \<inter> A = {}" by simp
  ultimately show ?thesis using loop s v
    by (auto simp: SRemCmd_mutator_def mutation_effect_def removal_effect_def Type_def DeadlineUs_def)
qed

lemma SPopCmd_mutator_view:
  assumes "members_view C (Some ob) = Some A" and "rng_ok R" and "A \<noteq> {}" and "0 < n"
  shows "\<exists>m picked. SPopCmd_mutator C R key n (Some ob) = (m, False, picked) \<and>
    distinct picked \<and> set picked \<subseteq> A \<and> length picked = min n (card A) \<and>
    mut_record m = Some (new_record\<lparr>rec_args := [''SREM'', key] @ picked\<rparr>) \<and>
    removal_effect C ob A (set picked) m"
proof -
  from assms obtain s where s: "obj_type ob = kSet" "SetOf ob = Some s" "{m. Set_Contains (sets C) s m} = A"
    by (auto simp: members_view_def split: if_splits)
  let ?ms = "Set_ToVector (sets C) s" and ?picked = "PickUniqueMembers R (Set_ToVector (sets C) s) n"
  have ms: "set ?ms = A" "distinct ?ms" "length ?ms = card A"
    using s sm.set_to_vector [of s] sm.to_vector_distinct [of s] distinct_card [of ?ms] by auto
  note pick = PickUnique [OF assms(2) ms(2), of n, unfolded ms]
  have fin: "finite A" using ms(1) by (metis List.finite_set)
  then have "0 < card A" using assms(3) by (simp add: card_gt_0_iff)
  then have "?picked \<noteq> []" using pick(3) assms(4) by auto
  then have ne: "set ?picked \<inter> A \<noteq> {}" using pick(2) by (cases ?picked) auto
  let ?next = "foldl (\<lambda>next member. case Set_Erase (sets C) next member of
      Some erased \<Rightarrow> erased | None \<Rightarrow> next) s ?picked"
  have nxt: "{m. Set_Contains (sets C) ?next m} = A - set ?picked" using erase_all_view [of s ?picked] s by simp
  then have "Set_Empty (sets C) ?next \<longleftrightarrow> A \<subseteq> set ?picked" by (simp add: sm.set_empty_iff)
  moreover have "?ms \<noteq> []" using ms(1) assms(3) by auto
  ultimately show ?thesis using s pick ne nxt
    by (auto simp: SPopCmd_mutator_def mutation_effect_def removal_effect_def Type_def DeadlineUs_def Let_def)
qed

end

text \<open>What popping does to the set \<open>A\<close> of a key: distinct members of it, as many as asked or all, are removed by one logged
  write, the key with its last member; the record names the members.\<close>

definition popped ::
  "('o, 'h, 's, 'z) containers \<Rightarrow> 'o CacheEngine \<Rightarrow> 'o CacheEngine \<Rightarrow> string \<Rightarrow> u64 \<Rightarrow> string set \<Rightarrow> nat \<Rightarrow> string list \<Rightarrow> bool" where
  "popped C e e' key now A n picked \<longleftrightarrow>
     distinct picked \<and> set picked \<subseteq> A \<and> length picked = min n (card A) \<and>
     (\<exists>x. engine_committed C e e' key x (new_record\<lparr>rec_args := [''SREM'', key] @ picked\<rparr>) now \<and>
       (if set picked = A then x = None
        else \<exists>ob. x = Some ob \<and> obj_deadline_us ob = deadline_of (CacheEngine_Get C e key now) \<and>
          members_view C (Some ob) = Some (A - set picked)))"

context imt_lib begin

lemma members_view_finite: "members_view C x = Some A \<Longrightarrow> finite A"
  by (auto simp: members_view_def simp flip: sm.set_to_vector split: option.splits if_splits)

lemma Mutate_SPop_idle:
  assumes "members_view C (CacheEngine_Get C e key now) = None \<or> members_view C (CacheEngine_Get C e key now) = Some {}"
  shows "\<exists>wr. CacheEngine_Mutate C e key (SPopCmd_mutator C R key n) r now =
    (e, wr, members_view C (CacheEngine_Get C e key now) = None, [])"
proof -
  have "Set_ToVector (sets C) s = []" if "\<And>m. \<not> Set_Contains (sets C) s m" for s
    using that sm.set_to_vector [of s] by (cases "Set_ToVector (sets C) s") auto
  with assms show ?thesis
    by (cases "CacheEngine_Get C e key now")
       (auto simp: Mutate_eq SPopCmd_mutator_def mutation_effect_def members_view_def Type_def Let_def split: if_splits)
qed

lemma Mutate_SPop:
  assumes "rng_ok R" and "members_view C (CacheEngine_Get C e key now) = Some A" and "A \<noteq> {}" and "0 < n"
  shows "\<exists>e' wr picked. CacheEngine_Mutate C e key (SPopCmd_mutator C R key n) r now = (e', wr, False, picked) \<and>
    popped C e e' key now A n picked"
proof -
  obtain ob where ob: "CacheEngine_Get C e key now = Some ob" using assms(2,3) by (cases "CacheEngine_Get C e key now") (auto simp: members_view_def)
  from SPopCmd_mutator_view [OF _ assms(1,3,4), of ob key] assms(2) ob obtain m picked where
    m: "SPopCmd_mutator C R key n (Some ob) = (m, False, picked)" and
    picked: "distinct picked" "set picked \<subseteq> A" "length picked = min n (card A)" and
    r: "mut_record m = Some (new_record\<lparr>rec_args := [''SREM'', key] @ picked\<rparr>)" and
    eff: "removal_effect C ob A (set picked) m" by auto
  have "0 < card A" using assms(3) members_view_finite [OF assms(2)] by (simp add: card_gt_0_iff)
  then have "set picked \<inter> A \<noteq> {}" using picked assms(4) by (cases picked) auto
  with eff picked(2) obtain x where x: "mutation_effect (Some ob) m = Some x"
    "if set picked = A then x = None else \<exists>s. x = Some (set_object s (obj_deadline_us ob)) \<and>
       {y. Set_Contains (sets C) s y} = A - set picked"
    by (cases "A \<subseteq> set picked") (auto simp: removal_effect_def)
  let ?r = "new_record\<lparr>rec_args := [''SREM'', key] @ picked\<rparr>"
  have "\<exists>wr. CacheEngine_Mutate C e key (SPopCmd_mutator C R key n) r now = (commit C e key x ?r now, wr, False, picked)"
    using ob m x(1) r by (simp add: Mutate_eq mutation_log_record_def)
  moreover have "engine_committed C e (commit C e key x ?r now) key x ?r now"
    using CacheEngine_Get_Some [OF ob] by (intro commit_committed) simp
  ultimately show ?thesis using picked x(2) ob
    by (auto simp: popped_def deadline_of_def split: if_splits)
qed

end

section \<open>Properties\<close>

text \<open>SADD adds the given members to the set of the key, a missing key counting as empty, keeps the
  expiry, and replies with the number of distinct members that were new; when none is new nothing
  is written, so nothing is logged either.\<close>

theorem SAddCmd_correct:
  assumes "imt_lib C" and "SAddCmd_ExecCmd C args e now = (e', reply)"
  shows "case members_view C (CacheEngine_Get C e (args ! 1) now) of
      None \<Rightarrow> e' = e \<and> reply = Error kWrongTypeError
    | Some A \<Rightarrow> reply = Integer (int (card (set (drop 2 args) - A))) \<and>
        (if set (drop 2 args) \<subseteq> A then e' = e
         else \<exists>ob. engine_view C e' = (engine_view C e)(args ! 1 \<mapsto> ob) \<and>
           obj_deadline_us ob = deadline_of (CacheEngine_Get C e (args ! 1) now) \<and>
           members_view C (Some ob) = Some (A \<union> set (drop 2 args)))"
proof (cases "members_view C (CacheEngine_Get C e (args ! 1) now)")
  case None
  with imt_lib.set_to_update_view(1) [OF assms(1) this] assms(2) show ?thesis
    by (simp add: SAddCmd_ExecCmd_def imt_lib.Update_eq [OF assms(1)] Let_def)
next
  case (Some A)
  from imt_lib.set_to_update_view(2) [OF assms(1) this] obtain s where
    s: "set_to_update C (CacheEngine_Get C e (args ! 1) now) =
        Some (s, deadline_of (CacheEngine_Get C e (args ! 1) now))" "{m. Set_Contains (sets C) s m} = A" by blast
  obtain s' n where loop: "SAddCmd_loop (sets C) (drop 2 args) (s, 0) = (s', n)" by fastforce
  from imt_lib.SAddCmd_loop_view [OF assms(1) this] s(2) have
    v: "{m. Set_Contains (sets C) s' m} = A \<union> set (drop 2 args)" "n = int (card (set (drop 2 args) - A))" by auto
  have "n = 0 \<longleftrightarrow> set (drop 2 args) \<subseteq> A" using v(2) by simp
  then show ?thesis
    using assms(2) Some s loop v
    by (cases "n = 0") (auto simp: SAddCmd_ExecCmd_def imt_lib.Update_eq [OF assms(1)]
        imt_lib.commit_Some_view [OF assms(1)] Let_def)
qed

theorem SAddCmd_correct_witness:
  "snd (SAddCmd_ExecCmd ref_containers [''SADD'', ''k'', ''a'', ''b'', ''a''] (CacheEngine_new ref_containers) 1) =
     Integer 2"
proof -
  have "CacheEngine_Get ref_containers (CacheEngine_new ref_containers) ''k'' 1 = None"
    by (simp add: CacheEngine_Get_def KeySlot_def CacheEngine_new_def HashSlot_new_def HashSlot_Get_def
        ref_containers_def ref_map_def)
  then show ?thesis
    using SAddCmd_correct [OF ref_lib.imt_lib_axioms surjective_pairing,
        of "[''SADD'', ''k'', ''a'', ''b'', ''a'']" "CacheEngine_new ref_containers" 1]
    by (simp add: members_view_def card_insert_if)
qed

text \<open>(C38) SPOP, with and without a count, for all arguments and whatever the random source does. A count that is not a
  non-negative integer is refused, a key of another type is left alone, and nothing happens for a count of zero or
  an empty set. Otherwise SPOP picks distinct members, one without a count, as many as asked but at most all with one;
  it removes exactly those, deletes the key with its last member, keeps the deadline, and logs their removal by name, so that
  replaying the log removes the same members. The reply is the member, or with a count the list of the members.\<close>

theorem SPopCmd_correct:
  assumes "imt_lib C" and "rng_ok R" and "SPopCmd_ExecCmd C R args e now = (e', reply)"
  shows "case (if length args = 3 then ParseInt64 (args ! 2) else Some 1) of
      None \<Rightarrow> e' = e \<and> reply = Error kIntegerError
    | Some n \<Rightarrow>
        if n < 0 then e' = e \<and> reply = Error kIntegerError
        else (case members_view C (CacheEngine_Get C e (args ! 1) now) of
                None \<Rightarrow> e' = e \<and> reply = Error kWrongTypeError
              | Some A \<Rightarrow>
                  if n = 0 \<or> A = {} then e' = e \<and> reply = (if length args = 3 then Array [] else NullBulk)
                  else \<exists>picked. popped C e e' (args ! 1) now A (nat n) picked \<and>
                    reply = (if length args = 3 then Array (map BulkString picked) else BulkString (hd picked)))"
proof (cases "if length args = 3 then ParseInt64 (args ! 2) else Some 1")
  case None
  then show ?thesis using assms(3) by (auto simp: SPopCmd_ExecCmd_def Let_def split: if_splits)
next
  case (Some n)
  let ?view = "members_view C (CacheEngine_Get C e (args ! 1) now)"
  consider (refused) "n < 0" | (zero) "n = 0" | (idle) "0 < n" "?view = None \<or> ?view = Some {}"
    | (pop) A where "0 < n" "?view = Some A" "A \<noteq> {}" by (cases ?view) force+
  then show ?thesis
  proof cases
    case refused
    with Some assms(3) show ?thesis by (auto simp: SPopCmd_ExecCmd_def Let_def split: if_splits)
  next
    case zero
    with Some assms(3) show ?thesis
      by (auto simp: SPopCmd_ExecCmd_def ReadSet_def members_view_def Type_def Let_def split: if_splits option.splits)
  next
    case idle
    from imt_lib.Mutate_SPop_idle [OF assms(1) idle(2), of R "nat n" "MakeRecord ''SPOP'' args"] obtain wr where
      "CacheEngine_Mutate C e (args ! 1) (SPopCmd_mutator C R (args ! 1) (nat n)) (MakeRecord ''SPOP'' args) now = (e, wr, ?view = None, [])" ..
    with Some assms(3) idle show ?thesis by (auto simp: SPopCmd_ExecCmd_def MembersToResponses_def Let_def split: if_splits)
  next
    case (pop A)
    from imt_lib.Mutate_SPop [OF assms(1,2) pop(2,3), of "nat n" "MakeRecord ''SPOP'' args"] pop(1) obtain e1 wr picked where
      run: "CacheEngine_Mutate C e (args ! 1) (SPopCmd_mutator C R (args ! 1) (nat n)) (MakeRecord ''SPOP'' args) now = (e1, wr, False, picked)"
      and spec: "popped C e e1 (args ! 1) now A (nat n) picked" by auto
    have "0 < card A" using pop(3) imt_lib.members_view_finite [OF assms(1) pop(2)] by (simp add: card_gt_0_iff)
    then have "picked \<noteq> []" using spec pop(1) by (auto simp: popped_def)
    with run spec Some assms(3) pop show ?thesis by (auto simp: SPopCmd_ExecCmd_def MembersToResponses_def Let_def split: if_splits)
  qed
qed

definition demo_set :: "ref_objects CacheEngine" where
  "demo_set = fst (CacheEngine_Set ref_containers (CacheEngine_new ref_containers) ''k''
     (MakeSet (Set_Add (sets ref_containers) (Set_empty (sets ref_containers)) ''a'')) new_record 1)"

definition demo_rng :: Rng where
  "demo_rng = \<lparr>rng_shuffle = rev, rng_index = (\<lambda>n i. i mod n)\<rparr>"

theorem SPopCmd_correct_witness:
  "snd (SPopCmd_ExecCmd ref_containers demo_rng [''SPOP'', ''k'', to_string 3] demo_set 2) = Array [BulkString ''a''] \<and>
   snd (SPopCmd_ExecCmd ref_containers demo_rng [''SPOP'', ''k''] demo_set 2) = BulkString ''a'' \<and>
   engine_view ref_containers (fst (SPopCmd_ExecCmd ref_containers demo_rng [''SPOP'', ''k''] demo_set 2)) ''k'' = None"
proof -
  let ?ob = "MakeSet (Set_Add (sets ref_containers) (Set_empty (sets ref_containers)) ''a'')"
  have get: "CacheEngine_Get ref_containers demo_set ''k'' 2 = Some ?ob"
    by (simp add: demo_set_def ref_lib.engine_store.get_set live_def IsExpired_def)
  have view: "members_view ref_containers (Some ?ob) = Some {''a''}"
    by (auto simp: members_view_def SetOf_def ref_containers_def ref_set_def Dlist.member_def List.member_iff)
  have rng: "rng_ok demo_rng" by (simp add: rng_ok_def demo_rng_def)
  have one: "picked = [''a'']" if "popped ref_containers demo_set e' ''k'' 2 {''a''} n picked" "0 < n" for e' n picked
    using that by (cases picked; cases "tl picked") (auto simp: popped_def)
  have gone: "engine_view ref_containers e' ''k'' = None" if "popped ref_containers demo_set e' ''k'' 2 {''a''} n [''a'']" for e' n
    using that by (auto simp: popped_def engine_committed_view)
  obtain e1 r1 e2 r2 where run: "SPopCmd_ExecCmd ref_containers demo_rng [''SPOP'', ''k'', to_string 3] demo_set 2 = (e1, r1)"
    "SPopCmd_ExecCmd ref_containers demo_rng [''SPOP'', ''k''] demo_set 2 = (e2, r2)" by fastforce
  from SPopCmd_correct [OF ref_lib.imt_lib_axioms rng run(1)] obtain p1 where
    "popped ref_containers demo_set e1 ''k'' 2 {''a''} 3 p1" "r1 = Array (map BulkString p1)"
    by (auto simp: get view int64_ok_def)
  moreover from SPopCmd_correct [OF ref_lib.imt_lib_axioms rng run(2)] obtain p2 where
    "popped ref_containers demo_set e2 ''k'' 2 {''a''} 1 p2" "r2 = BulkString (hd p2)"
    by (auto simp: get view)
  ultimately show ?thesis using one [of e1 3 p1] one [of e2 1 p2] gone [of e2 1] by (simp add: run)
qed

end
