(* ===== verification/ZSetCmd.thy ===== *)
theory ZSetCmd
  imports Response "HOL-Library.Product_Lexorder" "HOL-Library.Multiset"
begin

text \<open>
  The sorted-set commands, \<^verbatim>\<open>src/command/zset_cmd.cpp\<close>: ZADD with its options, ZSCORE, ZREM, ZCARD, ZRANK,
  ZREVRANK, ZCOUNT, ZINCRBY and ZRANGE by rank, score or member.
\<close>

section \<open>Scores\<close>

record ZEntry =
  ze_member :: string
  ze_score :: double

record ScoreBound =
  sb_value :: double
  sb_inclusive :: bool

datatype LexKind = kNegInf | kPosInf | kValue

record LexBound =
  lb_kind :: LexKind
  lb_value :: string
  lb_inclusive :: bool

definition kInvalidFloatError :: string where
  "kInvalidFloatError = ''ERR value is not a valid float''"

definition kInvalidIncrementError :: string where
  "kInvalidIncrementError = ''ERR increment would produce NaN or Infinity''"

definition NormalizeZero :: "double \<Rightarrow> double" where
  "NormalizeZero value = (if deq value zero_double then zero_double else value)"

text \<open>\<^verbatim>\<open>FormatScore\<close>: with a point anywhere in the text, all trailing zeros go, then a trailing point.\<close>

definition FormatScore :: "double \<Rightarrow> string" where
  "FormatScore score =
     (let text = print17 (NormalizeZero score)
      in if CHR ''.'' \<in> set text then
           (let stripped = rev (dropWhile (\<lambda>c. c = CHR ''0'') (rev text))
            in if stripped \<noteq> [] \<and> last stripped = CHR ''.'' then butlast stripped else stripped)
         else text)"

definition ZSetMakeRecord :: "string list \<Rightarrow> BinlogRecord" where
  "ZSetMakeRecord args =
     new_record\<lparr>rec_args := (if args = [] then [] else ToUpperAscii (hd args) # tl args)\<rparr>"

definition ParseFiniteScore :: "string \<Rightarrow> double option" where
  "ParseFiniteScore text = map_option NormalizeZero (ParseFiniteDouble text)"

definition ParseScoreValue :: "string \<Rightarrow> bool \<Rightarrow> double option" where
  "ParseScoreValue text allow_infinity =
     (let upper = ToUpperAscii text
      in if allow_infinity \<and> upper \<in> {''+INF'', ''INF'', ''+INFINITY'', ''INFINITY''}
         then Some (infinity_double False)
         else if allow_infinity \<and> upper \<in> {''-INF'', ''-INFINITY''}
         then Some (infinity_double True)
         else ParseFiniteScore text)"

definition ParseScoreBound :: "string \<Rightarrow> ScoreBound option" where
  "ParseScoreBound text =
     (let exclusive = (text \<noteq> [] \<and> hd text = CHR ''('');
          text' = (if exclusive then tl text else text)
      in if text' = [] then None
         else map_option (\<lambda>value. \<lparr>sb_value = value, sb_inclusive = \<not> exclusive\<rparr>) (ParseScoreValue text' True))"

definition ScoreInRange :: "double \<Rightarrow> ScoreBound \<Rightarrow> ScoreBound \<Rightarrow> bool" where
  "ScoreInRange score lo hi \<longleftrightarrow>
     (if sb_inclusive lo then dle (sb_value lo) score else dless (sb_value lo) score) \<and>
     (if sb_inclusive hi then dle score (sb_value hi) else dless score (sb_value hi))"

section \<open>Members in binary order\<close>

text \<open>\<^verbatim>\<open>std::memcmp\<close> on the first \<open>n\<close> bytes, as unsigned bytes: negative, zero or positive.\<close>

fun memcmp :: "string \<Rightarrow> string \<Rightarrow> nat \<Rightarrow> int" where
  "memcmp (a # as) (b # bs) (Suc n) =
     (if (of_char a :: nat) < of_char b then -1
      else if (of_char b :: nat) < of_char a then 1
      else memcmp as bs n)"
| "memcmp _ _ _ = 0"

definition CompareBinaryLex :: "string \<Rightarrow> string \<Rightarrow> int" where
  "CompareBinaryLex left right =
     (let shared_size = min (length left) (length right);
          compared = (if shared_size \<noteq> 0 then memcmp left right shared_size else 0)
      in if compared < 0 then -1
         else if 0 < compared then 1
         else if length left < length right then -1
         else if length right < length left then 1
         else 0)"

definition ParseLexBound :: "string \<Rightarrow> LexBound option" where
  "ParseLexBound text =
     (if text = ''-'' then Some \<lparr>lb_kind = kNegInf, lb_value = [], lb_inclusive = True\<rparr>
      else if text = ''+'' then Some \<lparr>lb_kind = kPosInf, lb_value = [], lb_inclusive = True\<rparr>
      else if text \<noteq> [] \<and> (hd text = CHR ''['' \<or> hd text = CHR ''('')
      then Some \<lparr>lb_kind = kValue, lb_value = tl text, lb_inclusive = (hd text = CHR ''['')\<rparr>
      else None)"

definition LexAboveLower :: "string \<Rightarrow> LexBound \<Rightarrow> bool" where
  "LexAboveLower member lo =
     (case lb_kind lo of
        kNegInf \<Rightarrow> True
      | kPosInf \<Rightarrow> False
      | kValue \<Rightarrow> let compared = CompareBinaryLex member (lb_value lo)
                  in if lb_inclusive lo then 0 \<le> compared else 0 < compared)"

definition LexBelowUpper :: "string \<Rightarrow> LexBound \<Rightarrow> bool" where
  "LexBelowUpper member hi =
     (case lb_kind hi of
        kPosInf \<Rightarrow> True
      | kNegInf \<Rightarrow> False
      | kValue \<Rightarrow> let compared = CompareBinaryLex member (lb_value hi)
                  in if lb_inclusive hi then compared \<le> 0 else compared < 0)"

definition LexInRange :: "string \<Rightarrow> LexBound \<Rightarrow> LexBound \<Rightarrow> bool" where
  "LexInRange member lo hi \<longleftrightarrow> LexAboveLower member lo \<and> LexBelowUpper member hi"

section \<open>Entries in order\<close>

definition ZSetPreserveDeadline :: "('h, 's, 'z) RedisObject \<Rightarrow> u64 \<Rightarrow> ('h, 's, 'z) RedisObject" where
  "ZSetPreserveDeadline object deadline_us = (if deadline_us = 0 then object else WithDeadline object deadline_us)"

text \<open>\<^verbatim>\<open>std::sort\<close> with a comparison function, as an insertion sort.\<close>

fun insert_by :: "('a \<Rightarrow> 'a \<Rightarrow> bool) \<Rightarrow> 'a \<Rightarrow> 'a list \<Rightarrow> 'a list" where
  "insert_by lt x [] = [x]"
| "insert_by lt x (y # ys) = (if lt y x then y # insert_by lt x ys else x # y # ys)"

definition sort_by :: "('a \<Rightarrow> 'a \<Rightarrow> bool) \<Rightarrow> 'a list \<Rightarrow> 'a list" where
  "sort_by lt xs = foldr (insert_by lt) xs []"

definition lex_less :: "ZEntry \<Rightarrow> ZEntry \<Rightarrow> bool" where
  "lex_less left right \<longleftrightarrow> CompareBinaryLex (ze_member left) (ze_member right) < 0"

definition score_less :: "ZEntry \<Rightarrow> ZEntry \<Rightarrow> bool" where
  "score_less left right \<longleftrightarrow>
     (if \<not> deq (ze_score left) (ze_score right) then dless (ze_score left) (ze_score right)
      else CompareBinaryLex (ze_member left) (ze_member right) < 0)"

definition EntriesByLex :: "('z, double) ImtMap \<Rightarrow> 'z \<Rightarrow> ZEntry list" where
  "EntriesByLex M zset =
     sort_by lex_less (map (\<lambda>(member, score). \<lparr>ze_member = member, ze_score = score\<rparr>) (Map_ForEach M zset))"

definition EntriesByScore :: "('z, double) ImtMap \<Rightarrow> 'z \<Rightarrow> ZEntry list" where
  "EntriesByScore M zset = sort_by score_less (EntriesByLex M zset)"

definition EntriesByScoreReverse :: "('z, double) ImtMap \<Rightarrow> 'z \<Rightarrow> ZEntry list" where
  "EntriesByScoreReverse M zset = rev (EntriesByScore M zset)"

definition AppendRangeResponse :: "ZEntry list \<Rightarrow> bool \<Rightarrow> Response" where
  "AppendRangeResponse entries with_scores =
     Array (concat (map (\<lambda>entry. BulkString (ze_member entry) #
       (if with_scores then [BulkString (FormatScore (ze_score entry))] else [])) entries))"

definition FilterByScore :: "ZEntry list \<Rightarrow> ScoreBound \<Rightarrow> ScoreBound \<Rightarrow> ZEntry list" where
  "FilterByScore entries lo hi = filter (\<lambda>entry. ScoreInRange (ze_score entry) lo hi) entries"

definition FilterByLex :: "ZEntry list \<Rightarrow> LexBound \<Rightarrow> LexBound \<Rightarrow> ZEntry list" where
  "FilterByLex entries lo hi = filter (\<lambda>entry. LexInRange (ze_member entry) lo hi) entries"

definition ApplyRankRange :: "ZEntry list \<Rightarrow> int \<Rightarrow> int \<Rightarrow> ZEntry list" where
  "ApplyRankRange entries start stop =
     (let size = int (length entries)
      in if size = 0 then []
         else let start1 = (if start < 0 then start + size else start);
                  stop1 = (if stop < 0 then stop + size else stop);
                  start2 = (if start1 < 0 then 0 else start1)
              in if stop1 < 0 \<or> size \<le> start2 then []
                 else let stop2 = (if size \<le> stop1 then size - 1 else stop1)
                      in if stop2 < start2 then []
                         else take (nat (stop2 + 1 - start2)) (drop (nat start2) entries))"

definition ApplyLimit :: "ZEntry list \<Rightarrow> int \<Rightarrow> int \<Rightarrow> ZEntry list" where
  "ApplyLimit entries offset cnt =
     (if offset < 0 \<or> cnt = 0 then []
      else let size = int (length entries)
           in if size \<le> offset then []
              else let end' = (if 0 < cnt \<and> cnt < size - offset then offset + cnt else size)
                   in if end' \<le> offset then []
                      else take (nat (end' - offset)) (drop (nat offset) entries))"

section \<open>ZADD\<close>

record ZAddOptions =
  za_nx :: bool
  za_xx :: bool
  za_gt :: bool
  za_lt :: bool
  za_ch :: bool
  za_incr :: bool

definition ZAddOptions_new :: ZAddOptions where
  "ZAddOptions_new = \<lparr>za_nx = False, za_xx = False, za_gt = False, za_lt = False, za_ch = False, za_incr = False\<rparr>"

record ZAddInput =
  zi_score :: double
  zi_member :: string

datatype ZAddParseStatus = kSyntax | kInvalidFloat

text \<open>The option words from index 2 on; the rest starts at the first argument that is none.\<close>

fun ZAdd_options_loop :: "ZAddOptions \<Rightarrow> string list \<Rightarrow> (ZAddOptions \<times> string list) option" where
  "ZAdd_options_loop options [] = Some (options, [])"
| "ZAdd_options_loop options (arg # rest) =
     (let option = ToUpperAscii arg
      in if option = ''NX'' then
           (if za_nx options then None else ZAdd_options_loop (options\<lparr>za_nx := True\<rparr>) rest)
         else if option = ''XX'' then
           (if za_xx options then None else ZAdd_options_loop (options\<lparr>za_xx := True\<rparr>) rest)
         else if option = ''GT'' then
           (if za_gt options then None else ZAdd_options_loop (options\<lparr>za_gt := True\<rparr>) rest)
         else if option = ''LT'' then
           (if za_lt options then None else ZAdd_options_loop (options\<lparr>za_lt := True\<rparr>) rest)
         else if option = ''CH'' then
           (if za_ch options then None else ZAdd_options_loop (options\<lparr>za_ch := True\<rparr>) rest)
         else if option = ''INCR'' then
           (if za_incr options then None else ZAdd_options_loop (options\<lparr>za_incr := True\<rparr>) rest)
         else Some (options, arg # rest))"

fun ZAdd_inputs_loop :: "string list \<Rightarrow> ZAddInput list option" where
  "ZAdd_inputs_loop (score # member # rest) =
     (case ParseFiniteScore score of
        None \<Rightarrow> None
      | Some s \<Rightarrow> map_option (\<lambda>inputs. \<lparr>zi_score = s, zi_member = member\<rparr> # inputs) (ZAdd_inputs_loop rest))"
| "ZAdd_inputs_loop _ = Some []"

definition ParseZAddArgs :: "string list \<Rightarrow> ZAddParseStatus + (ZAddOptions \<times> ZAddInput list)" where
  "ParseZAddArgs args =
     (case ZAdd_options_loop ZAddOptions_new (drop 2 args) of
        None \<Rightarrow> Inl kSyntax
      | Some (options, rest) \<Rightarrow>
          if (za_nx options \<and> za_xx options) \<or> (za_nx options \<and> za_gt options) \<or>
             (za_nx options \<and> za_lt options) \<or> (za_gt options \<and> za_lt options) then Inl kSyntax
          else let remaining = length rest
               in if remaining < 2 \<or> remaining mod 2 \<noteq> 0 then Inl kSyntax
                  else if za_incr options \<and> remaining \<noteq> 2 then Inl kSyntax
                  else (case ZAdd_inputs_loop rest of
                          None \<Rightarrow> Inl kInvalidFloat
                        | Some inputs \<Rightarrow> Inr (options, inputs)))"

text \<open>The start of the callbacks: \<open>None\<close> for a wrong type.\<close>

definition zset_to_update ::
  "('o, 'h, 's, 'z) containers \<Rightarrow> ('h, 's, 'z) RedisObject option \<Rightarrow> ('z \<times> u64) option" where
  "zset_to_update C existing =
     (case existing of
        None \<Rightarrow> Some (Map_empty (zsets C), 0)
      | Some ob \<Rightarrow> if Type ob \<noteq> kZSet \<or> ZSet ob = None then None
                   else Some (the (ZSet ob), DeadlineUs ob))"

text \<open>What the callback of an increment leaves in its captured variables.\<close>

datatype ZIncrOutcome = ZIncrWrongType | ZIncrPrevented | ZIncrInvalid | ZIncrResult double

definition IncrementZSetMember_mutator ::
  "('o, 'h, 's, 'z) containers \<Rightarrow> double \<Rightarrow> string \<Rightarrow> ZAddOptions \<Rightarrow> ('h, 's, 'z) RedisObject option \<Rightarrow>
   ('h, 's, 'z) MutationResult \<times> ZIncrOutcome" where
  "IncrementZSetMember_mutator C increment member options existing =
     (case zset_to_update C existing of
        None \<Rightarrow> (mutation False None, ZIncrWrongType)
      | Some (zset, deadline_us) \<Rightarrow>
          let found = Map_Find (zsets C) zset member; exists = (found \<noteq> None)
          in if (exists \<and> za_nx options) \<or> (\<not> exists \<and> za_xx options) then (mutation False None, ZIncrPrevented)
             else let old_score = (case found of None \<Rightarrow> zero_double | Some s \<Rightarrow> s);
                      next_score = NormalizeZero (dadd old_score increment)
                  in if \<not> isfinite next_score then (mutation False None, ZIncrInvalid)
                     else if exists \<and> za_gt options \<and> \<not> dless old_score next_score
                     then (mutation False None, ZIncrPrevented)
                     else if exists \<and> za_lt options \<and> \<not> dless next_score old_score
                     then (mutation False None, ZIncrPrevented)
                     else if exists \<and> deq next_score old_score then (mutation False None, ZIncrResult next_score)
                     else (mutation True (Some (ZSetPreserveDeadline
                             (MakeZSet (Map_Set (zsets C) zset member next_score)) deadline_us)),
                           ZIncrResult next_score))"

definition IncrementZSetMember ::
  "('o, 'h, 's, 'z) containers \<Rightarrow> string list \<Rightarrow> 'o CacheEngine \<Rightarrow> u64 \<Rightarrow> string \<Rightarrow> double \<Rightarrow> string \<Rightarrow>
   ZAddOptions \<Rightarrow> 'o CacheEngine \<times> Response" where
  "IncrementZSetMember C args e now_us key increment member options =
     (let (e', wr, outcome) = CacheEngine_Mutate C e key
            (IncrementZSetMember_mutator C increment member options) (ZSetMakeRecord args) now_us
      in (e', case outcome of
                ZIncrWrongType \<Rightarrow> Error kWrongTypeError
              | ZIncrInvalid \<Rightarrow> Error kInvalidIncrementError
              | ZIncrPrevented \<Rightarrow> NullBulk
              | ZIncrResult result_score \<Rightarrow> BulkString (FormatScore result_score)))"

text \<open>One input of ZADD: the set so far, the two counts and the flag \<^verbatim>\<open>changed\<close>.\<close>

definition ZAdd_step ::
  "('z, double) ImtMap \<Rightarrow> ZAddOptions \<Rightarrow> 'z \<times> int \<times> int \<times> bool \<Rightarrow> ZAddInput \<Rightarrow> 'z \<times> int \<times> int \<times> bool" where
  "ZAdd_step M options = (\<lambda>(zset, added_count, changed_count, changed) input.
     case Map_Find M zset (zi_member input) of
       None \<Rightarrow>
         if za_xx options then (zset, added_count, changed_count, changed)
         else (Map_Set M zset (zi_member input) (zi_score input), added_count + 1, changed_count, True)
     | Some found \<Rightarrow>
         if za_nx options \<or> (za_gt options \<and> \<not> dless found (zi_score input)) \<or>
            (za_lt options \<and> \<not> dless (zi_score input) found) \<or> deq (zi_score input) found
         then (zset, added_count, changed_count, changed)
         else (Map_Set M zset (zi_member input) (zi_score input), added_count, changed_count + 1, True))"

definition ZAddCmd_mutator ::
  "('o, 'h, 's, 'z) containers \<Rightarrow> ZAddOptions \<Rightarrow> ZAddInput list \<Rightarrow> ('h, 's, 'z) RedisObject option \<Rightarrow>
   ('h, 's, 'z) MutationResult \<times> bool \<times> int \<times> int" where
  "ZAddCmd_mutator C options inputs existing =
     (case zset_to_update C existing of
        None \<Rightarrow> (mutation False None, True, 0, 0)
      | Some (zset, deadline_us) \<Rightarrow>
          let (zset', added_count, changed_count, changed) =
                foldl (ZAdd_step (zsets C) options) (zset, 0, 0, False) inputs
          in if \<not> changed then (mutation False None, False, added_count, changed_count)
             else (mutation True (Some (ZSetPreserveDeadline (MakeZSet zset') deadline_us)),
                   False, added_count, changed_count))"

definition ZAddCmd_CheckArity :: "string list \<Rightarrow> string option" where
  "ZAddCmd_CheckArity args = (if length args < 4 then Some (arity_error ''zadd'') else None)"

definition ZAddCmd_ExecCmd ::
  "('o, 'h, 's, 'z) containers \<Rightarrow> string list \<Rightarrow> 'o CacheEngine \<Rightarrow> u64 \<Rightarrow> 'o CacheEngine \<times> Response" where
  "ZAddCmd_ExecCmd C args e now_us =
     (case ParseZAddArgs args of
        Inl kSyntax \<Rightarrow> (e, Error kSyntaxError)
      | Inl kInvalidFloat \<Rightarrow> (e, Error kInvalidFloatError)
      | Inr (options, inputs) \<Rightarrow>
          if za_incr options then
            IncrementZSetMember C args e now_us (args ! 1) (zi_score (inputs ! 0)) (zi_member (inputs ! 0)) options
          else let (e', wr, wrong_type, added_count, changed_count) = CacheEngine_Mutate C e (args ! 1)
                     (ZAddCmd_mutator C options inputs) (ZSetMakeRecord args) now_us
               in (e', if wrong_type then Error kWrongTypeError
                       else Integer (if za_ch options then added_count + changed_count else added_count)))"

section \<open>The other commands that write\<close>

definition ZRemCmd_loop :: "('z, double) ImtMap \<Rightarrow> string list \<Rightarrow> 'z \<times> int \<Rightarrow> 'z \<times> int" where
  "ZRemCmd_loop M members start =
     foldl (\<lambda>(zset, removed_count) member.
        case Map_Erase M zset member of
          None \<Rightarrow> (zset, removed_count)
        | Some next \<Rightarrow> (next, removed_count + 1)) start members"

definition ZRemCmd_mutator ::
  "('o, 'h, 's, 'z) containers \<Rightarrow> string list \<Rightarrow> ('h, 's, 'z) RedisObject option \<Rightarrow>
   ('h, 's, 'z) MutationResult \<times> bool \<times> int" where
  "ZRemCmd_mutator C members existing =
     (case existing of
        None \<Rightarrow> (mutation False None, False, 0)
      | Some ob \<Rightarrow>
          if Type ob \<noteq> kZSet \<or> ZSet ob = None then (mutation False None, True, 0)
          else let (zset, removed_count) = ZRemCmd_loop (zsets C) members (the (ZSet ob), 0)
               in if removed_count = 0 then (mutation False None, False, removed_count)
                  else if Map_Empty (zsets C) zset then (mutation True None, False, removed_count)
                  else (mutation True (Some (ZSetPreserveDeadline (MakeZSet zset) (DeadlineUs ob))),
                        False, removed_count))"

definition ZRemCmd_CheckArity :: "string list \<Rightarrow> string option" where
  "ZRemCmd_CheckArity args = (if length args < 3 then Some (arity_error ''zrem'') else None)"

definition ZRemCmd_ExecCmd ::
  "('o, 'h, 's, 'z) containers \<Rightarrow> string list \<Rightarrow> 'o CacheEngine \<Rightarrow> u64 \<Rightarrow> 'o CacheEngine \<times> Response" where
  "ZRemCmd_ExecCmd C args e now_us =
     (let (e', wr, wrong_type, removed_count) = CacheEngine_Mutate C e (args ! 1)
            (ZRemCmd_mutator C (drop 2 args)) (ZSetMakeRecord args) now_us
      in (e', if wrong_type then Error kWrongTypeError else Integer removed_count))"

definition ZIncrByCmd_CheckArity :: "string list \<Rightarrow> string option" where
  "ZIncrByCmd_CheckArity args = (if length args \<noteq> 4 then Some (arity_error ''zincrby'') else None)"

definition ZIncrByCmd_ExecCmd ::
  "('o, 'h, 's, 'z) containers \<Rightarrow> string list \<Rightarrow> 'o CacheEngine \<Rightarrow> u64 \<Rightarrow> 'o CacheEngine \<times> Response" where
  "ZIncrByCmd_ExecCmd C args e now_us =
     (case ParseFiniteScore (args ! 2) of
        None \<Rightarrow> (e, Error kInvalidFloatError)
      | Some increment \<Rightarrow>
          IncrementZSetMember C args e now_us (args ! 1) increment (args ! 3) ZAddOptions_new)"

section \<open>Commands that read\<close>

datatype 'z ZSetRead = ZMissing | ZWrongType | ZOk 'z

definition ReadZSet ::
  "('o, 'h, 's, 'z) containers \<Rightarrow> 'o CacheEngine \<Rightarrow> string \<Rightarrow> u64 \<Rightarrow> 'z ZSetRead" where
  "ReadZSet C e key now_us =
     (case CacheEngine_Get C e key now_us of
        None \<Rightarrow> ZMissing
      | Some obj \<Rightarrow> if Type obj \<noteq> kZSet \<or> ZSet obj = None then ZWrongType else ZOk (the (ZSet obj)))"

definition ZScoreCmd_CheckArity :: "string list \<Rightarrow> string option" where
  "ZScoreCmd_CheckArity args = (if length args \<noteq> 3 then Some (arity_error ''zscore'') else None)"

definition ZScoreCmd_ExecCmd ::
  "('o, 'h, 's, 'z) containers \<Rightarrow> string list \<Rightarrow> 'o CacheEngine \<Rightarrow> u64 \<Rightarrow> 'o CacheEngine \<times> Response" where
  "ZScoreCmd_ExecCmd C args e now_us =
     (e, case CacheEngine_Get C e (args ! 1) now_us of
           None \<Rightarrow> NullBulk
         | Some obj \<Rightarrow>
             if Type obj \<noteq> kZSet then Error kWrongTypeError
             else (case ZSet obj of
                     None \<Rightarrow> Error kWrongTypeError
                   | Some zset \<Rightarrow> (case Map_Find (zsets C) zset (args ! 2) of
                                     None \<Rightarrow> NullBulk
                                   | Some found \<Rightarrow> BulkString (FormatScore found))))"

definition ZCardCmd_CheckArity :: "string list \<Rightarrow> string option" where
  "ZCardCmd_CheckArity args = (if length args \<noteq> 2 then Some (arity_error ''zcard'') else None)"

definition ZCardCmd_ExecCmd ::
  "('o, 'h, 's, 'z) containers \<Rightarrow> string list \<Rightarrow> 'o CacheEngine \<Rightarrow> u64 \<Rightarrow> 'o CacheEngine \<times> Response" where
  "ZCardCmd_ExecCmd C args e now_us =
     (e, case ReadZSet C e (args ! 1) now_us of
           ZMissing \<Rightarrow> Integer 0
         | ZWrongType \<Rightarrow> Error kWrongTypeError
         | ZOk zset \<Rightarrow> Integer (int (Map_Size (zsets C) zset)))"

text \<open>The search loop of \<^verbatim>\<open>RankResponse\<close>.\<close>

fun rank_loop :: "string \<Rightarrow> nat \<Rightarrow> ZEntry list \<Rightarrow> nat option" where
  "rank_loop member index [] = None"
| "rank_loop member index (entry # rest) =
     (if ze_member entry = member then Some index else rank_loop member (index + 1) rest)"

definition RankResponse ::
  "('o, 'h, 's, 'z) containers \<Rightarrow> 'o CacheEngine \<Rightarrow> u64 \<Rightarrow> string \<Rightarrow> string \<Rightarrow> bool \<Rightarrow> Response" where
  "RankResponse C e now_us key member reverse =
     (case ReadZSet C e key now_us of
        ZMissing \<Rightarrow> NullBulk
      | ZWrongType \<Rightarrow> Error kWrongTypeError
      | ZOk zset \<Rightarrow>
          let entries = (if reverse then EntriesByScoreReverse (zsets C) zset else EntriesByScore (zsets C) zset)
          in (case rank_loop member 0 entries of None \<Rightarrow> NullBulk | Some index \<Rightarrow> Integer (int index)))"

definition ZRankCmd_CheckArity :: "string list \<Rightarrow> string option" where
  "ZRankCmd_CheckArity args = (if length args \<noteq> 3 then Some (arity_error ''zrank'') else None)"

definition ZRankCmd_ExecCmd ::
  "('o, 'h, 's, 'z) containers \<Rightarrow> string list \<Rightarrow> 'o CacheEngine \<Rightarrow> u64 \<Rightarrow> 'o CacheEngine \<times> Response" where
  "ZRankCmd_ExecCmd C args e now_us = (e, RankResponse C e now_us (args ! 1) (args ! 2) False)"

definition ZRevRankCmd_CheckArity :: "string list \<Rightarrow> string option" where
  "ZRevRankCmd_CheckArity args = (if length args \<noteq> 3 then Some (arity_error ''zrevrank'') else None)"

definition ZRevRankCmd_ExecCmd ::
  "('o, 'h, 's, 'z) containers \<Rightarrow> string list \<Rightarrow> 'o CacheEngine \<Rightarrow> u64 \<Rightarrow> 'o CacheEngine \<times> Response" where
  "ZRevRankCmd_ExecCmd C args e now_us = (e, RankResponse C e now_us (args ! 1) (args ! 2) True)"

definition ZCountCmd_CheckArity :: "string list \<Rightarrow> string option" where
  "ZCountCmd_CheckArity args = (if length args \<noteq> 4 then Some (arity_error ''zcount'') else None)"

definition ZCountCmd_ExecCmd ::
  "('o, 'h, 's, 'z) containers \<Rightarrow> string list \<Rightarrow> 'o CacheEngine \<Rightarrow> u64 \<Rightarrow> 'o CacheEngine \<times> Response" where
  "ZCountCmd_ExecCmd C args e now_us =
     (e, case (ParseScoreBound (args ! 2), ParseScoreBound (args ! 3)) of
           (Some lo, Some hi) \<Rightarrow>
             (case ReadZSet C e (args ! 1) now_us of
                ZMissing \<Rightarrow> Integer 0
              | ZWrongType \<Rightarrow> Error kWrongTypeError
              | ZOk zset \<Rightarrow> Integer (foldl (\<lambda>cnt (member, score).
                  if ScoreInRange score lo hi then cnt + 1 else cnt) 0 (Map_ForEach (zsets C) zset)))
         | _ \<Rightarrow> Error kInvalidFloatError)"

section \<open>ZRANGE\<close>

datatype RangeMode = kRank | kScore | kLex

record ZRangeOptions =
  zr_mode :: RangeMode
  zr_rev :: bool
  zr_with_scores :: bool
  zr_has_limit :: bool
  zr_offset :: int
  zr_count :: int

definition ZRangeOptions_new :: ZRangeOptions where
  "ZRangeOptions_new = \<lparr>zr_mode = kRank, zr_rev = False, zr_with_scores = False, zr_has_limit = False,
     zr_offset = 0, zr_count = 0\<rparr>"

text \<open>The loop over the arguments from index 4 on; \<open>None\<close> is the syntax error.\<close>

fun ZRange_options_loop :: "ZRangeOptions \<Rightarrow> string list \<Rightarrow> ZRangeOptions option" where
  "ZRange_options_loop options [] = Some options"
| "ZRange_options_loop options (arg # rest) =
     (let option = ToUpperAscii arg
      in if option = ''BYSCORE'' then
           (if zr_mode options \<noteq> kRank then None else ZRange_options_loop (options\<lparr>zr_mode := kScore\<rparr>) rest)
         else if option = ''BYLEX'' then
           (if zr_mode options \<noteq> kRank then None else ZRange_options_loop (options\<lparr>zr_mode := kLex\<rparr>) rest)
         else if option = ''REV'' then
           (if zr_rev options then None else ZRange_options_loop (options\<lparr>zr_rev := True\<rparr>) rest)
         else if option = ''WITHSCORES'' then
           (if zr_with_scores options then None
            else ZRange_options_loop (options\<lparr>zr_with_scores := True\<rparr>) rest)
         else if option = ''LIMIT'' then
           (if zr_has_limit options then None
            else case rest of
                   offset_text # count_text # rest' \<Rightarrow>
                     (case (ParseInt64 offset_text, ParseInt64 count_text) of
                        (Some offset, Some cnt) \<Rightarrow>
                          ZRange_options_loop (options\<lparr>zr_offset := offset, zr_count := cnt, zr_has_limit := True\<rparr>) rest'
                      | _ \<Rightarrow> None)
                 | _ \<Rightarrow> None)
         else None)"

definition ParseZRangeOptions :: "string list \<Rightarrow> ZRangeOptions option" where
  "ParseZRangeOptions args =
     (case ZRange_options_loop ZRangeOptions_new (drop 4 args) of
        None \<Rightarrow> None
      | Some options \<Rightarrow> if zr_has_limit options \<and> zr_mode options = kRank then None else Some options)"

datatype ZRangeBounds = RankBounds int int | ScoreBounds ScoreBound ScoreBound | LexBounds LexBound LexBound

definition ParseZRangeBounds :: "string list \<Rightarrow> ZRangeOptions \<Rightarrow> string + ZRangeBounds" where
  "ParseZRangeBounds args options =
     (let lower_arg = (if zr_rev options then args ! 3 else args ! 2);
          upper_arg = (if zr_rev options then args ! 2 else args ! 3)
      in case zr_mode options of
           kRank \<Rightarrow> (case (ParseInt64 (args ! 2), ParseInt64 (args ! 3)) of
                       (Some start, Some stop) \<Rightarrow> Inr (RankBounds start stop)
                     | _ \<Rightarrow> Inl kSyntaxError)
         | kScore \<Rightarrow> (case (ParseScoreBound lower_arg, ParseScoreBound upper_arg) of
                        (Some lo, Some hi) \<Rightarrow> Inr (ScoreBounds lo hi)
                      | _ \<Rightarrow> Inl kInvalidFloatError)
         | kLex \<Rightarrow> (case (ParseLexBound lower_arg, ParseLexBound upper_arg) of
                      (Some lo, Some hi) \<Rightarrow> Inr (LexBounds lo hi)
                    | _ \<Rightarrow> Inl kSyntaxError))"

definition ZRange_select :: "('z, double) ImtMap \<Rightarrow> ZRangeOptions \<Rightarrow> ZRangeBounds \<Rightarrow> 'z \<Rightarrow> ZEntry list" where
  "ZRange_select M options bounds zset =
     (case bounds of
        RankBounds start stop \<Rightarrow>
          ApplyRankRange (if zr_rev options then EntriesByScoreReverse M zset else EntriesByScore M zset) start stop
      | _ \<Rightarrow>
          let entries = (case bounds of
                 ScoreBounds lo hi \<Rightarrow> FilterByScore (EntriesByScore M zset) lo hi
               | LexBounds lo hi \<Rightarrow> FilterByLex (EntriesByLex M zset) lo hi);
              entries1 = (if zr_rev options then rev entries else entries)
          in if zr_has_limit options then ApplyLimit entries1 (zr_offset options) (zr_count options) else entries1)"

definition ZRangeCmd_CheckArity :: "string list \<Rightarrow> string option" where
  "ZRangeCmd_CheckArity args = (if length args < 4 then Some (arity_error ''zrange'') else None)"

definition ZRangeCmd_ExecCmd ::
  "('o, 'h, 's, 'z) containers \<Rightarrow> string list \<Rightarrow> 'o CacheEngine \<Rightarrow> u64 \<Rightarrow> 'o CacheEngine \<times> Response" where
  "ZRangeCmd_ExecCmd C args e now_us =
     (e, case ParseZRangeOptions args of
           None \<Rightarrow> Error kSyntaxError
         | Some options \<Rightarrow>
             (case ParseZRangeBounds args options of
                Inl error \<Rightarrow> Error error
              | Inr bounds \<Rightarrow>
                  (case ReadZSet C e (args ! 1) now_us of
                     ZMissing \<Rightarrow> Array []
                   | ZWrongType \<Rightarrow> Error kWrongTypeError
                   | ZOk zset \<Rightarrow>
                       AppendRangeResponse (ZRange_select (zsets C) options bounds zset) (zr_with_scores options))))"

section \<open>The classes\<close>

text \<open>The command classes of \<^verbatim>\<open>src/command/zset_cmd.h\<close>.\<close>

definition ZAddCmd :: "('o, 'h, 's, 'z) containers \<Rightarrow> 'o RedisCmd" where
  [simp]: "ZAddCmd C = \<lparr>CheckArity = ZAddCmd_CheckArity, ExecCmd = ZAddCmd_ExecCmd C\<rparr>"

definition ZScoreCmd :: "('o, 'h, 's, 'z) containers \<Rightarrow> 'o RedisCmd" where
  [simp]: "ZScoreCmd C = \<lparr>CheckArity = ZScoreCmd_CheckArity, ExecCmd = ZScoreCmd_ExecCmd C\<rparr>"

definition ZRemCmd :: "('o, 'h, 's, 'z) containers \<Rightarrow> 'o RedisCmd" where
  [simp]: "ZRemCmd C = \<lparr>CheckArity = ZRemCmd_CheckArity, ExecCmd = ZRemCmd_ExecCmd C\<rparr>"

definition ZCardCmd :: "('o, 'h, 's, 'z) containers \<Rightarrow> 'o RedisCmd" where
  [simp]: "ZCardCmd C = \<lparr>CheckArity = ZCardCmd_CheckArity, ExecCmd = ZCardCmd_ExecCmd C\<rparr>"

definition ZRankCmd :: "('o, 'h, 's, 'z) containers \<Rightarrow> 'o RedisCmd" where
  [simp]: "ZRankCmd C = \<lparr>CheckArity = ZRankCmd_CheckArity, ExecCmd = ZRankCmd_ExecCmd C\<rparr>"

definition ZRevRankCmd :: "('o, 'h, 's, 'z) containers \<Rightarrow> 'o RedisCmd" where
  [simp]: "ZRevRankCmd C = \<lparr>CheckArity = ZRevRankCmd_CheckArity, ExecCmd = ZRevRankCmd_ExecCmd C\<rparr>"

definition ZCountCmd :: "('o, 'h, 's, 'z) containers \<Rightarrow> 'o RedisCmd" where
  [simp]: "ZCountCmd C = \<lparr>CheckArity = ZCountCmd_CheckArity, ExecCmd = ZCountCmd_ExecCmd C\<rparr>"

definition ZIncrByCmd :: "('o, 'h, 's, 'z) containers \<Rightarrow> 'o RedisCmd" where
  [simp]: "ZIncrByCmd C = \<lparr>CheckArity = ZIncrByCmd_CheckArity, ExecCmd = ZIncrByCmd_ExecCmd C\<rparr>"

definition ZRangeCmd :: "('o, 'h, 's, 'z) containers \<Rightarrow> 'o RedisCmd" where
  [simp]: "ZRangeCmd C = \<lparr>CheckArity = ZRangeCmd_CheckArity, ExecCmd = ZRangeCmd_ExecCmd C\<rparr>"

section \<open>The orders\<close>

lemma char_less_of_char: "a < b \<longleftrightarrow> (of_char a :: nat) < of_char b"
  by (simp add: less_char_def)

lemma memcmp_prefix:
  "memcmp l r (min (length l) (length r)) < 0 \<or>
     memcmp l r (min (length l) (length r)) = 0 \<and> length l < length r \<longleftrightarrow> l < r"
proof (induction l arbitrary: r)
  case Nil
  then show ?case by (cases r) auto
next
  case (Cons a l)
  show ?case
  proof (cases r)
    case (Cons b r')
    with Cons.IH [of r'] show ?thesis
      by (auto simp: char_less_of_char dest: less_asym)
  qed simp
qed

lemma memcmp_antisym: "memcmp r l n = - memcmp l r n"
  by (induction l r n rule: memcmp.induct) auto

text \<open>The comparison of the code is the lexicographic order of unsigned bytes.\<close>

lemma CompareBinaryLex_less: "CompareBinaryLex l r < 0 \<longleftrightarrow> l < r"
proof -
  have "memcmp l r 0 = 0" by (cases l) simp_all
  then show ?thesis
    using memcmp_prefix [of l r] by (auto simp: CompareBinaryLex_def Let_def)
qed

lemma CompareBinaryLex_greater: "0 < CompareBinaryLex l r \<longleftrightarrow> r < l"
proof -
  have "CompareBinaryLex r l = - CompareBinaryLex l r"
    by (simp add: CompareBinaryLex_def memcmp_antisym [of r l] min.commute Let_def)
  then show ?thesis using CompareBinaryLex_less [of r l] by simp
qed

definition zkey :: "ZEntry \<Rightarrow> int \<times> string" where
  "zkey entry = (signed_magnitude (ze_score entry), ze_member entry)"

lemma score_less_zkey:
  "\<not> isnan (ze_score a) \<Longrightarrow> \<not> isnan (ze_score b) \<Longrightarrow> score_less a b \<longleftrightarrow> zkey a < zkey b"
  by (auto simp: score_less_def zkey_def deq_def dless_def CompareBinaryLex_less)

lemma lex_less_member: "lex_less a b \<longleftrightarrow> ze_member a < ze_member b"
  by (simp add: lex_less_def CompareBinaryLex_less)

lemma insert_by_key:
  "(\<And>y. y \<in> set ys \<Longrightarrow> lt y x \<longleftrightarrow> f y < f x) \<Longrightarrow> insert_by lt x ys = insort_key f x ys"
  by (induction ys) (auto simp: not_less)

lemma sort_by_key:
  fixes f :: "'a \<Rightarrow> 'b::linorder"
  shows "(\<And>a b. a \<in> set xs \<Longrightarrow> b \<in> set xs \<Longrightarrow> lt a b \<longleftrightarrow> f a < f b) \<Longrightarrow> sort_by lt xs = sort_key f xs"
proof (induction xs)
  case (Cons x xs)
  then have "sort_by lt xs = sort_key f xs" by simp
  moreover have "insert_by lt x (sort_key f xs) = insort_key f x (sort_key f xs)"
    using Cons.prems by (intro insert_by_key) auto
  ultimately show ?case by (simp add: sort_by_def)
qed (simp add: sort_by_def)

definition zentries :: "('z, double) ImtMap \<Rightarrow> 'z \<Rightarrow> ZEntry list" where
  "zentries M zset = map (\<lambda>(member, score). \<lparr>ze_member = member, ze_score = score\<rparr>) (Map_ForEach M zset)"

lemma EntriesByLex_sort: "EntriesByLex M zset = sort_key ze_member (zentries M zset)"
  unfolding EntriesByLex_def zentries_def by (rule sort_by_key) (simp add: lex_less_member)

lemma EntriesByScore_sort:
  assumes "\<And>entry. entry \<in> set (zentries M zset) \<Longrightarrow> \<not> isnan (ze_score entry)"
  shows "EntriesByScore M zset = sort_key zkey (EntriesByLex M zset)"
  unfolding EntriesByScore_def by (rule sort_by_key) (simp add: EntriesByLex_sort score_less_zkey assms)

section \<open>Ranks\<close>

lemma rank_loop_nth:
  "distinct (map ze_member xs) \<Longrightarrow> i < length xs \<Longrightarrow> rank_loop (ze_member (xs ! i)) k xs = Some (k + i)"
proof (induction xs arbitrary: i k)
  case (Cons x xs)
  then show ?case by (cases i) (auto simp: nth_mem)
qed simp

lemma rank_loop_None: "member \<notin> ze_member ` set xs \<Longrightarrow> rank_loop member k xs = None"
  by (induction xs arbitrary: k) auto

lemma strictly_sorted_below:
  fixes f :: "'a \<Rightarrow> 'b::linorder"
  assumes "sorted (map f xs)" and "distinct (map f xs)" and "i < length xs"
  shows "card {x \<in> set xs. f x < f (xs ! i)} = i" "card {x \<in> set xs. f (xs ! i) < f x} = length xs - Suc i"
proof -
  have lt: "sorted_wrt (<) (map f xs)" using assms by (simp add: strict_sorted_iff)
  have mono: "f (xs ! j) < f (xs ! k)" if "j < k" "k < length xs" for j k
    using sorted_wrt_nth_less [OF lt, of j k] that by simp
  have "{x \<in> set xs. f x < f (xs ! i)} = set (take i xs)"
  proof (intro set_eqI iffI)
    fix x assume "x \<in> {x \<in> set xs. f x < f (xs ! i)}"
    then obtain j where "j < length xs" "x = xs ! j" "f (xs ! j) < f (xs ! i)" by (auto simp: in_set_conv_nth)
    moreover from this have "j < i" using mono [of i j] by (metis assms(3) less_asym nat_neq_iff)
    ultimately show "x \<in> set (take i xs)" by (auto simp: in_set_conv_nth)
  next
    fix x assume "x \<in> set (take i xs)"
    then obtain j where "j < i" "x = xs ! j" by (auto simp: in_set_conv_nth)
    then show "x \<in> {x \<in> set xs. f x < f (xs ! i)}" using mono [of j i] assms(3) by auto
  qed
  moreover have d: "distinct xs" using assms(2) by (simp add: distinct_map)
  ultimately show "card {x \<in> set xs. f x < f (xs ! i)} = i"
    using assms(3) by (simp add: distinct_card)
  have "{x \<in> set xs. f (xs ! i) < f x} = set (drop (Suc i) xs)"
  proof (intro set_eqI iffI)
    fix x assume "x \<in> {x \<in> set xs. f (xs ! i) < f x}"
    then obtain j where "j < length xs" "x = xs ! j" "f (xs ! i) < f (xs ! j)" by (auto simp: in_set_conv_nth)
    moreover from this have "i < j" using mono [of j i] by (metis assms(3) less_asym nat_neq_iff)
    ultimately show "x \<in> set (drop (Suc i) xs)"
      by (auto simp: in_set_conv_nth intro!: exI [of _ "j - Suc i"])
  next
    fix x assume "x \<in> set (drop (Suc i) xs)"
    then obtain j where "j < length xs - Suc i" "x = xs ! (Suc i + j)" by (auto simp: in_set_conv_nth)
    then show "x \<in> {x \<in> set xs. f (xs ! i) < f x}" using mono [of i "Suc i + j"] by auto
  qed
  then show "card {x \<in> set xs. f (xs ! i) < f x} = length xs - Suc i"
    using d by (simp add: distinct_card)
qed

definition scores_ok :: "('z, double) ImtMap \<Rightarrow> 'z \<Rightarrow> bool" where
  "scores_ok M zset \<longleftrightarrow> (\<forall>m s. Map_Find M zset m = Some s \<longrightarrow> isfinite s)"

text \<open>Member \<open>m\<close> comes before member \<open>m'\<close> in a sorted set: a smaller score, or the same score and a
  smaller member in byte order.\<close>

definition zbefore :: "(string \<Rightarrow> double option) \<Rightarrow> string \<Rightarrow> string \<Rightarrow> bool" where
  "zbefore z m m' \<longleftrightarrow>
     (case (z m, z m') of
        (Some s, Some s') \<Rightarrow> dless s s' \<or> (deq s s' \<and> m < m')
      | _ \<Rightarrow> False)"

context imt_lib begin

lemma set_zentries: "set (zentries (zsets C) z) = {\<lparr>ze_member = m, ze_score = s\<rparr> | m s. Map_Find (zsets C) z m = Some s}"
  by (auto simp: zentries_def zm.mem_foreach image_iff)

lemma members_zentries: "map ze_member (zentries (zsets C) z) = map fst (Map_ForEach (zsets C) z)"
  by (auto simp: zentries_def)

lemma EntriesByScore_props:
  assumes "scores_ok (zsets C) z"
  shows "set (EntriesByScore (zsets C) z) = {\<lparr>ze_member = m, ze_score = s\<rparr> | m s. Map_Find (zsets C) z m = Some s}"
    and "sorted (map zkey (EntriesByScore (zsets C) z))"
    and "distinct (map ze_member (EntriesByScore (zsets C) z))"
proof -
  have "\<not> isnan (ze_score x)" if "x \<in> set (zentries (zsets C) z)" for x
    using that assms isfinite_not_isnan by (fastforce simp: set_zentries scores_ok_def)
  then have eq: "EntriesByScore (zsets C) z = sort_key zkey (sort_key ze_member (zentries (zsets C) z))"
    by (simp add: EntriesByScore_sort EntriesByLex_sort)
  then show "set (EntriesByScore (zsets C) z) = {\<lparr>ze_member = m, ze_score = s\<rparr> | m s. Map_Find (zsets C) z m = Some s}"
    by (simp add: set_zentries)
  show "sorted (map zkey (EntriesByScore (zsets C) z))" by (simp add: eq)
  have "mset (map ze_member (EntriesByScore (zsets C) z)) = mset (map ze_member (zentries (zsets C) z))"
    by (simp add: eq)
  then show "distinct (map ze_member (EntriesByScore (zsets C) z))"
    by (metis members_zentries mset_eq_imp_distinct_iff zm.foreach_distinct)
qed

lemma zbefore_key:
  assumes "scores_ok (zsets C) z" and "Map_Find (zsets C) z m = Some s"
  shows "zbefore (Map_Find (zsets C) z) m' m \<longleftrightarrow>
    (\<exists>s'. Map_Find (zsets C) z m' = Some s' \<and> (signed_magnitude s', m') < (signed_magnitude s, m))"
proof -
  have "\<not> isnan t" if "Map_Find (zsets C) z k = Some t" for k t
    using assms(1) that isfinite_not_isnan [of t] by (simp add: scores_ok_def)
  with assms(2) show ?thesis
    by (cases "Map_Find (zsets C) z m'") (auto simp: zbefore_def dless_def deq_def)
qed

lemma zafter_key:
  assumes "scores_ok (zsets C) z" and "Map_Find (zsets C) z m = Some s"
  shows "zbefore (Map_Find (zsets C) z) m m' \<longleftrightarrow>
    (\<exists>s'. Map_Find (zsets C) z m' = Some s' \<and> (signed_magnitude s, m) < (signed_magnitude s', m'))"
proof (cases "Map_Find (zsets C) z m'")
  case None
  then show ?thesis using assms(2) by (simp add: zbefore_def)
next
  case (Some s')
  show ?thesis using zbefore_key [OF assms(1) Some, of m] assms(2) Some by simp
qed

lemma rank_counts:
  assumes "scores_ok (zsets C) z" and "Map_Find (zsets C) z m = Some s"
  shows "\<exists>i. rank_loop m 0 (EntriesByScore (zsets C) z) = Some i \<and>
      i = card {m'. zbefore (Map_Find (zsets C) z) m' m}"
    and "\<exists>i. rank_loop m 0 (EntriesByScoreReverse (zsets C) z) = Some i \<and>
      i = card {m'. zbefore (Map_Find (zsets C) z) m m'}"
proof -
  let ?xs = "EntriesByScore (zsets C) z"
  note props = EntriesByScore_props [OF assms(1)]
  have dk: "distinct (map zkey ?xs)"
    using props(3) by (auto simp: distinct_map zkey_def inj_on_def)
  from assms(2) props(1) have "\<lparr>ze_member = m, ze_score = s\<rparr> \<in> set ?xs" by auto
  then obtain i where i: "i < length ?xs" "?xs ! i = \<lparr>ze_member = m, ze_score = s\<rparr>"
    by (auto simp: in_set_conv_nth)
  have inj: "inj_on ze_member (set ?xs)" using props(3) by (simp add: distinct_map)
  have mem: "x \<in> set ?xs \<longleftrightarrow> Map_Find (zsets C) z (ze_member x) = Some (ze_score x)" for x
    unfolding props(1) by (cases x) auto
  have key: "zkey (?xs ! i) = (signed_magnitude s, m)" by (simp add: i(2) zkey_def)
  have before: "ze_member ` {x \<in> set ?xs. zkey x < zkey (?xs ! i)} = {m'. zbefore (Map_Find (zsets C) z) m' m}"
    (is "?L = ?R")
  proof (intro set_eqI iffI)
    fix m' assume "m' \<in> ?R"
    then obtain s' where "Map_Find (zsets C) z m' = Some s'" "(signed_magnitude s', m') < (signed_magnitude s, m)"
      using zbefore_key [OF assms] by auto
    then show "m' \<in> ?L" by (intro image_eqI [of _ _ "\<lparr>ze_member = m', ze_score = s'\<rparr>"]) (simp_all add: mem key, simp add: zkey_def)
  qed (auto simp: mem key zbefore_key [OF assms], auto simp: zkey_def)
  have after: "ze_member ` {x \<in> set ?xs. zkey (?xs ! i) < zkey x} = {m'. zbefore (Map_Find (zsets C) z) m m'}"
    (is "?L = ?R")
  proof (intro set_eqI iffI)
    fix m' assume "m' \<in> ?R"
    then obtain s' where "Map_Find (zsets C) z m' = Some s'" "(signed_magnitude s, m) < (signed_magnitude s', m')"
      using zafter_key [OF assms] by auto
    then show "m' \<in> ?L" by (intro image_eqI [of _ _ "\<lparr>ze_member = m', ze_score = s'\<rparr>"]) (simp_all add: mem key, simp add: zkey_def)
  qed (auto simp: mem key zafter_key [OF assms], auto simp: zkey_def)
  have "card (ze_member ` {x \<in> set ?xs. zkey x < zkey (?xs ! i)}) = i"
    using strictly_sorted_below(1) [OF props(2) dk i(1)]
    by (subst card_image) (auto intro: inj_on_subset [OF inj])
  with before rank_loop_nth [OF props(3) i(1), of 0] i(2)
  show "\<exists>i. rank_loop m 0 ?xs = Some i \<and> i = card {m'. zbefore (Map_Find (zsets C) z) m' m}" by auto
  have "card (ze_member ` {x \<in> set ?xs. zkey (?xs ! i) < zkey x}) = length ?xs - Suc i"
    using strictly_sorted_below(2) [OF props(2) dk i(1)]
    by (subst card_image) (auto intro: inj_on_subset [OF inj])
  moreover have "rank_loop m 0 (rev ?xs) = Some (length ?xs - Suc i)"
    using rank_loop_nth [of "rev ?xs" "length ?xs - Suc i" 0] props(3) i
    by (simp add: rev_nth rev_map [symmetric])
  ultimately show "\<exists>i. rank_loop m 0 (EntriesByScoreReverse (zsets C) z) = Some i \<and>
      i = card {m'. zbefore (Map_Find (zsets C) z) m m'}"
    using after by (simp add: EntriesByScoreReverse_def)
qed

end

section \<open>The abstract sorted set of a key\<close>

definition zset_view ::
  "('o, 'h, 's, 'z) containers \<Rightarrow> ('h, 's, 'z) RedisObject option \<Rightarrow> (string \<Rightarrow> double option) option" where
  "zset_view C x =
     (case x of
        None \<Rightarrow> Some (\<lambda>_. None)
      | Some ob \<Rightarrow> if obj_type ob = kZSet then map_option (Map_Find (zsets C)) (ZSet ob) else None)"

text \<open>What one score-member pair of ZADD does under the options.\<close>

definition zadd_apply :: "ZAddOptions \<Rightarrow> (string \<Rightarrow> double option) \<Rightarrow> ZAddInput \<Rightarrow> (string \<Rightarrow> double option)" where
  "zadd_apply opts z input =
     (case z (zi_member input) of
        None \<Rightarrow> if za_xx opts then z else z(zi_member input \<mapsto> zi_score input)
      | Some found \<Rightarrow>
          if za_nx opts \<or> (za_gt opts \<and> \<not> dless found (zi_score input)) \<or>
             (za_lt opts \<and> \<not> dless (zi_score input) found) \<or> deq (zi_score input) found
          then z else z(zi_member input \<mapsto> zi_score input))"

definition score_ok :: "double \<Rightarrow> bool" where
  "score_ok s \<longleftrightarrow> isfinite s \<and> NormalizeZero s = s"

definition zview_ok :: "(string \<Rightarrow> double option) \<Rightarrow> bool" where
  "zview_ok z \<longleftrightarrow> (\<forall>m s. z m = Some s \<longrightarrow> score_ok s)"

definition zset_object :: "'z \<Rightarrow> u64 \<Rightarrow> ('h, 's, 'z) RedisObject" where
  "zset_object z d = WithDeadline (MakeZSet z) d"

lemma ZSetPreserveDeadline_MakeZSet: "ZSetPreserveDeadline (MakeZSet z) d = zset_object z d"
  by (simp add: ZSetPreserveDeadline_def zset_object_def WithDeadline_def MakeZSet_def)

lemma zset_object_simps [simp]:
  "obj_type (zset_object z d) = kZSet" "obj_deadline_us (zset_object z d) = d"
  "ZSet (zset_object z d) = Some z" "obj_ok (zset_object z d)"
  by (simp_all add: zset_object_def ZSet_def)

lemma zset_view_object [simp]: "zset_view C (Some (zset_object z d)) = Some (Map_Find (zsets C) z)"
  by (simp add: zset_view_def)

lemma isfinite_zero [simp]: "isfinite zero_double"
  by (simp add: isfinite_def exponent_field_def zero_double_def make_double_def)

lemma NormalizeZero_idem [simp]: "NormalizeZero (NormalizeZero s) = NormalizeZero s"
  by (simp add: NormalizeZero_def)

lemma isfinite_NormalizeZero: "isfinite s \<Longrightarrow> isfinite (NormalizeZero s)"
  by (simp add: NormalizeZero_def)

lemma ParseFiniteScore_ok: "ParseFiniteScore t = Some s \<Longrightarrow> score_ok s"
  by (auto simp: ParseFiniteScore_def score_ok_def dest: ParseFiniteDouble_isfinite isfinite_NormalizeZero)

lemma ZAdd_inputs_ok: "ZAdd_inputs_loop xs = Some inputs \<Longrightarrow> i \<in> set inputs \<Longrightarrow> score_ok (zi_score i)"
proof (induction xs arbitrary: inputs rule: ZAdd_inputs_loop.induct)
  case (1 score member rest)
  from "1.prems"(1) obtain s inputs' where s: "ParseFiniteScore score = Some s"
    "ZAdd_inputs_loop rest = Some inputs'" "inputs = \<lparr>zi_score = s, zi_member = member\<rparr> # inputs'"
    by (auto split: option.splits)
  with "1.IH" [OF s(1,2)] "1.prems"(2) ParseFiniteScore_ok [OF s(1)] show ?case by auto
qed auto

lemma ZAdd_inputs_length: "ZAdd_inputs_loop xs = Some inputs \<Longrightarrow> length inputs = length xs div 2"
  by (induction xs arbitrary: inputs rule: ZAdd_inputs_loop.induct) (auto split: option.splits)

lemma ParseZAddArgs_ok:
  assumes "ParseZAddArgs args = Inr (opts, inputs)"
  shows "\<forall>i \<in> set inputs. score_ok (zi_score i)" "inputs \<noteq> []"
proof -
  obtain o1 rest where "ZAdd_options_loop ZAddOptions_new (drop 2 args) = Some (o1, rest)"
    using assms by (cases "ZAdd_options_loop ZAddOptions_new (drop 2 args)") (auto simp: ParseZAddArgs_def)
  with assms have rest: "\<not> length rest < 2" "ZAdd_inputs_loop rest = Some inputs"
    by (simp_all add: ParseZAddArgs_def Let_def split: option.splits if_splits)
  then show "\<forall>i \<in> set inputs. score_ok (zi_score i)" using ZAdd_inputs_ok by blast
  show "inputs \<noteq> []" using rest ZAdd_inputs_length [OF rest(2)] by auto
qed

lemma zadd_apply_ok: "zview_ok z \<Longrightarrow> score_ok (zi_score i) \<Longrightarrow> zview_ok (zadd_apply opts z i)"
  by (auto simp: zview_ok_def zadd_apply_def split: option.splits)

lemma foldl_zadd_ok:
  "zview_ok z \<Longrightarrow> \<forall>i \<in> set inputs. score_ok (zi_score i) \<Longrightarrow> zview_ok (foldl (zadd_apply opts) z inputs)"
  by (induction inputs arbitrary: z) (simp_all add: zadd_apply_ok)

lemma dom_zadd_apply: "dom z \<subseteq> dom (zadd_apply opts z i)"
  by (auto simp: zadd_apply_def split: option.splits)

lemma dom_foldl_zadd: "dom z \<subseteq> dom (foldl (zadd_apply opts) z inputs)"
proof (induction inputs arbitrary: z)
  case (Cons i inputs)
  show ?case using order_trans [OF dom_zadd_apply Cons.IH] by simp
qed simp

lemma finite_dom_zadd: "finite (dom (foldl (zadd_apply opts) z inputs) - dom z)"
proof -
  have "dom (foldl (zadd_apply opts) z inputs) \<subseteq> dom z \<union> zi_member ` set inputs" for z
  proof (induction inputs arbitrary: z)
    case (Cons i inputs)
    have "dom (zadd_apply opts z i) \<subseteq> insert (zi_member i) (dom z)"
      by (auto simp: zadd_apply_def split: option.splits if_splits)
    with Cons.IH [of "zadd_apply opts z i"] show ?case by auto
  qed simp
  then show ?thesis by (metis Diff_subset_conv List.finite_set finite_imageI finite_subset)
qed

context imt_lib begin

lemma zset_to_update_view:
  "zset_view C x = None \<Longrightarrow> zset_to_update C x = None"
  "zset_view C x = Some z \<Longrightarrow> \<exists>m. zset_to_update C x = Some (m, deadline_of x) \<and> Map_Find (zsets C) m = z"
  by (auto simp: zset_view_def zset_to_update_def Type_def DeadlineUs_def deadline_of_def zm.find_empty
      split: option.splits if_splits)

lemma find_set_zset: "Map_Find (zsets C) (Map_Set (zsets C) m k v) = (Map_Find (zsets C) m)(k \<mapsto> v)"
  by (auto simp: zm.find_set)

lemma ZAdd_step_view:
  assumes "ZAdd_step (zsets C) opts (m, a, c, b) i = (m', a', c', b')"
  shows "Map_Find (zsets C) m' = zadd_apply opts (Map_Find (zsets C) m) i"
    and "a' = a + int (card (dom (Map_Find (zsets C) m') - dom (Map_Find (zsets C) m)))"
    and "m' = m \<and> b' = b \<or> b'"
proof -
  let ?z = "Map_Find (zsets C) m" and ?k = "zi_member i" and ?m = "Map_Set (zsets C) m (zi_member i) (zi_score i)"
  consider (keep) "m' = m" "a' = a" "b' = b" "zadd_apply opts ?z i = ?z"
    | (add) "?z ?k = None" "m' = ?m" "a' = a + 1" "b'" "zadd_apply opts ?z i = ?z(?k \<mapsto> zi_score i)"
    | (upd) f where "?z ?k = Some f" "m' = ?m" "a' = a" "b'" "zadd_apply opts ?z i = ?z(?k \<mapsto> zi_score i)"
    using assms by (cases "?z ?k") (auto simp: ZAdd_step_def zadd_apply_def split: if_splits)
  then have "Map_Find (zsets C) m' = zadd_apply opts ?z i \<and>
      a' = a + int (card (dom (Map_Find (zsets C) m') - dom ?z)) \<and> (m' = m \<and> b' = b \<or> b')"
  proof cases
    case add
    then have "insert ?k (dom ?z) - dom ?z = {?k}" by auto
    with add show ?thesis by (simp add: find_set_zset)
  next
    case upd
    then have "insert ?k (dom ?z) - dom ?z = {}" by auto
    with upd show ?thesis by (simp add: find_set_zset)
  qed simp
  then show "Map_Find (zsets C) m' = zadd_apply opts ?z i"
    "a' = a + int (card (dom (Map_Find (zsets C) m') - dom ?z))" "m' = m \<and> b' = b \<or> b'" by blast+
qed

lemma ZAdd_fold_view:
  "foldl (ZAdd_step (zsets C) opts) (m, a, c, b) inputs = (m', a', c', b') \<Longrightarrow>
   Map_Find (zsets C) m' = foldl (zadd_apply opts) (Map_Find (zsets C) m) inputs \<and>
   a' = a + int (card (dom (Map_Find (zsets C) m') - dom (Map_Find (zsets C) m))) \<and>
   (m' = m \<and> b' = b \<or> b')"
proof (induction inputs arbitrary: m a c b)
  case (Cons i rst)
  obtain m1 a1 c1 b1 where step: "ZAdd_step (zsets C) opts (m, a, c, b) i = (m1, a1, c1, b1)"
    by (cases "ZAdd_step (zsets C) opts (m, a, c, b) i")
  note one = ZAdd_step_view [OF step]
  from Cons.prems step have "foldl (ZAdd_step (zsets C) opts) (m1, a1, c1, b1) rst = (m', a', c', b')" by simp
  note rest = Cons.IH [OF this]
  let ?d = "dom (Map_Find (zsets C) m)" and ?d1 = "dom (Map_Find (zsets C) m1)" and ?d' = "dom (Map_Find (zsets C) m')"
  have sub: "?d \<subseteq> ?d1" "?d1 \<subseteq> ?d'"
    using one(1) rest dom_zadd_apply [of "Map_Find (zsets C) m" opts i]
      dom_foldl_zadd [of "Map_Find (zsets C) m1" opts rst] by auto
  have fin: "finite (?d1 - ?d)" "finite (?d' - ?d1)"
    using finite_dom_zadd [of opts "Map_Find (zsets C) m" "[i]"]
      finite_dom_zadd [of opts "Map_Find (zsets C) m1" rst] one(1) rest by auto
  have "?d' - ?d = (?d1 - ?d) \<union> (?d' - ?d1)" using sub by auto
  moreover have "(?d1 - ?d) \<inter> (?d' - ?d1) = {}" by auto
  ultimately have "card (?d' - ?d) = card (?d1 - ?d) + card (?d' - ?d1)"
    using card_Un_disjoint [OF fin] by metis
  with one rest show ?case by auto
qed simp

lemma ZRemCmd_loop_view:
  "ZRemCmd_loop (zsets C) ms (m, n) = (m', n') \<Longrightarrow>
   Map_Find (zsets C) m' = (Map_Find (zsets C) m) |` (- set ms) \<and>
   n' = n + int (card (set ms \<inter> dom (Map_Find (zsets C) m)))"
proof (induction ms arbitrary: m n)
  case Nil
  then show ?case by (simp add: ZRemCmd_loop_def)
next
  case (Cons f fs)
  let ?D = "dom (Map_Find (zsets C) m)"
  show ?case
  proof (cases "Map_Find (zsets C) m f")
    case None
    then have "Map_Erase (zsets C) m f = None" by (simp add: zm.erase_None)
    then have "ZRemCmd_loop (zsets C) fs (m, n) = (m', n')" using Cons.prems by (simp add: ZRemCmd_loop_def)
    moreover have "set (f # fs) \<inter> ?D = set fs \<inter> ?D" using None by auto
    ultimately show ?thesis using Cons.IH None by (auto simp: restrict_map_def fun_eq_iff)
  next
    case (Some v)
    from zm.find_erase [OF this] obtain m1 where
      m1: "Map_Erase (zsets C) m f = Some m1" "Map_Find (zsets C) m1 = (Map_Find (zsets C) m)(f := None)" by blast
    then have "ZRemCmd_loop (zsets C) fs (m1, n + 1) = (m', n')"
      using Cons.prems by (simp add: ZRemCmd_loop_def)
    note IH = Cons.IH [OF this]
    have "set (f # fs) \<inter> ?D = insert f (set fs \<inter> (?D - {f}))" using Some by auto
    then have "card (set (f # fs) \<inter> ?D) = Suc (card (set fs \<inter> dom (Map_Find (zsets C) m1)))"
      by (simp add: m1)
    with IH have "n' = n + int (card (set (f # fs) \<inter> ?D))" by simp
    moreover have "Map_Find (zsets C) m' = Map_Find (zsets C) m |` (- set (f # fs))"
      using IH m1(2) by (auto simp: restrict_map_def fun_eq_iff)
    ultimately show ?thesis by blast
  qed
qed

end

section \<open>Score invariant\<close>

text \<open>Every score stored in the engine is a finite number and never negative zero.\<close>

definition engine_scores_ok :: "('o, 'h, 's, 'z) containers \<Rightarrow> 'o CacheEngine \<Rightarrow> bool" where
  "engine_scores_ok C e \<longleftrightarrow>
     (\<forall>key ob z. engine_view C e key = Some ob \<and> zset_view C (Some ob) = Some z \<longrightarrow> zview_ok z)"

lemma engine_scores_ok_upd:
  assumes "engine_scores_ok C e" and "engine_view C e' = (engine_view C e)(key := x)"
    and "\<And>ob z. x = Some ob \<Longrightarrow> zset_view C (Some ob) = Some z \<Longrightarrow> zview_ok z"
  shows "engine_scores_ok C e'"
  using assms unfolding engine_scores_ok_def by (metis fun_upd_apply)

lemma engine_scores_ok_Get:
  assumes "engine_scores_ok C e" and "zset_view C (CacheEngine_Get C e key now) = Some z"
  shows "zview_ok z"
proof (cases "CacheEngine_Get C e key now")
  case None
  with assms(2) show ?thesis by (auto simp: zset_view_def zview_ok_def)
next
  case (Some ob)
  with assms CacheEngine_Get_Some [OF this] show ?thesis unfolding engine_scores_ok_def by metis
qed

context imt_lib begin

lemma ZAdd_eq:
  assumes "ParseZAddArgs args = Inr (opts, inputs)" and "\<not> za_incr opts"
    and "zset_view C (CacheEngine_Get C e (args ! 1) now) = Some z"
    and "ZAddCmd_ExecCmd C args e now = (e', reply)" and "z' = foldl (zadd_apply opts) z inputs"
  shows "(e' = e \<and> z' = z \<or> (\<exists>m. Map_Find (zsets C) m = z' \<and>
      e' = commit C e (args ! 1) (Some (zset_object m (deadline_of (CacheEngine_Get C e (args ! 1) now))))
             (ZSetMakeRecord args) now)) \<and>
    (\<not> za_ch opts \<longrightarrow> reply = Integer (int (card (dom z' - dom z))))"
proof -
  let ?x = "CacheEngine_Get C e (args ! 1) now"
  from zset_to_update_view(2) [OF assms(3)] obtain m where
    m: "zset_to_update C ?x = Some (m, deadline_of ?x)" "Map_Find (zsets C) m = z" by blast
  obtain m' a c b where loop: "foldl (ZAdd_step (zsets C) opts) (m, 0, 0, False) inputs = (m', a, c, b)"
    by (cases "foldl (ZAdd_step (zsets C) opts) (m, 0, 0, False) inputs")
  from ZAdd_fold_view [OF loop] m(2) assms(5) have
    v: "Map_Find (zsets C) m' = z'" "a = int (card (dom z' - dom z))" "m' = m \<and> \<not> b \<or> b" by auto
  have mut: "ZAddCmd_mutator C opts inputs ?x =
      (if \<not> b then (mutation False None, False, a, c)
       else (mutation True (Some (zset_object m' (deadline_of ?x))), False, a, c))"
    using m loop by (simp add: ZAddCmd_mutator_def ZSetPreserveDeadline_MakeZSet)
  show ?thesis
  proof (cases b)
    case True
    with assms(1,2,4) mut v show ?thesis
      by (auto simp: ZAddCmd_ExecCmd_def Mutate_eq mutation_effect_def mutation_log_record_def Let_def)
  next
    case False
    with assms(1,2,4) mut v m(2) show ?thesis
      by (auto simp: ZAddCmd_ExecCmd_def Mutate_eq mutation_effect_def Let_def)
  qed
qed

lemma Increment_eq:
  assumes "IncrementZSetMember C args e now key d member opts = (e', reply)"
  shows "e' = e \<or> (\<exists>z m s. zset_view C (CacheEngine_Get C e key now) = Some z \<and>
     Map_Find (zsets C) m = z(member \<mapsto> s) \<and> score_ok s \<and>
     e' = commit C e key (Some (zset_object m (deadline_of (CacheEngine_Get C e key now)))) (ZSetMakeRecord args) now \<and>
     reply = BulkString (FormatScore s))"
proof -
  let ?x = "CacheEngine_Get C e key now" and ?f = "IncrementZSetMember_mutator C d member opts"
  show ?thesis
  proof (cases "mutation_effect ?x (fst (?f ?x))")
    case None
    with assms show ?thesis by (auto simp: IncrementZSetMember_def Mutate_eq Let_def)
  next
    case (Some y)
    show ?thesis
    proof (cases "zset_view C ?x")
      case None
      with zset_to_update_view(1) [OF None] Some show ?thesis
        by (simp add: IncrementZSetMember_mutator_def mutation_effect_def)
    next
      case z: (Some z)
      from zset_to_update_view(2) [OF this] obtain m where
        m: "zset_to_update C ?x = Some (m, deadline_of ?x)" "Map_Find (zsets C) m = z" by blast
      define s where "s = NormalizeZero (dadd (case z member of None \<Rightarrow> zero_double | Some s \<Rightarrow> s) d)"
      let ?m = "Map_Set (zsets C) m member s"
      from Some m have eff: "isfinite s" "?f ?x = (mutation True (Some (zset_object ?m (deadline_of ?x))), ZIncrResult s)"
        by (auto simp: IncrementZSetMember_mutator_def mutation_effect_def s_def ZSetPreserveDeadline_MakeZSet Let_def
            split: if_splits)
      have "score_ok s" using eff(1) by (simp add: score_ok_def s_def)
      moreover have "Map_Find (zsets C) ?m = z(member \<mapsto> s)" using m(2) by (simp add: find_set_zset)
      moreover have "IncrementZSetMember C args e now key d member opts =
          (commit C e key (Some (zset_object ?m (deadline_of ?x))) (ZSetMakeRecord args) now,
           BulkString (FormatScore s))"
        using eff(2) by (simp add: IncrementZSetMember_def Mutate_eq mutation_effect_def mutation_log_record_def Let_def)
      ultimately show ?thesis using assms z by auto
    qed
  qed
qed

lemma zset_view_wrong:
  assumes "zset_view C (CacheEngine_Get C e (args ! 1) now) = None"
    and "ZAddCmd_ExecCmd C args e now = (e', reply)"
  shows "e' = e"
proof (cases "ParseZAddArgs args")
  case (Inl st)
  with assms(2) show ?thesis by (cases st) (auto simp: ZAddCmd_ExecCmd_def)
next
  case (Inr r)
  obtain opts inputs where r: "r = (opts, inputs)" by fastforce
  show ?thesis
  proof (cases "za_incr opts")
    case True
    then show ?thesis
      using Increment_eq [of args e now "args ! 1" "zi_score (inputs ! 0)" "zi_member (inputs ! 0)" opts e' reply] assms Inr r
      by (auto simp: ZAddCmd_ExecCmd_def)
  next
    case False
    then show ?thesis
      using zset_to_update_view(1) [OF assms(1)] assms(2) Inr r
      by (auto simp: ZAddCmd_ExecCmd_def Mutate_eq ZAddCmd_mutator_def mutation_effect_def Let_def)
  qed
qed

end

section \<open>ZADD, declaratively\<close>

text \<open>
  The arguments of ZADD as its documentation has them: flags, then scores and members in turn. What a pair does
  depends on the flags given and the score the member has.
\<close>

definition zadd_flag :: "string \<Rightarrow> bool" where
  "zadd_flag arg \<longleftrightarrow> ToUpperAscii arg \<in> {''NX'', ''XX'', ''GT'', ''LT'', ''CH'', ''INCR''}"

definition zadd_given :: "string list \<Rightarrow> string list" where
  "zadd_given args = map ToUpperAscii (takeWhile zadd_flag (drop 2 args))"

definition zadd_rest :: "string list \<Rightarrow> string list" where
  "zadd_rest args = dropWhile zadd_flag (drop 2 args)"

definition zadd_syntax_ok :: "string list \<Rightarrow> string list \<Rightarrow> bool" where
  "zadd_syntax_ok given rest \<longleftrightarrow> distinct given \<and>
     \<not> (''NX'' \<in> set given \<and> set given \<inter> {''XX'', ''GT'', ''LT''} \<noteq> {}) \<and> \<not> {''GT'', ''LT''} \<subseteq> set given \<and>
     rest \<noteq> [] \<and> even (length rest) \<and> (''INCR'' \<in> set given \<longrightarrow> length rest = 2)"

fun zadd_pairs :: "string list \<Rightarrow> (string \<times> double option) list" where
  "zadd_pairs (score # member # rest) = (member, ParseFiniteScore score) # zadd_pairs rest"
| "zadd_pairs rest = []"

definition admits_member :: "string list \<Rightarrow> double option \<Rightarrow> bool" where
  "admits_member given old \<longleftrightarrow> (if old = None then ''XX'' \<notin> set given else ''NX'' \<notin> set given)"

definition admits_score :: "string list \<Rightarrow> double option \<Rightarrow> double \<Rightarrow> bool" where
  "admits_score given old new \<longleftrightarrow>
     (\<forall>s. old = Some s \<longrightarrow> (''GT'' \<in> set given \<longrightarrow> dless s new) \<and> (''LT'' \<in> set given \<longrightarrow> dless new s))"

text \<open>A score that compares equal to the old one is not stored again.\<close>

definition zadd_put :: "string list \<Rightarrow> (string \<Rightarrow> double option) \<Rightarrow> string \<times> double \<Rightarrow> (string \<Rightarrow> double option)" where
  "zadd_put given z = (\<lambda>(m, new).
     if admits_member given (z m) \<and> admits_score given (z m) new \<and> (\<forall>s. z m = Some s \<longrightarrow> \<not> deq new s)
     then z(m \<mapsto> new) else z)"

fun zadd_changes :: "string list \<Rightarrow> (string \<Rightarrow> double option) \<Rightarrow> (string \<times> double) list \<Rightarrow> nat" where
  "zadd_changes given z [] = 0"
| "zadd_changes given z (p # ps) = of_bool (zadd_put given z p \<noteq> z) + zadd_changes given (zadd_put given z p) ps"

text \<open>The members of a key after a write that keeps its deadline, or no write at all.\<close>

definition zset_written ::
  "('o, 'h, 's, 'z) containers \<Rightarrow> 'o CacheEngine \<Rightarrow> 'o CacheEngine \<Rightarrow> string \<Rightarrow> u64 \<Rightarrow> (string \<Rightarrow> double option) \<Rightarrow> bool" where
  "zset_written C e e' key now z \<longleftrightarrow>
     (\<exists>ob. engine_view C e' = (engine_view C e)(key \<mapsto> ob) \<and>
        obj_deadline_us ob = deadline_of (CacheEngine_Get C e key now) \<and> zset_view C (Some ob) = Some z)"

definition incremented :: "double option \<Rightarrow> double \<Rightarrow> double" where
  "incremented old d = NormalizeZero (dadd (case old of None \<Rightarrow> zero_double | Some s \<Rightarrow> s) d)"

definition flags_options :: "string list \<Rightarrow> ZAddOptions" where
  "flags_options given =
     \<lparr>za_nx = ''NX'' \<in> set given, za_xx = ''XX'' \<in> set given, za_gt = ''GT'' \<in> set given, za_lt = ''LT'' \<in> set given,
      za_ch = ''CH'' \<in> set given, za_incr = ''INCR'' \<in> set given\<rparr>"

abbreviation zadd_input :: "string \<times> double \<Rightarrow> ZAddInput" where
  "zadd_input \<equiv> \<lambda>(m, s). \<lparr>zi_score = s, zi_member = m\<rparr>"

lemma ZAdd_options_loop_flags:
  "ZAdd_options_loop (flags_options acc) xs =
     (let given = map ToUpperAscii (takeWhile zadd_flag xs)
      in if distinct given \<and> set given \<inter> set acc = {} then Some (flags_options (acc @ given), dropWhile zadd_flag xs) else None)"
proof (induction xs arbitrary: acc)
  case (Cons x xs)
  let ?w = "ToUpperAscii x"
  show ?case
  proof (cases "zadd_flag x")
    case True
    then have "ZAdd_options_loop (flags_options acc) (x # xs) =
        (if ?w \<in> set acc then None else ZAdd_options_loop (flags_options (acc @ [?w])) xs)"
      by (auto simp: zadd_flag_def flags_options_def Let_def)
    with True Cons.IH [of "acc @ [?w]"] show ?thesis by (auto simp: Let_def)
  next
    case False
    then show ?thesis by (simp add: zadd_flag_def Let_def)
  qed
qed simp

lemma ZAdd_inputs_pairs:
  "even (length xs) \<Longrightarrow> ZAdd_inputs_loop xs =
     (if None \<in> snd ` set (zadd_pairs xs) then None
      else Some (map zadd_input (map (map_prod id the) (zadd_pairs xs))))"
  by (induction xs rule: zadd_pairs.induct) (auto split: option.splits)

lemma ParseZAddArgs_spec:
  "ParseZAddArgs args =
     (if \<not> zadd_syntax_ok (zadd_given args) (zadd_rest args) then Inl kSyntax
      else if None \<in> snd ` set (zadd_pairs (zadd_rest args)) then Inl kInvalidFloat
      else Inr (flags_options (zadd_given args), map zadd_input (map (map_prod id the) (zadd_pairs (zadd_rest args)))))"
proof -
  have "ZAdd_options_loop ZAddOptions_new (drop 2 args) =
      (if distinct (zadd_given args) then Some (flags_options (zadd_given args), zadd_rest args) else None)"
    using ZAdd_options_loop_flags [of "[]" "drop 2 args"]
    by (simp add: flags_options_def ZAddOptions_new_def zadd_given_def zadd_rest_def Let_def)
  moreover have "length (zadd_rest args) < 2 \<or> odd (length (zadd_rest args)) \<longleftrightarrow> zadd_rest args = [] \<or> odd (length (zadd_rest args))"
    by (cases "zadd_rest args" rule: zadd_pairs.cases) auto
  ultimately show ?thesis using ZAdd_inputs_pairs [of "zadd_rest args"]
    by (auto simp: ParseZAddArgs_def zadd_syntax_ok_def flags_options_def Let_def odd_iff_mod_2_eq_one)
qed

lemma zadd_apply_put: "zadd_apply (flags_options given) z (zadd_input p) = zadd_put given z p"
  by (cases p; cases "z (fst p)")
     (auto simp: zadd_apply_def zadd_put_def flags_options_def admits_member_def admits_score_def)

lemma foldl_zadd_apply_put:
  "foldl (zadd_apply (flags_options given)) z (map zadd_input ps) = foldl (zadd_put given) z ps"
  by (induction ps arbitrary: z) (simp_all add: zadd_apply_put)

lemma zadd_put_changes:
  "\<not> isnan (snd p) \<Longrightarrow> zadd_put given z p \<noteq> z \<longleftrightarrow>
     admits_member given (z (fst p)) \<and> admits_score given (z (fst p)) (snd p) \<and> (\<forall>s. z (fst p) = Some s \<longrightarrow> \<not> deq (snd p) s)"
  by (cases p; cases "z (fst p)") (auto simp: zadd_put_def fun_eq_iff dest!: spec [of _ "fst p"])

context imt_lib begin

lemma ZAdd_step_count:
  assumes "ZAdd_step (zsets C) (flags_options given) (m, a, c, b) (zadd_input p) = (m', a', c', b')" and "\<not> isnan (snd p)"
  shows "a' + c' = a + c + of_bool (zadd_put given (Map_Find (zsets C) m) p \<noteq> Map_Find (zsets C) m)"
    and "b' \<longleftrightarrow> b \<or> zadd_put given (Map_Find (zsets C) m) p \<noteq> Map_Find (zsets C) m"
  using assms(1) unfolding zadd_put_changes [OF assms(2)]
  by (cases p; cases "Map_Find (zsets C) m (fst p)";
      auto simp: ZAdd_step_def flags_options_def admits_member_def admits_score_def split: if_splits)+

lemma ZAdd_fold_count:
  assumes "foldl (ZAdd_step (zsets C) (flags_options given)) (m, a, c, b) (map zadd_input ps) = (m', a', c', b')"
    and "\<forall>p \<in> set ps. \<not> isnan (snd p)"
  shows "a' + c' = a + c + int (zadd_changes given (Map_Find (zsets C) m) ps) \<and>
    (b' \<longleftrightarrow> b \<or> zadd_changes given (Map_Find (zsets C) m) ps \<noteq> 0)"
  using assms
proof (induction ps arbitrary: m a c b)
  case (Cons p ps)
  obtain m1 a1 c1 b1 where step: "ZAdd_step (zsets C) (flags_options given) (m, a, c, b) (zadd_input p) = (m1, a1, c1, b1)"
    by (metis prod_cases4)
  from ZAdd_step_view(1) [OF step] have "Map_Find (zsets C) m1 = zadd_put given (Map_Find (zsets C) m) p"
    by (simp add: zadd_apply_put)
  with Cons.IH [of m1 a1 c1 b1] Cons.prems step ZAdd_step_count [OF step] show ?case by auto
qed simp

text \<open>ZADD without INCR: what is written and replied.\<close>

lemma ZAdd_exact:
  assumes "ParseZAddArgs args = Inr (flags_options given, map zadd_input ps)" and "''INCR'' \<notin> set given"
    and "zset_view C (CacheEngine_Get C e (args ! 1) now) = Some z" and "ZAddCmd_ExecCmd C args e now = (e', reply)"
  shows "reply = Integer (int (if ''CH'' \<in> set given then zadd_changes given z ps else card (dom (foldl (zadd_put given) z ps) - dom z))) \<and>
    (if zadd_changes given z ps = 0 then e' = e else zset_written C e e' (args ! 1) now (foldl (zadd_put given) z ps))"
proof -
  let ?x = "CacheEngine_Get C e (args ! 1) now"
  from zset_to_update_view(2) [OF assms(3)] obtain m where
    m: "zset_to_update C ?x = Some (m, deadline_of ?x)" "Map_Find (zsets C) m = z" by blast
  obtain m' a c b where loop: "foldl (ZAdd_step (zsets C) (flags_options given)) (m, 0, 0, False) (map zadd_input ps) = (m', a, c, b)"
    by (metis prod_cases4)
  have fin: "\<forall>p \<in> set ps. \<not> isnan (snd p)"
    using ParseZAddArgs_ok(1) [OF assms(1)] by (fastforce simp: score_ok_def dest: isfinite_not_isnan)
  from ZAdd_fold_view [OF loop] m(2) have
    v: "Map_Find (zsets C) m' = foldl (zadd_put given) z ps" "a = int (card (dom (foldl (zadd_put given) z ps) - dom z))"
    by (simp_all add: foldl_zadd_apply_put)
  from ZAdd_fold_count [OF loop fin] m(2) have
    n: "a + c = int (zadd_changes given z ps)" "b \<longleftrightarrow> zadd_changes given z ps \<noteq> 0" by auto
  have mut: "ZAddCmd_mutator C (flags_options given) (map zadd_input ps) ?x =
      (if \<not> b then (mutation False None, False, a, c)
       else (mutation True (Some (zset_object m' (deadline_of ?x))), False, a, c))"
    using m loop by (simp add: ZAddCmd_mutator_def ZSetPreserveDeadline_MakeZSet)
  have "zset_written C e (commit C e (args ! 1) (Some (zset_object m' (deadline_of ?x))) r now) (args ! 1) now (foldl (zadd_put given) z ps)" for r
    by (auto simp: zset_written_def commit_Some_view v(1))
  with assms(1,2,4) mut n v(2) show ?thesis
    by (cases b) (auto simp: ZAddCmd_ExecCmd_def Mutate_eq mutation_effect_def mutation_log_record_def flags_options_def Let_def)
qed

lemma Increment_exact:
  assumes "zset_view C (CacheEngine_Get C e key now) = Some z"
    and "IncrementZSetMember C args e now key d m (flags_options given) = (e', reply)" and "new = incremented (z m) d"
  shows "if \<not> admits_member given (z m) then e' = e \<and> reply = NullBulk
    else if \<not> isfinite new then e' = e \<and> reply = Error kInvalidIncrementError
    else if \<not> admits_score given (z m) new then e' = e \<and> reply = NullBulk
    else reply = BulkString (FormatScore new) \<and>
      (if zadd_put given z (m, new) = z then e' = e else zset_written C e e' key now (z(m \<mapsto> new)))"
proof -
  let ?x = "CacheEngine_Get C e key now"
  from zset_to_update_view(2) [OF assms(1)] obtain zm where
    zm: "zset_to_update C ?x = Some (zm, deadline_of ?x)" "Map_Find (zsets C) zm = z" by blast
  let ?ob = "zset_object (Map_Set (zsets C) zm m new) (deadline_of ?x)"
  have mut: "IncrementZSetMember_mutator C d m (flags_options given) ?x =
      (if \<not> admits_member given (z m) then (mutation False None, ZIncrPrevented)
       else if \<not> isfinite new then (mutation False None, ZIncrInvalid)
       else if \<not> admits_score given (z m) new then (mutation False None, ZIncrPrevented)
       else if \<exists>s. z m = Some s \<and> deq new s then (mutation False None, ZIncrResult new)
       else (mutation True (Some ?ob), ZIncrResult new))"
    using zm assms(3) by (cases "z m")
      (auto simp: IncrementZSetMember_mutator_def flags_options_def admits_member_def admits_score_def incremented_def
        ZSetPreserveDeadline_MakeZSet Let_def)
  have "zset_written C e (commit C e key (Some ?ob) r now) key now (z(m \<mapsto> new))" for r
    by (auto simp: zset_written_def commit_Some_view find_set_zset zm(2))
  moreover have "zadd_put given z (m, new) = z \<longleftrightarrow> (\<exists>s. z m = Some s \<and> deq new s)"
    if "admits_member given (z m)" "admits_score given (z m) new" "isfinite new"
    using zadd_put_changes [of "(m, new)" given z] that isfinite_not_isnan by auto
  ultimately show ?thesis using assms(2)
    by (auto simp: IncrementZSetMember_def Mutate_eq mut mutation_effect_def mutation_log_record_def Let_def split: if_splits)
qed

end

section \<open>Properties\<close>

text \<open>(C34) ZADD, for all arguments. Repeated or incompatible flags, an odd number of arguments after them, or more than one pair
  under INCR are a syntax error, a score that is not a finite number an error of its own, and a key of another type is
  left alone; in each case nothing changes. Without INCR the pairs are applied in order: XX admits only members that exist, NX
  only new ones, GT and LT only scores above and below the old one. The reply is the number of members that are new, or
  with CH the number of pairs that changed something; nothing is written when none did. With INCR the score of the
  member grows by the given amount, under the same flags; the reply is the new score, nil when a flag prevents it, and an error when the
  sum is not finite. A write keeps the deadline of the key and touches no other key.\<close>

theorem ZAddCmd_correct:
  assumes "imt_lib C" and "ZAddCmd_ExecCmd C args e now = (e', reply)"
    and "given = zadd_given args" and "pairs = zadd_pairs (zadd_rest args)"
  shows "if \<not> zadd_syntax_ok given (zadd_rest args) then e' = e \<and> reply = Error kSyntaxError
    else if None \<in> snd ` set pairs then e' = e \<and> reply = Error kInvalidFloatError
    else (case zset_view C (CacheEngine_Get C e (args ! 1) now) of
            None \<Rightarrow> e' = e \<and> reply = Error kWrongTypeError
          | Some z \<Rightarrow>
              let ps = map (\<lambda>(m, s). (m, the s)) pairs; (m, d) = hd ps; new = incremented (z m) d
              in if ''INCR'' \<notin> set given
                 then reply = Integer (int (if ''CH'' \<in> set given then zadd_changes given z ps
                                            else card (dom (foldl (zadd_put given) z ps) - dom z))) \<and>
                   (if zadd_changes given z ps = 0 then e' = e
                    else zset_written C e e' (args ! 1) now (foldl (zadd_put given) z ps))
                 else if \<not> admits_member given (z m) then e' = e \<and> reply = NullBulk
                 else if \<not> isfinite new then e' = e \<and> reply = Error kInvalidIncrementError
                 else if \<not> admits_score given (z m) new then e' = e \<and> reply = NullBulk
                 else reply = BulkString (FormatScore new) \<and>
                   (if zadd_put given z (m, new) = z then e' = e
                    else zset_written C e e' (args ! 1) now (z(m \<mapsto> new))))"
proof (cases "zadd_syntax_ok given (zadd_rest args) \<and> None \<notin> snd ` set pairs")
  case False
  with assms(2-4) show ?thesis by (auto simp: ZAddCmd_ExecCmd_def ParseZAddArgs_spec)
next
  case True
  let ?ps = "map (map_prod id the) pairs"
  have parse: "ParseZAddArgs args = Inr (flags_options given, map zadd_input ?ps)"
    using True assms(3,4) by (simp add: ParseZAddArgs_spec)
  have ps: "map (\<lambda>(m, s). (m, the s)) pairs = ?ps" by (auto simp: map_prod_def)
  show ?thesis
  proof (cases "zset_view C (CacheEngine_Get C e (args ! 1) now)")
    case None
    with imt_lib.zset_to_update_view(1) [OF assms(1) None] True parse assms(2) show ?thesis
      by (auto simp: ZAddCmd_ExecCmd_def IncrementZSetMember_def IncrementZSetMember_mutator_def imt_lib.Mutate_eq [OF assms(1)]
          ZAddCmd_mutator_def mutation_effect_def Let_def split: if_splits)
  next
    case (Some z)
    show ?thesis
    proof (cases "''INCR'' \<in> set given")
      case False
      with imt_lib.ZAdd_exact [OF assms(1) parse False Some assms(2)] True Some show ?thesis
        unfolding ps by (auto simp: Let_def case_prod_beta)
    next
      case incr: True
      obtain m d rest where hd: "?ps = (m, d) # rest" using ParseZAddArgs_ok(2) [OF parse] by (cases ?ps) auto
      then have "IncrementZSetMember C args e now (args ! 1) d m (flags_options given) = (e', reply)"
        using assms(2) parse incr by (simp add: ZAddCmd_ExecCmd_def flags_options_def)
      from imt_lib.Increment_exact [OF assms(1) Some this refl] True Some incr hd show ?thesis
        unfolding ps by (simp add: Let_def)
    qed
  qed
qed

theorem ZAddCmd_correct_witness:
  "snd (ZAddCmd_ExecCmd ref_containers [''ZADD'', ''k'', ''nx'', ''Gt'', ''0'', ''m''] (CacheEngine_new ref_containers) 1) = Error kSyntaxError \<and>
   snd (ZAddCmd_ExecCmd ref_containers [''ZADD'', ''k'', ''ch'', ''0'', ''m''] (CacheEngine_new ref_containers) 1) = Integer 1 \<and>
   zset_written ref_containers (CacheEngine_new ref_containers)
     (fst (ZAddCmd_ExecCmd ref_containers [''ZADD'', ''k'', ''ch'', ''0'', ''m''] (CacheEngine_new ref_containers) 1)) ''k'' 1 [''m'' \<mapsto> zero_double]"
proof -
  have upper: "ToUpperAscii ''nx'' = ''NX''" "ToUpperAscii ''Gt'' = ''GT''" "ToUpperAscii ''ch'' = ''CH''" "ToUpperAscii ''0'' = ''0''" by code_simp+
  have "show_nat 0 = ''0''" by (simp add: show_nat.simps digit_char_0)
  with strtod_show_nat(1) [of 0] have "strtod ''0'' = (zero_double, False, [])"
    by (simp add: int_bits_def zero_double_def)
  moreover have "c_str ''0'' = ''0''" by (simp add: c_str_def)
  ultimately have zero: "ParseFiniteScore ''0'' = Some zero_double"
    by (simp add: ParseFiniteScore_def ParseFiniteDouble_def NormalizeZero_def)
  let ?bad = "[''ZADD'', ''k'', ''nx'', ''Gt'', ''0'', ''m'']" and ?good = "[''ZADD'', ''k'', ''ch'', ''0'', ''m'']"
  have args: "zadd_given ?bad = [''NX'', ''GT'']" "zadd_rest ?bad = [''0'', ''m'']" "zadd_given ?good = [''CH'']" "zadd_rest ?good = [''0'', ''m'']"
    by (simp_all add: zadd_given_def zadd_rest_def zadd_flag_def upper)
  have "CacheEngine_Get ref_containers (CacheEngine_new ref_containers) ''k'' 1 = None"
    by (simp add: CacheEngine_Get_def KeySlot_def CacheEngine_new_def HashSlot_new_def HashSlot_Get_def
        ref_containers_def ref_map_def)
  then have view: "zset_view ref_containers (CacheEngine_Get ref_containers (CacheEngine_new ref_containers) ''k'' 1) = Some (\<lambda>_. None)"
    by (simp add: zset_view_def)
  have put: "zadd_put [''CH''] (\<lambda>_. None) (''m'', zero_double) = [''m'' \<mapsto> zero_double]"
    by (simp add: zadd_put_def admits_member_def admits_score_def)
  have "[''m'' \<mapsto> zero_double] \<noteq> (\<lambda>_. None)" by (simp add: fun_eq_iff)
  then show ?thesis
    using ZAddCmd_correct [OF ref_lib.imt_lib_axioms surjective_pairing refl refl, of ?bad "CacheEngine_new ref_containers" 1]
      ZAddCmd_correct [OF ref_lib.imt_lib_axioms surjective_pairing refl refl, of ?good "CacheEngine_new ref_containers" 1]
    by (simp add: args zadd_syntax_ok_def zero view put)
qed

context imt_lib begin

lemma Increment_scores_ok:
  assumes "engine_scores_ok C e"
  shows "engine_scores_ok C (fst (IncrementZSetMember C args e now key d member opts))"
proof -
  obtain e' reply where run: "IncrementZSetMember C args e now key d member opts = (e', reply)" by fastforce
  show ?thesis
    using Increment_eq [OF run]
  proof (elim disjE exE conjE)
    fix z m s
    assume z: "zset_view C (CacheEngine_Get C e key now) = Some z" "Map_Find (zsets C) m = z(member \<mapsto> s)" "score_ok s"
      and e': "e' = commit C e key (Some (zset_object m (deadline_of (CacheEngine_Get C e key now)))) (ZSetMakeRecord args) now"
    have "zview_ok (z(member \<mapsto> s))"
      using engine_scores_ok_Get [OF assms z(1)] z(3) by (simp add: zview_ok_def)
    with z(2) e' run show ?thesis by (auto intro!: engine_scores_ok_upd [OF assms commit_Some_view])
  qed (use assms run in simp)
qed

lemma ZAdd_scores_ok:
  assumes "engine_scores_ok C e" and "ZAddCmd_ExecCmd C args e now = (e', reply)"
  shows "engine_scores_ok C e'"
proof (cases "zset_view C (CacheEngine_Get C e (args ! 1) now)")
  case None
  then show ?thesis using zset_view_wrong [OF None assms(2)] assms(1) by simp
next
  case (Some z)
  consider st where "ParseZAddArgs args = Inl st"
    | opts inputs where "ParseZAddArgs args = Inr (opts, inputs)" "za_incr opts"
    | opts inputs where "ParseZAddArgs args = Inr (opts, inputs)" "\<not> za_incr opts"
    by (cases "ParseZAddArgs args") auto
  then show ?thesis
  proof cases
    case (1 st)
    then show ?thesis using assms by (cases st) (auto simp: ZAddCmd_ExecCmd_def)
  next
    case (2 opts inputs)
    then show ?thesis
      using assms(2) Increment_scores_ok [OF assms(1), of args now "args ! 1" "zi_score (inputs ! 0)" "zi_member (inputs ! 0)" opts]
      by (simp add: ZAddCmd_ExecCmd_def)
  next
    case (3 opts inputs)
    have "zview_ok (foldl (zadd_apply opts) z inputs)"
      by (rule foldl_zadd_ok [OF engine_scores_ok_Get [OF assms(1) Some] ParseZAddArgs_ok(1) [OF 3(1)]])
    with ZAdd_eq [OF 3 Some assms(2) refl] assms(1) show ?thesis
      by (auto intro!: engine_scores_ok_upd [OF assms(1) commit_Some_view])
  qed
qed

end

text \<open>(C35) Whatever ZADD and ZINCRBY are given (text that is not a number, NaN, infinities, sums that
  overflow), every score they leave in the engine is a finite number, and zero is stored as
  positive zero, so scores compare as a total order.\<close>

theorem scores_stay_finite:
  assumes "imt_lib C" and "engine_scores_ok C e"
  shows "engine_scores_ok C (fst (ZAddCmd_ExecCmd C args e now)) \<and>
    engine_scores_ok C (fst (ZIncrByCmd_ExecCmd C args e now))"
proof
  show "engine_scores_ok C (fst (ZAddCmd_ExecCmd C args e now))"
    using imt_lib.ZAdd_scores_ok [OF assms] by (metis prod.collapse)
  show "engine_scores_ok C (fst (ZIncrByCmd_ExecCmd C args e now))"
    using imt_lib.Increment_scores_ok [OF assms] assms(2) by (simp add: ZIncrByCmd_ExecCmd_def split: option.splits)
qed

theorem scores_stay_finite_witness:
  "engine_scores_ok ref_containers (fst (ZAddCmd_ExecCmd ref_containers [''ZADD'', ''k'', ''nan'', ''m'']
     (CacheEngine_new ref_containers) 1))"
proof -
  have "engine_scores_ok ref_containers (CacheEngine_new ref_containers)"
    by (simp add: engine_scores_ok_def engine_view_def KeySlot_def CacheEngine_new_def HashSlot_new_def
        slot_view_def ref_containers_def ref_map_def)
  then show ?thesis using scores_stay_finite [OF ref_lib.imt_lib_axioms] by blast
qed

text \<open>(C36) ZRANK is the number of members before the given one, by score and then by bytes of the member,
  and ZREVRANK the number after it.\<close>

theorem rank_is_position:
  assumes "imt_lib C" and "ReadZSet C e key now = ZOk zset" and "scores_ok (zsets C) zset"
    and "Map_Find (zsets C) zset member = Some s"
  shows "RankResponse C e now key member False =
      Integer (int (card {m. zbefore (Map_Find (zsets C) zset) m member})) \<and>
    RankResponse C e now key member True =
      Integer (int (card {m. zbefore (Map_Find (zsets C) zset) member m}))"
  using imt_lib.rank_counts [OF assms(1,3,4)] assms(2) by (auto simp: RankResponse_def)

definition demo_zset :: "ref_objects CacheEngine" where
  "demo_zset = fst (CacheEngine_Set ref_containers (CacheEngine_new ref_containers) ''k''
     (MakeZSet (Map_Set (zsets ref_containers) (Map_empty (zsets ref_containers)) ''m'' zero_double)) new_record 1)"

theorem rank_is_position_witness:
  "RankResponse ref_containers demo_zset 2 ''k'' ''m'' False = Integer 0"
proof -
  let ?z = "Map_Set (zsets ref_containers) (Map_empty (zsets ref_containers)) ''m'' zero_double"
  have read: "ReadZSet ref_containers demo_zset ''k'' 2 = ZOk ?z"
    by (simp add: ReadZSet_def demo_zset_def ref_lib.engine_store.get_set live_def IsExpired_def Type_def ZSet_def)
  have find: "Map_Find (zsets ref_containers) ?z = [''m'' \<mapsto> zero_double]"
    by (simp add: ref_lib.find_set_zset) (simp add: ref_lib.zm.find_empty fun_eq_iff)
  have "scores_ok (zsets ref_containers) ?z" unfolding scores_ok_def find by simp
  from rank_is_position [OF ref_lib.imt_lib_axioms read this, of "''m''" zero_double]
  show ?thesis by (simp add: find zbefore_def)
qed

lemma filter_between: "filter (\<lambda>i. lo \<le> int i \<and> int i \<le> hi) [0..<k] = [nat lo..<min k (nat (hi + 1))]"
proof (induction k)
  case (Suc k)
  show ?case
  proof (cases "int k \<le> hi")
    case True
    then have "min (Suc k) (nat (hi + 1)) = Suc k" "min k (nat (hi + 1)) = k" by auto
    then show ?thesis using Suc True by auto
  next
    case False
    then have "min (Suc k) (nat (hi + 1)) = nat (hi + 1)" "min k (nat (hi + 1)) = nat (hi + 1)" by auto
    then show ?thesis using Suc False by simp
  qed
qed simp

lemma map_nth_slice: "b \<le> length xs \<Longrightarrow> map ((!) xs) [a..<b] = take (b - a) (drop a xs)"
  by (auto intro!: nth_equalityI)

text \<open>ZRANGE by rank returns exactly the entries whose position lies between start and stop, both
  ends included and negative positions counted from the end, in order, for every pair of integers.\<close>

theorem rank_range_exact:
  "ApplyRankRange xs start stop =
     (let n = int (length xs); lo = (if start < 0 then start + n else start); hi = (if stop < 0 then stop + n else stop)
      in map ((!) xs) (filter (\<lambda>i. lo \<le> int i \<and> int i \<le> hi) [0..<length xs]))"
proof -
  define n lo hi where "n = int (length xs)" and "lo = (if start < 0 then start + n else start)"
    and "hi = (if stop < 0 then stop + n else stop)"
  have "ApplyRankRange xs start stop =
      (if n = 0 \<or> hi < 0 \<or> n \<le> max 0 lo \<or> min (n - 1) hi < max 0 lo then []
       else take (nat (min (n - 1) hi + 1 - max 0 lo)) (drop (nat (max 0 lo)) xs))"
  proof -
    have "(if n \<le> hi then n - 1 else hi) = min (n - 1) hi" "(if lo < 0 then 0 else lo) = max 0 lo" by auto
    then show ?thesis
      unfolding ApplyRankRange_def n_def [symmetric] lo_def [symmetric] hi_def [symmetric] Let_def by auto
  qed
  also have "\<dots> = take (min (length xs) (nat (hi + 1)) - nat lo) (drop (nat lo) xs)"
  proof (cases "n = 0 \<or> hi < 0 \<or> n \<le> max 0 lo \<or> min (n - 1) hi < max 0 lo")
    case True
    then have "min (length xs) (nat (hi + 1)) - nat lo = 0 \<or> length xs \<le> nat lo" unfolding n_def by arith
    with True show ?thesis by auto
  next
    case False
    then have "nat (min (n - 1) hi + 1 - max 0 lo) = min (length xs) (nat (hi + 1)) - nat lo" unfolding n_def by arith
    moreover have "nat (max 0 lo) = nat lo" by simp
    ultimately show ?thesis using False by simp
  qed
  also have "\<dots> = map ((!) xs) (filter (\<lambda>i. lo \<le> int i \<and> int i \<le> hi) [0..<length xs])"
    unfolding filter_between by (rule map_nth_slice [symmetric]) simp
  finally show ?thesis by (simp add: n_def lo_def hi_def Let_def)
qed

text \<open>A score that is an integer below \<open>2 ^ 53\<close> in magnitude, given in decimal, is stored exactly and
  printed back as the same text.\<close>

theorem integer_score_round_trip:
  assumes "\<bar>n\<bar> < 2 ^ 53"
  shows "ParseFiniteScore (to_string n) = Some (int_double n) \<and> FormatScore (int_double n) = to_string n"
proof -
  let ?m = "nat \<bar>n\<bar>"
  have m: "?m < 2 ^ 53" using assms by (simp add: nat_less_iff)
  note mag = magnitude_int [OF m, of "n < 0"]
  have "signed_magnitude (int_double n) = n * 2 ^ 1074"
    unfolding signed_magnitude_def int_double_def mag by (simp del: power_numeral)
  moreover have "signed_magnitude zero_double = 0"
    using magnitude_int [of 0 False] by (simp add: signed_magnitude_def zero_double_def int_bits_def)
  ultimately have "deq (int_double n) zero_double \<longrightarrow> n = 0" by (simp add: deq_def del: power_numeral)
  then have norm: "NormalizeZero (int_double n) = int_double n"
  proof (cases "n = 0")
    case True
    then show ?thesis by (simp add: NormalizeZero_def int_double_def zero_double_def int_bits_def)
  next
    case False
    with \<open>deq (int_double n) zero_double \<longrightarrow> n = 0\<close> show ?thesis by (simp add: NormalizeZero_def)
  qed
  with assms show ?thesis by (simp add: FormatScore_def ParseFiniteScore_def print_int_double parse_int_double)
qed

theorem integer_score_round_trip_witness:
  "FormatScore (int_double (-42)) = to_string (-42)"
  using integer_score_round_trip [of "-42"] by simp

text \<open>Larger scores do not survive: the zero stripping of \<^verbatim>\<open>FormatScore\<close> runs into the exponent, so a
  score given as 1.5e20 is printed as 1.5e+2, which reads back as 150.\<close>

theorem FormatScore_strips_exponent:
  "ParseFiniteScore ''1.5e20'' = Some score_1_5e20 \<and> FormatScore score_1_5e20 = ''1.5e+2''"
proof -
  have "c_str ''1.5e20'' = ''1.5e20''" by (simp add: c_str_def)
  then have parse: "ParseFiniteDouble ''1.5e20'' = Some score_1_5e20"
    by (simp add: ParseFiniteDouble_def strtod_1_5e20 magnitude_1_5e20)
  have "signed_magnitude zero_double = 0"
    using magnitude_int [of 0 False] by (simp add: signed_magnitude_def zero_double_def int_bits_def)
  then have norm: "NormalizeZero score_1_5e20 = score_1_5e20"
    using magnitude_1_5e20 by (simp add: NormalizeZero_def deq_def signed_magnitude_def)
  have "FormatScore score_1_5e20 = ''1.5e+2''"
    by (simp add: FormatScore_def norm print17_1_5e20 Let_def)
  with parse norm show ?thesis by (simp add: ParseFiniteScore_def)
qed

end
