(* ===== verification/ScanCmd.thy ===== *)
theory ScanCmd
  imports Response GlobMatch
begin

text \<open>
  SCAN, \<^verbatim>\<open>src/command/scan_cmd.cpp\<close>: the cursor is a slot number; a call visits whole slots until it has
  seen COUNT live keys and returns the next slot, or 0 at the end. A replica passes a predicate that
  says which slots may be read; an empty \<^verbatim>\<open>std::function\<close> is \<open>None\<close>.
\<close>

section \<open>Options\<close>

definition kDefaultCount :: nat where
  "kDefaultCount = 1000"

record ScanOptions =
  sc_cursor :: nat
  sc_count :: nat
  sc_match :: "string option"
  sc_type :: "string option"

definition ScanOptions_new :: ScanOptions where
  "ScanOptions_new = \<lparr>sc_cursor = 0, sc_count = kDefaultCount, sc_match = None, sc_type = None\<rparr>"

fun ObjectTypeName :: "RedisObjectType \<Rightarrow> string" where
  "ObjectTypeName kString = ''string''"
| "ObjectTypeName kHash = ''hash''"
| "ObjectTypeName kSet = ''set''"
| "ObjectTypeName kZSet = ''zset''"

definition ToLowerAscii :: "string \<Rightarrow> string" where
  "ToLowerAscii text =
     map (\<lambda>ch. if 65 \<le> (of_char ch :: nat) \<and> (of_char ch :: nat) \<le> 90
               then char_of ((of_char ch :: nat) - 65 + 97) else ch) text"

definition ParseNonNegativeSize :: "string \<Rightarrow> nat option" where
  "ParseNonNegativeSize text =
     (case ParseInt64 text of
        None \<Rightarrow> None
      | Some parsed \<Rightarrow> if parsed < 0 then None else Some (nat parsed))"

definition IsSupportedTypeFilter :: "string \<Rightarrow> bool" where
  "IsSupportedTypeFilter type \<longleftrightarrow> type = ''string'' \<or> type = ''hash'' \<or> type = ''set'' \<or> type = ''zset''"

text \<open>The loop over the arguments from index 2 on.\<close>

fun ParseOptions_loop :: "ScanOptions \<Rightarrow> string list \<Rightarrow> string + ScanOptions" where
  "ParseOptions_loop options [] = Inr options"
| "ParseOptions_loop options (arg # rest) =
     (let option = ToUpperAscii arg
      in if option = ''MATCH'' then
           (case rest of
              [] \<Rightarrow> Inl ''ERR syntax error''
            | pattern # rest' \<Rightarrow> ParseOptions_loop (options\<lparr>sc_match := Some pattern\<rparr>) rest')
         else if option = ''COUNT'' then
           (case rest of
              [] \<Rightarrow> Inl ''ERR value is not an integer or out of range''
            | text # rest' \<Rightarrow>
                (case ParseNonNegativeSize text of
                   None \<Rightarrow> Inl ''ERR value is not an integer or out of range''
                 | Some n \<Rightarrow> ParseOptions_loop (options\<lparr>sc_count := n\<rparr>) rest'))
         else if option = ''TYPE'' then
           (case rest of
              [] \<Rightarrow> Inl ''ERR syntax error''
            | name # rest' \<Rightarrow>
                let type = ToLowerAscii name
                in if \<not> IsSupportedTypeFilter type then Inl ''ERR syntax error''
                   else ParseOptions_loop (options\<lparr>sc_type := Some type\<rparr>) rest')
         else Inl ''ERR syntax error'')"

definition ParseOptions :: "string list \<Rightarrow> 'o CacheEngine \<Rightarrow> string + ScanOptions" where
  "ParseOptions args e =
     (case ParseNonNegativeSize (args ! 1) of
        None \<Rightarrow> Inl ''ERR value is not an integer or out of range''
      | Some cursor \<Rightarrow>
          if SlotCount e \<le> cursor then Inl ''ERR invalid cursor''
          else ParseOptions_loop (ScanOptions_new\<lparr>sc_cursor := cursor\<rparr>) (drop 2 args))"

definition TypeMatches :: "string option \<Rightarrow> RedisObjectType \<Rightarrow> bool" where
  "TypeMatches flt type = (case flt of None \<Rightarrow> True | Some name \<Rightarrow> name = ObjectTypeName type)"

definition KeyMatches :: "string option \<Rightarrow> string \<Rightarrow> bool" where
  "KeyMatches pattern key = (case pattern of None \<Rightarrow> True | Some p \<Rightarrow> GlobMatch p key)"

section \<open>Scanning\<close>

text \<open>The \<^verbatim>\<open>while\<close> loop: the next slot and the keys, or the error when a slot may not be read. The \<open>None\<close>
  of the engine's slot access cannot occur below the slot count.\<close>

function ExecuteScan_loop ::
  "('o, 'h, 's, 'z) containers \<Rightarrow> 'o CacheEngine \<Rightarrow> u64 \<Rightarrow> (nat \<Rightarrow> bool) option \<Rightarrow> ScanOptions \<Rightarrow>
   nat \<Rightarrow> nat \<Rightarrow> string list \<Rightarrow> string + nat \<times> string list" where
  "ExecuteScan_loop C e now_us can_read options slot scanned_keys keys =
     (if slot < SlotCount e then
        (if can_read \<noteq> None \<and> \<not> (the can_read) slot then Inl ''TRYAGAIN slot is syncing''
         else let visited = the (CacheEngine_ForEachLiveObjectInSlot C e slot now_us);
                  scanned' = scanned_keys + length visited;
                  keys' = keys @ map fst (filter (\<lambda>(key, object).
                    TypeMatches (sc_type options) (Type object) \<and> KeyMatches (sc_match options) key) visited)
              in if sc_count options \<le> scanned' then Inr (slot + 1, keys')
                 else ExecuteScan_loop C e now_us can_read options (slot + 1) scanned' keys')
      else Inr (slot, keys))"
  by pat_completeness auto
termination
  by (relation "measure (\<lambda>(C, e, now_us, can_read, options, slot, scanned, keys). SlotCount e - slot)") auto

declare ExecuteScan_loop.simps [simp del]

definition ExecuteScan ::
  "('o, 'h, 's, 'z) containers \<Rightarrow> string list \<Rightarrow> 'o CacheEngine \<Rightarrow> u64 \<Rightarrow> (nat \<Rightarrow> bool) option \<Rightarrow> Response" where
  "ExecuteScan C args e now_us can_read =
     (case ParseOptions args e of
        Inl error \<Rightarrow> Error error
      | Inr options \<Rightarrow>
          (case ExecuteScan_loop C e now_us can_read options (sc_cursor options) 0 [] of
             Inl error \<Rightarrow> Error error
           | Inr (slot, keys) \<Rightarrow>
               let next_cursor = (if SlotCount e \<le> slot then 0 else slot)
               in Array [BulkString (to_string (int next_cursor)), Array (map BulkString keys)]))"

definition ScanCmd_CheckArity :: "string list \<Rightarrow> string option" where
  "ScanCmd_CheckArity args = (if length args < 2 then Some (arity_error ''scan'') else None)"

definition ScanCmd_ExecCmd ::
  "('o, 'h, 's, 'z) containers \<Rightarrow> string list \<Rightarrow> 'o CacheEngine \<Rightarrow> u64 \<Rightarrow> 'o CacheEngine \<times> Response" where
  "ScanCmd_ExecCmd C args e now_us = (e, ExecuteScan C args e now_us None)"

section \<open>The classes\<close>

text \<open>The command classes of \<^verbatim>\<open>src/command/scan_cmd.h\<close>.\<close>

definition ScanCmd :: "('o, 'h, 's, 'z) containers \<Rightarrow> 'o RedisCmd" where
  [simp]: "ScanCmd C = \<lparr>CheckArity = ScanCmd_CheckArity, ExecCmd = ScanCmd_ExecCmd C\<rparr>"

section \<open>What a full iteration returns\<close>

text \<open>The matching live keys of one slot.\<close>

definition slot_matches ::
  "('o, 'h, 's, 'z) containers \<Rightarrow> 'o CacheEngine \<Rightarrow> u64 \<Rightarrow> ScanOptions \<Rightarrow> nat \<Rightarrow> string list" where
  "slot_matches C e now options i =
     map fst (filter (\<lambda>(key, object).
       TypeMatches (sc_type options) (Type object) \<and> KeyMatches (sc_match options) key)
       (HashSlot_ForEachLiveObject C (slots e i) now))"

lemma ForEachLiveObjectInSlot_eq:
  "i < SlotCount e \<Longrightarrow>
   CacheEngine_ForEachLiveObjectInSlot C e i now = Some (HashSlot_ForEachLiveObject C (slots e i) now)"
  by (simp add: CacheEngine_ForEachLiveObjectInSlot_def SlotById_def)

lemma ExecuteScan_loop_page:
  "slot < SlotCount e \<Longrightarrow> (\<And>i. i < SlotCount e \<Longrightarrow> can_read = None \<or> the can_read i) \<Longrightarrow>
   \<exists>nxt. slot < nxt \<and> nxt \<le> SlotCount e \<and>
     ExecuteScan_loop C e now can_read options slot scanned keys =
       Inr (nxt, keys @ concat (map (slot_matches C e now options) [slot..<nxt]))"
proof (induction C e now can_read options slot scanned keys rule: ExecuteScan_loop.induct)
  case (1 C e now can_read options slot scanned keys)
  let ?v = "HashSlot_ForEachLiveObject C (slots e slot) now"
  have ok: "\<not> (can_read \<noteq> None \<and> \<not> the can_read slot)" using "1.prems" by blast
  have unfold: "ExecuteScan_loop C e now can_read options slot scanned keys =
      (if sc_count options \<le> scanned + length ?v then Inr (slot + 1, keys @ slot_matches C e now options slot)
       else ExecuteScan_loop C e now can_read options (slot + 1) (scanned + length ?v)
              (keys @ slot_matches C e now options slot))"
    using "1.prems"(1) ok
    by (subst ExecuteScan_loop.simps) (auto simp: ForEachLiveObjectInSlot_eq slot_matches_def Let_def)
  show ?case
  proof (cases "sc_count options \<le> scanned + length ?v")
    case True
    with unfold "1.prems"(1) show ?thesis by (intro exI [of _ "slot + 1"]) simp
  next
    case False
    show ?thesis
    proof (cases "slot + 1 < SlotCount e")
      case True
      have "the (CacheEngine_ForEachLiveObjectInSlot C e slot now) = ?v"
        using "1.prems"(1) by (simp add: ForEachLiveObjectInSlot_eq)
      with "1.IH" [OF "1.prems"(1) ok refl refl refl] False True "1.prems"(2) obtain nxt where
        "slot + 1 < nxt" "nxt \<le> SlotCount e"
        "ExecuteScan_loop C e now can_read options (slot + 1) (scanned + length ?v)
           (keys @ slot_matches C e now options slot) =
         Inr (nxt, (keys @ slot_matches C e now options slot) @
           concat (map (slot_matches C e now options) [slot + 1..<nxt]))"
        unfolding slot_matches_def by auto
      with unfold False show ?thesis
        by (intro exI [of _ nxt]) (simp add: upt_conv_Cons)
    next
      case last: False
      then have stop: "ExecuteScan_loop C e now can_read options (slot + 1) sc ks = Inr (slot + 1, ks)" for sc ks
        by (simp add: ExecuteScan_loop.simps [of _ _ _ _ _ "Suc slot"])
      with unfold False last "1.prems"(1) show ?thesis by (intro exI [of _ "slot + 1"]) simp
    qed
  qed
qed

lemma ParseOptions_loop_cursor:
  "ParseOptions_loop (o1\<lparr>sc_cursor := c\<rparr>) xs = map_sum id (\<lambda>o2. o2\<lparr>sc_cursor := c\<rparr>) (ParseOptions_loop o1 xs)"
proof (induction o1 xs rule: ParseOptions_loop.induct)
  case (2 options arg rest)
  have comm: "options\<lparr>sc_cursor := c, sc_match := m\<rparr> = options\<lparr>sc_match := m, sc_cursor := c\<rparr>"
    "options\<lparr>sc_cursor := c, sc_count := n\<rparr> = options\<lparr>sc_count := n, sc_cursor := c\<rparr>"
    "options\<lparr>sc_cursor := c, sc_type := t\<rparr> = options\<lparr>sc_type := t, sc_cursor := c\<rparr>" for m n t
    by simp_all
  show ?case
    using "2.IH"(1) [OF refl] "2.IH"(2) [OF refl] "2.IH"(3) [OF refl]
    by (auto simp: comm Let_def split: list.splits option.splits)
qed simp

text \<open>A client that calls SCAN with the same options, following the cursor until it is 0 again; \<open>n\<close>
  bounds the number of calls.\<close>

fun scan_client ::
  "('o, 'h, 's, 'z) containers \<Rightarrow> 'o CacheEngine \<Rightarrow> u64 \<Rightarrow> string list \<Rightarrow> nat \<Rightarrow> string \<Rightarrow> Response list option" where
  "scan_client C e now opts 0 cursor = None"
| "scan_client C e now opts (Suc n) cursor =
     (case ExecuteScan C (''SCAN'' # cursor # opts) e now None of
        Array [BulkString nxt, Array ks] \<Rightarrow>
          if nxt = ''0'' then Some ks else map_option ((@) ks) (scan_client C e now opts n nxt)
      | _ \<Rightarrow> None)"

lemma to_string_0: "to_string 0 = ''0''"
  by (simp add: to_string_def show_nat.simps digit_char_0)

lemma to_string_eq_0: "to_string (int n) = ''0'' \<longleftrightarrow> n = 0"
proof -
  have "show_nat n = show_nat 0 \<longleftrightarrow> n = 0" by (rule show_nat_inject)
  moreover have "to_string (int n) = show_nat n" "show_nat 0 = ''0''"
    using to_string_0 by (simp_all add: to_string_def)
  ultimately show ?thesis by simp
qed

lemma slot_matches_cursor: "slot_matches C e now (options\<lparr>sc_cursor := c\<rparr>) = slot_matches C e now options"
  by (simp add: slot_matches_def fun_eq_iff)

lemma ExecuteScan_page:
  assumes "ParseOptions_loop ScanOptions_new opts = Inr options" and "c < kSlotCount"
  shows "\<exists>nxt. c < nxt \<and> nxt \<le> kSlotCount \<and>
    ExecuteScan C (''SCAN'' # to_string (int c) # opts) e now None =
      Array [BulkString (to_string (int (if nxt = kSlotCount then 0 else nxt))),
             Array (map BulkString (concat (map (slot_matches C e now options) [c..<nxt])))]"
proof -
  have "int64_ok (int c)" using assms(2) by (simp add: int64_ok_def kSlotCount_def)
  then have "ParseNonNegativeSize (to_string (int c)) = Some c" by (simp add: ParseNonNegativeSize_def)
  then have opts: "ParseOptions (''SCAN'' # to_string (int c) # opts) e = Inr (options\<lparr>sc_cursor := c\<rparr>)"
    using assms by (simp add: ParseOptions_def SlotCount_def ParseOptions_loop_cursor)
  from ExecuteScan_loop_page [of c e None C now "options\<lparr>sc_cursor := c\<rparr>" 0 "[]"] assms(2) obtain nxt where
    nxt: "c < nxt" "nxt \<le> kSlotCount"
      "ExecuteScan_loop C e now None (options\<lparr>sc_cursor := c\<rparr>) c 0 [] =
       Inr (nxt, concat (map (slot_matches C e now options) [c..<nxt]))"
    by (auto simp: SlotCount_def slot_matches_cursor)
  then show ?thesis
    by (intro exI [of _ nxt]) (auto simp: ExecuteScan_def opts SlotCount_def)
qed

lemma scan_client_all:
  assumes "ParseOptions_loop ScanOptions_new opts = Inr options"
  shows "c < kSlotCount \<Longrightarrow> kSlotCount - c \<le> n \<Longrightarrow>
    scan_client C e now opts n (to_string (int c)) =
      Some (map BulkString (concat (map (slot_matches C e now options) [c..<kSlotCount])))"
proof (induction n arbitrary: c)
  case (Suc n)
  from ExecuteScan_page [OF assms Suc.prems(1), of C e now] obtain nxt where
    nxt: "c < nxt" "nxt \<le> kSlotCount"
      "ExecuteScan C (''SCAN'' # to_string (int c) # opts) e now None =
        Array [BulkString (to_string (int (if nxt = kSlotCount then 0 else nxt))),
               Array (map BulkString (concat (map (slot_matches C e now options) [c..<nxt])))]" by blast
  show ?case
  proof (cases "nxt = kSlotCount")
    case True
    then show ?thesis using nxt by (simp add: to_string_0)
  next
    case False
    then have "nxt < kSlotCount" "kSlotCount - nxt \<le> n" using nxt Suc.prems by auto
    with Suc.IH have "scan_client C e now opts n (to_string (int nxt)) =
        Some (map BulkString (concat (map (slot_matches C e now options) [nxt..<kSlotCount])))" by blast
    moreover have "[c..<kSlotCount] = [c..<nxt] @ [nxt..<kSlotCount]"
      using nxt upt_add_eq_append [of c nxt "kSlotCount - nxt"] by simp
    moreover have "to_string (int nxt) \<noteq> ''0''" using nxt(1) by (simp add: to_string_eq_0)
    ultimately show ?thesis using nxt False by simp
  qed
qed simp

text \<open>Every key is stored in the slot its hash names.\<close>

definition placed :: "('o, 'h, 's, 'z) containers \<Rightarrow> 'o CacheEngine \<Rightarrow> bool" where
  "placed C e \<longleftrightarrow> (\<forall>i key ob. slot_view C (slots e i) key = Some ob \<longrightarrow> SlotForKey key = i)"

context imt_lib begin

lemma placed_commit:
  assumes "placed C e" and "x = None \<Longrightarrow> engine_view C e key \<noteq> None"
  shows "placed C (commit C e key x r now)"
proof -
  from commit_committed [OF assms(2)] obtain s where
    s: "slot_view C s = (slot_view C (KeySlot e key))(key := x)" "commit C e key x r now = put_slot e (SlotForKey key) s"
    unfolding engine_committed_def committed_def by blast
  then show ?thesis using assms(1) by (auto simp: placed_def KeySlot_def split: if_splits)
qed

lemma set_slot_matches:
  "key \<in> set (slot_matches C e now options i) \<longleftrightarrow>
   (\<exists>ob. slot_view C (slots e i) key = Some ob \<and> \<not> IsExpired ob now \<and>
     TypeMatches (sc_type options) (Type ob) \<and> KeyMatches (sc_match options) key)"
  by (force simp: slot_matches_def HashSlot_ForEachLiveObject_def om.mem_foreach slot_view_def)

lemma distinct_slot_matches: "distinct (slot_matches C e now options i)"
  using om.foreach_distinct [of "slot_map (slots e i)"]
  by (simp add: slot_matches_def HashSlot_ForEachLiveObject_def distinct_map_filter)

lemma distinct_all_matches:
  assumes "placed C e"
  shows "distinct (concat (map (slot_matches C e now options) [0..<n]))"
proof -
  have "set (slot_matches C e now options i) \<inter> set (slot_matches C e now options j) = {}" if "i \<noteq> j" for i j
  proof -
    have "SlotForKey key = i" if "key \<in> set (slot_matches C e now options i)" for key i
      using assms that unfolding set_slot_matches placed_def by blast
    with that show ?thesis by blast
  qed
  note disj = this
  show ?thesis
  proof (induction n)
    case (Suc n)
    have "set (slot_matches C e now options n) \<inter> set (concat (map (slot_matches C e now options) [0..<n])) = {}"
      using disj [of n] by fastforce
    with Suc show ?case by (auto simp: distinct_slot_matches)
  qed simp
qed

end

section \<open>Properties\<close>

text \<open>(C29) A client that follows the cursor of SCAN from 0 until it is 0 again, with any accepted COUNT,
  MATCH and TYPE, gets every live key that passes the filters exactly once, on an engine that does
  not change meanwhile, after at most as many calls as there are slots.\<close>

theorem scan_complete:
  assumes "imt_lib C" and "placed C e" and "ParseOptions_loop ScanOptions_new opts = Inr options"
  shows "\<exists>keys. scan_client C e now opts kSlotCount ''0'' = Some (map BulkString keys) \<and> distinct keys \<and>
    set keys = {key. \<exists>ob. CacheEngine_Get C e key now = Some ob \<and>
      TypeMatches (sc_type options) (Type ob) \<and> KeyMatches (sc_match options) key}"
proof -
  let ?keys = "concat (map (slot_matches C e now options) [0..<kSlotCount])"
  have "scan_client C e now opts kSlotCount ''0'' = Some (map BulkString ?keys)"
    using scan_client_all [OF assms(3), of 0 kSlotCount C e now] to_string_0 by simp
  moreover have "distinct ?keys" by (rule imt_lib.distinct_all_matches [OF assms(1,2)])
  moreover have "set ?keys = {key. \<exists>ob. CacheEngine_Get C e key now = Some ob \<and>
      TypeMatches (sc_type options) (Type ob) \<and> KeyMatches (sc_match options) key}"
  proof (intro set_eqI iffI)
    fix key assume "key \<in> set ?keys"
    then obtain i ob where ob: "slot_view C (slots e i) key = Some ob" "\<not> IsExpired ob now"
      "TypeMatches (sc_type options) (Type ob)" "KeyMatches (sc_match options) key"
      by (auto simp: imt_lib.set_slot_matches [OF assms(1)])
    moreover have "SlotForKey key = i" using assms(2) ob(1) unfolding placed_def by blast
    ultimately show "key \<in> {key. \<exists>ob. CacheEngine_Get C e key now = Some ob \<and>
      TypeMatches (sc_type options) (Type ob) \<and> KeyMatches (sc_match options) key}"
      by (auto simp: CacheEngine_Get_live engine_view_def KeySlot_def live_def)
  next
    fix key assume "key \<in> {key. \<exists>ob. CacheEngine_Get C e key now = Some ob \<and>
      TypeMatches (sc_type options) (Type ob) \<and> KeyMatches (sc_match options) key}"
    then obtain ob where "slot_view C (slots e (SlotForKey key)) key = Some ob" "\<not> IsExpired ob now"
      "TypeMatches (sc_type options) (Type ob)" "KeyMatches (sc_match options) key"
      by (auto simp: CacheEngine_Get_live engine_view_def KeySlot_def live_def split: option.splits if_splits)
    then have "key \<in> set (slot_matches C e now options (SlotForKey key))"
      by (auto simp: imt_lib.set_slot_matches [OF assms(1)])
    then show "key \<in> set ?keys" using SlotForKey_less by auto
  qed
  ultimately show ?thesis by blast
qed

theorem scan_complete_witness:
  "\<exists>keys. scan_client ref_containers (CacheEngine_new ref_containers) 1 [] kSlotCount ''0'' =
     Some (map BulkString keys)"
proof -
  have "placed ref_containers (CacheEngine_new ref_containers)"
    by (simp add: placed_def CacheEngine_new_def HashSlot_new_def slot_view_def ref_containers_def ref_map_def)
  from scan_complete [OF ref_lib.imt_lib_axioms this, of "[]" ScanOptions_new 1] show ?thesis by auto
qed

end
