(* ===== verification/CommandDispatcher.thy ===== *)
theory CommandDispatcher
  imports KeyCmd StringCmd HashCmd SetTypeCmd ZSetCmd ScanCmd
begin

text \<open>
  The command table and its dispatch, \<^verbatim>\<open>src/command/command_dispatcher.h\<close> and
  \<^verbatim>\<open>command_dispatcher.cpp\<close>. The \<^verbatim>\<open>unordered_map\<close> is an association list with distinct keys.
\<close>

section \<open>The table\<close>

record 'o CommandEntry =
  entry_cmd :: "'o RedisCmd"
  write_cmd :: bool
  multi_key :: bool

definition commands ::
  "('o, 'h, 's, 'z) containers \<Rightarrow> Rng \<Rightarrow> (string \<times> 'o CommandEntry) list" where
  "commands C R =
     [(''SET'', \<lparr>entry_cmd = SetCmd C, write_cmd = True, multi_key = False\<rparr>),
      (''GET'', \<lparr>entry_cmd = GetCmd C, write_cmd = False, multi_key = False\<rparr>),
      (''MGET'', \<lparr>entry_cmd = MGetCmd C, write_cmd = False, multi_key = True\<rparr>),
      (''SETNX'', \<lparr>entry_cmd = SetNxCmd C, write_cmd = True, multi_key = False\<rparr>),
      (''GETSET'', \<lparr>entry_cmd = GetSetCmd C, write_cmd = True, multi_key = False\<rparr>),
      (''STRLEN'', \<lparr>entry_cmd = StrLenCmd C, write_cmd = False, multi_key = False\<rparr>),
      (''APPEND'', \<lparr>entry_cmd = AppendCmd C, write_cmd = True, multi_key = False\<rparr>),
      (''INCR'', \<lparr>entry_cmd = IncrCmd C, write_cmd = True, multi_key = False\<rparr>),
      (''DECR'', \<lparr>entry_cmd = DecrCmd C, write_cmd = True, multi_key = False\<rparr>),
      (''INCRBY'', \<lparr>entry_cmd = IncrByCmd C, write_cmd = True, multi_key = False\<rparr>),
      (''DECRBY'', \<lparr>entry_cmd = DecrByCmd C, write_cmd = True, multi_key = False\<rparr>),
      (''HSET'', \<lparr>entry_cmd = HSetCmd C, write_cmd = True, multi_key = False\<rparr>),
      (''HGET'', \<lparr>entry_cmd = HGetCmd C, write_cmd = False, multi_key = False\<rparr>),
      (''HDEL'', \<lparr>entry_cmd = HDelCmd C, write_cmd = True, multi_key = False\<rparr>),
      (''HEXISTS'', \<lparr>entry_cmd = HExistsCmd C, write_cmd = False, multi_key = False\<rparr>),
      (''HLEN'', \<lparr>entry_cmd = HLenCmd C, write_cmd = False, multi_key = False\<rparr>),
      (''HSTRLEN'', \<lparr>entry_cmd = HStrLenCmd C, write_cmd = False, multi_key = False\<rparr>),
      (''HMGET'', \<lparr>entry_cmd = HMGetCmd C, write_cmd = False, multi_key = False\<rparr>),
      (''HMSET'', \<lparr>entry_cmd = HMSetCmd C, write_cmd = True, multi_key = False\<rparr>),
      (''HGETALL'', \<lparr>entry_cmd = HGetAllCmd C, write_cmd = False, multi_key = False\<rparr>),
      (''HKEYS'', \<lparr>entry_cmd = HKeysCmd C, write_cmd = False, multi_key = False\<rparr>),
      (''HVALS'', \<lparr>entry_cmd = HValsCmd C, write_cmd = False, multi_key = False\<rparr>),
      (''HINCRBY'', \<lparr>entry_cmd = HIncrByCmd C, write_cmd = True, multi_key = False\<rparr>),
      (''SADD'', \<lparr>entry_cmd = SAddCmd C, write_cmd = True, multi_key = False\<rparr>),
      (''SISMEMBER'', \<lparr>entry_cmd = SIsMemberCmd C, write_cmd = False, multi_key = False\<rparr>),
      (''SREM'', \<lparr>entry_cmd = SRemCmd C, write_cmd = True, multi_key = False\<rparr>),
      (''SCARD'', \<lparr>entry_cmd = SCardCmd C, write_cmd = False, multi_key = False\<rparr>),
      (''SMEMBERS'', \<lparr>entry_cmd = SMembersCmd C, write_cmd = False, multi_key = False\<rparr>),
      (''SMISMEMBER'', \<lparr>entry_cmd = SMIsMemberCmd C, write_cmd = False, multi_key = False\<rparr>),
      (''SPOP'', \<lparr>entry_cmd = SPopCmd C R, write_cmd = True, multi_key = False\<rparr>),
      (''SRANDMEMBER'', \<lparr>entry_cmd = SRandMemberCmd C R, write_cmd = False, multi_key = False\<rparr>),
      (''ZADD'', \<lparr>entry_cmd = ZAddCmd C, write_cmd = True, multi_key = False\<rparr>),
      (''ZSCORE'', \<lparr>entry_cmd = ZScoreCmd C, write_cmd = False, multi_key = False\<rparr>),
      (''ZREM'', \<lparr>entry_cmd = ZRemCmd C, write_cmd = True, multi_key = False\<rparr>),
      (''ZCARD'', \<lparr>entry_cmd = ZCardCmd C, write_cmd = False, multi_key = False\<rparr>),
      (''ZRANK'', \<lparr>entry_cmd = ZRankCmd C, write_cmd = False, multi_key = False\<rparr>),
      (''ZREVRANK'', \<lparr>entry_cmd = ZRevRankCmd C, write_cmd = False, multi_key = False\<rparr>),
      (''ZCOUNT'', \<lparr>entry_cmd = ZCountCmd C, write_cmd = False, multi_key = False\<rparr>),
      (''ZINCRBY'', \<lparr>entry_cmd = ZIncrByCmd C, write_cmd = True, multi_key = False\<rparr>),
      (''ZRANGE'', \<lparr>entry_cmd = ZRangeCmd C, write_cmd = False, multi_key = False\<rparr>),
      (''EXISTS'', \<lparr>entry_cmd = ExistsCmd C, write_cmd = False, multi_key = True\<rparr>),
      (''TYPE'', \<lparr>entry_cmd = TypeCmd C, write_cmd = False, multi_key = False\<rparr>),
      (''PTTL'', \<lparr>entry_cmd = PTtlCmd C, write_cmd = False, multi_key = False\<rparr>),
      (''SCAN'', \<lparr>entry_cmd = ScanCmd C, write_cmd = False, multi_key = False\<rparr>),
      (''DEL'', \<lparr>entry_cmd = DelCmd C, write_cmd = True, multi_key = False\<rparr>),
      (''EXPIRE'', \<lparr>entry_cmd = ExpireCmd C, write_cmd = True, multi_key = False\<rparr>),
      (''TTL'', \<lparr>entry_cmd = TtlCmd C, write_cmd = False, multi_key = False\<rparr>)]"

definition find_command ::
  "('o, 'h, 's, 'z) containers \<Rightarrow> Rng \<Rightarrow> string \<Rightarrow> 'o CommandEntry option" where
  "find_command C R name = map_of (commands C R) name"

section \<open>Dispatch\<close>

definition IsWriteCommand :: "('o, 'h, 's, 'z) containers \<Rightarrow> Rng \<Rightarrow> string \<Rightarrow> bool" where
  "IsWriteCommand C R command =
     (case find_command C R (ToUpperAscii command) of None \<Rightarrow> False | Some entry \<Rightarrow> write_cmd entry)"

definition Execute ::
  "('o, 'h, 's, 'z) containers \<Rightarrow> Rng \<Rightarrow> string list \<Rightarrow> 'o CacheEngine \<Rightarrow> u64 \<Rightarrow> 'o CacheEngine \<times> Response" where
  "Execute C R args e now_us =
     (if args = [] then (e, Error ''ERR empty command'')
      else let name = ToUpperAscii (args ! 0)
           in case find_command C R name of
                None \<Rightarrow> (e, Error (''ERR unknown command '' @ [CHR 0x27] @ name @ [CHR 0x27]))
              | Some entry \<Rightarrow>
                  (case CheckArity (entry_cmd entry) args of
                     Some error \<Rightarrow> (e, Error error)
                   | None \<Rightarrow> ExecCmd (entry_cmd entry) args e now_us))"

definition ExecuteReadOnly ::
  "('o, 'h, 's, 'z) containers \<Rightarrow> Rng \<Rightarrow> string list \<Rightarrow> 'o CacheEngine \<Rightarrow> u64 \<Rightarrow> (nat \<Rightarrow> bool) \<Rightarrow>
   'o CacheEngine \<times> Response" where
  "ExecuteReadOnly C R args e now_us can_read =
     (if args = [] then (e, Error ''ERR empty command'')
      else let name = ToUpperAscii (args ! 0)
           in case find_command C R name of
                None \<Rightarrow> Execute C R args e now_us
              | Some entry \<Rightarrow>
                  if write_cmd entry then (e, Error ''READONLY replica does not accept writes'')
                  else (case CheckArity (entry_cmd entry) args of
                          Some error \<Rightarrow> (e, Error error)
                        | None \<Rightarrow>
                            if name = ''SCAN'' then (e, ExecuteScan C args e now_us (Some can_read))
                            else let stop = (if multi_key entry then length args else 2)
                                 in if \<exists>i \<in> set [1..<stop]. \<not> can_read (SlotForKey (args ! i))
                                    then (e, Error ''TRYAGAIN slot is syncing'')
                                    else Execute C R args e now_us))"

section \<open>What a command may do to the engine\<close>

text \<open>
  One logged write: a key gets a well-formed object (or the value it had, with another deadline), or
  loses the one it has.
\<close>

definition ok_write ::
  "('o, 'h, 's, 'z) containers \<Rightarrow> 'o CacheEngine \<Rightarrow> string \<Rightarrow> ('h, 's, 'z) RedisObject option \<Rightarrow> bool" where
  "ok_write C e key x =
     (case x of
        None \<Rightarrow> engine_view C e key \<noteq> None
      | Some ob \<Rightarrow> obj_ok ob \<or> (\<exists>ob0. engine_view C e key = Some ob0 \<and>
                                    obj_type ob = obj_type ob0 \<and> obj_value ob = obj_value ob0))"

inductive engine_step :: "('o, 'h, 's, 'z) containers \<Rightarrow> 'o CacheEngine \<Rightarrow> 'o CacheEngine \<Rightarrow> bool"
  for C :: "('o, 'h, 's, 'z) containers" where
  engine_write: "ok_write C e key x \<Longrightarrow> engine_step C e (commit C e key x r now)"

text \<open>An execution either leaves the engine alone, or succeeds and is a sequence of logged writes.\<close>

definition outcome_ok :: "('o, 'h, 's, 'z) containers \<Rightarrow> 'o CacheEngine \<Rightarrow> 'o CacheEngine \<times> Response \<Rightarrow> bool" where
  "outcome_ok C e res \<longleftrightarrow> fst res = e \<or> (\<not> is_error (snd res) \<and> (engine_step C)\<^sup>+\<^sup>+ e (fst res))"

named_theorems outcomes \<open>every command has an acceptable outcome\<close>

lemma outcome_same [simp]: "outcome_ok C e (e, reply)"
  by (simp add: outcome_ok_def)

context imt_lib begin

lemma outcome_Mutate:
  assumes "\<And>x. snd (snd (CacheEngine_Mutate C e key f r now)) = snd (f x) \<Longrightarrow> mut_changed (fst (f x)) \<Longrightarrow>
      (\<forall>ob. mut_object (fst (f x)) = Some ob \<longrightarrow> obj_ok ob) \<and> \<not> is_error reply"
  shows "outcome_ok C e (fst (CacheEngine_Mutate C e key f r now), reply)"
proof -
  let ?x = "CacheEngine_Get C e key now"
  have out: "snd (snd (CacheEngine_Mutate C e key f r now)) = snd (f ?x)" by (rule engine_store.mutate_captured)
  show ?thesis
  proof (cases "mutation_effect ?x (fst (f ?x))")
    case None
    then show ?thesis by (simp add: Mutate_eq Let_def)
  next
    case (Some y)
    then have m: "mut_changed (fst (f ?x))" "y = mut_object (fst (f ?x))" "y = None \<Longrightarrow> ?x \<noteq> None"
      by (auto simp: mutation_effect_def split: if_splits)
    note ok = assms [OF out m(1)]
    have "ok_write C e key y"
    proof (cases y)
      case None
      then show ?thesis using m(3) CacheEngine_Get_Some [of C e key now] by (auto simp: ok_write_def)
    next
      case (Some ob)
      then show ?thesis using ok m(2) by (simp add: ok_write_def)
    qed
    then have "engine_step C e (commit C e key y (mutation_log_record r (fst (f ?x))) now)" by (rule engine_write)
    with Some ok show ?thesis by (auto simp: outcome_ok_def Mutate_eq Let_def)
  qed
qed

lemma outcome_Update:
  assumes "\<And>x ob. snd (snd (CacheEngine_Update C e key f r now)) = snd (f x) \<Longrightarrow> fst (f x) = Some ob \<Longrightarrow>
      obj_ok ob \<and> \<not> is_error reply"
  shows "outcome_ok C e (fst (CacheEngine_Update C e key f r now), reply)"
proof -
  let ?x = "CacheEngine_Get C e key now"
  show ?thesis
  proof (cases "fst (f ?x)")
    case None
    then show ?thesis by (simp add: Update_eq Let_def)
  next
    case (Some ob)
    have "snd (snd (CacheEngine_Update C e key f r now)) = snd (f ?x)"
      by (simp add: Update_eq Let_def split: option.splits)
    from assms [OF this Some] have "ok_write C e key (Some ob)" "\<not> is_error reply" by (auto simp: ok_write_def)
    moreover from this(1) have "engine_step C e (commit C e key (Some ob) r now)" by (rule engine_write)
    ultimately show ?thesis using Some by (auto simp: outcome_ok_def Update_eq Let_def)
  qed
qed

lemma obj_ok_ApplyStringDeadline [simp]: "obj_ok (ApplyStringDeadline (MakeString v) d k old)"
  by (simp add: ApplyStringDeadline_def)

lemma obj_ok_ZSetPreserveDeadline [simp]: "obj_ok (ZSetPreserveDeadline (MakeZSet z) d)"
  by (simp add: ZSetPreserveDeadline_def)

lemma outcome_SetCmd [outcomes]: "outcome_ok C e (SetCmd_ExecCmd C args e now)"
proof (cases "ParseSetOptions args now")
  case (Inr opts)
  have "set_writes opts x \<Longrightarrow> \<not> is_error (set_reply opts x)" for x :: "('h, 's, 'z) RedisObject option"
    by (auto simp: set_reply_def set_writes_def split: option.splits)
  moreover have "engine_step C e (commit C e (args ! 1) (Some (string_with v d)) r now)" for v d r
    by (rule engine_write) (simp add: ok_write_def)
  ultimately show ?thesis by (auto simp: SetCmd_eq [OF Inr] outcome_ok_def Let_def)
qed (simp add: SetCmd_ExecCmd_def)

lemma outcome_SetNxCmd [outcomes]: "outcome_ok C e (SetNxCmd_ExecCmd C args e now)"
  unfolding SetNxCmd_ExecCmd_def Let_def case_prod_beta
  by (rule outcome_Update) (auto split: if_splits)

lemma outcome_GetSetCmd [outcomes]: "outcome_ok C e (GetSetCmd_ExecCmd C args e now)"
  unfolding GetSetCmd_ExecCmd_def Let_def case_prod_beta
  by (rule outcome_Update) (auto split: if_splits)

lemma outcome_AppendCmd [outcomes]: "outcome_ok C e (AppendCmd_ExecCmd C args e now)"
  unfolding AppendCmd_ExecCmd_def Let_def case_prod_beta
  by (rule outcome_Update) (auto split: if_splits)

lemma outcome_ExecIntegerMutation: "outcome_ok C e (ExecIntegerMutation C args e now n mode)"
  unfolding ExecIntegerMutation_def Let_def case_prod_beta
  by (rule outcome_Update) (auto simp: IntegerMutation_updater_def Let_def split: if_splits option.splits)

lemma outcome_integer [outcomes]:
  "outcome_ok C e (IncrCmd_ExecCmd C args e now)" "outcome_ok C e (DecrCmd_ExecCmd C args e now)"
  "outcome_ok C e (IncrByCmd_ExecCmd C args e now)" "outcome_ok C e (DecrByCmd_ExecCmd C args e now)"
  by (auto simp: IncrCmd_ExecCmd_def DecrCmd_ExecCmd_def IncrByCmd_ExecCmd_def DecrByCmd_ExecCmd_def
      outcome_ExecIntegerMutation split: option.splits)

lemma outcome_HSetCmd [outcomes]: "outcome_ok C e (HSetCmd_ExecCmd C args e now)"
  unfolding HSetCmd_ExecCmd_def Let_def case_prod_beta
  by (rule outcome_Update) (auto split: option.splits)

lemma outcome_HMSetCmd [outcomes]: "outcome_ok C e (HMSetCmd_ExecCmd C args e now)"
  unfolding HMSetCmd_ExecCmd_def Let_def case_prod_beta
  by (rule outcome_Update) (auto split: option.splits)

lemma outcome_HDelCmd [outcomes]: "outcome_ok C e (HDelCmd_ExecCmd C args e now)"
  unfolding HDelCmd_ExecCmd_def Let_def case_prod_beta
  by (rule outcome_Mutate) (auto simp: HDelCmd_mutator_def case_prod_beta Let_def split: option.splits if_splits)

lemma outcome_HIncrByCmd [outcomes]: "outcome_ok C e (HIncrByCmd_ExecCmd C args e now)"
proof (cases "ParseInt64 (args ! 3)")
  case (Some n)
  show ?thesis
    unfolding HIncrByCmd_ExecCmd_def Some option.case Let_def case_prod_beta
    by (rule outcome_Update) (auto simp: HIncrByCmd_updater_def case_prod_beta Let_def split: option.splits if_splits)
qed (simp add: HIncrByCmd_ExecCmd_def)

lemma outcome_SAddCmd [outcomes]: "outcome_ok C e (SAddCmd_ExecCmd C args e now)"
  unfolding SAddCmd_ExecCmd_def Let_def case_prod_beta
  by (rule outcome_Update) (auto split: option.splits if_splits)

lemma outcome_SRemCmd [outcomes]: "outcome_ok C e (SRemCmd_ExecCmd C args e now)"
  unfolding SRemCmd_ExecCmd_def Let_def case_prod_beta
  by (rule outcome_Mutate) (auto simp: SRemCmd_mutator_def case_prod_beta Let_def split: option.splits if_splits)

lemma outcome_SPop_Mutate:
  assumes "\<And>p. \<not> is_error (g p)"
  shows "outcome_ok C e (fst (CacheEngine_Mutate C e key (SPopCmd_mutator C R key n) r now),
      if fst (snd (snd (CacheEngine_Mutate C e key (SPopCmd_mutator C R key n) r now))) then Error kWrongTypeError
      else g (snd (snd (snd (CacheEngine_Mutate C e key (SPopCmd_mutator C R key n) r now)))))"
  by (rule outcome_Mutate) (use assms in \<open>auto simp: SPopCmd_mutator_def Let_def split: option.splits if_splits\<close>)

lemma outcome_SPopCmd [outcomes]: "outcome_ok C e (SPopCmd_ExecCmd C R args e now)"
proof (cases "length args = 3")
  case True
  have read: "outcome_ok C e (ReadSet C e key now g)" for key g by (simp add: ReadSet_def)
  have "\<not> is_error (Array (MembersToResponses p))" for p by simp
  note pop = outcome_SPop_Mutate [of "\<lambda>p. Array (MembersToResponses p)", OF this]
  show ?thesis
  proof (cases "ParseInt64 (args ! 2)")
    case (Some n)
    consider "n < 0" | "n = 0" | "0 < n" by linarith
    then show ?thesis using pop [of e "args ! 1"] True Some
      by cases (simp_all add: SPopCmd_ExecCmd_def read case_prod_beta cong: if_cong split del: if_split)
  qed (simp add: SPopCmd_ExecCmd_def True)
next
  case False
  have "\<not> is_error (if p = [] then NullBulk else BulkString (hd p))" for p by simp
  from outcome_SPop_Mutate [of "\<lambda>p. if p = [] then NullBulk else BulkString (hd p)", OF this] False show ?thesis
    by (simp add: SPopCmd_ExecCmd_def case_prod_beta cong: if_cong split del: if_split)
qed

lemma outcome_IncrementZSetMember: "outcome_ok C e (IncrementZSetMember C args e now key inc member options)"
  unfolding IncrementZSetMember_def Let_def case_prod_beta
  by (rule outcome_Mutate)
    (auto simp: IncrementZSetMember_mutator_def case_prod_beta Let_def split: option.splits if_splits)

lemma outcome_ZAddCmd [outcomes]: "outcome_ok C e (ZAddCmd_ExecCmd C args e now)"
proof -
  have "outcome_ok C e (fst (CacheEngine_Mutate C e key (ZAddCmd_mutator C options inputs) r now),
      if fst (snd (snd (CacheEngine_Mutate C e key (ZAddCmd_mutator C options inputs) r now)))
      then Error kWrongTypeError else Integer n)" for key options inputs r n
    by (rule outcome_Mutate)
      (auto simp: ZAddCmd_mutator_def case_prod_beta Let_def split: option.splits if_splits)
  then show ?thesis
    by (auto simp: ZAddCmd_ExecCmd_def outcome_IncrementZSetMember case_prod_beta Let_def
        split: sum.splits ZAddParseStatus.splits)
qed

lemma outcome_ZRemCmd [outcomes]: "outcome_ok C e (ZRemCmd_ExecCmd C args e now)"
  unfolding ZRemCmd_ExecCmd_def Let_def case_prod_beta
  by (rule outcome_Mutate) (auto simp: ZRemCmd_mutator_def case_prod_beta Let_def split: option.splits if_splits)

lemma outcome_ZIncrByCmd [outcomes]: "outcome_ok C e (ZIncrByCmd_ExecCmd C args e now)"
  by (auto simp: ZIncrByCmd_ExecCmd_def outcome_IncrementZSetMember split: option.splits)

lemma engine_step_Del:
  "CacheEngine_Get C e key now \<noteq> None \<Longrightarrow> engine_step C e (fst (CacheEngine_Del C e key now))"
  using CacheEngine_Get_Some [of C e key now] by (auto simp: Del_eq ok_write_def intro!: engine_write)

lemma Del_fold_steps:
  "(engine_step C)\<^sup>*\<^sup>* e (fst (foldl (\<lambda>(e, deleted) key.
      let (e', wr) = CacheEngine_Del C e key now
      in (e', if wr_changed wr then deleted + 1 else deleted)) (e, n :: int) keys))"
proof (induction keys arbitrary: e n)
  case (Cons k ks)
  let ?e = "fst (CacheEngine_Del C e k now)"
  have "(engine_step C)\<^sup>*\<^sup>* e ?e"
    using engine_step_Del [of e k now] by (cases "CacheEngine_Get C e k now") (auto simp: Del_eq)
  also note Cons.IH [of ?e "if wr_changed (snd (CacheEngine_Del C e k now)) then n + 1 else n"]
  finally show ?case by (cases "wr_changed (snd (CacheEngine_Del C e k now))") (simp_all add: case_prod_beta)
qed simp

lemma outcome_DelCmd [outcomes]: "outcome_ok C e (DelCmd_ExecCmd C args e now)"
  using Del_fold_steps [of e now 0 "drop 1 args"]
  by (auto simp: outcome_ok_def DelCmd_ExecCmd_def case_prod_beta Let_def dest: rtranclpD)

lemma outcome_ExpireCmd [outcomes]: "outcome_ok C e (ExpireCmd_ExecCmd C args e now)"
proof (cases "ParseInt64 (args ! 2)")
  case (Some secs)
  have kept: "ok_write C e key (Some (WithDeadline ob d))" if "CacheEngine_Get C e key now = Some ob" for key ob d
    using CacheEngine_Get_Some [OF that] by (auto simp: ok_write_def WithDeadline_def)
  have "fst (CacheEngine_Expire C e key secs now) = e \<or> engine_step C e (fst (CacheEngine_Expire C e key secs now))" for key
    using engine_step_Del [of e key now] kept [of key]
    by (auto simp: Expire_eq intro!: engine_write split: option.splits)
  then show ?thesis by (auto simp: outcome_ok_def ExpireCmd_ExecCmd_def Some case_prod_beta)
qed (simp add: ExpireCmd_ExecCmd_def)

end

text \<open>A command that is not a write leaves the engine alone.\<close>

lemma read_commands [outcomes]:
  "fst (GetCmd_ExecCmd C args e now) = e"
  "fst (MGetCmd_ExecCmd C args e now) = e"
  "fst (StrLenCmd_ExecCmd C args e now) = e"
  "fst (HGetCmd_ExecCmd C args e now) = e"
  "fst (HExistsCmd_ExecCmd C args e now) = e"
  "fst (HLenCmd_ExecCmd C args e now) = e"
  "fst (HStrLenCmd_ExecCmd C args e now) = e"
  "fst (HMGetCmd_ExecCmd C args e now) = e"
  "fst (HGetAllCmd_ExecCmd C args e now) = e"
  "fst (HKeysCmd_ExecCmd C args e now) = e"
  "fst (HValsCmd_ExecCmd C args e now) = e"
  "fst (SIsMemberCmd_ExecCmd C args e now) = e"
  "fst (SCardCmd_ExecCmd C args e now) = e"
  "fst (SMembersCmd_ExecCmd C args e now) = e"
  "fst (SMIsMemberCmd_ExecCmd C args e now) = e"
  "fst (SRandMemberCmd_ExecCmd C R args e now) = e"
  "fst (ZScoreCmd_ExecCmd C args e now) = e"
  "fst (ZCardCmd_ExecCmd C args e now) = e"
  "fst (ZRankCmd_ExecCmd C args e now) = e"
  "fst (ZRevRankCmd_ExecCmd C args e now) = e"
  "fst (ZCountCmd_ExecCmd C args e now) = e"
  "fst (ZRangeCmd_ExecCmd C args e now) = e"
  "fst (ExistsCmd_ExecCmd C args e now) = e"
  "fst (TypeCmd_ExecCmd C args e now) = e"
  "fst (PTtlCmd_ExecCmd C args e now) = e"
  "fst (ScanCmd_ExecCmd C args e now) = e"
  "fst (TtlCmd_ExecCmd C args e now) = e"
  by (simp_all add: GetCmd_ExecCmd_def MGetCmd_ExecCmd_def StrLenCmd_ExecCmd_def HGetCmd_ExecCmd_def HExistsCmd_ExecCmd_def HLenCmd_ExecCmd_def HStrLenCmd_ExecCmd_def HMGetCmd_ExecCmd_def HGetAllCmd_ExecCmd_def HKeysCmd_ExecCmd_def HValsCmd_ExecCmd_def SIsMemberCmd_ExecCmd_def SCardCmd_ExecCmd_def SMembersCmd_ExecCmd_def SMIsMemberCmd_ExecCmd_def SRandMemberCmd_ExecCmd_def ZScoreCmd_ExecCmd_def ZCardCmd_ExecCmd_def ZRankCmd_ExecCmd_def ZRevRankCmd_ExecCmd_def ZCountCmd_ExecCmd_def ZRangeCmd_ExecCmd_def ExistsCmd_ExecCmd_def TypeCmd_ExecCmd_def PTtlCmd_ExecCmd_def ScanCmd_ExecCmd_def TtlCmd_ExecCmd_def
      ReadSet_def ReadHash_def Let_def case_prod_beta split: option.splits sum.splits)

lemma read_entries:
  "list_all (\<lambda>(name, entry). \<not> write_cmd entry \<longrightarrow>
     (\<forall>args e now. fst (ExecCmd (entry_cmd entry) args e now) = e)) (commands C R)"
  by (simp add: commands_def outcomes)

lemma find_command_entry: "find_command C R name = Some entry \<Longrightarrow> (name, entry) \<in> set (commands C R)"
  by (simp add: find_command_def map_of_SomeD)

lemma read_command_keeps:
  "find_command C R name = Some entry \<Longrightarrow> \<not> write_cmd entry \<Longrightarrow>
   fst (ExecCmd (entry_cmd entry) args e now) = e"
  using read_entries [of C R] by (auto simp: list_all_iff dest!: find_command_entry)

section \<open>The invariant of an engine under commands\<close>

text \<open>
  Every key is in its slot, every object is well formed, the published sequence number is the
  current one, the log's byte count is right, and a slot that does not log has an empty log.
\<close>

definition engine_inv :: "('o, 'h, 's, 'z) containers \<Rightarrow> 'o CacheEngine \<Rightarrow> bool" where
  "engine_inv C e \<longleftrightarrow> placed C e \<and> view_ok (engine_view C e) \<and>
     (\<forall>i. slot_published_seq (slots e i) = slot_seq (slots e i) \<and> bytes_ok (slot_binlog (slots e i)) \<and>
          (\<not> slot_log_writes (slots e i) \<longrightarrow> slot_log (slots e i) = []))"

text \<open>A master's dispatcher at work: clients' commands one after the other.\<close>

inductive served :: "('o, 'h, 's, 'z) containers \<Rightarrow> Rng \<Rightarrow> 'o CacheEngine \<Rightarrow> bool"
  for C :: "('o, 'h, 's, 'z) containers" and R :: Rng where
  served_new: "served C R (CacheEngine_new C)"
| served_Execute: "served C R e \<Longrightarrow> served C R (fst (Execute C R args e now))"

context imt_lib begin

lemma outcome_entries:
  "list_all (\<lambda>(name, entry). \<forall>args e now. outcome_ok C e (ExecCmd (entry_cmd entry) args e now)) (commands C R)"
proof -
  have "outcome_ok C e (ExecCmd (entry_cmd entry) args e now)"
    if "(name, entry) \<in> set (commands C R)" "\<not> write_cmd entry" for name entry args e now
    using read_entries [of C R] that by (auto simp: list_all_iff outcome_ok_def)
  moreover have "list_all (\<lambda>(name, entry). write_cmd entry \<longrightarrow>
      (\<forall>args e now. outcome_ok C e (ExecCmd (entry_cmd entry) args e now))) (commands C R)"
    by (simp add: commands_def outcomes)
  ultimately show ?thesis by (fastforce simp: list_all_iff)
qed

lemma Execute_outcome: "outcome_ok C e (Execute C R args e now)"
  using outcome_entries [of R]
  by (auto simp: Execute_def Let_def list_all_iff dest!: find_command_entry split: option.splits)

lemma engine_inv_new: "engine_inv C (CacheEngine_new C)"
  by (simp add: engine_inv_def placed_def view_ok_def engine_view_def KeySlot_def CacheEngine_new_def HashSlot_new_def
      slot_view_def om.find_empty)

lemma engine_inv_step: "engine_step C e e' \<Longrightarrow> engine_inv C e \<Longrightarrow> engine_inv C e'"
proof (induction rule: engine_step.induct)
  case (engine_write e key x r now)
  have ne: "x = None \<Longrightarrow> engine_view C e key \<noteq> None" using engine_write(1) by (auto simp: ok_write_def)
  have "x = Some ob \<Longrightarrow> obj_ok ob" for ob
    using engine_write by (cases ob) (force simp: ok_write_def engine_inv_def view_ok_def obj_ok_def)
  then have "view_ok (engine_view C (commit C e key x r now))"
    using engine_write(2) commit_view [OF ne] by (simp add: engine_inv_def)
  moreover from commit_committed [OF ne] obtain s where
    "committed C (KeySlot e key) s key x r now" "commit C e key x r now = put_slot e (SlotForKey key) s"
    unfolding engine_committed_def by blast
  moreover have "placed C (commit C e key x r now)"
    using engine_write(2) by (intro placed_commit [OF _ ne]) (simp_all add: engine_inv_def)
  ultimately show ?case
    using engine_write(2) by (auto simp: engine_inv_def committed_def KeySlot_def)
qed

lemma engine_inv_steps: "(engine_step C)\<^sup>+\<^sup>+ e e' \<Longrightarrow> engine_inv C e \<Longrightarrow> engine_inv C e'"
  by (induction rule: tranclp_induct) (auto intro: engine_inv_step)

lemma engine_inv_Execute: "engine_inv C e \<Longrightarrow> engine_inv C (fst (Execute C R args e now))"
  using Execute_outcome [of e R args now] by (auto simp: outcome_ok_def intro: engine_inv_steps)

lemma engine_inv_served: "served C R e \<Longrightarrow> engine_inv C e"
  by (induction rule: served.induct) (simp_all add: engine_inv_new engine_inv_Execute)

end

lemma ExecuteReadOnly_keeps: "fst (ExecuteReadOnly C R args e now can_read) = e"
proof -
  have "fst (Execute C R args e now) = e"
    if "find_command C R (ToUpperAscii (args ! 0)) = Some entry" "\<not> write_cmd entry" for entry
    using that read_command_keeps [OF that] by (auto simp: Execute_def Let_def split: option.splits)
  moreover have "fst (Execute C R args e now) = e" if "find_command C R (ToUpperAscii (args ! 0)) = None"
    using that by (simp add: Execute_def Let_def)
  ultimately show ?thesis by (auto simp: ExecuteReadOnly_def Let_def split: option.splits)
qed

section \<open>Properties\<close>

text \<open>(C6) A command is atomic: whichever of the 47 commands runs, on whatever arguments, a reply that
  is an error means that the engine is exactly the one before; otherwise the engine is unchanged or
  was reached by well-formed logged writes, one record each.\<close>

theorem Execute_atomic:
  assumes "imt_lib C" and "Execute C R args e now = (e', reply)"
  shows "e' = e \<or> (\<not> is_error reply \<and> (engine_step C)\<^sup>+\<^sup>+ e e')"
  using imt_lib.Execute_outcome [OF assms(1), of e R args now] assms(2) by (simp add: outcome_ok_def)

text \<open>(C28) Every engine a dispatcher can reach from an empty one by any sequence of commands keeps
  every key in the slot its hash names, stores only objects whose value fits their type, and has its
  published sequence numbers and log accounting in order.\<close>

theorem served_engine_inv:
  assumes "imt_lib C" and "served C R e"
  shows "engine_inv C e"
  by (rule imt_lib.engine_inv_served [OF assms])

text \<open>(C33) A replica's dispatcher never changes its engine; on a command of the table that is not a
  write, it gives the answer of the full dispatcher when every slot it reads may be read, and refuses
  it otherwise. SCAN checks its slots itself.\<close>

theorem ExecuteReadOnly_correct:
  "fst (ExecuteReadOnly C R args e now can_read) = e \<and>
   (\<forall>entry. args \<noteq> [] \<and> find_command C R (ToUpperAscii (args ! 0)) = Some entry \<and> \<not> write_cmd entry \<and>
      CheckArity (entry_cmd entry) args = None \<and> ToUpperAscii (args ! 0) \<noteq> ''SCAN'' \<longrightarrow>
      ExecuteReadOnly C R args e now can_read =
        (if \<forall>key \<in> set (if multi_key entry then drop 1 args else [args ! 1]). can_read (SlotForKey key)
         then Execute C R args e now else (e, Error ''TRYAGAIN slot is syncing'')))"
proof -
  have "drop 1 args = map ((!) args) [1..<length args]"
    using arg_cong [OF map_nth [of args], of "drop 1"] by (simp add: drop_map del: map_nth)
  then have keys: "set (if multi_key entry then drop 1 args else [args ! 1]) =
      (!) args ` set [1..<if multi_key entry then length args else 2]" for entry :: "'a CommandEntry"
    by (simp add: numeral_2_eq_2)
  then show ?thesis
    using ExecuteReadOnly_keeps [of C R args e now can_read]
    unfolding keys ball_simps by (auto simp: ExecuteReadOnly_def Let_def split: option.splits)
qed

lemma find_GET [simp]: "find_command C R ''GET'' =
    Some \<lparr>entry_cmd = GetCmd C, write_cmd = False, multi_key = False\<rparr>"
  by (simp add: find_command_def commands_def)

lemma find_INCR [simp]: "find_command C R ''INCR'' =
    Some \<lparr>entry_cmd = IncrCmd C, write_cmd = True, multi_key = False\<rparr>"
  by (simp add: find_command_def commands_def)

theorem Execute_atomic_witness:
  "is_error (snd (Execute ref_containers demo_rng [''incr'', ''k''] demo_hash 2)) \<and>
   fst (Execute ref_containers demo_rng [''incr'', ''k''] demo_hash 2) = demo_hash"
proof -
  have upper: "ToUpperAscii ''incr'' = ''INCR''" by code_simp
  have "is_error (snd (Execute ref_containers demo_rng [''incr'', ''k''] demo_hash 2))"
    by (simp add: Execute_def upper IncrCmd_CheckArity_def IncrCmd_ExecCmd_def ExecIntegerMutation_def
        ref_lib.Update_eq IntegerMutation_updater_def demo_hash_def ref_lib.engine_store.get_set live_def
        IsExpired_def ReadStringObject_def MakeHash_def Type_def Let_def)
  with Execute_atomic [OF ref_lib.imt_lib_axioms surjective_pairing, of demo_rng "[''incr'', ''k'']" demo_hash 2]
  show ?thesis by auto
qed

theorem served_engine_inv_witness:
  "engine_inv ref_containers (fst (Execute ref_containers demo_rng [''SET'', ''k'', ''v''] (CacheEngine_new ref_containers) 1))"
  by (rule served_engine_inv [OF ref_lib.imt_lib_axioms served_Execute [OF served_new]])

theorem ExecuteReadOnly_correct_witness:
  "ExecuteReadOnly ref_containers demo_rng [''get'', ''k''] demo_hash 2 (\<lambda>_. False) =
     (demo_hash, Error ''TRYAGAIN slot is syncing'')"
proof -
  have upper: "ToUpperAscii ''get'' = ''GET''" by code_simp
  from ExecuteReadOnly_correct [of ref_containers demo_rng "[''get'', ''k'']" demo_hash 2 "\<lambda>_. False"]
  show ?thesis by (simp add: upper GetCmd_CheckArity_def)
qed

end
