(* ===== verification/ObjectAbs.thy ===== *)
theory ObjectAbs
  imports Response
begin

text \<open>
  What a stored object means, whatever the containers it is built from: its type, its deadline and
  a string, a finite map, a set or a score map. Two engines with the same abstract view answer alike;
  replication promises an equal abstract view.
\<close>

section \<open>Abstract objects\<close>

datatype AbsValue =
    AString string
  | AHash "string \<Rightarrow> string option"
  | ASet "string set"
  | AZSet "string \<Rightarrow> double option"

record AbsObject =
  abs_type :: RedisObjectType
  abs_deadline :: u64
  abs_value :: AbsValue

definition abs_val :: "('o, 'h, 's, 'z) containers \<Rightarrow> ('h, 's, 'z) ObjectValue \<Rightarrow> AbsValue" where
  "abs_val C v =
     (case v of
        StringVal s \<Rightarrow> AString s
      | HashVal h \<Rightarrow> AHash (Map_Find (hashes C) h)
      | SetVal s \<Rightarrow> ASet {x. Set_Contains (sets C) s x}
      | ZSetVal z \<Rightarrow> AZSet (Map_Find (zsets C) z))"

definition abs_obj :: "('o, 'h, 's, 'z) containers \<Rightarrow> ('h, 's, 'z) RedisObject \<Rightarrow> AbsObject" where
  "abs_obj C ob = \<lparr>abs_type = obj_type ob, abs_deadline = obj_deadline_us ob, abs_value = abs_val C (obj_value ob)\<rparr>"

abbreviation abs_opt ::
  "('o, 'h, 's, 'z) containers \<Rightarrow> ('h, 's, 'z) RedisObject option \<Rightarrow> AbsObject option" where
  "abs_opt C \<equiv> map_option (abs_obj C)"

definition abs_view ::
  "('o, 'h, 's, 'z) containers \<Rightarrow> (string \<Rightarrow> ('h, 's, 'z) RedisObject option) \<Rightarrow> string \<Rightarrow> AbsObject option" where
  "abs_view C v key = abs_opt C (v key)"

definition engine_abs :: "('o, 'h, 's, 'z) containers \<Rightarrow> 'o CacheEngine \<Rightarrow> string \<Rightarrow> AbsObject option" where
  "engine_abs C e key = abs_opt C (engine_view C e key)"

definition slot_abs :: "('o, 'h, 's, 'z) containers \<Rightarrow> 'o HashSlot \<Rightarrow> string \<Rightarrow> AbsObject option" where
  "slot_abs C s key = abs_opt C (slot_view C s key)"

lemma engine_abs_slot: "engine_abs C e key = slot_abs C (KeySlot e key) key"
  by (simp add: engine_abs_def slot_abs_def engine_view_def)

lemma abs_obj_simps [simp]:
  "abs_type (abs_obj C ob) = obj_type ob" "abs_deadline (abs_obj C ob) = obj_deadline_us ob"
  "abs_value (abs_obj C ob) = abs_val C (obj_value ob)"
  by (simp_all add: abs_obj_def)

lemma abs_val_inject [simp]:
  "abs_val C v = AString s \<longleftrightarrow> v = StringVal s"
  "abs_val C (StringVal s) = AString s"
  "abs_val C (HashVal h) = AHash (Map_Find (hashes C) h)"
  "abs_val C (SetVal t) = ASet {x. Set_Contains (sets C) t x}"
  "abs_val C (ZSetVal z) = AZSet (Map_Find (zsets C) z)"
  by (auto simp: abs_val_def split: ObjectValue.splits)

lemma abs_val_cases:
  "abs_val C v = AHash m \<longleftrightarrow> (\<exists>h. v = HashVal h \<and> Map_Find (hashes C) h = m)"
  "abs_val C v = ASet A \<longleftrightarrow> (\<exists>t. v = SetVal t \<and> {x. Set_Contains (sets C) t x} = A)"
  "abs_val C v = AZSet z \<longleftrightarrow> (\<exists>t. v = ZSetVal t \<and> Map_Find (zsets C) t = z)"
  by (auto simp: abs_val_def split: ObjectValue.splits)

lemma abs_obj_eq:
  "abs_obj C a = abs_obj C b \<longleftrightarrow> obj_type a = obj_type b \<and> obj_deadline_us a = obj_deadline_us b \<and>
     abs_val C (obj_value a) = abs_val C (obj_value b)"
  by (auto simp: abs_obj_def)

lemma abs_opt_live: "abs_opt C x = abs_opt C y \<Longrightarrow> abs_opt C (live now x) = abs_opt C (live now y)"
  by (cases x; cases y) (auto simp: live_def IsExpired_def abs_obj_eq)

lemma abs_Get: "engine_abs C e key = engine_abs C e' key \<Longrightarrow>
   abs_opt C (CacheEngine_Get C e key now) = abs_opt C (CacheEngine_Get C e' key now)"
  unfolding CacheEngine_Get_live engine_abs_def by (rule abs_opt_live)

lemma abs_opt_None: "abs_opt C x = abs_opt C y \<Longrightarrow> x = None \<longleftrightarrow> y = None"
  by (metis map_option_is_None)

lemma abs_deadline_of: "abs_opt C x = abs_opt C y \<Longrightarrow> deadline_of x = deadline_of y"
  by (cases x; cases y) (auto simp: deadline_of_def abs_obj_eq)

section \<open>Callbacks that see only the abstract object\<close>

definition same_mutation ::
  "('o, 'h, 's, 'z) containers \<Rightarrow> ('h, 's, 'z) MutationResult \<Rightarrow> ('h, 's, 'z) MutationResult \<Rightarrow> bool" where
  "same_mutation C m m' \<longleftrightarrow> mut_changed m = mut_changed m' \<and>
     abs_opt C (mut_object m) = abs_opt C (mut_object m') \<and> mut_record m = mut_record m'"

definition mutator_respects ::
  "('o, 'h, 's, 'z) containers \<Rightarrow>
   (('h, 's, 'z) RedisObject option \<Rightarrow> ('h, 's, 'z) MutationResult \<times> 'c) \<Rightarrow> bool" where
  "mutator_respects C f \<longleftrightarrow>
     (\<forall>x y. abs_opt C x = abs_opt C y \<longrightarrow> same_mutation C (fst (f x)) (fst (f y)) \<and> snd (f x) = snd (f y))"

definition updater_respects ::
  "('o, 'h, 's, 'z) containers \<Rightarrow>
   (('h, 's, 'z) RedisObject option \<Rightarrow> ('h, 's, 'z) RedisObject option \<times> 'c) \<Rightarrow> bool" where
  "updater_respects C f \<longleftrightarrow>
     (\<forall>x y. abs_opt C x = abs_opt C y \<longrightarrow> abs_opt C (fst (f x)) = abs_opt C (fst (f y)) \<and> snd (f x) = snd (f y))"

text \<open>
  Two runs of a command on engines that agree at the key: the same reply, and either nothing is
  written or both commit the same abstract object with the same record.
\<close>

definition twins ::
  "('o, 'h, 's, 'z) containers \<Rightarrow> string \<Rightarrow> BinlogRecord \<Rightarrow> u64 \<Rightarrow>
   'o CacheEngine \<times> 'o CacheEngine \<Rightarrow> 'o CacheEngine \<times> 'o CacheEngine \<Rightarrow> bool" where
  "twins C key r now es es' \<longleftrightarrow>
     es' = es \<or>
     (\<exists>x y. es' = (commit C (fst es) key x r now, commit C (snd es) key y r now) \<and> abs_opt C x = abs_opt C y \<and>
        (x = None \<longrightarrow> engine_view C (fst es) key \<noteq> None \<and> engine_view C (snd es) key \<noteq> None))"

lemma twins_same [simp]: "twins C key r now es es"
  by (simp add: twins_def)

lemma twins_commit:
  assumes "abs_opt C x = abs_opt C y" and "x = None \<Longrightarrow> engine_view C e key \<noteq> None \<and> engine_view C e' key \<noteq> None"
  shows "twins C key r now (e, e') (commit C e key x r now, commit C e' key y r now)"
  unfolding twins_def using assms by auto

context imt_lib begin

lemma commit_abs:
  assumes "x = None \<Longrightarrow> engine_view C e key \<noteq> None"
  shows "engine_abs C (commit C e key x r now) = (engine_abs C e)(key := abs_opt C x)"
  using assms by (auto simp: engine_abs_def fun_eq_iff)

lemma twins_Mutate:
  assumes "mutator_respects C f" and "engine_abs C e key = engine_abs C e' key"
    and "\<And>x. mut_record (fst (f x)) = None"
  shows "twins C key r now (e, e') (fst (CacheEngine_Mutate C e key f r now), fst (CacheEngine_Mutate C e' key f r now)) \<and>
    snd (snd (CacheEngine_Mutate C e key f r now)) = snd (snd (CacheEngine_Mutate C e' key f r now))"
proof -
  let ?x = "CacheEngine_Get C e key now" and ?y = "CacheEngine_Get C e' key now"
  have abs: "abs_opt C ?x = abs_opt C ?y" using abs_Get [OF assms(2)] .
  then have same: "same_mutation C (fst (f ?x)) (fst (f ?y))" "snd (f ?x) = snd (f ?y)"
    using assms(1) unfolding mutator_respects_def by blast+
  have none: "?x = None \<longleftrightarrow> ?y = None" by (rule abs_opt_None [OF abs])
  have none': "mut_object (fst (f ?x)) = None \<longleftrightarrow> mut_object (fst (f ?y)) = None"
    using same(1) by (auto simp: same_mutation_def intro: abs_opt_None)
  have eff: "mutation_effect ?x (fst (f ?x)) = None \<longleftrightarrow> mutation_effect ?y (fst (f ?y)) = None"
    using same(1) none none' by (auto simp: mutation_effect_def same_mutation_def)
  show ?thesis
  proof (cases "mutation_effect ?x (fst (f ?x))")
    case None
    with eff same(2) show ?thesis by (simp add: Mutate_eq Let_def)
  next
    case (Some x)
    with eff obtain y where y: "mutation_effect ?y (fst (f ?y)) = Some y" by auto
    have "abs_opt C x = abs_opt C y"
      using Some y same(1) by (auto simp: mutation_effect_def same_mutation_def split: if_splits)
    moreover have "x = None \<Longrightarrow> ?x \<noteq> None" using Some by (auto simp: mutation_effect_def split: if_splits)
    then have "x = None \<Longrightarrow> engine_view C e key \<noteq> None \<and> engine_view C e' key \<noteq> None"
      using none CacheEngine_Get_Some [of C e key now] CacheEngine_Get_Some [of C e' key now] by auto
    moreover have "mutation_log_record r (fst (f z)) = r" for z using assms(3) by (simp add: mutation_log_record_def)
    ultimately show ?thesis using Some y same(2) by (simp add: Mutate_eq Let_def twins_commit)
  qed
qed

lemma twins_Update:
  assumes "updater_respects C f" and "engine_abs C e key = engine_abs C e' key"
  shows "twins C key r now (e, e') (fst (CacheEngine_Update C e key f r now), fst (CacheEngine_Update C e' key f r now)) \<and>
    snd (snd (CacheEngine_Update C e key f r now)) = snd (snd (CacheEngine_Update C e' key f r now))"
proof -
  let ?x = "CacheEngine_Get C e key now" and ?y = "CacheEngine_Get C e' key now"
  have "abs_opt C ?x = abs_opt C ?y" using abs_Get [OF assms(2)] .
  then have "abs_opt C (fst (f ?x)) = abs_opt C (fst (f ?y))" "snd (f ?x) = snd (f ?y)"
    using assms(1) unfolding updater_respects_def by blast+
  then show ?thesis
    by (cases "fst (f ?x)"; cases "fst (f ?y)") (auto simp: Update_eq Let_def intro!: twins_commit)
qed

end

end
