(* ===== verification/CommandTwins.thy ===== *)
theory CommandTwins
  imports CommandDispatcher ObjectAbs
begin

text \<open>
  The writing commands see only abstract objects: run on two engines that agree at the key, a
  command gives the same reply and commits the same abstract object with the same record. This is
  what makes a logged command replayable.
\<close>

section \<open>Callbacks\<close>

named_theorems respects \<open>callbacks that depend on the abstract object only\<close>

lemma ReadStringObject_abs:
  "abs_opt C x = abs_opt C y \<Longrightarrow> ReadStringObject x = ReadStringObject y"
  by (cases x; cases y)
    (auto simp: ReadStringObject_def accessor_defs abs_obj_eq abs_val_def split: ObjectValue.splits)

lemma updater_respectsI:
  assumes "\<And>x y. abs_opt C x = abs_opt C y \<Longrightarrow> f x = f y"
  shows "updater_respects C f"
  unfolding updater_respects_def by (intro allI impI, drule assms) simp

lemma abs_opt_cases:
  assumes "abs_opt C x = abs_opt C y"
  obtains "x = None" "y = None"
  | a b where "x = Some a" "y = Some b" "abs_obj C a = abs_obj C b" "DeadlineUs a = DeadlineUs b"
      "ReadStringObject (Some a) = ReadStringObject (Some b)"
  using assms ReadStringObject_abs [of C x y] by (cases x; cases y) (auto simp: abs_obj_eq DeadlineUs_def)

lemma SetCmd_updater_respects [respects]: "updater_respects C (SetCmd_updater options v)"
  by (rule updater_respectsI, erule abs_opt_cases) (simp_all only: SetCmd_updater_def option.simps)

lemma IntegerMutation_updater_respects [respects]: "updater_respects C (IntegerMutation_updater n mode)"
  by (rule updater_respectsI, erule abs_opt_cases) (simp_all only: IntegerMutation_updater_def option.simps)

lemma SetNx_respects [respects]:
  "updater_respects C (\<lambda>x. if x \<noteq> None then (None, False) else (Some (MakeString v), True))"
  by (rule updater_respectsI, erule abs_opt_cases) simp_all

lemma GetSet_respects [respects]:
  "updater_respects C (\<lambda>x. let read = ReadStringObject x
     in if x \<noteq> None \<and> read_status read = kWrongTypeRead then (None, True, None)
        else (Some (MakeString v), False, if x \<noteq> None then Some (read_value read) else None))"
  by (rule updater_respectsI, erule abs_opt_cases) (simp_all only: option.simps)

lemma Append_respects [respects]:
  "updater_respects C (\<lambda>x. let read = ReadStringObject x
     in if x \<noteq> None \<and> read_status read = kWrongTypeRead then (None, True, 0)
        else let next = (if x \<noteq> None then read_value read else []) @ v;
                 deadline_us = (if x \<noteq> None then read_deadline_us read else 0);
                 object = MakeString next
             in (Some (if deadline_us \<noteq> 0 then WithDeadline object deadline_us else object), False, int (length next)))"
  by (rule updater_respectsI, erule abs_opt_cases) (simp_all only: option.simps)

context imt_lib begin

lemma hash_to_update_abs:
  assumes "abs_opt C x = abs_opt C y"
  obtains "hash_to_update C x = None" "hash_to_update C y = None"
  | h h' d where "hash_to_update C x = Some (h, d)" "hash_to_update C y = Some (h', d)"
      "Map_Find (hashes C) h = Map_Find (hashes C) h'"
proof -
  have "(hash_to_update C x = None \<and> hash_to_update C y = None) \<or>
      (\<exists>h h' d. hash_to_update C x = Some (h, d) \<and> hash_to_update C y = Some (h', d) \<and>
        Map_Find (hashes C) h = Map_Find (hashes C) h')"
    using assms
    by (cases x; cases y)
      (auto simp: hash_to_update_def accessor_defs abs_obj_eq abs_val_def split: ObjectValue.splits)
  then show ?thesis using that by blast
qed

lemma set_to_update_abs:
  assumes "abs_opt C x = abs_opt C y"
  obtains "set_to_update C x = None" "set_to_update C y = None"
  | s s' d where "set_to_update C x = Some (s, d)" "set_to_update C y = Some (s', d)"
      "Set_Contains (sets C) s = Set_Contains (sets C) s'"
proof -
  have "(set_to_update C x = None \<and> set_to_update C y = None) \<or>
      (\<exists>s s' d. set_to_update C x = Some (s, d) \<and> set_to_update C y = Some (s', d) \<and>
        Set_Contains (sets C) s = Set_Contains (sets C) s')"
    using assms
    by (cases x; cases y)
      (auto simp: set_to_update_def accessor_defs abs_obj_eq abs_val_def set_eq_iff fun_eq_iff split: ObjectValue.splits)
  then show ?thesis using that by blast
qed

lemma zset_to_update_abs:
  assumes "abs_opt C x = abs_opt C y"
  obtains "zset_to_update C x = None" "zset_to_update C y = None"
  | z z' d where "zset_to_update C x = Some (z, d)" "zset_to_update C y = Some (z', d)"
      "Map_Find (zsets C) z = Map_Find (zsets C) z'"
proof -
  have "(zset_to_update C x = None \<and> zset_to_update C y = None) \<or>
      (\<exists>z z' d. zset_to_update C x = Some (z, d) \<and> zset_to_update C y = Some (z', d) \<and>
        Map_Find (zsets C) z = Map_Find (zsets C) z')"
    using assms
    by (cases x; cases y)
      (auto simp: zset_to_update_def accessor_defs abs_obj_eq abs_val_def split: ObjectValue.splits)
  then show ?thesis using that by blast
qed

lemma abs_made [simp]:
  "abs_obj C (HashObjectWithDeadline h d) = \<lparr>abs_type = kHash, abs_deadline = d, abs_value = AHash (Map_Find (hashes C) h)\<rparr>"
  "abs_obj C (set_object s d) = \<lparr>abs_type = kSet, abs_deadline = d, abs_value = ASet {x. Set_Contains (sets C) s x}\<rparr>"
  "abs_obj C (ZSetPreserveDeadline (MakeZSet z) d) = \<lparr>abs_type = kZSet, abs_deadline = d, abs_value = AZSet (Map_Find (zsets C) z)\<rparr>"
  by (simp_all add: HashObjectWithDeadline_def set_object_def ZSetPreserveDeadline_def abs_obj_def Let_def)

lemma ApplyFieldValuePairs_abs:
  assumes "Map_Find (hashes C) h = Map_Find (hashes C) h'"
  obtains g g' k where "ApplyFieldValuePairs (hashes C) xs (h, n) = (g, k)" "ApplyFieldValuePairs (hashes C) xs (h', n) = (g', k)"
    "Map_Find (hashes C) g = Map_Find (hashes C) g'"
  using assms
proof (induction "hashes C" xs "(h, n)" arbitrary: h h' n thesis rule: ApplyFieldValuePairs.induct)
  case (1 field v rest h n)
  have "Map_Find (hashes C) (Map_Set (hashes C) h field v) = Map_Find (hashes C) (Map_Set (hashes C) h' field v)"
    using 1(3) by (simp add: hm.find_set fun_eq_iff)
  from 1(1) [OF _ this] 1(2,3) show ?case by auto
qed auto

lemma foldl_rel:
  assumes "\<And>s t a. R s t \<Longrightarrow> R (f s a) (g t a)" and "R s t"
  shows "R (foldl f s xs) (foldl g t xs)"
  using assms(2) by (induction xs arbitrary: s t) (simp_all add: assms(1))

lemma map_erase_rel:
  assumes "Map_Find (hashes C) h = Map_Find (hashes C) h'"
  shows "rel_option (\<lambda>h h'. Map_Find (hashes C) h = Map_Find (hashes C) h')
    (Map_Erase (hashes C) h k) (Map_Erase (hashes C) h' k)"
  using assms hm.erase_None [of h k] hm.erase_None [of h' k]
  by (cases "Map_Erase (hashes C) h k"; cases "Map_Erase (hashes C) h' k") (auto simp: hm.erase_Some fun_eq_iff)

lemma zset_erase_rel:
  assumes "Map_Find (zsets C) z = Map_Find (zsets C) z'"
  shows "rel_option (\<lambda>z z'. Map_Find (zsets C) z = Map_Find (zsets C) z')
    (Map_Erase (zsets C) z k) (Map_Erase (zsets C) z' k)"
  using assms zm.erase_None [of z k] zm.erase_None [of z' k]
  by (cases "Map_Erase (zsets C) z k"; cases "Map_Erase (zsets C) z' k") (auto simp: zm.erase_Some fun_eq_iff)

lemma set_erase_rel:
  assumes "Set_Contains (sets C) s = Set_Contains (sets C) s'"
  shows "rel_option (\<lambda>s s'. Set_Contains (sets C) s = Set_Contains (sets C) s')
    (Set_Erase (sets C) s k) (Set_Erase (sets C) s' k)"
  using assms sm.set_erase_None [of s k] sm.set_erase_None [of s' k]
  by (cases "Set_Erase (sets C) s k"; cases "Set_Erase (sets C) s' k") (auto simp: sm.set_erase_Some fun_eq_iff)

lemma HSet_respects [respects]:
  "updater_respects C (\<lambda>x. case hash_to_update C x of
     None \<Rightarrow> (None, True, 0)
   | Some (hash, deadline_us) \<Rightarrow>
       let (hash', added) = ApplyFieldValuePairs (hashes C) xs (hash, 0)
       in (Some (HashObjectWithDeadline hash' deadline_us), False, added))" (is "updater_respects C ?f")
  "updater_respects C (\<lambda>x. case hash_to_update C x of
     None \<Rightarrow> (None, True)
   | Some (hash, deadline_us) \<Rightarrow>
       let (hash', added) = ApplyFieldValuePairs (hashes C) xs (hash, 0)
       in (Some (HashObjectWithDeadline hash' deadline_us), False))" (is "updater_respects C ?g")
proof -
  have "(abs_opt C (fst (?f x)) = abs_opt C (fst (?f y)) \<and> snd (?f x) = snd (?f y)) \<and>
      (abs_opt C (fst (?g x)) = abs_opt C (fst (?g y)) \<and> snd (?g x) = snd (?g y))"
    if "abs_opt C x = abs_opt C y" for x y
    using that
  proof (cases rule: hash_to_update_abs)
    case (2 h h' d)
    from ApplyFieldValuePairs_abs [OF 2(3), of xs 0] obtain g g' k where
      "ApplyFieldValuePairs (hashes C) xs (h, 0) = (g, k)" "ApplyFieldValuePairs (hashes C) xs (h', 0) = (g', k)"
      "Map_Find (hashes C) g = Map_Find (hashes C) g'" .
    with 2 show ?thesis by simp
  qed simp
  then show "updater_respects C ?f" "updater_respects C ?g" unfolding updater_respects_def by blast+
qed

lemma HIncrBy_respects [respects]: "updater_respects C (HIncrByCmd_updater C field n)"
proof -
  have "abs_opt C (fst (HIncrByCmd_updater C field n x)) = abs_opt C (fst (HIncrByCmd_updater C field n y)) \<and>
      snd (HIncrByCmd_updater C field n x) = snd (HIncrByCmd_updater C field n y)"
    if "abs_opt C x = abs_opt C y" for x y
    using that
  proof (cases rule: hash_to_update_abs)
    case (2 h h' d)
    then have "Map_Find (hashes C) (Map_Set (hashes C) h field v) = Map_Find (hashes C) (Map_Set (hashes C) h' field v)" for v
      by (simp add: hm.find_set fun_eq_iff)
    with 2 show ?thesis by (auto simp: HIncrByCmd_updater_def Let_def split: option.splits)
  qed (simp add: HIncrByCmd_updater_def)
  then show ?thesis unfolding updater_respects_def by blast
qed

lemma rel_prod_obtain:
  assumes "rel_prod R (=) p q"
  obtains a b k where "p = (a, k)" "q = (b, k)" "R a b"
  using assms by (cases p; cases q) auto

abbreviation same_hash :: "'h \<Rightarrow> 'h \<Rightarrow> bool" where
  "same_hash h h' \<equiv> Map_Find (hashes C) h = Map_Find (hashes C) h'"

abbreviation same_set :: "'s \<Rightarrow> 's \<Rightarrow> bool" where
  "same_set s s' \<equiv> Set_Contains (sets C) s = Set_Contains (sets C) s'"

abbreviation same_zset :: "'z \<Rightarrow> 'z \<Rightarrow> bool" where
  "same_zset z z' \<equiv> Map_Find (zsets C) z = Map_Find (zsets C) z'"

lemma HDelCmd_loop_abs:
  "same_hash h h' \<Longrightarrow> rel_prod same_hash (=) (HDelCmd_loop (hashes C) xs (h, n)) (HDelCmd_loop (hashes C) xs (h', n))"
  unfolding HDelCmd_loop_def
proof (rule foldl_rel, goal_cases)
  case (1 s t field)
  then show ?case
    using map_erase_rel [of "fst s" "fst t" field] by (cases s; cases t) (auto elim!: option.rel_cases)
qed simp

lemma SAddCmd_loop_abs:
  "same_set s s' \<Longrightarrow> rel_prod same_set (=) (SAddCmd_loop (sets C) xs (s, n)) (SAddCmd_loop (sets C) xs (s', n))"
  unfolding SAddCmd_loop_def
  by (rule foldl_rel) (auto simp: sm.contains_add fun_eq_iff)

lemma SRemCmd_loop_abs:
  "same_set s s' \<Longrightarrow> rel_prod same_set (=) (SRemCmd_loop (sets C) xs (s, n)) (SRemCmd_loop (sets C) xs (s', n))"
  unfolding SRemCmd_loop_def
proof (rule foldl_rel, goal_cases)
  case (1 s t x)
  then show ?case
    using set_erase_rel [of "fst s" "fst t" x] by (cases s; cases t) (auto elim!: option.rel_cases)
qed simp

lemma ZRemCmd_loop_abs:
  "same_zset z z' \<Longrightarrow> rel_prod same_zset (=) (ZRemCmd_loop (zsets C) xs (z, n)) (ZRemCmd_loop (zsets C) xs (z', n))"
  unfolding ZRemCmd_loop_def
proof (rule foldl_rel, goal_cases)
  case (1 s t x)
  then show ?case
    using zset_erase_rel [of "fst s" "fst t" x] by (cases s; cases t) (auto elim!: option.rel_cases)
qed simp

lemma ZAdd_loop_abs:
  "same_zset z z' \<Longrightarrow> rel_prod same_zset (=) (foldl (ZAdd_step (zsets C) options) (z, n) xs) (foldl (ZAdd_step (zsets C) options) (z', n) xs)"
proof (rule foldl_rel, goal_cases)
  case (1 s t x)
  then show ?case
    by (cases s; cases t) (auto simp: ZAdd_step_def zm.find_set fun_eq_iff split: option.splits)
qed simp

lemma SAdd_respects [respects]:
  "updater_respects C (\<lambda>x. case set_to_update C x of
     None \<Rightarrow> (None, True, 0)
   | Some (s, deadline_us) \<Rightarrow>
       let (next, added_count) = SAddCmd_loop (sets C) xs (s, 0)
       in if added_count = 0 then (None, False, added_count)
          else (Some (set_object next deadline_us), False, added_count))" (is "updater_respects C ?f")
proof -
  have "abs_opt C (fst (?f x)) = abs_opt C (fst (?f y)) \<and> snd (?f x) = snd (?f y)"
    if "abs_opt C x = abs_opt C y" for x y
    using that
  proof (cases rule: set_to_update_abs)
    case (2 s s' d)
    from SAddCmd_loop_abs [OF 2(3), of xs 0] show ?thesis by (rule rel_prod_obtain) (use 2 in simp)
  qed simp
  then show ?thesis unfolding updater_respects_def by blast
qed

lemma mutator_respectsI:
  assumes "f None = (mutation False None, c)"
    and "\<And>a b. abs_obj C a = abs_obj C b \<Longrightarrow> same_mutation C (fst (f (Some a))) (fst (f (Some b))) \<and> snd (f (Some a)) = snd (f (Some b))"
  shows "mutator_respects C f"
proof -
  have "same_mutation C (fst (f x)) (fst (f y)) \<and> snd (f x) = snd (f y)" if "abs_opt C x = abs_opt C y" for x y
  proof (cases x)
    case None
    with that show ?thesis by (simp add: assms(1) same_mutation_def)
  next
    case (Some a)
    with that obtain b where "y = Some b" "abs_obj C a = abs_obj C b" by (cases y) auto
    with assms(2) [of a b] Some show ?thesis by simp
  qed
  then show ?thesis unfolding mutator_respects_def by blast
qed

lemma HDel_respects [respects]: "mutator_respects C (HDelCmd_mutator C xs)"
proof (rule mutator_respectsI)
  fix a b :: "('h, 's, 'z) RedisObject"
  assume "abs_obj C a = abs_obj C b"
  then have ab: "abs_opt C (Some a) = abs_opt C (Some b)" by simp
  then show "same_mutation C (fst (HDelCmd_mutator C xs (Some a))) (fst (HDelCmd_mutator C xs (Some b))) \<and>
      snd (HDelCmd_mutator C xs (Some a)) = snd (HDelCmd_mutator C xs (Some b))"
  proof (cases rule: hash_to_update_abs)
    case 1
    then show ?thesis
      by (auto simp: hash_to_update_def HDelCmd_mutator_def same_mutation_def split: if_splits)
  next
    case (2 h h' d)
    from HDelCmd_loop_abs [OF 2(3), of xs 0] show ?thesis
      by (rule rel_prod_obtain)
        (use 2 in \<open>auto simp: hash_to_update_def HDelCmd_mutator_def same_mutation_def hm.empty_iff split: if_splits\<close>)
  qed
qed (simp add: HDelCmd_mutator_def)

lemma SRem_respects [respects]: "mutator_respects C (SRemCmd_mutator C xs)"
proof (rule mutator_respectsI)
  fix a b :: "('h, 's, 'z) RedisObject"
  assume "abs_obj C a = abs_obj C b"
  then have ab: "abs_opt C (Some a) = abs_opt C (Some b)" by simp
  then show "same_mutation C (fst (SRemCmd_mutator C xs (Some a))) (fst (SRemCmd_mutator C xs (Some b))) \<and>
      snd (SRemCmd_mutator C xs (Some a)) = snd (SRemCmd_mutator C xs (Some b))"
  proof (cases rule: set_to_update_abs)
    case 1
    then show ?thesis
      by (auto simp: set_to_update_def SRemCmd_mutator_def same_mutation_def split: if_splits)
  next
    case (2 s s' d)
    from SRemCmd_loop_abs [OF 2(3), of xs 0] show ?thesis
      by (rule rel_prod_obtain)
        (use 2 in \<open>auto simp: set_to_update_def SRemCmd_mutator_def same_mutation_def sm.set_empty_iff split: if_splits\<close>)
  qed
qed (simp add: SRemCmd_mutator_def)

lemma ZRem_respects [respects]: "mutator_respects C (ZRemCmd_mutator C xs)"
proof (rule mutator_respectsI)
  fix a b :: "('h, 's, 'z) RedisObject"
  assume "abs_obj C a = abs_obj C b"
  then have ab: "abs_opt C (Some a) = abs_opt C (Some b)" by simp
  then show "same_mutation C (fst (ZRemCmd_mutator C xs (Some a))) (fst (ZRemCmd_mutator C xs (Some b))) \<and>
      snd (ZRemCmd_mutator C xs (Some a)) = snd (ZRemCmd_mutator C xs (Some b))"
  proof (cases rule: zset_to_update_abs)
    case 1
    then show ?thesis
      by (auto simp: zset_to_update_def ZRemCmd_mutator_def same_mutation_def split: if_splits)
  next
    case (2 z z' d)
    from ZRemCmd_loop_abs [OF 2(3), of xs 0] show ?thesis
      by (rule rel_prod_obtain)
        (use 2 in \<open>auto simp: zset_to_update_def ZRemCmd_mutator_def same_mutation_def zm.empty_iff split: if_splits\<close>)
  qed
qed (simp add: ZRemCmd_mutator_def)

lemma ZAdd_respects [respects]: "mutator_respects C (ZAddCmd_mutator C options inputs)"
proof -
  have "same_mutation C (fst (ZAddCmd_mutator C options inputs x)) (fst (ZAddCmd_mutator C options inputs y)) \<and>
      snd (ZAddCmd_mutator C options inputs x) = snd (ZAddCmd_mutator C options inputs y)"
    if "abs_opt C x = abs_opt C y" for x y
    using that
  proof (cases rule: zset_to_update_abs)
    case (2 z z' d)
    from ZAdd_loop_abs [OF 2(3), of options "(0, 0, False)" inputs] show ?thesis
      by (rule rel_prod_obtain)
        (use 2 in \<open>auto simp: ZAddCmd_mutator_def same_mutation_def case_prod_beta Let_def\<close>)
  qed (simp add: ZAddCmd_mutator_def same_mutation_def)
  then show ?thesis unfolding mutator_respects_def by blast
qed

lemma rel_prod_if:
  "(b \<Longrightarrow> rel_prod R S p q) \<Longrightarrow> (\<not> b \<Longrightarrow> rel_prod R S p' q') \<Longrightarrow>
   rel_prod R S (if b then p else p') (if b then q else q')"
  by simp

lemma ZIncr_respects [respects]: "mutator_respects C (IncrementZSetMember_mutator C inc m options)"
proof -
  have "rel_prod (same_mutation C) (=) (IncrementZSetMember_mutator C inc m options x) (IncrementZSetMember_mutator C inc m options y)"
    if "abs_opt C x = abs_opt C y" for x y
    using that
  proof (cases rule: zset_to_update_abs)
    case (2 z z' d)
    then have "Map_Find (zsets C) (Map_Set (zsets C) z m v) = Map_Find (zsets C) (Map_Set (zsets C) z' m v)" for v
      by (simp add: zm.find_set fun_eq_iff)
    with 2 show ?thesis
      unfolding IncrementZSetMember_mutator_def Let_def 2 option.case prod.case
      by (intro rel_prod_if) (simp_all add: same_mutation_def)
  qed (simp add: IncrementZSetMember_mutator_def same_mutation_def)
  then show ?thesis unfolding mutator_respects_def by (metis rel_prod_sel)
qed

end

section \<open>Commands\<close>

definition cmd_twins ::
  "('o, 'h, 's, 'z) containers \<Rightarrow> string \<Rightarrow>
   (string list \<Rightarrow> 'o CacheEngine \<Rightarrow> u64 \<Rightarrow> 'o CacheEngine \<times> Response) \<Rightarrow> bool" where
  "cmd_twins C name cmd \<longleftrightarrow>
     (\<forall>a as e e' now. ToUpperAscii a = name \<and> engine_abs C e (as ! 0) = engine_abs C e' (as ! 0) \<longrightarrow>
        twins C (as ! 0) (new_record\<lparr>rec_args := name # as\<rparr>) now (e, e') (fst (cmd (a # as) e now), fst (cmd (a # as) e' now)) \<and>
        snd (cmd (a # as) e now) = snd (cmd (a # as) e' now))"

named_theorems command_twins \<open>commands that run alike on engines that agree at the key\<close>

lemma MakeRecord_Cons [simp]:
  "MakeRecord name (a # as) = new_record\<lparr>rec_args := ToUpperAscii name # as\<rparr>"
  "HashMakeRecord (a # as) name = new_record\<lparr>rec_args := name # as\<rparr>"
  "ZSetMakeRecord (a # as) = new_record\<lparr>rec_args := ToUpperAscii a # as\<rparr>"
  by (simp_all add: MakeRecord_def HashMakeRecord_def ZSetMakeRecord_def)

lemma args_Cons:
  "(a # as) ! 1 = as ! 0" "(a # as) ! 2 = as ! 1" "(a # as) ! 3 = as ! 2" "drop 1 (a # as) = as" "drop 2 (a # as) = drop 1 as"
  by simp_all

lemma upper_names [simp]:
  "ToUpperAscii ''SET'' = ''SET''" "ToUpperAscii ''SETNX'' = ''SETNX''" "ToUpperAscii ''GETSET'' = ''GETSET''"
  "ToUpperAscii ''APPEND'' = ''APPEND''" "ToUpperAscii ''SADD'' = ''SADD''" "ToUpperAscii ''SREM'' = ''SREM''"
  "ToUpperAscii ''DEL'' = ''DEL''" "ToUpperAscii ''EXPIRE'' = ''EXPIRE''"
  by code_simp+

context imt_lib begin

lemma cmd_twins_Update:
  assumes "\<And>a as e now. ToUpperAscii a = name \<Longrightarrow>
      cmd (a # as) e now = (let (e', wr, c) = CacheEngine_Update C e (as ! 0) (f as now) (new_record\<lparr>rec_args := name # as\<rparr>) now
                            in (e', reply as now c))"
    and "\<And>as now. updater_respects C (f as now)"
  shows "cmd_twins C name cmd"
  unfolding cmd_twins_def
proof (intro allI impI, elim conjE)
  fix a as e e' now
  assume "ToUpperAscii a = name" "engine_abs C e (as ! 0) = engine_abs C e' (as ! 0)"
  with twins_Update [OF assms(2) this(2), where r = "new_record\<lparr>rec_args := name # as\<rparr>" and now = now]
  show "twins C (as ! 0) (new_record\<lparr>rec_args := name # as\<rparr>) now (e, e') (fst (cmd (a # as) e now), fst (cmd (a # as) e' now)) \<and>
      snd (cmd (a # as) e now) = snd (cmd (a # as) e' now)"
    by (simp add: assms(1) case_prod_beta Let_def)
qed

lemma cmd_twins_Mutate:
  assumes "\<And>a as e now. ToUpperAscii a = name \<Longrightarrow>
      cmd (a # as) e now = (let (e', wr, c) = CacheEngine_Mutate C e (as ! 0) (f as now) (new_record\<lparr>rec_args := name # as\<rparr>) now
                            in (e', reply as now c))"
    and "\<And>as now. mutator_respects C (f as now)" and "\<And>as now x. mut_record (fst (f as now x)) = None"
  shows "cmd_twins C name cmd"
  unfolding cmd_twins_def
proof (intro allI impI, elim conjE)
  fix a as e e' now
  assume "ToUpperAscii a = name" "engine_abs C e (as ! 0) = engine_abs C e' (as ! 0)"
  with twins_Mutate [OF assms(2) this(2) assms(3), where r = "new_record\<lparr>rec_args := name # as\<rparr>" and now = now]
  show "twins C (as ! 0) (new_record\<lparr>rec_args := name # as\<rparr>) now (e, e') (fst (cmd (a # as) e now), fst (cmd (a # as) e' now)) \<and>
      snd (cmd (a # as) e now) = snd (cmd (a # as) e' now)"
    by (simp add: assms(1) case_prod_beta Let_def)
qed

text \<open>A command may first read its arguments and answer an error without touching the engine.\<close>

lemma cmd_twinsI:
  assumes "\<And>a as e e' now. ToUpperAscii a = name \<Longrightarrow> engine_abs C e (as ! 0) = engine_abs C e' (as ! 0) \<Longrightarrow>
      twins C (as ! 0) (new_record\<lparr>rec_args := name # as\<rparr>) now (e, e') (fst (cmd (a # as) e now), fst (cmd (a # as) e' now)) \<and>
      snd (cmd (a # as) e now) = snd (cmd (a # as) e' now)"
  shows "cmd_twins C name cmd"
  unfolding cmd_twins_def using assms by blast

lemma run_twins_Update:
  assumes "updater_respects C f" and "engine_abs C e key = engine_abs C e' key"
    and "\<And>d. run d = (let (d', wr, c) = CacheEngine_Update C d key f r now in (d', reply c))"
  shows "twins C key r now (e, e') (fst (run e), fst (run e')) \<and> snd (run e) = snd (run e')"
  using twins_Update [OF assms(1,2), of r now] by (simp add: assms(3) case_prod_beta)

lemma run_twins_Mutate:
  assumes "mutator_respects C f" and "engine_abs C e key = engine_abs C e' key" and "\<And>x. mut_record (fst (f x)) = None"
    and "\<And>d. run d = (let (d', wr, c) = CacheEngine_Mutate C d key f r now in (d', reply c))"
  shows "twins C key r now (e, e') (fst (run e), fst (run e')) \<and> snd (run e) = snd (run e')"
  using twins_Mutate [OF assms(1,2,3), of r now] by (simp add: assms(4) case_prod_beta)

lemma twins_SetNx [command_twins]: "cmd_twins C ''SETNX'' (SetNxCmd_ExecCmd C)"
  by (rule cmd_twins_Update [where f = "\<lambda>as now. \<lambda>x. if x \<noteq> None then (None, False) else (Some (MakeString (as ! 1)), True)"
        and reply = "\<lambda>as now. \<lambda>c. Integer (if c then 1 else 0)"], unfold SetNxCmd_ExecCmd_def args_Cons, simp add: case_prod_beta, rule respects)

lemma twins_GetSet [command_twins]: "cmd_twins C ''GETSET'' (GetSetCmd_ExecCmd C)"
  by (rule cmd_twins_Update [where f = "\<lambda>as now. \<lambda>x. let read = ReadStringObject x
          in if x \<noteq> None \<and> read_status read = kWrongTypeRead then (None, True, None)
             else (Some (MakeString (as ! 1)), False, if x \<noteq> None then Some (read_value read) else None)"
        and reply = "\<lambda>as now. \<lambda>(wrong_type, old). if wrong_type then Error kWrongTypeError else case old of None \<Rightarrow> NullBulk | Some v \<Rightarrow> BulkString v"], unfold GetSetCmd_ExecCmd_def args_Cons, simp add: case_prod_beta, rule respects)

lemma twins_Append [command_twins]: "cmd_twins C ''APPEND'' (AppendCmd_ExecCmd C)"
  by (rule cmd_twins_Update [where f = "\<lambda>as now. \<lambda>x. let read = ReadStringObject x
          in if x \<noteq> None \<and> read_status read = kWrongTypeRead then (None, True, 0)
             else let next = (if x \<noteq> None then read_value read else []) @ as ! 1;
                      deadline_us = (if x \<noteq> None then read_deadline_us read else 0);
                      object = MakeString next
                  in (Some (if deadline_us \<noteq> 0 then WithDeadline object deadline_us else object), False, int (length next))"
        and reply = "\<lambda>as now. \<lambda>(wrong_type, len). if wrong_type then Error kWrongTypeError else Integer len"], unfold AppendCmd_ExecCmd_def args_Cons, simp add: case_prod_beta, rule respects)

lemma twins_HSet [command_twins]: "cmd_twins C ''HSET'' (HSetCmd_ExecCmd C)"
  by (rule cmd_twins_Update [where f = "\<lambda>as now. \<lambda>x. case hash_to_update C x of
            None \<Rightarrow> (None, True, 0)
          | Some (hash, deadline_us) \<Rightarrow>
              let (hash', added) = ApplyFieldValuePairs (hashes C) (drop 1 as) (hash, 0)
              in (Some (HashObjectWithDeadline hash' deadline_us), False, added)"
        and reply = "\<lambda>as now. \<lambda>(wrong_type, n). if wrong_type then Error kWrongTypeError else Integer n"], unfold HSetCmd_ExecCmd_def args_Cons, simp add: case_prod_beta, rule respects)

lemma twins_HMSet [command_twins]: "cmd_twins C ''HMSET'' (HMSetCmd_ExecCmd C)"
  by (rule cmd_twins_Update [where f = "\<lambda>as now. \<lambda>x. case hash_to_update C x of
            None \<Rightarrow> (None, True)
          | Some (hash, deadline_us) \<Rightarrow>
              let (hash', added) = ApplyFieldValuePairs (hashes C) (drop 1 as) (hash, 0)
              in (Some (HashObjectWithDeadline hash' deadline_us), False)"
        and reply = "\<lambda>as now. \<lambda>wrong_type. if wrong_type then Error kWrongTypeError else SimpleString ''OK''"], unfold HMSetCmd_ExecCmd_def args_Cons, simp add: case_prod_beta, rule respects)

lemma twins_SAdd [command_twins]: "cmd_twins C ''SADD'' (SAddCmd_ExecCmd C)"
  by (rule cmd_twins_Update [where f = "\<lambda>as now. \<lambda>x. case set_to_update C x of
            None \<Rightarrow> (None, True, 0)
          | Some (s, deadline_us) \<Rightarrow>
              let (next, added_count) = SAddCmd_loop (sets C) (drop 1 as) (s, 0)
              in if added_count = 0 then (None, False, added_count)
                 else (Some (set_object next deadline_us), False, added_count)"
        and reply = "\<lambda>as now. \<lambda>(wrong_type, n). if wrong_type then Error kWrongTypeError else Integer n"], unfold SAddCmd_ExecCmd_def args_Cons, simp add: case_prod_beta, rule respects)

lemma twins_HDel [command_twins]: "cmd_twins C ''HDEL'' (HDelCmd_ExecCmd C)"
  by (rule cmd_twins_Mutate [where f = "\<lambda>as now. HDelCmd_mutator C (drop 1 as)"
        and reply = "\<lambda>as now. \<lambda>(wrong_type, n). if wrong_type then Error kWrongTypeError else Integer n"], unfold HDelCmd_ExecCmd_def args_Cons, simp add: case_prod_beta, rule respects,
      simp add: HDelCmd_mutator_def case_prod_beta Let_def split: option.splits)

lemma twins_SRem [command_twins]: "cmd_twins C ''SREM'' (SRemCmd_ExecCmd C)"
  by (rule cmd_twins_Mutate [where f = "\<lambda>as now. SRemCmd_mutator C (drop 1 as)"
        and reply = "\<lambda>as now. \<lambda>(wrong_type, n). if wrong_type then Error kWrongTypeError else Integer n"], unfold SRemCmd_ExecCmd_def args_Cons, simp add: case_prod_beta, rule respects,
      simp add: SRemCmd_mutator_def case_prod_beta Let_def split: option.splits)

lemma twins_ZRem [command_twins]: "cmd_twins C ''ZREM'' (ZRemCmd_ExecCmd C)"
  by (rule cmd_twins_Mutate [where f = "\<lambda>as now. ZRemCmd_mutator C (drop 1 as)"
        and reply = "\<lambda>as now. \<lambda>(wrong_type, n). if wrong_type then Error kWrongTypeError else Integer n"], unfold ZRemCmd_ExecCmd_def args_Cons, simp add: case_prod_beta, rule respects,
      simp add: ZRemCmd_mutator_def case_prod_beta Let_def split: option.splits)

lemma twins_Set [command_twins]: "cmd_twins C ''SET'' (SetCmd_ExecCmd C)"
proof (rule cmd_twinsI)
  fix a as e e' now
  assume asm: "ToUpperAscii a = ''SET''" "engine_abs C e (as ! 0) = engine_abs C e' (as ! 0)"
  show "twins C (as ! 0) (new_record\<lparr>rec_args := ''SET'' # as\<rparr>) now (e, e')
        (fst (SetCmd_ExecCmd C (a # as) e now), fst (SetCmd_ExecCmd C (a # as) e' now)) \<and>
      snd (SetCmd_ExecCmd C (a # as) e now) = snd (SetCmd_ExecCmd C (a # as) e' now)"
  proof (cases "ParseSetOptions (a # as) now")
    case (Inr options)
    show ?thesis
      by (rule run_twins_Update [OF SetCmd_updater_respects asm(2)], unfold SetCmd_ExecCmd_def Inr args_Cons, simp)
  qed (simp add: SetCmd_ExecCmd_def)
qed

lemma twins_integer:
  assumes "ToUpperAscii a = name" and "engine_abs C e (as ! 0) = engine_abs C e' (as ! 0)"
  shows "twins C (as ! 0) (new_record\<lparr>rec_args := name # as\<rparr>) now (e, e')
      (fst (ExecIntegerMutation C (a # as) e now n mode), fst (ExecIntegerMutation C (a # as) e' now n mode)) \<and>
    snd (ExecIntegerMutation C (a # as) e now n mode) = snd (ExecIntegerMutation C (a # as) e' now n mode)"
  by (rule run_twins_Update [OF IntegerMutation_updater_respects assms(2)], unfold ExecIntegerMutation_def args_Cons)
    (simp add: assms(1))

lemma twins_counters [command_twins]:
  "cmd_twins C ''INCR'' (IncrCmd_ExecCmd C)" "cmd_twins C ''DECR'' (DecrCmd_ExecCmd C)"
  unfolding IncrCmd_ExecCmd_def DecrCmd_ExecCmd_def by (rule cmd_twinsI, erule (1) twins_integer)+

lemma twins_counters_by [command_twins]:
  "cmd_twins C ''INCRBY'' (IncrByCmd_ExecCmd C)" "cmd_twins C ''DECRBY'' (DecrByCmd_ExecCmd C)"
proof -
  have "twins C (as ! 0) (new_record\<lparr>rec_args := name # as\<rparr>) now (e, e') (fst (run e), fst (run e')) \<and> snd (run e) = snd (run e')"
    if "ToUpperAscii a = name" "engine_abs C e (as ! 0) = engine_abs C e' (as ! 0)"
      "\<And>d. run d = (case ParseInt64 t of None \<Rightarrow> (d, Error kIntegerError) | Some n \<Rightarrow> ExecIntegerMutation C (a # as) d now n mode)"
    for a name as e e' now t mode and run :: "'o CacheEngine \<Rightarrow> 'o CacheEngine \<times> Response"
    using twins_integer [OF that(1,2)] by (cases "ParseInt64 t") (simp_all add: that(3))
  then show "cmd_twins C ''INCRBY'' (IncrByCmd_ExecCmd C)" "cmd_twins C ''DECRBY'' (DecrByCmd_ExecCmd C)"
    by (rule cmd_twinsI; blast intro: IncrByCmd_ExecCmd_def DecrByCmd_ExecCmd_def)+
qed

lemma twins_HIncrBy [command_twins]: "cmd_twins C ''HINCRBY'' (HIncrByCmd_ExecCmd C)"
proof (rule cmd_twinsI)
  fix a as e e' now
  assume asm: "ToUpperAscii a = ''HINCRBY''" "engine_abs C e (as ! 0) = engine_abs C e' (as ! 0)"
  show "twins C (as ! 0) (new_record\<lparr>rec_args := ''HINCRBY'' # as\<rparr>) now (e, e')
        (fst (HIncrByCmd_ExecCmd C (a # as) e now), fst (HIncrByCmd_ExecCmd C (a # as) e' now)) \<and>
      snd (HIncrByCmd_ExecCmd C (a # as) e now) = snd (HIncrByCmd_ExecCmd C (a # as) e' now)"
  proof (cases "ParseInt64 (as ! 2)")
    case (Some n)
    show ?thesis
      by (rule run_twins_Update [OF HIncrBy_respects asm(2)], unfold HIncrByCmd_ExecCmd_def args_Cons Some, simp)
  qed (simp add: HIncrByCmd_ExecCmd_def args_Cons)
qed

lemma twins_zincr:
  assumes "ToUpperAscii a = name" and "engine_abs C e (as ! 0) = engine_abs C e' (as ! 0)"
  shows "twins C (as ! 0) (new_record\<lparr>rec_args := name # as\<rparr>) now (e, e')
      (fst (IncrementZSetMember C (a # as) e now (as ! 0) inc m options), fst (IncrementZSetMember C (a # as) e' now (as ! 0) inc m options)) \<and>
    snd (IncrementZSetMember C (a # as) e now (as ! 0) inc m options) = snd (IncrementZSetMember C (a # as) e' now (as ! 0) inc m options)"
  by (rule run_twins_Mutate [OF ZIncr_respects assms(2)], simp add: IncrementZSetMember_mutator_def Let_def split: option.splits)
    (unfold IncrementZSetMember_def args_Cons, simp add: assms(1))

lemma twins_ZIncrBy [command_twins]: "cmd_twins C ''ZINCRBY'' (ZIncrByCmd_ExecCmd C)"
proof (rule cmd_twinsI)
  fix a as e e' now
  assume asm: "ToUpperAscii a = ''ZINCRBY''" "engine_abs C e (as ! 0) = engine_abs C e' (as ! 0)"
  show "twins C (as ! 0) (new_record\<lparr>rec_args := ''ZINCRBY'' # as\<rparr>) now (e, e')
        (fst (ZIncrByCmd_ExecCmd C (a # as) e now), fst (ZIncrByCmd_ExecCmd C (a # as) e' now)) \<and>
      snd (ZIncrByCmd_ExecCmd C (a # as) e now) = snd (ZIncrByCmd_ExecCmd C (a # as) e' now)"
  proof (cases "ParseFiniteScore (as ! 1)")
    case (Some inc)
    show ?thesis unfolding ZIncrByCmd_ExecCmd_def args_Cons Some option.case by (rule twins_zincr [OF asm])
  qed (simp add: ZIncrByCmd_ExecCmd_def args_Cons)
qed

lemma twins_ZAdd [command_twins]: "cmd_twins C ''ZADD'' (ZAddCmd_ExecCmd C)"
proof (rule cmd_twinsI)
  fix a as e e' now
  assume asm: "ToUpperAscii a = ''ZADD''" "engine_abs C e (as ! 0) = engine_abs C e' (as ! 0)"
  show "twins C (as ! 0) (new_record\<lparr>rec_args := ''ZADD'' # as\<rparr>) now (e, e')
        (fst (ZAddCmd_ExecCmd C (a # as) e now), fst (ZAddCmd_ExecCmd C (a # as) e' now)) \<and>
      snd (ZAddCmd_ExecCmd C (a # as) e now) = snd (ZAddCmd_ExecCmd C (a # as) e' now)"
  proof (cases "ParseZAddArgs (a # as)")
    case (Inl err)
    then show ?thesis by (cases err) (simp_all add: ZAddCmd_ExecCmd_def)
  next
    case (Inr p)
    obtain options inputs where p: "p = (options, inputs)" by fastforce
    show ?thesis
    proof (cases "za_incr options")
      case True
      then show ?thesis
        unfolding ZAddCmd_ExecCmd_def Inr p sum.case prod.case args_Cons if_P [OF True] by (intro twins_zincr asm)
    next
      case False
      show ?thesis
        by (rule run_twins_Mutate [OF ZAdd_respects asm(2)],
            simp add: ZAddCmd_mutator_def case_prod_beta Let_def split: option.splits,
            unfold ZAddCmd_ExecCmd_def Inr p sum.case prod.case args_Cons if_not_P [OF False], simp add: asm(1) case_prod_beta)
    qed
  qed
qed

lemma write_entries_twins:
  "list_all (\<lambda>(name, entry). write_cmd entry \<and> name \<notin> {''SPOP'', ''DEL'', ''EXPIRE''} \<longrightarrow>
     cmd_twins C name (ExecCmd (entry_cmd entry))) (commands C R)"
  by (simp add: commands_def command_twins)

end

text \<open>The arguments after the name decide what a command does.\<close>

lemma head_free:
  "SetCmd_ExecCmd C (ToUpperAscii a # as) e now = SetCmd_ExecCmd C (a # as) e now"
  "SetNxCmd_ExecCmd C (ToUpperAscii a # as) e now = SetNxCmd_ExecCmd C (a # as) e now"
  "GetSetCmd_ExecCmd C (ToUpperAscii a # as) e now = GetSetCmd_ExecCmd C (a # as) e now"
  "AppendCmd_ExecCmd C (ToUpperAscii a # as) e now = AppendCmd_ExecCmd C (a # as) e now"
  "IncrCmd_ExecCmd C (ToUpperAscii a # as) e now = IncrCmd_ExecCmd C (a # as) e now"
  "DecrCmd_ExecCmd C (ToUpperAscii a # as) e now = DecrCmd_ExecCmd C (a # as) e now"
  "IncrByCmd_ExecCmd C (ToUpperAscii a # as) e now = IncrByCmd_ExecCmd C (a # as) e now"
  "DecrByCmd_ExecCmd C (ToUpperAscii a # as) e now = DecrByCmd_ExecCmd C (a # as) e now"
  "HSetCmd_ExecCmd C (ToUpperAscii a # as) e now = HSetCmd_ExecCmd C (a # as) e now"
  "HDelCmd_ExecCmd C (ToUpperAscii a # as) e now = HDelCmd_ExecCmd C (a # as) e now"
  "HMSetCmd_ExecCmd C (ToUpperAscii a # as) e now = HMSetCmd_ExecCmd C (a # as) e now"
  "HIncrByCmd_ExecCmd C (ToUpperAscii a # as) e now = HIncrByCmd_ExecCmd C (a # as) e now"
  "SAddCmd_ExecCmd C (ToUpperAscii a # as) e now = SAddCmd_ExecCmd C (a # as) e now"
  "SRemCmd_ExecCmd C (ToUpperAscii a # as) e now = SRemCmd_ExecCmd C (a # as) e now"
  "ZAddCmd_ExecCmd C (ToUpperAscii a # as) e now = ZAddCmd_ExecCmd C (a # as) e now"
  "ZRemCmd_ExecCmd C (ToUpperAscii a # as) e now = ZRemCmd_ExecCmd C (a # as) e now"
  "ZIncrByCmd_ExecCmd C (ToUpperAscii a # as) e now = ZIncrByCmd_ExecCmd C (a # as) e now"
  unfolding SetCmd_ExecCmd_def SetNxCmd_ExecCmd_def GetSetCmd_ExecCmd_def AppendCmd_ExecCmd_def IncrCmd_ExecCmd_def
    DecrCmd_ExecCmd_def IncrByCmd_ExecCmd_def DecrByCmd_ExecCmd_def HSetCmd_ExecCmd_def HDelCmd_ExecCmd_def
    HMSetCmd_ExecCmd_def HIncrByCmd_ExecCmd_def SAddCmd_ExecCmd_def SRemCmd_ExecCmd_def ZAddCmd_ExecCmd_def
    ZRemCmd_ExecCmd_def ZIncrByCmd_ExecCmd_def ExecIntegerMutation_def IncrementZSetMember_def args_Cons
    MakeRecord_Cons ToUpperAscii_idem
  by (simp_all add: ParseSetOptions_def ParseZAddArgs_def cong: option.case_cong)

lemma write_entries_head:
  "list_all (\<lambda>(name, entry). write_cmd entry \<and> name \<notin> {''SPOP'', ''DEL'', ''EXPIRE''} \<longrightarrow>
     (\<forall>a as e now. ExecCmd (entry_cmd entry) (ToUpperAscii a # as) e now = ExecCmd (entry_cmd entry) (a # as) e now \<and>
        CheckArity (entry_cmd entry) (ToUpperAscii a # as) = CheckArity (entry_cmd entry) (a # as) \<and>
        (CheckArity (entry_cmd entry) (a # as) = None \<longrightarrow> as \<noteq> []))) (commands C R)"
  by (simp add: commands_def head_free SetCmd_CheckArity_def SetNxCmd_CheckArity_def GetSetCmd_CheckArity_def
      AppendCmd_CheckArity_def IncrCmd_CheckArity_def DecrCmd_CheckArity_def IncrByCmd_CheckArity_def DecrByCmd_CheckArity_def
      HSetCmd_CheckArity_def HDelCmd_CheckArity_def HMSetCmd_CheckArity_def HIncrByCmd_CheckArity_def SAddCmd_CheckArity_def
      SRemCmd_CheckArity_def ZAddCmd_CheckArity_def ZRemCmd_CheckArity_def ZIncrByCmd_CheckArity_def
      CheckExactArity_def CheckMinArity_def CheckFieldValueArity_def) auto

text \<open>
  A command that writes, on two engines that agree at its key, under the name the client used on one
  and the upper-case name on the other.
\<close>

context imt_lib begin

lemma Execute_twins:
  assumes "find_command C R (ToUpperAscii a) = Some entry" and "write_cmd entry"
    and "ToUpperAscii a \<notin> {''SPOP'', ''DEL'', ''EXPIRE''}" and "engine_abs C e (as ! 0) = engine_abs C e' (as ! 0)"
  shows "twins C (as ! 0) (new_record\<lparr>rec_args := ToUpperAscii a # as\<rparr>) now (e, e')
      (fst (Execute C R (a # as) e now), fst (Execute C R (ToUpperAscii a # as) e' now)) \<and>
    snd (Execute C R (a # as) e now) = snd (Execute C R (ToUpperAscii a # as) e' now)"
proof -
  note entry = find_command_entry [OF assms(1)]
  have twin: "cmd_twins C (ToUpperAscii a) (ExecCmd (entry_cmd entry))"
    using bspec [OF write_entries_twins [of R, unfolded list_all_iff] entry] assms(2,3) by simp
  have head: "ExecCmd (entry_cmd entry) (ToUpperAscii a # as) e' now = ExecCmd (entry_cmd entry) (a # as) e' now"
    "CheckArity (entry_cmd entry) (ToUpperAscii a # as) = CheckArity (entry_cmd entry) (a # as)"
    using bspec [OF write_entries_head [of C R, unfolded list_all_iff] entry] assms(2,3) by simp_all
  note both = twin [unfolded cmd_twins_def, rule_format, OF conjI, OF refl assms(4), of now]
  show ?thesis
    by (cases "CheckArity (entry_cmd entry) (a # as)") (simp_all add: Execute_def assms(1) head both)
qed

end

end
