(* ===== verification/ReplFrame.thy ===== *)
theory ReplFrame
  imports RespCodec
begin

text \<open>
  Replication frames and their wire form, \<^verbatim>\<open>src/repl/repl_frame.h\<close> and \<^verbatim>\<open>repl_frame.cpp\<close>. A frame
  has the fields of every kind of frame; the ones a kind does not use keep their initial values.
  \<^verbatim>\<open>std::size_t\<close> has 64 bits, so the tests against its maximum never fire.
\<close>

section \<open>Frames\<close>

definition kProtocolVersion :: u64 where
  "kProtocolVersion = 2"

definition kMaxFrameElements :: nat where
  "kMaxFrameElements = 1000000"

datatype Subcmd = kHello | kSnapshot | kLog | kBegin | kDone

record Frame =
  subcmd :: Subcmd
  replica_id :: string
  session_id :: string
  proto_version :: u64
  frame_reset :: bool
  slot_id :: nat
  base_seq :: u64
  snapshot_payload :: string
  frame_record :: BinlogRecord
  slot_positions :: "(nat \<times> u64) list"

definition Frame_new :: Frame where
  "Frame_new = \<lparr>subcmd = kHello, replica_id = [], session_id = [], proto_version = kProtocolVersion,
     frame_reset = False, slot_id = 0, base_seq = 0, snapshot_payload = [], frame_record = new_record,
     slot_positions = []\<rparr>"

definition Frame_Hello :: "string \<Rightarrow> u64 \<Rightarrow> string \<Rightarrow> (nat \<times> u64) list \<Rightarrow> Frame" where
  "Frame_Hello rid version previous_session_id positions =
     Frame_new\<lparr>subcmd := kHello, replica_id := rid, proto_version := version, session_id := previous_session_id,
               slot_positions := positions\<rparr>"

definition Frame_Snapshot :: "string \<Rightarrow> nat \<Rightarrow> u64 \<Rightarrow> string \<Rightarrow> Frame" where
  "Frame_Snapshot session slot seq payload =
     Frame_new\<lparr>subcmd := kSnapshot, session_id := session, slot_id := slot, base_seq := seq,
               snapshot_payload := payload\<rparr>"

definition Frame_Log :: "string \<Rightarrow> nat \<Rightarrow> BinlogRecord \<Rightarrow> Frame" where
  "Frame_Log session slot r = Frame_new\<lparr>subcmd := kLog, session_id := session, slot_id := slot, frame_record := r\<rparr>"

definition Frame_Begin :: "string \<Rightarrow> bool \<Rightarrow> Frame" where
  "Frame_Begin session reset = Frame_new\<lparr>subcmd := kBegin, session_id := session, frame_reset := reset\<rparr>"

definition Frame_Done :: "string \<Rightarrow> (nat \<times> u64) list \<Rightarrow> Frame" where
  "Frame_Done session positions = Frame_new\<lparr>subcmd := kDone, session_id := session, slot_positions := positions\<rparr>"

section \<open>Encoding\<close>

definition encode_positions :: "(nat \<times> u64) list \<Rightarrow> string list" where
  "encode_positions positions =
     show_nat (length positions) # concat (map (\<lambda>(slot, seq). [show_nat slot, u64_to_string seq]) positions)"

definition frame_args :: "Frame \<Rightarrow> string list" where
  "frame_args frame = ''CACHE.REPL'' #
     (case subcmd frame of
        kHello \<Rightarrow> [''HELLO'', replica_id frame, u64_to_string (proto_version frame), session_id frame] @
                  encode_positions (slot_positions frame)
      | kSnapshot \<Rightarrow> [''SNAPSHOT'', session_id frame, show_nat (slot_id frame), u64_to_string (base_seq frame),
                      snapshot_payload frame]
      | kLog \<Rightarrow> [''LOG'', session_id frame, show_nat (slot_id frame), u64_to_string (rec_seq (frame_record frame)),
                 u64_to_string (rec_written_at_us (frame_record frame)),
                 u64_to_string (rec_deadline_us (frame_record frame)),
                 show_nat (length (rec_args (frame_record frame)))] @ rec_args (frame_record frame)
      | kBegin \<Rightarrow> [''BEGIN'', session_id frame, if frame_reset frame then ''1'' else ''0'']
      | kDone \<Rightarrow> [''DONE'', session_id frame] @ encode_positions (slot_positions frame))"

definition EncodeFrame :: "Resp \<Rightarrow> Frame \<Rightarrow> string" where
  "EncodeFrame P frame =
     (let args = frame_args frame in fold (PackBulkString P) args (PackArrayHeader P (length args) []))"

section \<open>Decoding\<close>

definition Number :: "string \<Rightarrow> u64 option" where
  "Number text = from_chars_u64 text"

fun Positions_loop :: "string list \<Rightarrow> (nat \<times> u64) list option" where
  "Positions_loop (slot # seq # args) =
     (case (Number slot, Number seq) of
        (Some s, Some q) \<Rightarrow> map_option ((#) (unat s, q)) (Positions_loop args)
      | _ \<Rightarrow> None)"
| "Positions_loop _ = Some []"

definition Positions :: "string list \<Rightarrow> nat \<Rightarrow> (nat \<times> u64) list option" where
  "Positions args start =
     (if length args \<le> start then None
      else case Number (args ! start) of
             None \<Rightarrow> None
           | Some count \<Rightarrow>
               if (length args - start - 1) mod 2 \<noteq> 0 \<or> unat count \<noteq> (length args - start - 1) div 2 then None
               else Positions_loop (drop (start + 1) args))"

definition DecodeFrame_args :: "string list \<Rightarrow> Frame option" where
  "DecodeFrame_args args =
     (if length args < 3 \<or> args ! 0 \<noteq> ''CACHE.REPL'' then None
      else let frame = Frame_new\<lparr>session_id := args ! 2\<rparr>
           in if args ! 1 = ''HELLO'' then
                (if length args < 6 then None
                 else case (Number (args ! 3), Positions args 5) of
                        (Some version, Some positions) \<Rightarrow>
                          if version \<noteq> kProtocolVersion then None
                          else Some (frame\<lparr>proto_version := version, slot_positions := positions, subcmd := kHello,
                                           replica_id := args ! 2, session_id := args ! 4\<rparr>)
                      | _ \<Rightarrow> None)
              else if args ! 1 = ''SNAPSHOT'' then
                (if length args \<noteq> 6 then None
                 else case (Number (args ! 3), Number (args ! 4)) of
                        (Some slot, Some seq) \<Rightarrow>
                          Some (frame\<lparr>base_seq := seq, subcmd := kSnapshot, slot_id := unat slot,
                                      snapshot_payload := args ! 5\<rparr>)
                      | _ \<Rightarrow> None)
              else if args ! 1 = ''LOG'' then
                (if length args < 8 then None
                 else case (Number (args ! 3), Number (args ! 4), Number (args ! 5), Number (args ! 6), Number (args ! 7)) of
                        (Some slot, Some seq, Some written_at_us, Some deadline_us, Some count) \<Rightarrow>
                          if unat count \<noteq> length args - 8 then None
                          else Some (frame\<lparr>subcmd := kLog, slot_id := unat slot,
                                 frame_record := new_record\<lparr>rec_seq := seq, rec_written_at_us := written_at_us,
                                                            rec_deadline_us := deadline_us, rec_args := drop 8 args\<rparr>\<rparr>)
                      | _ \<Rightarrow> None)
              else if args ! 1 = ''BEGIN'' then
                (if length args \<noteq> 4 \<or> (args ! 3 \<noteq> ''0'' \<and> args ! 3 \<noteq> ''1'') \<or> args ! 2 = [] then None
                 else Some (frame\<lparr>subcmd := kBegin, frame_reset := (args ! 3 = ''1'')\<rparr>))
              else if args ! 1 = ''DONE'' then
                map_option (\<lambda>positions. frame\<lparr>subcmd := kDone, slot_positions := positions\<rparr>) (Positions args 3)
              else None)"

definition DecodeFrame :: "Resp \<Rightarrow> string \<Rightarrow> Frame option" where
  "DecodeFrame P wire =
     (let (codec, appended) = AppendBytes (RespCodec_new (length wire) (length wire) kMaxFrameElements) wire
      in if \<not> appended then None
         else case NextCommand P None codec of
                (codec', Some args) \<Rightarrow> if BufferedBytes codec' \<noteq> 0 then None else DecodeFrame_args args
              | _ \<Rightarrow> None)"

section \<open>Round trip\<close>

text \<open>A frame as its constructor makes it, small enough to be read back.\<close>

definition sendable :: "Frame \<Rightarrow> bool" where
  "sendable f \<longleftrightarrow> length (frame_args f) \<le> kMaxFrameElements \<and> slot_id f < 2 ^ 64 \<and>
     list_all (\<lambda>(slot, seq). slot < 2 ^ 64) (slot_positions f) \<and>
     f = (case subcmd f of
            kHello \<Rightarrow> Frame_Hello (replica_id f) kProtocolVersion (session_id f) (slot_positions f)
          | kSnapshot \<Rightarrow> Frame_Snapshot (session_id f) (slot_id f) (base_seq f) (snapshot_payload f)
          | kLog \<Rightarrow> Frame_Log (session_id f) (slot_id f) (frame_record f)
          | kBegin \<Rightarrow> Frame_Begin (session_id f) (frame_reset f)
          | kDone \<Rightarrow> Frame_Done (session_id f) (slot_positions f)) \<and>
     (subcmd f = kBegin \<longrightarrow> session_id f \<noteq> [])"

lemmas Frame_defs = Frame_new_def Frame_Hello_def Frame_Snapshot_def Frame_Log_def Frame_Begin_def Frame_Done_def

lemma Number_u64 [simp]: "Number (u64_to_string w) = Some w"
  by (simp add: Number_def)

lemma Number_show_nat [simp]: "n < 2 ^ 64 \<Longrightarrow> Number (show_nat n) = Some (of_nat n)"
  by (simp add: Number_def from_chars_u64_show_nat)

lemma unat_of_nat_u64: "n < 2 ^ 64 \<Longrightarrow> unat (of_nat n :: u64) = n"
  by (simp add: unat_of_nat)

lemma Positions_loop_encode:
  "list_all (\<lambda>(slot, seq). slot < 2 ^ 64) positions \<Longrightarrow>
   Positions_loop (concat (map (\<lambda>(slot, seq). [show_nat slot, u64_to_string seq]) positions)) = Some positions"
  by (induction positions) (auto simp: unat_of_nat_u64)

lemma length_encode_positions: "length (encode_positions positions) = Suc (2 * length positions)"
  by (induction positions) (auto simp: encode_positions_def)

lemma Positions_encode:
  assumes "list_all (\<lambda>(slot, seq). slot < 2 ^ 64) positions" and "length positions < 2 ^ 64" and "length xs = start"
  shows "Positions (xs @ encode_positions positions) start = Some positions"
  using assms length_encode_positions [of positions]
  by (simp add: Positions_def nth_append Positions_loop_encode unat_of_nat_u64) (simp add: encode_positions_def unat_of_nat_u64 Positions_loop_encode)

lemma DecodeFrame_args_encode:
  assumes "sendable f"
  shows "DecodeFrame_args (frame_args f) = Some f"
proof (cases "subcmd f")
  case kHello
  with assms obtain rid session positions where f: "f = Frame_Hello rid kProtocolVersion session positions"
    "list_all (\<lambda>(slot, seq). slot < 2 ^ 64) positions" "length positions < 2 ^ 64"
    using length_encode_positions [of "slot_positions f"]
    by (auto simp: sendable_def frame_args_def kMaxFrameElements_def)
  let ?xs = "[''CACHE.REPL'', ''HELLO'', rid, u64_to_string kProtocolVersion, session]"
  have "frame_args f = ?xs @ encode_positions positions" by (simp add: f(1) frame_args_def Frame_defs)
  moreover have "Positions (?xs @ encode_positions positions) 5 = Some positions"
    by (rule Positions_encode) (use f in simp_all)
  ultimately show ?thesis
    using length_encode_positions [of positions] by (simp add: DecodeFrame_args_def f(1) Frame_defs)
next
  case kSnapshot
  with assms obtain session slot seq payload where f: "f = Frame_Snapshot session slot seq payload" "slot < 2 ^ 64"
    by (auto simp: sendable_def)
  then show ?thesis by (simp add: DecodeFrame_args_def frame_args_def Frame_defs unat_of_nat_u64)
next
  case kLog
  with assms obtain session slot r where f: "f = Frame_Log session slot r" "slot < 2 ^ 64" "length (rec_args r) < 2 ^ 64"
    by (auto simp: sendable_def frame_args_def kMaxFrameElements_def)
  then show ?thesis
    by (cases r) (simp add: DecodeFrame_args_def frame_args_def Frame_defs unat_of_nat_u64 new_record_def)
next
  case kBegin
  with assms obtain session reset where "f = Frame_Begin session reset" "session \<noteq> []"
    by (auto simp: sendable_def)
  then show ?thesis by (simp add: DecodeFrame_args_def frame_args_def Frame_defs)
next
  case kDone
  with assms obtain session positions where f: "f = Frame_Done session positions"
    "list_all (\<lambda>(slot, seq). slot < 2 ^ 64) positions" "length positions < 2 ^ 64"
    using length_encode_positions [of "slot_positions f"]
    by (auto simp: sendable_def frame_args_def kMaxFrameElements_def)
  let ?xs = "[''CACHE.REPL'', ''DONE'', session]"
  have "frame_args f = ?xs @ encode_positions positions" by (simp add: f(1) frame_args_def Frame_defs)
  moreover have "Positions (?xs @ encode_positions positions) 3 = Some positions"
    by (rule Positions_encode) (use f in simp_all)
  ultimately show ?thesis by (simp add: DecodeFrame_args_def f(1) Frame_defs)
qed

context resp_lib begin

lemma fold_PackBulkString: "fold (PackBulkString P) args out = out @ concat (map resp_bulk args)"
  by (induction args arbitrary: out) (simp_all add: pack_bulk)

lemma EncodeFrame_array: "EncodeFrame P f = resp_array (frame_args f)"
  by (simp add: EncodeFrame_def Let_def fold_PackBulkString pack_header resp_array_def)

end

lemma bulk_in_array: "a \<in> set args \<Longrightarrow> length a \<le> length (resp_array args)"
proof -
  have "a \<in> set args \<Longrightarrow> length a \<le> length (concat (map resp_bulk args))"
    by (induction args) (auto simp: resp_bulk_def)
  then show "a \<in> set args \<Longrightarrow> ?thesis" by (simp add: resp_array_def)
qed

section \<open>Properties\<close>

text \<open>(C14) Every frame the two replicators make is read back from its wire form exactly: a frame made
  by one of the five constructors, of the protocol version in use and within the element limit.\<close>

theorem frame_round_trip:
  assumes "resp_lib P" and "sendable f"
  shows "DecodeFrame P (EncodeFrame P f) = Some f"
proof -
  let ?args = "frame_args f"
  let ?w = "resp_array ?args"
  let ?c = "RespCodec_new (length ?w) (length ?w) kMaxFrameElements"
  have "list_all (\<lambda>a. length a \<le> length ?w) ?args" by (simp add: list_all_iff bulk_in_array)
  then have "acceptable None (codec_limits ?c) ?args"
    using assms(2) by (simp add: acceptable_def fits_limits_def RespCodec_new_def sendable_def kMaxFrameElements_def)
  then have "NextCommand P None (?c\<lparr>stream := ?w\<rparr>) = (?c\<lparr>stream := []\<rparr>, Some ?args)"
    using resp_lib.NextCommand_taken [OF assms(1), of "?c\<lparr>stream := ?w\<rparr>" None ?args "[]"]
    by (simp add: RespCodec_new_def)
  moreover have "AppendBytes ?c ?w = (?c\<lparr>stream := ?w\<rparr>, True)" by (simp add: AppendBytes_def RespCodec_new_def)
  ultimately show ?thesis
    using DecodeFrame_args_encode [OF assms(2)] resp_lib.EncodeFrame_array [OF assms(1)]
    by (simp add: DecodeFrame_def BufferedBytes_def)
qed

theorem frame_round_trip_witness:
  "DecodeFrame ref_resp (EncodeFrame ref_resp (Frame_Done ''s'' [(3, 7), (4, 0)])) = Some (Frame_Done ''s'' [(3, 7), (4, 0)])"
proof (rule frame_round_trip [OF ref_resp_lib.resp_lib_axioms])
  have "length (frame_args (Frame_Done ''s'' [(3, 7), (4, 0)])) = 8" by (simp add: frame_args_def Frame_defs encode_positions_def)
  then show "sendable (Frame_Done ''s'' [(3, 7), (4, 0)])"
    by (simp add: sendable_def kMaxFrameElements_def) (simp add: Frame_defs)
qed

end
