(* ===== verification/SnapshotCodec.thy ===== *)
theory SnapshotCodec
  imports ReplFrame ObjectAbs
begin

text \<open>
  The image of a slot on the wire, \<^verbatim>\<open>src/repl/snapshot_codec.cpp\<close>: one RESP array of bulk strings, for
  each object its key, deadline, type, number of fields and the fields.
\<close>

section \<open>Encoding\<close>

definition kMagic :: string where
  "kMagic = ''CACHE.SNAPSHOT.V1''"

definition kMaxSnapshotElements :: nat where
  "kMaxSnapshotElements = 1000000"

text \<open>The copy of \<^verbatim>\<open>FormatScore\<close> in this file; it does not replace a negative zero.\<close>

definition SnapshotFormatScore :: "double \<Rightarrow> string" where
  "SnapshotFormatScore score =
     (let text = print17 score
      in if CHR ''.'' \<in> set text then
           (let stripped = rev (dropWhile (\<lambda>c. c = CHR ''0'') (rev text))
            in if stripped \<noteq> [] \<and> last stripped = CHR ''.'' then butlast stripped else stripped)
         else text)"

text \<open>The code dereferences the pointer of the variant the type tag names.\<close>

definition object_elements :: "('o, 'h, 's, 'z) containers \<Rightarrow> ('h, 's, 'z) RedisObject \<Rightarrow> nat" where
  "object_elements C ob = 4 +
     (case Type ob of
        kString \<Rightarrow> 1
      | kHash \<Rightarrow> Map_Size (hashes C) (the (Hash ob)) * 2
      | kSet \<Rightarrow> Set_Size (sets C) (the (SetOf ob))
      | kZSet \<Rightarrow> Map_Size (zsets C) (the (ZSet ob)) * 2)"

definition encode_object ::
  "('o, 'h, 's, 'z) containers \<Rightarrow> string \<times> ('h, 's, 'z) RedisObject \<Rightarrow> string list" where
  "encode_object C = (\<lambda>(key, ob). [key, u64_to_string (DeadlineUs ob)] @
     (case Type ob of
        kString \<Rightarrow> [''string'', ''1'', the (StringValue ob)]
      | kHash \<Rightarrow> [''hash'', show_nat (Map_Size (hashes C) (the (Hash ob)) * 2)] @
                 concat (map (\<lambda>(field, v). [field, v]) (Map_ForEach (hashes C) (the (Hash ob))))
      | kSet \<Rightarrow> [''set'', show_nat (Set_Size (sets C) (the (SetOf ob)))] @ Set_ForEach (sets C) (the (SetOf ob))
      | kZSet \<Rightarrow> [''zset'', show_nat (Map_Size (zsets C) (the (ZSet ob)) * 2)] @
                 concat (map (\<lambda>(member, score). [member, SnapshotFormatScore score]) (Map_ForEach (zsets C) (the (ZSet ob))))))"

definition EncodeSnapshotPayload :: "Resp \<Rightarrow> ('o, 'h, 's, 'z) containers \<Rightarrow> 'o \<Rightarrow> string" where
  "EncodeSnapshotPayload P C m =
     (let objs = Map_ForEach (objects C) m;
          elements = foldl (\<lambda>n (key, ob). n + object_elements C ob) 2 objs
      in fold (PackBulkString P) (kMagic # show_nat (length objs) # concat (map (encode_object C) objs))
           (PackArrayHeader P elements []))"

section \<open>Decoding\<close>

definition ParseU64 :: "string \<Rightarrow> u64 option" where
  "ParseU64 text = from_chars_u64 text"

fun decode_hash :: "('h, string) ImtMap \<Rightarrow> string list \<Rightarrow> 'h \<Rightarrow> 'h" where
  "decode_hash M (field # v # xs) h = decode_hash M xs (Map_Set M h field v)"
| "decode_hash M _ h = h"

fun decode_zset :: "('z, double) ImtMap \<Rightarrow> string list \<Rightarrow> 'z \<Rightarrow> 'z option" where
  "decode_zset M (member # score # xs) z =
     (case ParseFiniteDouble score of None \<Rightarrow> None | Some s \<Rightarrow> decode_zset M xs (Map_Set M z member s))"
| "decode_zset M _ z = Some z"

text \<open>The value of an object from its type name and its fields.\<close>

definition decode_value ::
  "('o, 'h, 's, 'z) containers \<Rightarrow> string \<Rightarrow> string list \<Rightarrow> ('h, 's, 'z) RedisObject option" where
  "decode_value C type flds =
     (if type = ''string'' then (if length flds \<noteq> 1 then None else Some (MakeString (hd flds)))
      else if type = ''hash'' then
        (if length flds mod 2 \<noteq> 0 then None else Some (MakeHash (decode_hash (hashes C) flds (Map_empty (hashes C)))))
      else if type = ''set'' then Some (MakeSet (foldl (Set_Add (sets C)) (Set_empty (sets C)) flds))
      else if type = ''zset'' then
        (if length flds mod 2 \<noteq> 0 then None
         else map_option MakeZSet (decode_zset (zsets C) flds (Map_empty (zsets C))))
      else None)"

text \<open>The loop over the objects, on the elements not read yet.\<close>

fun decode_objects ::
  "('o, 'h, 's, 'z) containers \<Rightarrow> nat \<Rightarrow> string list \<Rightarrow> 'o \<Rightarrow> 'o option" where
  "decode_objects C 0 xs m = (if xs \<noteq> [] then None else Some m)"
| "decode_objects C (Suc n) xs m =
     (if length xs < 4 then None
      else case (ParseU64 (xs ! 1), ParseU64 (xs ! 3)) of
             (Some deadline, Some field_count) \<Rightarrow>
               let rest = drop 4 xs; k = unat field_count
               in if length rest < k then None
                  else (case decode_value C (xs ! 2) (take k rest) of
                          None \<Rightarrow> None
                        | Some ob \<Rightarrow>
                            decode_objects C n (drop k rest)
                              (Map_Set (objects C) m (xs ! 0) (if deadline \<noteq> 0 then WithDeadline ob deadline else ob)))
           | _ \<Rightarrow> None)"

definition DecodeSnapshotPayload :: "Resp \<Rightarrow> ('o, 'h, 's, 'z) containers \<Rightarrow> string \<Rightarrow> 'o option" where
  "DecodeSnapshotPayload P C payload =
     (if payload = [] \<or> hd payload \<noteq> CHR ''*'' then None
      else case find_crlf payload of
        None \<Rightarrow> None
      | Some line_end \<Rightarrow>
          (case ParseU64 (take (line_end - 1) (tl payload)) of
             None \<Rightarrow> None
           | Some n \<Rightarrow>
               if kMaxSnapshotElements < unat n \<or> (length payload - line_end - 2) div 6 < unat n then None
               else let result = UnpackOne P payload (unat n + 1)
                          \<lparr>max_depth = 1, max_array_elements = kMaxSnapshotElements, max_bulk_bytes = length payload\<rparr>
                    in if res_status result \<noteq> RespOk \<or> res_consumed result \<noteq> length payload then None
                       else (case res_value result of
                               Some root \<Rightarrow>
                                 (case ConvertCommand root of
                                    Some texts \<Rightarrow>
                                      if length texts < 2 \<or> texts ! 0 \<noteq> kMagic then None
                                      else (case ParseU64 (texts ! 1) of
                                              None \<Rightarrow> None
                                            | Some object_count \<Rightarrow>
                                                decode_objects C (unat object_count) (drop 2 texts) (Map_empty (objects C)))
                                  | None \<Rightarrow> None)
                             | None \<Rightarrow> None)))"

section \<open>What a replica reads back\<close>

text \<open>The scores are printed and parsed on the way; \<open>g\<close> is what that makes of them.\<close>

definition rereads ::
  "('o, 'h, 's, 'z) containers \<Rightarrow> (double \<Rightarrow> double) \<Rightarrow> ('h, 's, 'z) RedisObject \<Rightarrow> bool" where
  "rereads C g ob \<longleftrightarrow>
     (\<forall>z member score. obj_value ob = ZSetVal z \<and> Map_Find (zsets C) z member = Some score \<longrightarrow>
        ParseFiniteDouble (SnapshotFormatScore score) = Some (g score))"

definition rescore :: "(double \<Rightarrow> double) \<Rightarrow> AbsObject \<Rightarrow> AbsObject" where
  "rescore g a = a\<lparr>abs_value := (case abs_value a of AZSet z \<Rightarrow> AZSet (\<lambda>m. map_option g (z m)) | v \<Rightarrow> v)\<rparr>"

lemma rescore_id [simp]: "rescore (\<lambda>s. s) = (\<lambda>a. a)"
  by (auto simp: rescore_def fun_eq_iff option.map_ident split: AbsValue.splits)

lemma ParseU64_u64 [simp]: "ParseU64 (u64_to_string w) = Some w"
  by (simp add: ParseU64_def)

lemma ParseU64_show_nat: "n < 2 ^ 64 \<Longrightarrow> ParseU64 (show_nat n) = Some (of_nat n)"
  by (simp add: ParseU64_def from_chars_u64_show_nat)

lemma unat_u64: "n < 2 ^ 64 \<Longrightarrow> unat (of_nat n :: u64) = n"
  by (simp add: unat_of_nat)

lemma case_map_option: "(case x of None \<Rightarrow> None | Some a \<Rightarrow> Some (f a)) = map_option f x"
  by (cases x) auto

lemma length_concat_pairs: "length (concat (map (\<lambda>(a, b). [f a b, g a b]) ps)) = 2 * length ps"
  by (induction ps) auto

context imt_lib begin

lemma decode_hash_view:
  "distinct (map fst ps) \<Longrightarrow>
   Map_Find (hashes C) (decode_hash (hashes C) (concat (map (\<lambda>(f, v). [f, v]) ps)) h) k =
     (case map_of ps k of Some v \<Rightarrow> Some v | None \<Rightarrow> Map_Find (hashes C) h k)"
proof (induction ps arbitrary: h)
  case (Cons p ps)
  obtain f v where p: "p = (f, v)" by fastforce
  have "map_of ps f = None" using Cons.prems p by (simp add: map_of_eq_None_iff)
  moreover have "distinct (map fst ps)" using Cons.prems by simp
  ultimately show ?case using Cons.IH [of "Map_Set (hashes C) h f v"] p by (auto simp: hm.find_set split: option.splits)
qed simp

lemma decode_zset_view:
  "distinct (map fst ps) \<Longrightarrow> (\<And>m s. (m, s) \<in> set ps \<Longrightarrow> ParseFiniteDouble (SnapshotFormatScore s) = Some (g s)) \<Longrightarrow>
   \<exists>z'. decode_zset (zsets C) (concat (map (\<lambda>(m, s). [m, SnapshotFormatScore s]) ps)) z = Some z' \<and>
     (\<forall>k. Map_Find (zsets C) z' k = (case map_of ps k of Some s \<Rightarrow> Some (g s) | None \<Rightarrow> Map_Find (zsets C) z k))"
proof (induction ps arbitrary: z)
  case (Cons p ps)
  obtain m s where p: "p = (m, s)" by fastforce
  from Cons.IH [of "Map_Set (zsets C) z m (g s)"] Cons.prems p obtain z' where
    "decode_zset (zsets C) (concat (map (\<lambda>(m, s). [m, SnapshotFormatScore s]) ps)) (Map_Set (zsets C) z m (g s)) = Some z'"
    "\<forall>k. Map_Find (zsets C) z' k = (case map_of ps k of Some s \<Rightarrow> Some (g s) | None \<Rightarrow> Map_Find (zsets C) (Map_Set (zsets C) z m (g s)) k)"
    by auto
  moreover have "ParseFiniteDouble (SnapshotFormatScore s) = Some (g s)" using Cons.prems(2) [of m s] p by simp
  moreover have "map_of ps m = None" using Cons.prems(1) p by (simp add: map_of_eq_None_iff)
  ultimately show ?case using p by (auto simp: zm.find_set split: option.splits)
qed simp

lemma decode_set_view:
  "Set_Contains (sets C) (foldl (Set_Add (sets C)) s xs) x \<longleftrightarrow> x \<in> set xs \<or> Set_Contains (sets C) s x"
  by (induction xs arbitrary: s) (auto simp: sm.contains_add)

lemma Set_Size_ForEach: "Set_Size (sets C) s = length (Set_ForEach (sets C) s)"
proof -
  have "set (Set_ForEach (sets C) s) = sm.elems s" by (auto simp: sm.set_foreach)
  then show ?thesis using distinct_card [OF sm.set_foreach_distinct, of s] by (simp add: sm.set_size_card)
qed

lemma length_encode_object: "length (encode_object C (key, ob)) = object_elements C ob"
  by (simp add: encode_object_def object_elements_def length_concat_pairs hm.size_foreach zm.size_foreach
      Set_Size_ForEach split: RedisObjectType.splits)

lemma show_nat_one: "show_nat (Suc 0) = ''1''"
  by code_simp

lemma decoded_abs:
  "obj_deadline_us ob' = 0 \<Longrightarrow>
   abs_obj C (if obj_deadline_us ob \<noteq> 0 then WithDeadline ob' (obj_deadline_us ob) else ob') = rescore g (abs_obj C ob) \<longleftrightarrow>
   obj_type ob' = obj_type ob \<and>
   abs_val C (obj_value ob') = (case abs_val C (obj_value ob) of AZSet z \<Rightarrow> AZSet (\<lambda>m. map_option g (z m)) | v \<Rightarrow> v)"
  by (auto simp: rescore_def abs_obj_def)

text \<open>One object: the fields the encoder writes are the ones the decoder reads.\<close>

lemma decode_encoded_object:
  assumes "obj_ok ob" and "rereads C g ob" and "object_elements C ob < 2 ^ 64"
  obtains type flds ob' where
    "encode_object C (key, ob) = [key, u64_to_string (obj_deadline_us ob), type, show_nat (length flds)] @ flds"
    "length flds < 2 ^ 64" "decode_value C type flds = Some ob'"
    "abs_obj C (if obj_deadline_us ob \<noteq> 0 then WithDeadline ob' (obj_deadline_us ob) else ob') = rescore g (abs_obj C ob)"
proof (cases "obj_value ob")
  case (StringVal v)
  with assms(1) have "obj_type ob = kString" by (simp add: obj_ok_def value_type_def)
  with StringVal that [of "''string''" "[v]" "MakeString v"] show ?thesis
    by (simp add: encode_object_def accessor_defs decode_value_def decoded_abs show_nat_one)
next
  case (HashVal h)
  with assms(1) have t: "obj_type ob = kHash" by (simp add: obj_ok_def value_type_def)
  let ?ps = "Map_ForEach (hashes C) h"
  let ?flds = "concat (map (\<lambda>(field, v). [field, v]) ?ps)"
  have len: "length ?flds = Map_Size (hashes C) h * 2" by (simp add: length_concat_pairs hm.size_foreach)
  have "Map_Find (hashes C) (decode_hash (hashes C) ?flds (Map_empty (hashes C))) = Map_Find (hashes C) h"
    using decode_hash_view [OF hm.foreach_distinct, of h] by (simp add: fun_eq_iff hm.foreach_find hm.find_empty split: option.splits)
  with HashVal t len assms(3) that [of "''hash''" ?flds] show ?thesis
    by (simp add: encode_object_def object_elements_def accessor_defs decode_value_def decoded_abs)
next
  case (SetVal s)
  with assms(1) have t: "obj_type ob = kSet" by (simp add: obj_ok_def value_type_def)
  have "{x. Set_Contains (sets C) (foldl (Set_Add (sets C)) (Set_empty (sets C)) (Set_ForEach (sets C) s)) x} =
      {x. Set_Contains (sets C) s x}"
    by (simp add: decode_set_view sm.contains_empty sm.set_foreach)
  with SetVal t assms(3) that [of "''set''" "Set_ForEach (sets C) s"] show ?thesis
    by (simp add: encode_object_def object_elements_def accessor_defs decode_value_def decoded_abs Set_Size_ForEach)
next
  case (ZSetVal z)
  with assms(1) have t: "obj_type ob = kZSet" by (simp add: obj_ok_def value_type_def)
  let ?ps = "Map_ForEach (zsets C) z"
  let ?flds = "concat (map (\<lambda>(m, s). [m, SnapshotFormatScore s]) ?ps)"
  have len: "length ?flds = Map_Size (zsets C) z * 2" by (simp add: length_concat_pairs zm.size_foreach)
  have re: "(m, s) \<in> set ?ps \<Longrightarrow> ParseFiniteDouble (SnapshotFormatScore s) = Some (g s)" for m s
    using assms(2) ZSetVal by (auto simp: rereads_def zm.mem_foreach)
  have "\<exists>z'. decode_zset (zsets C) ?flds (Map_empty (zsets C)) = Some z' \<and> (\<forall>k. Map_Find (zsets C) z' k =
      (case map_of ?ps k of Some s \<Rightarrow> Some (g s) | None \<Rightarrow> Map_Find (zsets C) (Map_empty (zsets C)) k))"
    by (rule decode_zset_view [OF zm.foreach_distinct]) (rule re)
  then obtain z' where z': "decode_zset (zsets C) ?flds (Map_empty (zsets C)) = Some z'"
      "Map_Find (zsets C) z' = (\<lambda>k. map_option g (Map_Find (zsets C) z k))"
    by (auto simp: fun_eq_iff zm.foreach_find zm.find_empty case_map_option cong: option.case_cong)
  with ZSetVal t len assms(3) that [of "''zset''" ?flds] show ?thesis
    by (simp add: encode_object_def object_elements_def accessor_defs decode_value_def decoded_abs)
qed

text \<open>All objects.\<close>

lemma decode_encoded_objects:
  assumes "\<And>key ob. (key, ob) \<in> set objs \<Longrightarrow> obj_ok ob \<and> rereads C g ob \<and> object_elements C ob < 2 ^ 64"
    and "distinct (map fst objs)"
  shows "\<exists>m'. decode_objects C (length objs) (concat (map (encode_object C) objs)) m = Some m' \<and>
    (\<forall>key. abs_opt C (Map_Find (objects C) m' key) =
       (case map_of objs key of Some ob \<Rightarrow> Some (rescore g (abs_obj C ob)) | None \<Rightarrow> abs_opt C (Map_Find (objects C) m key)))"
  using assms
proof (induction objs arbitrary: m)
  case (Cons p objs)
  obtain key ob where p: "p = (key, ob)" by fastforce
  have ok: "obj_ok ob" "rereads C g ob" "object_elements C ob < 2 ^ 64" using Cons.prems(1) [of key ob] p by auto
  obtain type flds ob' where one:
    "encode_object C (key, ob) = [key, u64_to_string (obj_deadline_us ob), type, show_nat (length flds)] @ flds"
    "length flds < 2 ^ 64" "decode_value C type flds = Some ob'"
    "abs_obj C (if obj_deadline_us ob \<noteq> 0 then WithDeadline ob' (obj_deadline_us ob) else ob') = rescore g (abs_obj C ob)"
    using decode_encoded_object [OF ok] .
  define ob'' where "ob'' = (if obj_deadline_us ob \<noteq> 0 then WithDeadline ob' (obj_deadline_us ob) else ob')"
  let ?m = "Map_Set (objects C) m key ob''"
  let ?rest = "concat (map (encode_object C) objs)"
  have "decode_objects C (length (p # objs)) (concat (map (encode_object C) (p # objs))) m = decode_objects C (length objs) ?rest ?m"
    using p one(1-3) by (simp add: ob''_def ParseU64_show_nat unat_u64 Let_def)
  moreover obtain m' where "decode_objects C (length objs) ?rest ?m = Some m'"
    "\<forall>k. abs_opt C (Map_Find (objects C) m' k) =
       (case map_of objs k of Some ob \<Rightarrow> Some (rescore g (abs_obj C ob)) | None \<Rightarrow> abs_opt C (Map_Find (objects C) ?m k))"
    using Cons.IH [of ?m] Cons.prems by auto
  moreover have "map_of objs key = None" using Cons.prems(2) p by (simp add: map_of_eq_None_iff)
  ultimately show ?case
    using p one(4) [folded ob''_def] by (simp add: om.find_set del: decode_objects.simps cong: option.case_cong)
qed simp

end

text \<open>The elements of the array the encoder writes.\<close>

definition snapshot_fields :: "('o, 'h, 's, 'z) containers \<Rightarrow> 'o \<Rightarrow> string list" where
  "snapshot_fields C m =
     kMagic # show_nat (length (Map_ForEach (objects C) m)) # concat (map (encode_object C) (Map_ForEach (objects C) m))"

lemma sum_list_foldl: "foldl (\<lambda>n (key, ob). n + f ob) n objs = n + sum_list (map (\<lambda>(key, ob). f ob) objs)"
  for n :: nat
  by (induction objs arbitrary: n) auto

locale replica_codec = imt_lib C + resp_lib P for C :: "('o, 'h, 's, 'z) containers" and P :: Resp
begin

lemma EncodeSnapshotPayload_array: "EncodeSnapshotPayload P C m = resp_array (snapshot_fields C m)"
proof -
  have "sum_list (map (\<lambda>(key, ob). object_elements C ob) objs) = length (concat (map (encode_object C) objs))" for objs
    by (induction objs) (auto simp: length_encode_object)
  then show ?thesis
    by (simp add: EncodeSnapshotPayload_def Let_def fold_PackBulkString pack_header pack_bulk resp_array_def snapshot_fields_def sum_list_foldl)
qed

lemma object_elements_le:
  assumes "(key, ob) \<in> set (Map_ForEach (objects C) m)"
  shows "object_elements C ob \<le> length (snapshot_fields C m)"
proof -
  have "(key, ob) \<in> set objs \<Longrightarrow> object_elements C ob \<le> length (concat (map (encode_object C) objs))" for objs
    by (induction objs) (auto simp: length_encode_object)
  from this [OF assms] show ?thesis by (simp add: snapshot_fields_def)
qed

lemma header_line:
  "find_crlf (resp_array xs) = Some (Suc (length (show_nat (length xs))))"
  "take (length (show_nat (length xs))) (tl (resp_array xs)) = show_nat (length xs)"
  "resp_array xs \<noteq> []" "hd (resp_array xs) = CHR ''*''"
  "6 * length xs \<le> length (resp_array xs) - Suc (length (show_nat (length xs))) - 2"
  using find_crlf_line [of "CHR ''*'' # show_nat (length xs)" "concat (map resp_bulk xs)"] resp_bulks_ge [of xs]
  by (auto simp: resp_array_def resp_header_def)

text \<open>The payload, up to the loop over the objects.\<close>

lemma DecodeSnapshotPayload_array:
  assumes "length xs \<le> kMaxSnapshotElements" and "xs = kMagic # show_nat n # ys" and "n < 2 ^ 64"
  shows "DecodeSnapshotPayload P C (resp_array xs) = decode_objects C n ys (Map_empty (objects C))"
proof -
  let ?w = "resp_array xs"
  let ?L = "\<lparr>max_depth = 1, max_array_elements = kMaxSnapshotElements, max_bulk_bytes = length ?w\<rparr>"
  have lt: "length xs < 2 ^ 64" using assms(1) by (simp add: kMaxSnapshotElements_def)
  have "fits_limits ?L xs" using assms(1) by (simp add: fits_limits_def list_all_iff bulk_in_array)
  then obtain err where "UnpackOne P ?w (length xs + 1) ?L =
      \<lparr>res_status = RespOk, res_value = Some (RespArray (map RespBulk xs)), res_consumed = length ?w, res_error = err\<rparr>"
    using unpack_array [of ?L xs "length xs + 1" "[]"] by auto
  moreover have "\<not> (length ?w - Suc (length (show_nat (length xs))) - 2) div 6 < length xs"
    using header_line(5) [of xs] by simp
  ultimately have "DecodeSnapshotPayload P C ?w =
      (if length xs < 2 \<or> xs ! 0 \<noteq> kMagic then None
       else case ParseU64 (xs ! 1) of None \<Rightarrow> None
            | Some object_count \<Rightarrow> decode_objects C (unat object_count) (drop 2 xs) (Map_empty (objects C)))"
    using assms(1) lt header_line [of xs] by (simp add: DecodeSnapshotPayload_def ParseU64_show_nat unat_u64)
  with assms(2,3) show ?thesis by (simp add: ParseU64_show_nat unat_u64)
qed

lemma snapshot_decodes:
  assumes "view_ok (Map_Find (objects C) m)" and "\<And>key ob. Map_Find (objects C) m key = Some ob \<Longrightarrow> rereads C g ob"
    and "length (snapshot_fields C m) \<le> kMaxSnapshotElements"
  shows "\<exists>m'. DecodeSnapshotPayload P C (EncodeSnapshotPayload P C m) = Some m' \<and>
    (\<forall>key. abs_view C (Map_Find (objects C) m') key = map_option (rescore g) (abs_view C (Map_Find (objects C) m) key))"
proof -
  let ?objs = "Map_ForEach (objects C) m"
  have "length objs \<le> length (concat (map (encode_object C) objs))" for objs
    by (induction objs) (auto simp: length_encode_object object_elements_def)
  from this [of ?objs] have "length ?objs < 2 ^ 64" using assms(3) by (simp add: snapshot_fields_def kMaxSnapshotElements_def)
  with assms(3) have "DecodeSnapshotPayload P C (EncodeSnapshotPayload P C m) =
      decode_objects C (length ?objs) (concat (map (encode_object C) ?objs)) (Map_empty (objects C))"
    by (simp add: EncodeSnapshotPayload_array DecodeSnapshotPayload_array snapshot_fields_def)
  moreover have "\<exists>m'. decode_objects C (length ?objs) (concat (map (encode_object C) ?objs)) (Map_empty (objects C)) = Some m' \<and>
    (\<forall>key. abs_opt C (Map_Find (objects C) m' key) = (case map_of ?objs key of Some ob \<Rightarrow> Some (rescore g (abs_obj C ob))
       | None \<Rightarrow> abs_opt C (Map_Find (objects C) (Map_empty (objects C)) key)))"
  proof (rule decode_encoded_objects)
    fix key ob assume "(key, ob) \<in> set ?objs"
    then show "obj_ok ob \<and> rereads C g ob \<and> object_elements C ob < 2 ^ 64"
      using assms object_elements_le [of key ob m] by (auto simp: om.mem_foreach view_ok_def kMaxSnapshotElements_def)
  qed (rule om.foreach_distinct)
  ultimately show ?thesis
    by (auto simp: abs_view_def om.foreach_find om.find_empty case_map_option option.map_comp comp_def cong: option.case_cong)
qed

lemma snapshot_refused:
  assumes "kMaxSnapshotElements < length (snapshot_fields C m)"
  shows "DecodeSnapshotPayload P C (EncodeSnapshotPayload P C m) = None"
proof (cases "length (snapshot_fields C m) < 2 ^ 64")
  case True
  with assms header_line [of "snapshot_fields C m"] show ?thesis
    by (simp add: EncodeSnapshotPayload_array DecodeSnapshotPayload_def ParseU64_show_nat unat_u64)
next
  case False
  then have "ParseU64 (show_nat (length (snapshot_fields C m))) = None" by (simp add: ParseU64_def from_chars_u64_def)
  with header_line [of "snapshot_fields C m"] show ?thesis
    by (simp add: EncodeSnapshotPayload_array DecodeSnapshotPayload_def)
qed

text \<open>A replica that accepts an image has what the image was made of, if the scores survive printing.\<close>

lemma snapshot_faithful:
  assumes "view_ok (Map_Find (objects C) m)" and "\<And>key ob. Map_Find (objects C) m key = Some ob \<Longrightarrow> rereads C (\<lambda>s. s) ob"
    and "DecodeSnapshotPayload P C (EncodeSnapshotPayload P C m) = Some m'"
  shows "abs_view C (Map_Find (objects C) m') = abs_view C (Map_Find (objects C) m)"
proof (cases "length (snapshot_fields C m) \<le> kMaxSnapshotElements")
  case True
  from snapshot_decodes [OF assms(1,2) True] assms(3) show ?thesis by (auto simp: fun_eq_iff option.map_ident)
next
  case False
  with snapshot_refused [of m] assms(3) show ?thesis by simp
qed

end

interpretation ref_codec: replica_codec ref_containers ref_resp
  by unfold_locales

section \<open>Properties\<close>

lemma integer_score_reread:
  "\<bar>n\<bar> < 2 ^ 53 \<Longrightarrow> ParseFiniteDouble (SnapshotFormatScore (int_double n)) = Some (int_double n)"
  by (simp add: SnapshotFormatScore_def print_int_double parse_int_double)

text \<open>What the text of a score is read as, and that all scores of a map have a text that is read as a finite number.\<close>

definition reread_score :: "double \<Rightarrow> double" where
  "reread_score s = the (ParseFiniteDouble (SnapshotFormatScore s))"

definition scores_readable :: "('o, 'h, 's, 'z) containers \<Rightarrow> 'o \<Rightarrow> bool" where
  "scores_readable C m \<longleftrightarrow>
     (\<forall>key ob z member score. Map_Find (objects C) m key = Some ob \<and> obj_value ob = ZSetVal z \<and> Map_Find (zsets C) z member = Some score \<longrightarrow>
        ParseFiniteDouble (SnapshotFormatScore score) \<noteq> None)"

lemma scores_readable_rereads:
  "scores_readable C m \<Longrightarrow> Map_Find (objects C) m key = Some ob \<Longrightarrow> rereads C reread_score ob"
  unfolding rereads_def reread_score_def scores_readable_def by (metis option.exhaust_sel)

context replica_codec begin

lemma snapshot_rescored:
  assumes "view_ok (Map_Find (objects C) m)" and "scores_readable C m" and "length (snapshot_fields C m) \<le> kMaxSnapshotElements"
  shows "\<exists>m'. DecodeSnapshotPayload P C (EncodeSnapshotPayload P C m) = Some m' \<and>
    (\<forall>key. abs_view C (Map_Find (objects C) m') key = map_option (rescore reread_score) (abs_view C (Map_Find (objects C) m) key))"
  using snapshot_decodes [OF assms(1) _ assms(3), of reread_score] scores_readable_rereads [OF assms(2)] by blast

end

text \<open>(C13) What a replica gets from the image of a slot of at most a million elements whose scores all have a text that reads as a
  finite number: every key, with its type, its deadline and its value; a string, a hash and a set as they were, and in a sorted set
  each member with the number the text of its score is read as. A score that survives its text is thus the same.\<close>

theorem snapshot_round_trip:
  assumes "imt_lib C" and "resp_lib P" and "view_ok (Map_Find (objects C) m)" and "scores_readable C m"
    and "length (snapshot_fields C m) \<le> kMaxSnapshotElements"
  shows "\<exists>m'. DecodeSnapshotPayload P C (EncodeSnapshotPayload P C m) = Some m' \<and>
    (\<forall>key. abs_view C (Map_Find (objects C) m') key = map_option (rescore reread_score) (abs_view C (Map_Find (objects C) m) key))"
  by (rule replica_codec.snapshot_rescored [OF replica_codec.intro [OF assms(1,2)] assms(3-5)])

definition demo_scores :: ref_zset where
  "demo_scores = DAList.update ''m'' (int_double (- 42)) DAList.empty"

definition demo_image :: ref_objects where
  "demo_image = DAList.update ''k'' (WithDeadline (MakeString ''v'') 9) (DAList.update ''z'' (MakeZSet demo_scores) DAList.empty)"

theorem snapshot_round_trip_witness:
  "\<exists>m'. DecodeSnapshotPayload ref_resp ref_containers (EncodeSnapshotPayload ref_resp ref_containers demo_image) = Some m' \<and>
    abs_view ref_containers (Map_Find (objects ref_containers) m') ''k'' =
      Some \<lparr>abs_type = kString, abs_deadline = 9, abs_value = AString ''v''\<rparr> \<and>
    abs_view ref_containers (Map_Find (objects ref_containers) m') ''z'' =
      Some \<lparr>abs_type = kZSet, abs_deadline = 0, abs_value = AZSet [''m'' \<mapsto> int_double (- 42)]\<rparr>"
proof -
  have find: "Map_Find (objects ref_containers) demo_image = [''z'' \<mapsto> MakeZSet demo_scores, ''k'' \<mapsto> WithDeadline (MakeString ''v'') 9]"
    "Map_Find (zsets ref_containers) demo_scores = [''m'' \<mapsto> int_double (- 42)]"
    by (auto simp: ref_containers_def ref_map_def demo_image_def demo_scores_def DAList.lookup_update fun_eq_iff)
  have ok: "view_ok (Map_Find (objects ref_containers) demo_image)" "scores_readable ref_containers demo_image"
    by (auto simp: find view_ok_def obj_ok_def value_type_def scores_readable_def integer_score_reread split: if_splits)
  have "Map_ForEach (objects ref_containers) demo_image = [(''z'', MakeZSet demo_scores), (''k'', WithDeadline (MakeString ''v'') 9)]"
    by (simp add: ref_containers_def ref_map_def demo_image_def DAList.update.rep_eq DAList.empty.rep_eq)
  moreover have "Map_ForEach (zsets ref_containers) demo_scores = [(''m'', int_double (- 42))]"
    by (simp add: ref_containers_def ref_map_def demo_scores_def DAList.update.rep_eq DAList.empty.rep_eq)
  ultimately have "length (snapshot_fields ref_containers demo_image) \<le> kMaxSnapshotElements"
    by (simp add: snapshot_fields_def encode_object_def accessor_defs kMaxSnapshotElements_def)
  from snapshot_round_trip [OF ref_lib.imt_lib_axioms ref_resp_lib.resp_lib_axioms ok this] obtain m' where
    m': "DecodeSnapshotPayload ref_resp ref_containers (EncodeSnapshotPayload ref_resp ref_containers demo_image) = Some m'"
    "\<And>key. abs_view ref_containers (Map_Find (objects ref_containers) m') key =
      map_option (rescore reread_score) (abs_view ref_containers (Map_Find (objects ref_containers) demo_image) key)" by blast
  have "map_option (rescore reread_score) (abs_view ref_containers (Map_Find (objects ref_containers) demo_image) ''k'') =
      Some \<lparr>abs_type = kString, abs_deadline = 9, abs_value = AString ''v''\<rparr>"
    "map_option (rescore reread_score) (abs_view ref_containers (Map_Find (objects ref_containers) demo_image) ''z'') =
      Some \<lparr>abs_type = kZSet, abs_deadline = 0, abs_value = AZSet [''m'' \<mapsto> int_double (- 42)]\<rparr>"
    by (simp_all add: abs_view_def find abs_obj_def rescore_def reread_score_def integer_score_reread fun_eq_iff)
  with m' show ?thesis by metis
qed

text \<open>(C39) The encoder has no limit but the decoder has one: a slot whose payload has more than a million
  elements is encoded and then refused by every replica, so it can never be transferred.\<close>

theorem large_snapshot_refused:
  assumes "imt_lib C" and "resp_lib P" and "kMaxSnapshotElements < length (snapshot_fields C m)"
  shows "DecodeSnapshotPayload P C (EncodeSnapshotPayload P C m) = None"
  using replica_codec.snapshot_refused [OF replica_codec.intro [OF assms(1,2)] assms(3)] .

definition huge_set :: ref_sets where
  "huge_set = Dlist (map show_nat [0..<kMaxSnapshotElements])"

theorem large_snapshot_refused_witness:
  "DecodeSnapshotPayload ref_resp ref_containers
     (EncodeSnapshotPayload ref_resp ref_containers (DAList.update ''s'' (MakeSet huge_set) DAList.empty)) = None"
proof -
  have "inj_on show_nat {0..<kMaxSnapshotElements}"
  proof (rule inj_onI)
    fix a b assume ab: "a \<in> {0..<kMaxSnapshotElements}" "b \<in> {0..<kMaxSnapshotElements}" "show_nat a = show_nat b"
    then have lt: "a < 2 ^ 64" "b < 2 ^ 64" by (auto simp: kMaxSnapshotElements_def)
    then have "(of_nat a :: u64) = of_nat b" using ab(3) ParseU64_show_nat by (metis option.inject)
    then have "unat (of_nat a :: u64) = unat (of_nat b :: u64)" by simp
    with lt show "a = b" by (simp only: unat_u64)
  qed
  then have "distinct (map show_nat [0..<kMaxSnapshotElements])" by (simp add: distinct_map)
  then have "length (list_of_dlist huge_set) = kMaxSnapshotElements"
    unfolding huge_set_def by (simp add: distinct_remdups_id del: upt_rec_numeral)
  moreover have "Map_ForEach (objects ref_containers) (DAList.update ''s'' (MakeSet huge_set) DAList.empty) = [(''s'', MakeSet huge_set)]"
    by (simp add: ref_containers_def ref_map_def DAList.update.rep_eq DAList.empty.rep_eq)
  ultimately have "length (snapshot_fields ref_containers (DAList.update ''s'' (MakeSet huge_set) DAList.empty)) = 6 + kMaxSnapshotElements"
    by (simp add: snapshot_fields_def encode_object_def accessor_defs ref_containers_def ref_set_def)
  then show ?thesis
    by (intro large_snapshot_refused [OF ref_lib.imt_lib_axioms ref_resp_lib.resp_lib_axioms]) (simp_all add: kMaxSnapshotElements_def)
qed

lemma reread_1_5e20: "reread_score score_1_5e20 = int_double 150" "ParseFiniteDouble (SnapshotFormatScore score_1_5e20) \<noteq> None"
proof -
  have "SnapshotFormatScore score_1_5e20 = ''1.5e+2''" by (simp add: SnapshotFormatScore_def print17_1_5e20 Let_def)
  then show "reread_score score_1_5e20 = int_double 150" "ParseFiniteDouble (SnapshotFormatScore score_1_5e20) \<noteq> None"
    by (simp_all add: reread_score_def parse_1_5e2)
qed

text \<open>(C40) The score 1.5e20 does not survive an image: it is printed as 1.5e+20, the printer strips the zero of the exponent, and the
  replica reads 150. So in every slot whose image a replica accepts, within the element limit and with readable scores, a member
  with this score arrives with the score 150.\<close>

theorem snapshot_changes_score:
  assumes "imt_lib C" and "resp_lib P" and "view_ok (Map_Find (objects C) m)" and "scores_readable C m"
    and "length (snapshot_fields C m) \<le> kMaxSnapshotElements"
    and "Map_Find (objects C) m key = Some ob" and "obj_value ob = ZSetVal z" and "Map_Find (zsets C) z member = Some score_1_5e20"
  shows "\<exists>m' ob' z'. DecodeSnapshotPayload P C (EncodeSnapshotPayload P C m) = Some m' \<and>
    Map_Find (objects C) m' key = Some ob' \<and> obj_value ob' = ZSetVal z' \<and> Map_Find (zsets C) z' member = Some (int_double 150)"
proof -
  obtain m' where m': "DecodeSnapshotPayload P C (EncodeSnapshotPayload P C m) = Some m'"
    "abs_view C (Map_Find (objects C) m') key = map_option (rescore reread_score) (abs_view C (Map_Find (objects C) m) key)"
    using replica_codec.snapshot_rescored [OF replica_codec.intro [OF assms(1,2)] assms(3-5)] by blast
  with assms(6) obtain ob' where ob': "Map_Find (objects C) m' key = Some ob'" "abs_obj C ob' = rescore reread_score (abs_obj C ob)"
    by (auto simp: abs_view_def)
  from ob'(2) assms(7) have "abs_val C (obj_value ob') = AZSet (\<lambda>k. map_option reread_score (Map_Find (zsets C) z k))"
    by (simp add: rescore_def abs_obj_def)
  with m'(1) ob'(1) assms(8) show ?thesis by (auto simp: abs_val_cases fun_eq_iff reread_1_5e20)
qed

definition demo_large_score :: ref_objects where
  "demo_large_score = DAList.update ''z'' (MakeZSet (DAList.update ''m'' score_1_5e20 DAList.empty)) DAList.empty"

theorem snapshot_changes_score_witness:
  "\<exists>m' ob' z'. DecodeSnapshotPayload ref_resp ref_containers (EncodeSnapshotPayload ref_resp ref_containers demo_large_score) = Some m' \<and>
    Map_Find (objects ref_containers) m' ''z'' = Some ob' \<and> obj_value ob' = ZSetVal z' \<and>
    Map_Find (zsets ref_containers) z' ''m'' = Some (int_double 150)"
proof (rule snapshot_changes_score [OF ref_lib.imt_lib_axioms ref_resp_lib.resp_lib_axioms])
  let ?z = "DAList.update ''m'' score_1_5e20 DAList.empty :: ref_zset"
  have find: "Map_Find (objects ref_containers) demo_large_score = [''z'' \<mapsto> MakeZSet ?z]"
    "Map_Find (zsets ref_containers) ?z = [''m'' \<mapsto> score_1_5e20]"
    by (auto simp: ref_containers_def ref_map_def demo_large_score_def DAList.lookup_update fun_eq_iff)
  show "view_ok (Map_Find (objects ref_containers) demo_large_score)" "scores_readable ref_containers demo_large_score"
    using reread_1_5e20(2) by (auto simp: find view_ok_def obj_ok_def value_type_def scores_readable_def split: if_splits)
  show "Map_Find (objects ref_containers) demo_large_score ''z'' = Some (MakeZSet ?z)" "obj_value (MakeZSet ?z) = ZSetVal ?z"
    "Map_Find (zsets ref_containers) ?z ''m'' = Some score_1_5e20" by (simp_all add: find)
  have "Map_ForEach (objects ref_containers) demo_large_score = [(''z'', MakeZSet ?z)]" "Map_ForEach (zsets ref_containers) ?z = [(''m'', score_1_5e20)]"
    by (simp_all add: ref_containers_def ref_map_def demo_large_score_def DAList.update.rep_eq DAList.empty.rep_eq)
  then show "length (snapshot_fields ref_containers demo_large_score) \<le> kMaxSnapshotElements"
    by (simp add: snapshot_fields_def encode_object_def accessor_defs kMaxSnapshotElements_def)
qed

end
