(* ===== verification/SlaveReplicator.thy ===== *)
theory SlaveReplicator
  imports CommandTwins SnapshotCodec
begin

text \<open>
  The replica's side of replication, \<^verbatim>\<open>src/repl/slave_replicator.h\<close> and \<^verbatim>\<open>slave_replicator.cpp\<close>: it
  applies the frames of a master to its own engine, keeps for every slot what it has applied, and
  answers reads from the slots that are up to date. Every method holds the one mutex, so each is a
  step. The engine is a pointer that may be null; the current time is an argument.
\<close>

section \<open>State\<close>

datatype SlotState = kOffline | kSnapshotting | kCatchingUp | kOnline

record SlotApplyState =
  apply_state :: SlotState
  applied_seq :: u64
  need_snapshot :: bool

definition SlotApplyState_new :: SlotApplyState where
  "SlotApplyState_new = \<lparr>apply_state = kOffline, applied_seq = 0, need_snapshot = False\<rparr>"

record 'o SlaveReplicator =
  slave_engine :: "'o CacheEngine option"
  apply_slots :: "SlotApplyState list"
  slave_session_id :: string

definition SlaveReplicator_new :: "'o CacheEngine option \<Rightarrow> 'o SlaveReplicator" where
  "SlaveReplicator_new engine =
     \<lparr>slave_engine = map_option DisableBinlog engine,
      apply_slots = replicate (case engine of None \<Rightarrow> 0 | Some e \<Rightarrow> SlotCount e) SlotApplyState_new,
      slave_session_id = []\<rparr>"

text \<open>A call on the engine. The vector of slot states is as long as the engine has slots, so the slot
  numbers are in range and the calls do not throw.\<close>

definition on_engine ::
  "('o CacheEngine \<Rightarrow> 'o CacheEngine option) \<Rightarrow> 'o SlaveReplicator \<Rightarrow> 'o SlaveReplicator" where
  "on_engine f r = r\<lparr>slave_engine := (case slave_engine r of None \<Rightarrow> None
     | Some e \<Rightarrow> (case f e of None \<Rightarrow> Some e | Some e' \<Rightarrow> Some e'))\<rparr>"

definition put_state :: "'o SlaveReplicator \<Rightarrow> nat \<Rightarrow> SlotApplyState \<Rightarrow> 'o SlaveReplicator" where
  "put_state r slot st = r\<lparr>apply_slots := (apply_slots r)[slot := st]\<rparr>"

section \<open>Applying frames\<close>

definition ApplyRecord ::
  "('o, 'h, 's, 'z) containers \<Rightarrow> Rng \<Rightarrow> 'o SlaveReplicator \<Rightarrow> BinlogRecord \<Rightarrow> u64 \<Rightarrow> nat \<Rightarrow>
   'o SlaveReplicator \<times> bool" where
  "ApplyRecord C R r record now slot =
     (case slave_engine r of
        None \<Rightarrow> (r, False)
      | Some e \<Rightarrow>
          if length (rec_args record) < 2 \<or> SlotForKey (rec_args record ! 1) \<noteq> slot \<or>
             \<not> IsWriteCommand C R (rec_args record ! 0) then (r, False)
          else if ToUpperAscii (rec_args record ! 0) = ''DEL'' then
            (if length (rec_args record) \<noteq> 2 then (r, False)
             else (r\<lparr>slave_engine := Some (fst (CacheEngine_Del C e (rec_args record ! 1) 0))\<rparr>, True))
          else let (e', result) = Execute C R (rec_args record) e
                     (if rec_written_at_us record \<noteq> 0 then rec_written_at_us record else now);
                   r' = r\<lparr>slave_engine := Some e'\<rparr>
               in if is_error result then (r', False)
                  else if rec_written_at_us record \<noteq> 0 then
                    (on_engine (\<lambda>e. map_option (\<lambda>s. put_slot e slot
                         (HashSlot_SetReplicaDeadline C s (rec_args record ! 1) (rec_deadline_us record)))
                       (SlotById e slot)) r', True)
                  else (r', True))"

definition ApplyLog ::
  "('o, 'h, 's, 'z) containers \<Rightarrow> Rng \<Rightarrow> 'o SlaveReplicator \<Rightarrow> nat \<Rightarrow> BinlogRecord \<Rightarrow> u64 \<Rightarrow>
   'o SlaveReplicator \<times> bool" where
  "ApplyLog C R r slot record now =
     (if length (apply_slots r) \<le> slot then (r, False)
      else let st = apply_slots r ! slot;
               failed = (\<lambda>r. (put_state r slot (st\<lparr>need_snapshot := True, apply_state := kOffline\<rparr>), False))
           in if need_snapshot st then (r, False)
              else if rec_seq record \<le> applied_seq st then (r, True)
              else if rec_seq record \<noteq> applied_seq st + 1 then failed r
              else let (r', ok) = ApplyRecord C R r record now slot
                   in if \<not> ok then failed r'
                      else (put_state
                              (on_engine (\<lambda>e. CacheEngine_MarkSlotReplicaAppliedSeq e slot (rec_seq record)) r')
                              slot (st\<lparr>applied_seq := rec_seq record, apply_state := kCatchingUp\<rparr>), True))"

definition ApplySnapshot ::
  "Resp \<Rightarrow> ('o, 'h, 's, 'z) containers \<Rightarrow> 'o SlaveReplicator \<Rightarrow> Frame \<Rightarrow> 'o SlaveReplicator \<times> bool" where
  "ApplySnapshot P C r frame =
     (let st = (apply_slots r ! slot_id frame)\<lparr>apply_state := kSnapshotting\<rparr>;
          failed = (put_state r (slot_id frame) (st\<lparr>apply_state := kOffline, need_snapshot := True\<rparr>), False)
      in case DecodeSnapshotPayload P C (snapshot_payload frame) of
           None \<Rightarrow> failed
         | Some m \<Rightarrow>
             if \<not> list_all (\<lambda>(key, object). SlotForKey key = slot_id frame) (Map_ForEach (objects C) m) then failed
             else (put_state
                     (on_engine (\<lambda>e. CacheEngine_InstallSlotReplicaSnapshot e (slot_id frame) m (base_seq frame)) r)
                     (slot_id frame)
                     (st\<lparr>applied_seq := base_seq frame, need_snapshot := False, apply_state := kCatchingUp\<rparr>), True))"

text \<open>The loop of a reset and the loop of a Done frame, which stops at the first bad slot number.\<close>

definition reset_slot ::
  "('o, 'h, 's, 'z) containers \<Rightarrow> 'o SlaveReplicator \<Rightarrow> nat \<Rightarrow> 'o SlaveReplicator" where
  "reset_slot C r slot =
     on_engine (\<lambda>e. CacheEngine_InstallSlotReplicaSnapshot e slot (Map_empty (objects C)) 0)
       (put_state r slot SlotApplyState_new)"

fun done_loop :: "'o SlaveReplicator \<Rightarrow> (nat \<times> u64) list \<Rightarrow> 'o SlaveReplicator \<times> bool" where
  "done_loop r [] = (r, True)"
| "done_loop r ((slot, target) # items) =
     (if length (apply_slots r) \<le> slot then (r, False)
      else let st = apply_slots r ! slot
           in done_loop (if \<not> need_snapshot st
                         then put_state r slot (st\<lparr>apply_state := if target \<le> applied_seq st then kOnline else kCatchingUp\<rparr>)
                         else r) items)"

definition EnqueueFrame ::
  "Resp \<Rightarrow> ('o, 'h, 's, 'z) containers \<Rightarrow> Rng \<Rightarrow> 'o SlaveReplicator \<Rightarrow> Frame \<Rightarrow> u64 \<Rightarrow>
   'o SlaveReplicator \<times> bool" where
  "EnqueueFrame P C R r frame now =
     (if slave_engine r = None then (r, False)
      else if subcmd frame = kBegin then
        (if session_id frame = [] \<or> (\<not> frame_reset frame \<and> session_id frame \<noteq> slave_session_id r) then (r, False)
         else ((if frame_reset frame then foldl (reset_slot C) r [0..<length (apply_slots r)] else r)
                 \<lparr>slave_session_id := session_id frame\<rparr>, True))
      else if slave_session_id r = [] \<or> session_id frame \<noteq> slave_session_id r then (r, False)
      else if subcmd frame = kDone then done_loop r (slot_positions frame)
      else if length (apply_slots r) \<le> slot_id frame then (r, False)
      else if subcmd frame = kSnapshot then ApplySnapshot P C r frame
      else if subcmd frame = kLog then ApplyLog C R r (slot_id frame) (frame_record frame) now
      else (r, False))"

section \<open>Reading\<close>

definition CanReadSlot :: "'o SlaveReplicator \<Rightarrow> nat \<Rightarrow> bool" where
  "CanReadSlot r slot \<longleftrightarrow> slot < length (apply_slots r) \<and> apply_state (apply_slots r ! slot) = kOnline"

definition ExecuteRead ::
  "('o, 'h, 's, 'z) containers \<Rightarrow> Rng \<Rightarrow> 'o SlaveReplicator \<Rightarrow> string list \<Rightarrow> u64 \<Rightarrow> bool \<Rightarrow>
   'o SlaveReplicator \<times> Response" where
  "ExecuteRead C R r args now enabled =
     (case slave_engine r of
        None \<Rightarrow> (r, Error ''TRYAGAIN replica is unavailable'')
      | Some e \<Rightarrow>
          if args \<noteq> [] \<and> IsWriteCommand C R (args ! 0) then (r, Error ''READONLY replica does not accept writes'')
          else if \<not> enabled then (r, Error ''READONLY replica reads are disabled'')
          else let (e', response) = ExecuteReadOnly C R args e now
                     (\<lambda>slot. slot < length (apply_slots r) \<and> apply_state (apply_slots r ! slot) = kOnline)
               in (r\<lparr>slave_engine := Some e'\<rparr>, response))"

definition SlaveReplicator_SlotCount :: "'o SlaveReplicator \<Rightarrow> nat" where
  "SlaveReplicator_SlotCount r = length (apply_slots r)"

definition CurrentSessionId :: "'o SlaveReplicator \<Rightarrow> string" where
  "CurrentSessionId r = slave_session_id r"

definition SlaveReplicator_Positions :: "'o SlaveReplicator \<Rightarrow> (nat \<times> u64) list" where
  "SlaveReplicator_Positions r =
     map (\<lambda>i. (i, if need_snapshot (apply_slots r ! i) then u64_max else applied_seq (apply_slots r ! i)))
       [0..<length (apply_slots r)]"

lemma ExecuteRead_keeps: "fst (ExecuteRead C R r args now enabled) = r"
  by (cases "slave_engine r") (simp_all add: ExecuteRead_def case_prod_beta ExecuteReadOnly_keeps)

section \<open>One write per record\<close>

text \<open>A replayed command writes at most once, and only at its key.\<close>

definition one_write ::
  "('o, 'h, 's, 'z) containers \<Rightarrow> 'o CacheEngine \<Rightarrow> string \<Rightarrow> 'o CacheEngine \<Rightarrow> bool" where
  "one_write C e key e' \<longleftrightarrow> e' = e \<or>
     (\<exists>x r now. e' = commit C e key x r now \<and> (x = None \<longrightarrow> engine_view C e key \<noteq> None))"

lemma IsWriteCommand_entry:
  assumes "IsWriteCommand C R a"
  obtains entry where "find_command C R (ToUpperAscii a) = Some entry" and "write_cmd entry"
  using assms by (auto simp: IsWriteCommand_def split: option.splits)

lemma find_SPOP [simp]: "find_command C R ''SPOP'' =
    Some \<lparr>entry_cmd = \<lparr>CheckArity = SPopCmd_CheckArity, ExecCmd = SPopCmd_ExecCmd C R\<rparr>, write_cmd = True, multi_key = False\<rparr>"
  by (simp add: find_command_def commands_def)

lemma find_EXPIRE [simp]: "find_command C R ''EXPIRE'' =
    Some \<lparr>entry_cmd = \<lparr>CheckArity = ExpireCmd_CheckArity, ExecCmd = ExpireCmd_ExecCmd C\<rparr>, write_cmd = True, multi_key = False\<rparr>"
  by (simp add: find_command_def commands_def)

lemma find_DEL [simp]: "find_command C R ''DEL'' =
    Some \<lparr>entry_cmd = \<lparr>CheckArity = DelCmd_CheckArity, ExecCmd = DelCmd_ExecCmd C\<rparr>, write_cmd = True, multi_key = False\<rparr>"
  by (simp add: find_command_def commands_def)

context imt_lib begin

lemma one_write_same [simp]: "one_write C e key e"
  by (simp add: one_write_def)

lemma one_write_commit:
  "(x = None \<Longrightarrow> engine_view C e key \<noteq> None) \<Longrightarrow> one_write C e key (commit C e key x r now)"
  unfolding one_write_def by blast

lemma one_write_Mutate: "one_write C e key (fst (CacheEngine_Mutate C e key f r now))"
proof -
  have "one_write C e key (commit C e key x r' now)"
    if "mutation_effect (CacheEngine_Get C e key now) m = Some x" for m x r'
    using that CacheEngine_Get_Some [of C e key now]
    by (intro one_write_commit) (auto simp: mutation_effect_def split: if_splits)
  then show ?thesis by (auto simp: Mutate_eq Let_def split: option.splits)
qed

lemma one_write_Del: "one_write C e key (fst (CacheEngine_Del C e key now))"
  using CacheEngine_Get_Some [of C e key now] by (auto simp: Del_eq intro!: one_write_commit split: option.splits)

lemma one_write_Expire: "one_write C e key (fst (CacheEngine_Expire C e key secs now))"
  using one_write_Del [of e key now] by (auto simp: Expire_eq intro!: one_write_commit split: option.splits)

lemma one_write_SPop: "one_write C e (as ! 0) (fst (SPopCmd_ExecCmd C R (a # as) e now))"
  by (auto simp: SPopCmd_ExecCmd_def args_Cons ReadSet_def case_prod_beta Let_def one_write_Mutate split: option.splits)

lemma Execute_one_write:
  assumes "IsWriteCommand C R a" and "ToUpperAscii a \<noteq> ''DEL''"
  shows "one_write C e (as ! 0) (fst (Execute C R (a # as) e now))"
proof -
  consider "ToUpperAscii a = ''SPOP''" | "ToUpperAscii a = ''EXPIRE''" | "ToUpperAscii a \<notin> {''SPOP'', ''DEL'', ''EXPIRE''}"
    using assms(2) by blast
  then show ?thesis
  proof cases
    case 1
    then show ?thesis using one_write_SPop [of e as R a now] by (simp add: Execute_def Let_def split: option.splits)
  next
    case 2
    then show ?thesis
      by (auto simp: Execute_def Let_def ExpireCmd_ExecCmd_def args_Cons case_prod_beta one_write_Expire split: option.splits)
  next
    case 3
    from assms(1) obtain entry where "find_command C R (ToUpperAscii a) = Some entry" "write_cmd entry"
      by (rule IsWriteCommand_entry)
    from Execute_twins [OF this 3, of e as e now] show ?thesis
      by (auto simp: twins_def one_write_def)
  qed
qed

text \<open>What the calls of a replica do to the invariant of its engine.\<close>

lemma decode_value_ok: "decode_value C type flds = Some ob \<Longrightarrow> obj_ok ob"
  by (auto simp: decode_value_def split: if_splits)

lemma decode_objects_ok:
  "decode_objects C n xs m = Some m' \<Longrightarrow> view_ok (Map_Find (objects C) m) \<Longrightarrow> view_ok (Map_Find (objects C) m')"
proof (induction n arbitrary: xs m)
  case (Suc n)
  from Suc.prems(1) obtain deadline k ob where ob: "decode_value C (xs ! 2) (take k (drop 4 xs)) = Some ob"
    and rest: "decode_objects C n (drop k (drop 4 xs))
      (Map_Set (objects C) m (xs ! 0) (if deadline \<noteq> 0 then WithDeadline ob deadline else ob)) = Some m'"
    by (auto simp: Let_def split: if_splits option.splits)
  have "view_ok (Map_Find (objects C) (Map_Set (objects C) m (xs ! 0) (if deadline \<noteq> 0 then WithDeadline ob deadline else ob)))"
    using Suc.prems(2) decode_value_ok [OF ob] by (auto simp: view_ok_def om.find_set split: if_splits)
  from Suc.IH [OF rest this] show ?case .
qed (simp split: if_splits)

lemma DecodeSnapshotPayload_ok:
  assumes "DecodeSnapshotPayload P C payload = Some m"
  shows "view_ok (Map_Find (objects C) m)"
proof -
  from assms obtain n xs where "decode_objects C n xs (Map_empty (objects C)) = Some m"
    by (auto simp: DecodeSnapshotPayload_def Let_def split: if_splits option.splits)
  then show ?thesis by (rule decode_objects_ok) (simp add: view_ok_def om.find_empty)
qed

lemma engine_inv_put:
  assumes "engine_inv C e" and "\<And>key ob. slot_view C s key = Some ob \<Longrightarrow> SlotForKey key = i \<and> obj_ok ob"
    and "slot_published_seq s = slot_seq s" and "bytes_ok (slot_binlog s)"
    and "\<not> slot_log_writes s \<Longrightarrow> slot_log s = []"
  shows "engine_inv C (put_slot e i s)"
  using assms by (auto simp: engine_inv_def placed_def view_ok_def engine_view_def KeySlot_def)

lemma engine_inv_slot:
  assumes "engine_inv C e" and "slot_view C (slots e i) key = Some ob"
  shows "SlotForKey key = i \<and> obj_ok ob"
  using assms by (fastforce simp: engine_inv_def placed_def view_ok_def engine_view_def KeySlot_def)

lemma engine_inv_Install:
  assumes "engine_inv C e" and "view_ok (Map_Find (objects C) m)"
    and "list_all (\<lambda>(key, object). SlotForKey key = i) (Map_ForEach (objects C) m)"
  shows "engine_inv C (put_slot e i (HashSlot_InstallReplicaSnapshot (slots e i) m seq))"
  using assms
  by (intro engine_inv_put) (auto simp: HashSlot_InstallReplicaSnapshot_def slot_view_def view_ok_def list_all_iff om.mem_foreach)

lemma Mark_simps [simp]:
  "slot_map (HashSlot_MarkReplicaAppliedSeq s seq) = slot_map s"
  "slot_binlog (HashSlot_MarkReplicaAppliedSeq s seq) = slot_binlog s"
  "slot_log_writes (HashSlot_MarkReplicaAppliedSeq s seq) = slot_log_writes s"
  "slot_seq (HashSlot_MarkReplicaAppliedSeq s seq) = max (slot_seq s) seq"
  "slot_published_seq s = slot_seq s \<Longrightarrow> slot_published_seq (HashSlot_MarkReplicaAppliedSeq s seq) = max (slot_seq s) seq"
  "slot_view C (HashSlot_MarkReplicaAppliedSeq s seq) = slot_view C s"
  by (auto simp: HashSlot_MarkReplicaAppliedSeq_def slot_view_def Let_def max_def)

lemma engine_inv_Mark:
  assumes "engine_inv C e"
  shows "engine_inv C (put_slot e i (HashSlot_MarkReplicaAppliedSeq (slots e i) seq))"
  using assms engine_inv_slot [OF assms, of i]
  by (intro engine_inv_put) (auto simp: engine_inv_def)

lemma SetReplicaDeadline_simps [simp]:
  "slot_seq (HashSlot_SetReplicaDeadline C s key d) = slot_seq s"
  "slot_published_seq (HashSlot_SetReplicaDeadline C s key d) = slot_published_seq s"
  "slot_binlog (HashSlot_SetReplicaDeadline C s key d) = slot_binlog s"
  "slot_log_writes (HashSlot_SetReplicaDeadline C s key d) = slot_log_writes s"
  "slot_view C (HashSlot_SetReplicaDeadline C s key d) = (slot_view C s)(key := map_option (\<lambda>ob. WithDeadline ob d) (slot_view C s key))"
  by (auto simp: HashSlot_SetReplicaDeadline_def slot_view_def om.find_set fun_eq_iff split: option.splits)

lemma engine_inv_Deadline:
  assumes "engine_inv C e"
  shows "engine_inv C (put_slot e i (HashSlot_SetReplicaDeadline C (slots e i) key d))"
  using assms engine_inv_slot [OF assms, of i]
  by (intro engine_inv_put) (auto simp: engine_inv_def split: if_splits)

lemma engine_inv_one_write:
  assumes "one_write C e key e'"
  shows "\<And>i. i \<noteq> SlotForKey key \<Longrightarrow> slots e' i = slots e i"
    and "slot_log_writes (slots e' i) = slot_log_writes (slots e i)"
    and "slot_seq (KeySlot e' key) \<in> {slot_seq (KeySlot e key), slot_seq (KeySlot e key) + 1}"
  using assms by (auto simp: one_write_def commit_def KeySlot_def split: if_splits)

end

section \<open>The invariant of a replica\<close>

text \<open>
  Between frames, no slot is in the middle of a snapshot and a slot that needs one is offline; the
  engine does not log, is well formed, and numbers its writes exactly as the applied records.
\<close>

definition state_ok :: "SlotApplyState \<Rightarrow> bool" where
  "state_ok st \<longleftrightarrow> apply_state st \<noteq> kSnapshotting \<and> (need_snapshot st \<longrightarrow> apply_state st = kOffline)"

definition slave_inv :: "('o, 'h, 's, 'z) containers \<Rightarrow> 'o SlaveReplicator \<Rightarrow> bool" where
  "slave_inv C r \<longleftrightarrow> list_all state_ok (apply_slots r) \<and>
     (case slave_engine r of
        None \<Rightarrow> apply_slots r = []
      | Some e \<Rightarrow> length (apply_slots r) = kSlotCount \<and> engine_inv C e \<and>
          (\<forall>i. \<not> slot_log_writes (slots e i)) \<and>
          (\<forall>i < kSlotCount. slot_seq (slots e i) = applied_seq (apply_slots r ! i)))"

lemma state_ok_simps [simp]:
  "state_ok SlotApplyState_new"
  "state_ok \<lparr>apply_state = kOffline, applied_seq = q, need_snapshot = b\<rparr>"
  by (simp_all add: state_ok_def SlotApplyState_new_def)

lemma SlotById_Some: "i < kSlotCount \<Longrightarrow> SlotById e i = Some (slots e i)"
  by (simp add: SlotById_def SlotCount_def)

lemma put_state_simps [simp]:
  "slave_engine (put_state r i st) = slave_engine r" "slave_session_id (put_state r i st) = slave_session_id r"
  "apply_slots (put_state r i st) = (apply_slots r)[i := st]"
  by (simp_all add: put_state_def)

lemma on_engine_simps [simp]:
  "apply_slots (on_engine f r) = apply_slots r" "slave_session_id (on_engine f r) = slave_session_id r"
  "slave_engine r = Some e \<Longrightarrow> f e = Some e' \<Longrightarrow> slave_engine (on_engine f r) = Some e'"
  by (simp_all add: on_engine_def)

lemma slave_inv_seq:
  "slave_inv C r \<Longrightarrow> slave_engine r = Some e \<Longrightarrow> i < kSlotCount \<Longrightarrow> slot_seq (slots e i) = applied_seq (apply_slots r ! i)"
  by (simp add: slave_inv_def)

lemma slave_inv_update:
  assumes "slave_inv C r" and "slave_engine r = Some e" and "slave_engine r' = Some e'"
    and "apply_slots r' = (apply_slots r)[i := st]" and "engine_inv C e'" and "\<And>j. \<not> slot_log_writes (slots e' j)"
    and "\<And>j. j \<noteq> i \<Longrightarrow> slot_seq (slots e' j) = slot_seq (slots e j)" and "slot_seq (slots e' i) = applied_seq st"
    and "state_ok st"
  shows "slave_inv C r'"
proof -
  have "slot_seq (slots e' j) = applied_seq ((apply_slots r)[i := st] ! j)" if "j < kSlotCount" for j
    using assms(1,2,7,8) that by (cases "j = i") (simp_all add: slave_inv_def)
  with assms show ?thesis by (auto simp: slave_inv_def list_all_iff dest!: set_update_subset_insert [THEN subsetD])
qed

context imt_lib begin

lemma slave_inv_new: "engine_inv C e \<Longrightarrow> (\<And>i. slot_seq (slots e i) = 0) \<Longrightarrow> slave_inv C (SlaveReplicator_new (Some e))"
  by (auto simp: slave_inv_def SlaveReplicator_new_def SlotCount_def list_all_iff engine_inv_def placed_def view_ok_def
      DisableBinlog_def HashSlot_SetLogWrites_def Let_def slot_view_def engine_view_def KeySlot_def SlotApplyState_new_def)

lemma slave_inv_put_state:
  assumes "slave_inv C r" and "i < length (apply_slots r)" and "applied_seq st = applied_seq (apply_slots r ! i)" and "state_ok st"
  shows "slave_inv C (put_state r i st)"
  using assms by (auto simp: slave_inv_def nth_list_update list_all_iff split: option.splits dest!: set_update_subset_insert [THEN subsetD])

lemma slave_inv_install:
  assumes "slave_inv C r" and "i < kSlotCount" and "view_ok (Map_Find (objects C) m)"
    and "list_all (\<lambda>(key, object). SlotForKey key = i) (Map_ForEach (objects C) m)"
    and "applied_seq st = seq" and "state_ok st" and "slave_engine r = Some e"
  shows "slave_inv C (put_state (on_engine (\<lambda>e. CacheEngine_InstallSlotReplicaSnapshot e i m seq) r) i st)"
proof (rule slave_inv_update [OF assms(1,7)])
  show "slave_engine (put_state (on_engine (\<lambda>e. CacheEngine_InstallSlotReplicaSnapshot e i m seq) r) i st) =
      Some (put_slot e i (HashSlot_InstallReplicaSnapshot (slots e i) m seq))"
    using assms(2,7) by (simp add: CacheEngine_InstallSlotReplicaSnapshot_def SlotById_Some)
  show "engine_inv C (put_slot e i (HashSlot_InstallReplicaSnapshot (slots e i) m seq))"
    using assms(1,7) by (intro engine_inv_Install assms(3,4)) (simp add: slave_inv_def)
qed (use assms in \<open>auto simp: slave_inv_def HashSlot_InstallReplicaSnapshot_def\<close>)

lemma slave_inv_ApplySnapshot:
  assumes "slave_inv C r" and "slot_id f < length (apply_slots r)" and "slave_engine r = Some e"
  shows "slave_inv C (fst (ApplySnapshot P C r f))"
proof -
  have lt: "slot_id f < kSlotCount" using assms by (simp add: slave_inv_def)
  show ?thesis
  proof (cases "DecodeSnapshotPayload P C (snapshot_payload f)")
    case (Some m)
    note install = slave_inv_install [OF assms(1) lt DecodeSnapshotPayload_ok [OF Some] _ _ _ assms(3)]
    from assms(1,2) Some install show ?thesis
      by (auto simp: ApplySnapshot_def Let_def intro!: slave_inv_put_state simp: state_ok_def)
  qed (use assms(1,2) in \<open>auto simp: ApplySnapshot_def Let_def intro!: slave_inv_put_state simp: state_ok_def\<close>)
qed

text \<open>A record touches its slot only, by at most one write; a record that is refused changes nothing.\<close>

lemma ApplyRecord_effect:
  assumes "engine_inv C e" and "slave_engine r = Some e" and "ApplyRecord C R r record now slot = (r', ok)"
  shows "\<exists>e'. r' = r\<lparr>slave_engine := Some e'\<rparr> \<and> engine_inv C e' \<and> (\<forall>i. slot_log_writes (slots e' i) = slot_log_writes (slots e i)) \<and>
    (\<forall>i. i \<noteq> slot \<longrightarrow> slots e' i = slots e i) \<and>
    slot_seq (slots e' slot) \<in> {slot_seq (slots e slot), slot_seq (slots e slot) + 1} \<and> (\<not> ok \<longrightarrow> e' = e)"
proof -
  define good where "good e' \<longleftrightarrow> engine_inv C e' \<and> (\<forall>i. slot_log_writes (slots e' i) = slot_log_writes (slots e i)) \<and>
    (\<forall>i. i \<noteq> slot \<longrightarrow> slots e' i = slots e i) \<and>
    slot_seq (slots e' slot) \<in> {slot_seq (slots e slot), slot_seq (slots e slot) + 1}" for e'
  have same: "good e" using assms(1) by (simp add: good_def)
  let ?args = "rec_args record"
  have single: "good e'" if "one_write C e (?args ! 1) e'" "engine_inv C e'" "SlotForKey (?args ! 1) = slot" for e'
    using engine_inv_one_write [OF that(1)] that(2,3) by (auto simp: good_def KeySlot_def)
  consider "r' = r" "\<not> ok" | "SlotForKey (?args ! 1) = slot" "r' = r\<lparr>slave_engine := Some (fst (CacheEngine_Del C e (?args ! 1) 0))\<rparr>"
      "ok" | e1 result where "SlotForKey (?args ! 1) = slot" "2 \<le> length ?args" "IsWriteCommand C R (?args ! 0)"
      "ToUpperAscii (?args ! 0) \<noteq> ''DEL''"
      "Execute C R ?args e (if rec_written_at_us record \<noteq> 0 then rec_written_at_us record else now) = (e1, result)"
      "ok = (\<not> is_error result)" "r' = r\<lparr>slave_engine := Some e1\<rparr> \<or> ok \<and> r' = r\<lparr>slave_engine := Some (put_slot e1 slot
           (HashSlot_SetReplicaDeadline C (slots e1 slot) (?args ! 1) (rec_deadline_us record)))\<rparr>"
    using assms(2,3)
    by (auto simp: ApplyRecord_def Let_def on_engine_def SlotById_Some split: if_splits prod.splits)
  then have "\<exists>e'. r' = r\<lparr>slave_engine := Some e'\<rparr> \<and> good e' \<and> (\<not> ok \<longrightarrow> e' = e)"
  proof cases
    case 1
    then show ?thesis using same assms(2) by (intro exI [of _ e]) simp
  next
    case 2
    have "engine_inv C (fst (CacheEngine_Del C e (?args ! 1) 0))"
      using assms(1) engine_step_Del [of e "?args ! 1" 0]
      by (cases "CacheEngine_Get C e (?args ! 1) 0") (auto simp: Del_eq intro: engine_inv_step)
    with 2 single [OF one_write_Del] show ?thesis by blast
  next
    case (3 e1 result)
    obtain a as where args: "?args = a # as" using 3(2) by (cases ?args) auto
    then have key: "?args ! 1 = as ! 0" by simp
    have e1: "e1 = fst (Execute C R (a # as) e (if rec_written_at_us record \<noteq> 0 then rec_written_at_us record else now))"
      using 3(5) args by simp
    have "one_write C e (?args ! 1) e1" unfolding e1 key using 3(3,4) args by (intro Execute_one_write) simp_all
    moreover have "engine_inv C e1" unfolding e1 by (rule engine_inv_Execute [OF assms(1)])
    ultimately have good: "good e1" using single 3(1) by blast
    then have "good (put_slot e1 slot (HashSlot_SetReplicaDeadline C (slots e1 slot) k d))" for k d
      by (auto simp: good_def engine_inv_Deadline)
    moreover have "\<not> ok \<Longrightarrow> e1 = e" 
      using Execute_outcome [of e R ?args "if rec_written_at_us record \<noteq> 0 then rec_written_at_us record else now"] 3(5,6)
      by (simp add: outcome_ok_def)
    ultimately show ?thesis using 3(7) good by blast
  qed
  then show ?thesis unfolding good_def by blast
qed

lemma slave_inv_ApplyLog:
  assumes "slave_inv C r" and "slave_engine r = Some e"
  shows "slave_inv C (fst (ApplyLog C R r slot record now))"
proof -
  let ?st = "apply_slots r ! slot"
  have bad: "slot < length (apply_slots r) \<Longrightarrow> slave_inv C (put_state r slot (?st\<lparr>need_snapshot := True, apply_state := kOffline\<rparr>))"
    by (rule slave_inv_put_state [OF assms(1)]) (simp_all add: state_ok_def)
  obtain r' ok where app: "ApplyRecord C R r record now slot = (r', ok)" by fastforce
  have inv: "engine_inv C e" using assms by (simp add: slave_inv_def)
  obtain e' where e': "r' = r\<lparr>slave_engine := Some e'\<rparr>" "engine_inv C e'" "\<forall>i. slot_log_writes (slots e' i) = slot_log_writes (slots e i)"
    "\<forall>i. i \<noteq> slot \<longrightarrow> slots e' i = slots e i"
    "slot_seq (slots e' slot) \<in> {slot_seq (slots e slot), slot_seq (slots e slot) + 1}" "\<not> ok \<longrightarrow> e' = e"
    using ApplyRecord_effect [OF inv assms(2) app] by blast
  have "slave_inv C (put_state (on_engine (\<lambda>e. CacheEngine_MarkSlotReplicaAppliedSeq e slot (rec_seq record)) r') slot
      (?st\<lparr>applied_seq := rec_seq record, apply_state := kCatchingUp\<rparr>))"
    if lt: "slot < length (apply_slots r)" and next1: "rec_seq record = applied_seq ?st + 1" "applied_seq ?st < rec_seq record"
      "\<not> need_snapshot ?st"
  proof (rule slave_inv_update [OF assms])
    have slot: "slot < kSlotCount" "slot_seq (slots e slot) = applied_seq ?st" using assms lt by (simp_all add: slave_inv_def)
    show "slave_engine (put_state (on_engine (\<lambda>e. CacheEngine_MarkSlotReplicaAppliedSeq e slot (rec_seq record)) r') slot
      (?st\<lparr>applied_seq := rec_seq record, apply_state := kCatchingUp\<rparr>)) =
      Some (put_slot e' slot (HashSlot_MarkReplicaAppliedSeq (slots e' slot) (rec_seq record)))"
      using slot by (simp add: e'(1) CacheEngine_MarkSlotReplicaAppliedSeq_def SlotById_Some)
    show "engine_inv C (put_slot e' slot (HashSlot_MarkReplicaAppliedSeq (slots e' slot) (rec_seq record)))"
      by (rule engine_inv_Mark [OF e'(2)])
    show "\<not> slot_log_writes (slots (put_slot e' slot (HashSlot_MarkReplicaAppliedSeq (slots e' slot) (rec_seq record))) j)" for j
      using assms e'(3) by (simp add: slave_inv_def)
    show "slot_seq (slots (put_slot e' slot (HashSlot_MarkReplicaAppliedSeq (slots e' slot) (rec_seq record))) slot) =
      applied_seq (?st\<lparr>applied_seq := rec_seq record, apply_state := kCatchingUp\<rparr>)"
      using e'(5) slot next1 by (auto simp: max_def)
  qed (use e'(1,4) that in \<open>auto simp: state_ok_def\<close>)
  moreover have "r' = r" if "\<not> ok" using e'(1,6) assms(2) that by simp
  ultimately show ?thesis
    using assms(1) bad by (auto simp: ApplyLog_def Let_def app split: if_splits)
qed

lemma slave_inv_reset_slot:
  assumes "slave_inv C r" and "slave_engine r = Some e" and "i < kSlotCount"
  shows "slave_inv C (reset_slot C r i) \<and> slave_engine (reset_slot C r i) \<noteq> None"
proof -
  have "Map_ForEach (objects C) (Map_empty (objects C)) = []"
    using om.mem_foreach [of _ _ "Map_empty (objects C)"] om.find_empty by (metis option.distinct(1) list.set_intros(1) neq_Nil_conv surj_pair)
  then have "slave_inv C (put_state (on_engine (\<lambda>e. CacheEngine_InstallSlotReplicaSnapshot e i (Map_empty (objects C)) 0) r) i SlotApplyState_new)"
    using assms by (intro slave_inv_install) (auto simp: view_ok_def om.find_empty SlotApplyState_new_def)
  moreover have "reset_slot C r i = put_state (on_engine (\<lambda>e. CacheEngine_InstallSlotReplicaSnapshot e i (Map_empty (objects C)) 0) r) i SlotApplyState_new"
    by (simp add: reset_slot_def put_state_def on_engine_def)
  ultimately show ?thesis using assms(2) by (simp add: on_engine_def split: option.splits)
qed

lemma slave_inv_reset:
  "slave_inv C r \<Longrightarrow> slave_engine r \<noteq> None \<Longrightarrow> list_all (\<lambda>i. i < kSlotCount) ixs \<Longrightarrow> slave_inv C (foldl (reset_slot C) r ixs)"
proof (induction ixs arbitrary: r)
  case (Cons i ixs)
  then show ?case using slave_inv_reset_slot [of r _ i] by auto
qed simp

lemma slave_inv_done_loop: "slave_inv C r \<Longrightarrow> slave_inv C (fst (done_loop r items))"
proof (induction r items rule: done_loop.induct)
  case (2 r slot target items)
  let ?st = "apply_slots r ! slot"
  have "slave_inv C (put_state r slot (?st\<lparr>apply_state := if target \<le> applied_seq ?st then kOnline else kCatchingUp\<rparr>))"
    if "slot < length (apply_slots r)" "\<not> need_snapshot ?st"
    using that by (intro slave_inv_put_state [OF 2(2)]) (simp_all add: state_ok_def)
  with 2 show ?case by (simp add: Let_def)
qed simp

lemma slave_inv_EnqueueFrame:
  assumes "slave_inv C r"
  shows "slave_inv C (fst (EnqueueFrame P C R r f now))"
proof (cases "slave_engine r")
  case (Some e)
  have "length (apply_slots r) = kSlotCount" using assms Some by (simp add: slave_inv_def)
  then have "slave_inv C (foldl (reset_slot C) r [0..<length (apply_slots r)])"
    using Some by (intro slave_inv_reset assms) (simp_all add: list_all_iff)
  moreover have "slave_inv C (q\<lparr>slave_session_id := sid\<rparr>) = slave_inv C q" for q sid
    by (simp add: slave_inv_def split: option.splits)
  moreover note slave_inv_ApplySnapshot [OF assms _ Some, of f P] slave_inv_ApplyLog [OF assms Some, of R "slot_id f" "frame_record f" now]
    slave_inv_done_loop [OF assms, of "slot_positions f"]
  ultimately show ?thesis using assms by (simp add: EnqueueFrame_def)
qed (simp add: EnqueueFrame_def assms)

end

section \<open>Properties\<close>

text \<open>A replica from its start, whatever frames arrive at whatever times.\<close>

inductive replica_run :: "Resp \<Rightarrow> ('o, 'h, 's, 'z) containers \<Rightarrow> Rng \<Rightarrow> 'o SlaveReplicator \<Rightarrow> bool"
  for P :: Resp and C :: "('o, 'h, 's, 'z) containers" and R :: Rng where
  replica_start: "replica_run P C R (SlaveReplicator_new (Some (CacheEngine_new C)))"
| replica_frame: "replica_run P C R r \<Longrightarrow> replica_run P C R (fst (EnqueueFrame P C R r frame now))"

context imt_lib begin

lemma slave_inv_run: "replica_run P C R r \<Longrightarrow> slave_inv C r"
proof (induction rule: replica_run.induct)
  case replica_start
  show ?case by (rule slave_inv_new [OF engine_inv_new]) (simp add: CacheEngine_new_def HashSlot_new_def)
qed (rule slave_inv_EnqueueFrame)

end

text \<open>(C11) Whatever frames a replica receives, in whatever order and with whatever content, its engine
  stays well formed and unlogged, every slot's sequence number is the number of the last record or
  image applied to it, no slot is left half-way through a snapshot, and a slot that needs a snapshot is
  offline.\<close>

theorem replica_invariant:
  assumes "imt_lib C" and "replica_run P C R r"
  shows "slave_inv C r"
  by (rule imt_lib.slave_inv_run [OF assms])

theorem replica_invariant_witness:
  "slave_inv ref_containers (fst (EnqueueFrame ref_resp ref_containers demo_rng
     (SlaveReplicator_new (Some (CacheEngine_new ref_containers))) (Frame_Begin ''s'' True) 7))"
  by (rule replica_invariant [OF ref_lib.imt_lib_axioms replica_frame [OF replica_start]])

lemma CanReadSlot_put:
  "CanReadSlot (put_state r i st) slot \<longleftrightarrow>
     slot < length (apply_slots r) \<and> apply_state (if slot = i then st else apply_slots r ! slot) = kOnline"
  by (auto simp: CanReadSlot_def nth_list_update)

lemma CanReadSlot_simps [simp]:
  "CanReadSlot (on_engine f r) slot = CanReadSlot r slot"
  "CanReadSlot (r\<lparr>slave_session_id := sid\<rparr>) slot = CanReadSlot r slot"
  "CanReadSlot (r\<lparr>slave_engine := x\<rparr>) slot = CanReadSlot r slot"
  by (simp_all add: CanReadSlot_def)

lemma done_loop_keeps:
  "length (apply_slots (fst (done_loop r items))) = length (apply_slots r)"
  "applied_seq (apply_slots (fst (done_loop r items)) ! i) = applied_seq (apply_slots r ! i)"
  "need_snapshot (apply_slots (fst (done_loop r items)) ! i) = need_snapshot (apply_slots r ! i)"
  by (induction r items rule: done_loop.induct) (auto simp: Let_def nth_list_update)

lemma done_loop_online:
  "CanReadSlot (fst (done_loop r items)) slot \<Longrightarrow> \<not> CanReadSlot r slot \<Longrightarrow>
   \<not> need_snapshot (apply_slots r ! slot) \<and> (\<exists>target. (slot, target) \<in> set items \<and> target \<le> applied_seq (apply_slots r ! slot))"
proof (induction r items rule: done_loop.induct)
  case (2 r i target items)
  let ?st = "apply_slots r ! i"
  let ?r = "if \<not> need_snapshot ?st then put_state r i (?st\<lparr>apply_state := if target \<le> applied_seq ?st then kOnline else kCatchingUp\<rparr>) else r"
  from 2(2,3) have i: "\<not> length (apply_slots r) \<le> i" and read: "CanReadSlot (fst (done_loop ?r items)) slot"
    by (auto simp: Let_def split: if_splits)
  have keep: "applied_seq (apply_slots ?r ! slot) = applied_seq (apply_slots r ! slot)"
    "need_snapshot (apply_slots ?r ! slot) = need_snapshot (apply_slots r ! slot)"
    using i by (simp_all add: nth_list_update)
  show ?case
  proof (cases "CanReadSlot ?r slot")
    case True
    with 2(3) have "slot = i" "\<not> need_snapshot ?st" "target \<le> applied_seq ?st"
      by (auto simp: CanReadSlot_put split: if_splits) (auto simp: CanReadSlot_def)
    then show ?thesis by auto
  next
    case False
    from 2(1) [OF i refl read this] keep show ?thesis by auto
  qed
qed simp

lemma CanReadSlot_reset: "CanReadSlot (foldl (reset_slot C) r ixs) slot \<Longrightarrow> CanReadSlot r slot"
proof (induction ixs arbitrary: r)
  case (Cons i ixs)
  from Cons.IH [of "reset_slot C r i"] Cons.prems have "CanReadSlot (reset_slot C r i) slot" by simp
  then show ?case by (cases "slot = i") (auto simp: reset_slot_def SlotApplyState_new_def CanReadSlot_def)
qed simp

lemma CanReadSlot_ApplySnapshot: "CanReadSlot (fst (ApplySnapshot P C r f)) slot \<Longrightarrow> CanReadSlot r slot"
  by (auto simp: ApplySnapshot_def Let_def CanReadSlot_put split: option.splits if_splits) (auto simp: CanReadSlot_def)

lemma apply_slots_ApplyRecord: "apply_slots (fst (ApplyRecord C R r record now slot)) = apply_slots r"
  by (auto simp: ApplyRecord_def Let_def split: option.splits prod.splits)

lemma CanReadSlot_ApplyLog: "CanReadSlot (fst (ApplyLog C R r i record now)) slot \<Longrightarrow> CanReadSlot r slot"
  using apply_slots_ApplyRecord [of C R r "record" now i]
  by (auto simp: ApplyLog_def Let_def CanReadSlot_put split: if_splits prod.splits) (auto simp: CanReadSlot_def)

lemma CanReadSlot_EnqueueFrame:
  assumes "slave_engine r = None \<or> subcmd frame \<noteq> kDone" and "CanReadSlot (fst (EnqueueFrame P C R r frame now)) slot"
  shows "CanReadSlot r slot"
  using assms CanReadSlot_ApplyLog [of C R r "slot_id frame" "frame_record frame" now slot]
  by (auto simp: EnqueueFrame_def split: if_splits dest: CanReadSlot_reset CanReadSlot_ApplySnapshot)

text \<open>(C16) A slot becomes readable only through a Done frame of the current session that names it with a
  position the replica has reached, and not while it needs a snapshot.\<close>

theorem online_only_when_caught_up:
  assumes "EnqueueFrame P C R r frame now = (r', ok)" and "CanReadSlot r' slot" and "\<not> CanReadSlot r slot"
  shows "subcmd frame = kDone \<and> session_id frame = CurrentSessionId r \<and> CurrentSessionId r \<noteq> [] \<and>
    \<not> need_snapshot (apply_slots r' ! slot) \<and>
    (\<exists>target. (slot, target) \<in> set (slot_positions frame) \<and> target \<le> applied_seq (apply_slots r' ! slot))"
proof (cases "slave_engine r = None \<or> subcmd frame \<noteq> kDone")
  case True
  with assms CanReadSlot_EnqueueFrame [of r frame P C R now slot] show ?thesis by simp
next
  case False
  with assms have "r' = fst (done_loop r (slot_positions frame))" "session_id frame = slave_session_id r" "slave_session_id r \<noteq> []"
    by (auto simp: EnqueueFrame_def split: if_splits)
  with False done_loop_online [of r "slot_positions frame" slot] assms(2,3) show ?thesis
    by (simp add: done_loop_keeps CurrentSessionId_def)
qed

definition demo_replica :: "ref_objects SlaveReplicator" where
  "demo_replica = \<lparr>slave_engine = Some (DisableBinlog (CacheEngine_new ref_containers)),
     apply_slots = replicate kSlotCount SlotApplyState_new, slave_session_id = ''s''\<rparr>"

theorem online_only_when_caught_up_witness:
  "\<exists>target. (3, target) \<in> set (slot_positions (Frame_Done ''s'' [(3, 0)])) \<and>
     target \<le> applied_seq (apply_slots (fst (EnqueueFrame ref_resp ref_containers demo_rng demo_replica (Frame_Done ''s'' [(3, 0)]) 7)) ! 3)"
proof -
  have lt: "3 < kSlotCount" by (simp add: kSlotCount_def)
  have run: "EnqueueFrame ref_resp ref_containers demo_rng demo_replica (Frame_Done ''s'' [(3, 0)]) 7 =
      (put_state demo_replica 3 (SlotApplyState_new\<lparr>apply_state := kOnline\<rparr>), True)"
    using lt by (simp add: EnqueueFrame_def demo_replica_def Frame_Done_def Frame_new_def SlotApplyState_new_def Let_def)
  have "CanReadSlot (put_state demo_replica 3 (SlotApplyState_new\<lparr>apply_state := kOnline\<rparr>)) 3" "\<not> CanReadSlot demo_replica 3"
    using lt by (simp_all add: CanReadSlot_def demo_replica_def SlotApplyState_new_def)
  from online_only_when_caught_up [OF run this] show ?thesis by (simp add: run)
qed

text \<open>Which records can be replayed on an engine, and the object each leaves at its key.\<close>

definition record_time :: "BinlogRecord \<Rightarrow> u64 \<Rightarrow> u64" where
  "record_time record now = (if rec_written_at_us record \<noteq> 0 then rec_written_at_us record else now)"

definition record_applies ::
  "('o, 'h, 's, 'z) containers \<Rightarrow> Rng \<Rightarrow> 'o CacheEngine \<Rightarrow> nat \<Rightarrow> BinlogRecord \<Rightarrow> u64 \<Rightarrow> bool" where
  "record_applies C R e slot record now \<longleftrightarrow>
     (\<exists>cmd key args. rec_args record = cmd # key # args \<and> SlotForKey key = slot \<and> IsWriteCommand C R cmd \<and>
        (if ToUpperAscii cmd = ''DEL'' then args = []
         else \<not> is_error (snd (Execute C R (rec_args record) e (record_time record now)))))"

definition record_object ::
  "('o, 'h, 's, 'z) containers \<Rightarrow> Rng \<Rightarrow> 'o CacheEngine \<Rightarrow> BinlogRecord \<Rightarrow> u64 \<Rightarrow> ('h, 's, 'z) RedisObject option" where
  "record_object C R e record now =
     (if ToUpperAscii (rec_args record ! 0) = ''DEL'' then None
      else map_option (\<lambda>ob. if rec_written_at_us record \<noteq> 0 then WithDeadline ob (rec_deadline_us record) else ob)
        (engine_view C (fst (Execute C R (rec_args record) e (record_time record now))) (rec_args record ! 1)))"

context imt_lib begin

lemma one_write_slot:
  assumes "one_write C e key e'"
  shows "slot_view C (slots e' (SlotForKey key)) = (slot_view C (slots e (SlotForKey key)))(key := engine_view C e' key)"
proof (cases "e' = e")
  case True
  then show ?thesis by (simp add: engine_view_def KeySlot_def fun_upd_idem)
next
  case False
  with assms obtain x r now where e': "e' = commit C e key x r now" and x: "x = None \<longrightarrow> engine_view C e key \<noteq> None"
    by (auto simp: one_write_def)
  have "engine_committed C e e' key x r now" unfolding e' using x by (intro commit_committed) simp
  then show ?thesis by (auto simp: engine_committed_def committed_def engine_view_def KeySlot_def)
qed

lemma SetReplicaDeadline_view:
  "slot_view C (HashSlot_SetReplicaDeadline C s key d) = (slot_view C s)(key := map_option (\<lambda>ob. WithDeadline ob d) (slot_view C s key))"
  by (auto simp: HashSlot_SetReplicaDeadline_def slot_view_def om.find_set fun_eq_iff split: option.splits)

lemma Del_at_zero: "engine_view C (fst (CacheEngine_Del C e key 0)) key = None"
  by (cases "engine_view C e key") (auto simp: Del_eq CacheEngine_Get_live live_def IsExpired_def)

lemma ApplyRecord_spec:
  assumes "slave_engine r = Some e" and "slot < kSlotCount" and "ApplyRecord C R r record now slot = (r', ok)"
  shows "ok \<longleftrightarrow> record_applies C R e slot record now"
    and "ok \<Longrightarrow> \<exists>e'. slave_engine r' = Some e' \<and> slot_view C (slots e' slot) =
      (slot_view C (slots e slot))(rec_args record ! 1 := record_object C R e record now)"
proof -
  let ?args = "rec_args record"
  consider (short) "length ?args < 2" | cmd key as where "?args = cmd # key # as"
    by (cases ?args; cases "tl ?args") auto
  then have "(ok \<longleftrightarrow> record_applies C R e slot record now) \<and> (ok \<longrightarrow> (\<exists>e'. slave_engine r' = Some e' \<and>
      slot_view C (slots e' slot) = (slot_view C (slots e slot))(?args ! 1 := record_object C R e record now)))"
  proof cases
    case short
    with assms(1,3) show ?thesis by (auto simp: ApplyRecord_def record_applies_def)
  next
    case (2 cmd key as)
    let ?t = "record_time record now"
    show ?thesis
    proof (cases "SlotForKey key = slot \<and> IsWriteCommand C R cmd")
      case False
      with 2 assms(1,3) show ?thesis by (auto simp: ApplyRecord_def record_applies_def)
    next
      case ok: True
      show ?thesis
      proof (cases "ToUpperAscii cmd = ''DEL''")
        case True
        with ok 2 assms(1,3) one_write_slot [OF one_write_Del [of e key 0]] show ?thesis
          by (auto simp: ApplyRecord_def record_applies_def record_object_def Del_at_zero split: if_splits)
      next
        case False
        obtain e1 reply where ex: "Execute C R ?args e ?t = (e1, reply)" by fastforce
        have "one_write C e key e1" using Execute_one_write [of R cmd e "key # as" ?t] ok False ex 2 by simp
        note view = one_write_slot [OF this]
        have "engine_view C e1 key = slot_view C (slots e1 slot) key" using ok by (simp add: engine_view_def KeySlot_def)
        moreover have "(slot_view C (slots e1 slot))(key := x) = (slot_view C (slots e slot))(key := x)" for x
          using view ok by (metis fun_upd_upd)
        ultimately show ?thesis using ok False 2 assms ex view
          by (auto simp: ApplyRecord_def record_applies_def record_object_def record_time_def on_engine_def SlotById_Some
              SetReplicaDeadline_view Let_def option.map_ident split: if_splits)
      qed
    qed
  qed
  then show "ok \<longleftrightarrow> record_applies C R e slot record now" and "ok \<Longrightarrow> \<exists>e'. slave_engine r' = Some e' \<and>
      slot_view C (slots e' slot) = (slot_view C (slots e slot))(?args ! 1 := record_object C R e record now)" by blast+
qed

end

text \<open>A record that is not old, applied or refused.\<close>

context imt_lib begin

lemma ApplyLog_applied:
  assumes "slave_inv C r" and "slave_engine r = Some e" and "slot < kSlotCount" and "ApplyLog C R r slot record now = (r', True)"
    and "\<not> need_snapshot (apply_slots r ! slot)" and "\<not> rec_seq record \<le> applied_seq (apply_slots r ! slot)"
  obtains e' where "slave_engine r' = Some e'" and "\<forall>i. i \<noteq> slot \<longrightarrow> slots e' i = slots e i" and "slot_seq (slots e' slot) = rec_seq record"
    and "rec_seq record = applied_seq (apply_slots r ! slot) + 1" and "record_applies C R e slot record now"
    and "slot_view C (slots e' slot) = (slot_view C (slots e slot))(rec_args record ! 1 := record_object C R e record now)"
    and "apply_slots r' = (apply_slots r)[slot := (apply_slots r ! slot)\<lparr>applied_seq := rec_seq record, apply_state := kCatchingUp\<rparr>]"
proof -
  have len: "length (apply_slots r) = kSlotCount" and inv: "engine_inv C e" using assms(1,2) by (simp_all add: slave_inv_def)
  have inv': "slave_inv C r'" using slave_inv_ApplyLog [OF assms(1,2), of R slot "record" now] assms(4) by simp
  obtain r1 ok1 where app: "ApplyRecord C R r record now slot = (r1, ok1)" by fastforce
  obtain e1 where e1: "r1 = r\<lparr>slave_engine := Some e1\<rparr>" "\<forall>i. i \<noteq> slot \<longrightarrow> slots e1 i = slots e i"
    using ApplyRecord_effect [OF inv assms(2) app] by blast
  have r': "rec_seq record = applied_seq (apply_slots r ! slot) + 1"
    "r' = put_state (on_engine (\<lambda>e. CacheEngine_MarkSlotReplicaAppliedSeq e slot (rec_seq record)) r1) slot
        ((apply_slots r ! slot)\<lparr>applied_seq := rec_seq record, apply_state := kCatchingUp\<rparr>)" "ok1"
    using assms(3-6) len by (auto simp: ApplyLog_def Let_def app split: if_splits)
  have e': "slave_engine r' = Some (put_slot e1 slot (HashSlot_MarkReplicaAppliedSeq (slots e1 slot) (rec_seq record)))"
    using assms(3) by (simp add: r'(2) e1(1) CacheEngine_MarkSlotReplicaAppliedSeq_def SlotById_Some)
  have spec: "record_applies C R e slot record now"
    "slot_view C (slots e1 slot) = (slot_view C (slots e slot))(rec_args record ! 1 := record_object C R e record now)"
    using ApplyRecord_spec [OF assms(2,3) app] r'(3) by (simp_all add: e1(1))
  show ?thesis
  proof (rule that [OF e' _ _ r'(1) spec(1)])
    show "slot_view C (slots (put_slot e1 slot (HashSlot_MarkReplicaAppliedSeq (slots e1 slot) (rec_seq record))) slot) =
      (slot_view C (slots e slot))(rec_args record ! 1 := record_object C R e record now)"
      using spec(2) by (simp add: slot_view_def HashSlot_MarkReplicaAppliedSeq_def Let_def)
    show "slot_seq (slots (put_slot e1 slot (HashSlot_MarkReplicaAppliedSeq (slots e1 slot) (rec_seq record))) slot) = rec_seq record"
      using slave_inv_seq [OF inv' e' assms(3)] len assms(3) by (simp add: r'(2) e1(1))
  qed (use e1 in \<open>simp_all add: r'(2)\<close>)
qed

lemma ApplyLog_refused:
  assumes "slave_inv C r" and "slave_engine r = Some e" and "slot < kSlotCount" and "ApplyLog C R r slot record now = (r', False)"
    and "\<not> need_snapshot (apply_slots r ! slot)"
  shows "r' = put_state r slot ((apply_slots r ! slot)\<lparr>need_snapshot := True, apply_state := kOffline\<rparr>)"
    and "\<not> (rec_seq record = applied_seq (apply_slots r ! slot) + 1 \<and> record_applies C R e slot record now)"
proof -
  have len: "length (apply_slots r) = kSlotCount" and inv: "engine_inv C e" using assms(1,2) by (simp_all add: slave_inv_def)
  obtain r1 ok1 where app: "ApplyRecord C R r record now slot = (r1, ok1)" by fastforce
  have "r1 = r" if "\<not> ok1" using ApplyRecord_effect [OF inv assms(2) app] assms(2) that by auto
  with assms(3-5) len show "r' = put_state r slot ((apply_slots r ! slot)\<lparr>need_snapshot := True, apply_state := kOffline\<rparr>)"
    by (auto simp: ApplyLog_def Let_def app split: if_splits)
  show "\<not> (rec_seq record = applied_seq (apply_slots r ! slot) + 1 \<and> record_applies C R e slot record now)"
    using ApplyRecord_spec(1) [OF assms(2,3) app] assms(3-5) len by (auto simp: ApplyLog_def Let_def app split: if_splits)
qed

end

text \<open>(C17) What a log record of the current session does to a replica. A slot that waits for a snapshot
  refuses it; a record already applied is accepted and changes nothing; the next record, if it can be replayed, is applied: the
  slot then has exactly its number and is catching up, its key has the object the command gives on the replica's engine at the time
  of the write, with the deadline the record carries, and no other key changes. A record that leaves a gap or cannot
  be replayed leaves the engine as it was and takes the slot offline until a snapshot. Other slots are never touched.\<close>

theorem log_frame_outcome:
  assumes "imt_lib C" and "slave_inv C r" and "slave_engine r = Some e" and "slot < kSlotCount"
    and "slave_session_id r \<noteq> []"
    and "EnqueueFrame P C R r (Frame_Log (slave_session_id r) slot record) now = (r', ok)"
  shows "\<exists>e'. slave_engine r' = Some e' \<and> (\<forall>i. i \<noteq> slot \<longrightarrow> slots e' i = slots e i) \<and>
    (\<forall>i < kSlotCount. i \<noteq> slot \<longrightarrow> apply_slots r' ! i = apply_slots r ! i) \<and>
    (let st = apply_slots r ! slot; st' = apply_slots r' ! slot in
       if need_snapshot st then \<not> ok \<and> r' = r
       else if rec_seq record \<le> applied_seq st then ok \<and> r' = r
       else if rec_seq record = applied_seq st + 1 \<and> record_applies C R e slot record now then
         ok \<and> applied_seq st' = rec_seq record \<and> slot_seq (slots e' slot) = rec_seq record \<and> apply_state st' = kCatchingUp \<and>
         slot_view C (slots e' slot) = (slot_view C (slots e slot))(rec_args record ! 1 := record_object C R e record now)
       else \<not> ok \<and> e' = e \<and> need_snapshot st' \<and> apply_state st' = kOffline \<and> applied_seq st' = applied_seq st)"
proof -
  have len: "length (apply_slots r) = kSlotCount" using assms(2,3) by (simp add: slave_inv_def)
  have run: "ApplyLog C R r slot record now = (r', ok)"
    using assms(3-6) len by (simp add: EnqueueFrame_def Frame_Log_def Frame_new_def)
  consider (old) "need_snapshot (apply_slots r ! slot) \<or> rec_seq record \<le> applied_seq (apply_slots r ! slot)"
    | (applied) "ok" "\<not> need_snapshot (apply_slots r ! slot)" "\<not> rec_seq record \<le> applied_seq (apply_slots r ! slot)"
    | (refused) "\<not> ok" "\<not> need_snapshot (apply_slots r ! slot)" "\<not> rec_seq record \<le> applied_seq (apply_slots r ! slot)"
    by blast
  then show ?thesis
  proof cases
    case old
    with run len assms(3,4) have "r' = r" "ok = (\<not> need_snapshot (apply_slots r ! slot))" by (auto simp: ApplyLog_def Let_def split: if_splits)
    with old assms(3) show ?thesis by (intro exI [of _ e]) (auto simp: Let_def)
  next
    case applied
    then have "ApplyLog C R r slot record now = (r', True)" using run by simp
    from imt_lib.ApplyLog_applied [OF assms(1-4) this applied(2,3)] obtain e' where
      "slave_engine r' = Some e'" "\<forall>i. i \<noteq> slot \<longrightarrow> slots e' i = slots e i" "slot_seq (slots e' slot) = rec_seq record"
      "rec_seq record = applied_seq (apply_slots r ! slot) + 1" "record_applies C R e slot record now"
      "slot_view C (slots e' slot) = (slot_view C (slots e slot))(rec_args record ! 1 := record_object C R e record now)"
      "apply_slots r' = (apply_slots r)[slot := (apply_slots r ! slot)\<lparr>applied_seq := rec_seq record, apply_state := kCatchingUp\<rparr>]" .
    with applied len assms(4) show ?thesis by (intro exI [of _ e']) (simp add: Let_def)
  next
    case refused
    then have "r' = put_state r slot ((apply_slots r ! slot)\<lparr>need_snapshot := True, apply_state := kOffline\<rparr>)"
      "\<not> (rec_seq record = applied_seq (apply_slots r ! slot) + 1 \<and> record_applies C R e slot record now)"
      using imt_lib.ApplyLog_refused [OF assms(1-4), of R "record" now r'] run by simp_all
    with refused assms(3,4) len show ?thesis by (intro exI [of _ e]) (simp add: Let_def)
  qed
qed

theorem log_frame_outcome_witness:
  "need_snapshot (apply_slots (fst (EnqueueFrame ref_resp ref_containers demo_rng demo_replica
     (Frame_Log ''s'' 3 (new_record\<lparr>rec_seq := 5\<rparr>)) 7)) ! 3) \<and>
   snd (EnqueueFrame ref_resp ref_containers demo_rng demo_replica
     (Frame_Log ''s'' (SlotForKey ''k'') (new_record\<lparr>rec_seq := 1, rec_args := [''DEL'', ''k'']\<rparr>)) 7)"
proof -
  let ?good = "new_record\<lparr>rec_seq := 1, rec_args := [''DEL'', ''k'']\<rparr>"
  obtain r' ok where run: "EnqueueFrame ref_resp ref_containers demo_rng demo_replica
      (Frame_Log (slave_session_id demo_replica) 3 (new_record\<lparr>rec_seq := 5\<rparr>)) 7 = (r', ok)" by fastforce
  obtain r2 ok2 where run2: "EnqueueFrame ref_resp ref_containers demo_rng demo_replica
      (Frame_Log (slave_session_id demo_replica) (SlotForKey ''k'') ?good) 7 = (r2, ok2)" by fastforce
  have start: "slave_inv ref_containers (SlaveReplicator_new (Some (CacheEngine_new ref_containers)))"
    by (rule ref_lib.slave_inv_run [OF replica_start])
  have inv: "slave_inv ref_containers demo_replica"
    using start by (simp add: slave_inv_def SlaveReplicator_new_def demo_replica_def SlotCount_def)
  have lt: "3 < kSlotCount" by (simp add: kSlotCount_def)
  have eng: "slave_engine demo_replica = Some (DisableBinlog (CacheEngine_new ref_containers))" "slave_session_id demo_replica \<noteq> []"
    by (simp_all add: demo_replica_def)
  have upper: "ToUpperAscii ''DEL'' = ''DEL''" by code_simp
  have good: "record_applies ref_containers demo_rng e (SlotForKey ''k'') ?good 7" for e
    by (simp add: record_applies_def IsWriteCommand_def upper)
  have "need_snapshot (apply_slots r' ! 3)"
    using log_frame_outcome [OF ref_lib.imt_lib_axioms inv eng(1) lt eng(2) run] lt
    by (auto simp add: demo_replica_def SlotApplyState_new_def Let_def split: if_splits)
  moreover have "ok2"
    using log_frame_outcome [OF ref_lib.imt_lib_axioms inv eng(1) SlotForKey_less eng(2) run2] good
    by (auto simp add: demo_replica_def SlotApplyState_new_def Let_def split: if_splits)
  ultimately show ?thesis using run run2 by (simp add: demo_replica_def)
qed

end
