(* ===== verification/ExpireSweeper.thy ===== *)
theory ExpireSweeper
  imports CacheEngine
begin

text \<open>
  The background sweeper, \<^verbatim>\<open>src/expire\<close>: each tick visits the next slots in turn and deletes up to 64
  expired keys in each. The engine pointer may be null, which is \<open>None\<close>.
\<close>

definition kMaxExpiredKeysPerSlot :: nat where
  "kMaxExpiredKeysPerSlot = 64"

record ExpireSweeper =
  slots_per_tick :: nat
  next_slot :: nat

definition ExpireSweeper_new :: "nat \<Rightarrow> ExpireSweeper" where
  "ExpireSweeper_new n = \<lparr>slots_per_tick = n, next_slot = 0\<rparr>"

text \<open>The loop of \<^verbatim>\<open>SweepOnce\<close>: next slot, engine and count; \<open>None\<close> is \<^verbatim>\<open>std::out_of_range\<close>.\<close>

fun SweepOnce_loop ::
  "('o, 'h, 's, 'z) containers \<Rightarrow> u64 \<Rightarrow> nat \<Rightarrow> nat \<times> 'o CacheEngine \<times> nat \<Rightarrow>
   (nat \<times> 'o CacheEngine \<times> nat) option" where
  "SweepOnce_loop C now_us 0 st = Some st"
| "SweepOnce_loop C now_us (Suc i) (nxt, e, deleted) =
     (case CacheEngine_DeleteExpiredInSlot C e nxt kMaxExpiredKeysPerSlot now_us of
        None \<Rightarrow> None
      | Some (e', n) \<Rightarrow> SweepOnce_loop C now_us i ((nxt + 1) mod SlotCount e', e', deleted + n))"

definition SweepOnce ::
  "('o, 'h, 's, 'z) containers \<Rightarrow> ExpireSweeper \<Rightarrow> 'o CacheEngine option \<Rightarrow> u64 \<Rightarrow>
   (ExpireSweeper \<times> 'o CacheEngine option \<times> nat) option" where
  "SweepOnce C sw engine now_us =
     (case engine of
        None \<Rightarrow> Some (sw, engine, 0)
      | Some e \<Rightarrow>
          if slots_per_tick sw = 0 \<or> SlotCount e = 0 then Some (sw, engine, 0)
          else (case SweepOnce_loop C now_us (slots_per_tick sw) (next_slot sw, e, 0) of
                  None \<Rightarrow> None
                | Some (nxt, e', deleted) \<Rightarrow> Some (sw\<lparr>next_slot := nxt\<rparr>, Some e', deleted)))"

section \<open>Sweeping\<close>

lemma DeleteExpiredInSlot_eq:
  assumes "i < kSlotCount"
  shows "CacheEngine_DeleteExpiredInSlot C e i n now =
    Some (put_slot e i (fst (HashSlot_DeleteExpired C (slots e i) n now)),
          snd (HashSlot_DeleteExpired C (slots e i) n now))"
  using assms by (simp add: CacheEngine_DeleteExpiredInSlot_def SlotById_def SlotCount_def case_prod_beta)

definition swept :: "('o, 'h, 's, 'z) containers \<Rightarrow> u64 \<Rightarrow> 'o HashSlot \<Rightarrow> 'o HashSlot" where
  "swept C now s = fst (HashSlot_DeleteExpired C s kMaxExpiredKeysPerSlot now)"

text \<open>The loop sweeps the slots \<open>nxt\<close>, \<open>nxt + 1\<close>, ... modulo the slot count, and always returns.\<close>

fun sweep_slots :: "('o, 'h, 's, 'z) containers \<Rightarrow> u64 \<Rightarrow> nat \<Rightarrow> nat \<Rightarrow> 'o CacheEngine \<Rightarrow> 'o CacheEngine" where
  "sweep_slots C now nxt 0 e = e"
| "sweep_slots C now nxt (Suc i) e =
     sweep_slots C now ((nxt + 1) mod kSlotCount) i (put_slot e nxt (swept C now (slots e nxt)))"

lemma SweepOnce_loop_sweep:
  "nxt < kSlotCount \<Longrightarrow> \<exists>d. SweepOnce_loop C now i (nxt, e, n) =
     Some ((nxt + i) mod kSlotCount, sweep_slots C now nxt i e, d)"
proof (induction i arbitrary: nxt e n)
  case (Suc i)
  then have "(nxt + 1) mod kSlotCount < kSlotCount" by simp
  from Suc.IH [OF this] Suc.prems show ?case
    by (simp add: DeleteExpiredInSlot_eq swept_def [symmetric] SlotCount_def mod_simps)
qed simp

lemma sweep_slots_append:
  "nxt < kSlotCount \<Longrightarrow>
   sweep_slots C now nxt (i + j) e = sweep_slots C now ((nxt + i) mod kSlotCount) j (sweep_slots C now nxt i e)"
  by (induction i arbitrary: nxt e) (simp_all add: mod_simps)

text \<open>\<open>n\<close> ticks in a row at one time.\<close>

fun sweeps ::
  "('o, 'h, 's, 'z) containers \<Rightarrow> u64 \<Rightarrow> nat \<Rightarrow> ExpireSweeper \<times> 'o CacheEngine option \<Rightarrow>
   (ExpireSweeper \<times> 'o CacheEngine option) option" where
  "sweeps C now 0 st = Some st"
| "sweeps C now (Suc n) (sw, e) =
     (case SweepOnce C sw e now of None \<Rightarrow> None | Some (sw', e', _) \<Rightarrow> sweeps C now n (sw', e'))"

lemma SweepOnce_eq:
  assumes "next_slot sw < kSlotCount"
  shows "\<exists>d. SweepOnce C sw (Some e) now =
    Some (sw\<lparr>next_slot := (next_slot sw + slots_per_tick sw) mod kSlotCount\<rparr>,
          Some (sweep_slots C now (next_slot sw) (slots_per_tick sw) e), d)"
proof (cases "slots_per_tick sw = 0")
  case True
  then show ?thesis using assms by (simp add: SweepOnce_def)
next
  case False
  from SweepOnce_loop_sweep [OF assms, of C now "slots_per_tick sw" e 0] False show ?thesis
    using kSlotCount_pos by (auto simp: SweepOnce_def SlotCount_def simp del: kSlotCount_pos)
qed

lemma sweeps_eq:
  "next_slot sw < kSlotCount \<Longrightarrow> \<exists>sw'. sweeps C now n (sw, Some e) =
     Some (sw', Some (sweep_slots C now (next_slot sw) (n * slots_per_tick sw) e))"
proof (induction n arbitrary: sw e)
  case (Suc n)
  let ?sw = "sw\<lparr>next_slot := (next_slot sw + slots_per_tick sw) mod kSlotCount\<rparr>"
  from SweepOnce_eq [OF Suc.prems, of C e now] Suc.IH [of ?sw] Suc.prems
  show ?case by (auto simp: sweep_slots_append)
qed simp

context imt_lib begin

lemma finite_expired_in: "finite (expired_in C s now)"
  using set_expired_foreach [of now s] by (metis List.finite_set)

lemma swept_view:
  shows "expired_in C (swept C now s) now \<subseteq> expired_in C s now"
    and "HashSlot_Get C (swept C now s) key now = HashSlot_Get C s key now"
    and "card (expired_in C (swept C now s) now) = card (expired_in C s now) - kMaxExpiredKeysPerSlot"
proof -
  obtain s' n where d: "HashSlot_DeleteExpired C s kMaxExpiredKeysPerSlot now = (s', n)" by fastforce
  then have sw: "swept C now s = s'" by (simp add: swept_def)
  from DeleteExpired_removed [OF d] obtain ks where
    ks: "ks \<subseteq> expired_in C s now" "card ks = min kMaxExpiredKeysPerSlot (card (expired_in C s now))"
      "slot_view C s' = (\<lambda>key. if key \<in> ks then None else slot_view C s key)" by auto
  then show "expired_in C (swept C now s) now \<subseteq> expired_in C s now"
    by (auto simp: sw expired_in_def split: if_splits)
  show "HashSlot_Get C (swept C now s) key now = HashSlot_Get C s key now"
    using DeleteExpired_live [OF d] by (simp add: sw)
  have "expired_in C s' now = expired_in C s now - ks" using ks(3) by (auto simp: expired_in_def split: if_splits)
  then show "card (expired_in C (swept C now s) now) = card (expired_in C s now) - kMaxExpiredKeysPerSlot"
    using ks(1,2) by (simp add: sw card_Diff_subset finite_subset [OF ks(1) finite_expired_in])
qed

lemma sweep_slots_Get:
  "HashSlot_Get C (slots (sweep_slots C now nxt i e) j) key now = HashSlot_Get C (slots e j) key now"
  by (induction i arbitrary: nxt e) (simp_all add: swept_view(2))

lemma sweep_slots_expired:
  "expired_in C (slots (sweep_slots C now nxt i e) j) now \<subseteq> expired_in C (slots e j) now"
proof (induction i arbitrary: nxt e)
  case (Suc i)
  from Suc.IH [of "(nxt + 1) mod kSlotCount" "put_slot e nxt (swept C now (slots e nxt))"]
    swept_view(1) [of now "slots e nxt"]
  show ?case by (auto split: if_splits)
qed simp

text \<open>Each visit of a slot takes a batch off its expired keys, and a round over all slots visits each.\<close>

lemma sweep_slots_visit:
  assumes "nxt < kSlotCount" and "d < i"
  shows "card (expired_in C (slots (sweep_slots C now nxt i e) ((nxt + d) mod kSlotCount)) now) \<le>
    card (expired_in C (slots e ((nxt + d) mod kSlotCount)) now) - kMaxExpiredKeysPerSlot"
proof -
  let ?j = "(nxt + d) mod kSlotCount" and ?e1 = "sweep_slots C now nxt d e"
  let ?e2 = "put_slot ?e1 ?j (swept C now (slots ?e1 ?j))"
  have "i = d + Suc (i - Suc d)" using assms(2) by simp
  then have "sweep_slots C now nxt i e = sweep_slots C now ((?j + 1) mod kSlotCount) (i - Suc d) ?e2"
    using sweep_slots_append [OF assms(1), of C now d "Suc (i - Suc d)" e] by simp
  then have "expired_in C (slots (sweep_slots C now nxt i e) ?j) now \<subseteq> expired_in C (swept C now (slots ?e1 ?j)) now"
    using sweep_slots_expired [of now "(?j + 1) mod kSlotCount" "i - Suc d" ?e2 ?j] by simp
  from card_mono [OF finite_expired_in this] swept_view(3) [of now "slots ?e1 ?j"]
    card_mono [OF finite_expired_in sweep_slots_expired [of now nxt d e ?j]]
  show ?thesis by simp
qed

lemma sweep_slots_rounds:
  assumes "nxt < kSlotCount" and "j < kSlotCount" and "kSlotCount * r \<le> i"
  shows "card (expired_in C (slots (sweep_slots C now nxt i e) j) now) \<le>
    card (expired_in C (slots e j) now) - r * kMaxExpiredKeysPerSlot"
  using assms(1,3)
proof (induction r arbitrary: nxt e i)
  case 0
  show ?case using card_mono [OF finite_expired_in sweep_slots_expired [of now nxt i e j]] by simp
next
  case (Suc r)
  let ?d = "(j + (kSlotCount - nxt)) mod kSlotCount" and ?e = "sweep_slots C now nxt kSlotCount e"
  have split: "sweep_slots C now nxt i e = sweep_slots C now nxt (i - kSlotCount) ?e"
    using sweep_slots_append [OF Suc.prems(1), of C now kSlotCount "i - kSlotCount" e] Suc.prems by simp
  have "(nxt + ?d) mod kSlotCount = j" using assms(2) Suc.prems(1) by (simp add: mod_simps)
  with sweep_slots_visit [OF Suc.prems(1), of ?d kSlotCount now e]
  have "card (expired_in C (slots ?e j) now) \<le> card (expired_in C (slots e j) now) - kMaxExpiredKeysPerSlot" by simp
  moreover have "kSlotCount * r \<le> i - kSlotCount" using Suc.prems(2) by simp
  note Suc.IH [OF Suc.prems(1) this, of ?e]
  ultimately show ?case unfolding split by simp
qed

end

section \<open>Properties\<close>

text \<open>The rounds over all slots the fullest slot needs, 64 of its expired keys at a time.\<close>

definition sweep_rounds :: "('o, 'h, 's, 'z) containers \<Rightarrow> 'o CacheEngine \<Rightarrow> u64 \<Rightarrow> nat" where
  "sweep_rounds C e now = Max ((\<lambda>j. (card (expired_in C (slots e j) now) + 63) div 64) ` {..<kSlotCount})"

lemma sweep_rounds_enough:
  assumes "j < kSlotCount"
  shows "card (expired_in C (slots e j) now) \<le> sweep_rounds C e now * kMaxExpiredKeysPerSlot"
proof -
  have "(card (expired_in C (slots e j) now) + 63) div 64 \<le> sweep_rounds C e now"
    unfolding sweep_rounds_def using assms by (intro Max_ge) auto
  then show ?thesis by (simp add: kMaxExpiredKeysPerSlot_def)
qed

text \<open>(C32) The sweeper cannot throw and gets every expired key, however many a slot has: once the ticks add up to enough rounds
  over all slots, at one time and wherever the sweeper started, exactly the keys that have expired are gone, and every other key
  has the object it had. The rounds that are enough are those the fullest slot needs at 64 keys a visit.\<close>

theorem sweeper_clears_expired:
  assumes "imt_lib C" and "next_slot sw < kSlotCount" and "kSlotCount * sweep_rounds C e now \<le> n * slots_per_tick sw"
  shows "\<exists>sw' e'. sweeps C now n (sw, Some e) = Some (sw', Some e') \<and>
    (\<forall>j < kSlotCount. expired_in C (slots e' j) now = {}) \<and>
    (\<forall>key. engine_view C e' key = live now (engine_view C e key))"
proof -
  let ?e = "sweep_slots C now (next_slot sw) (n * slots_per_tick sw) e"
  obtain sw' where "sweeps C now n (sw, Some e) = Some (sw', Some ?e)" using sweeps_eq [OF assms(2)] by blast
  moreover have none: "expired_in C (slots ?e j) now = {}" if "j < kSlotCount" for j
    using imt_lib.sweep_slots_rounds [OF assms(1,2) that assms(3), of now e] sweep_rounds_enough [OF that, of C e now]
      imt_lib.finite_expired_in [OF assms(1), of "slots ?e j" now] by simp
  moreover have "engine_view C ?e key = live now (engine_view C e key)" for key
  proof -
    have "live now (engine_view C ?e key) = live now (engine_view C e key)"
      using imt_lib.sweep_slots_Get [OF assms(1)] by (simp add: engine_view_def KeySlot_def HashSlot_Get_live)
    moreover have "live now (engine_view C ?e key) = engine_view C ?e key"
      using none [OF SlotForKey_less, of key]
      by (auto simp: expired_in_def engine_view_def KeySlot_def live_def split: option.splits)
    ultimately show ?thesis by simp
  qed
  ultimately show ?thesis by blast
qed

definition demo_expiring :: "ref_objects CacheEngine" where
  "demo_expiring = fst (CacheEngine_Set ref_containers (CacheEngine_new ref_containers) ''k'' (WithDeadline (MakeString ''v'') 5) new_record 1)"

theorem sweeper_clears_expired_witness:
  "\<exists>sw' e'. sweeps ref_containers 9 (kSlotCount + 7) (ExpireSweeper_new 1, Some demo_expiring) = Some (sw', Some e') \<and>
    engine_view ref_containers demo_expiring ''k'' \<noteq> None \<and> engine_view ref_containers e' ''k'' = None"
proof -
  let ?ob = "WithDeadline (MakeString ''v'') 5"
  have empty: "slot_view ref_containers (slots (CacheEngine_new ref_containers) j) = (\<lambda>_. None)" for j
    by (simp add: CacheEngine_new_def HashSlot_new_def slot_view_def ref_containers_def ref_map_def fun_eq_iff)
  obtain s where s: "demo_expiring = put_slot (CacheEngine_new ref_containers) (SlotForKey ''k'') s"
    "slot_view ref_containers s = [''k'' \<mapsto> ?ob]"
    using ref_lib.engine_Set_committed [of "CacheEngine_new ref_containers" "''k''" ?ob new_record 1]
    by (auto simp: demo_expiring_def engine_committed_def committed_def KeySlot_def empty)
  have view: "engine_view ref_containers demo_expiring ''k'' = Some ?ob" by (simp add: engine_view_def KeySlot_def s)
  have "expired_in ref_containers (slots demo_expiring j) 9 \<subseteq> {''k''}" for j
    by (auto simp: s expired_in_def empty split: if_splits)
  then have one: "card (expired_in ref_containers (slots demo_expiring j) 9) \<le> 1" for j
    using card_mono [of "{''k''}"] by fastforce
  have "(card (expired_in ref_containers (slots demo_expiring j) 9) + 63) div 64 \<le> 1" for j using one [of j] by linarith
  then have "sweep_rounds ref_containers demo_expiring 9 \<le> 1"
    unfolding sweep_rounds_def by (intro Max.boundedI) (auto simp: lessThan_empty_iff)
  then have "kSlotCount * sweep_rounds ref_containers demo_expiring 9 \<le> (kSlotCount + 7) * slots_per_tick (ExpireSweeper_new 1)"
    using mult_le_mono2 [of _ 1 kSlotCount] by (simp add: ExpireSweeper_new_def trans_le_add1)
  from sweeper_clears_expired [OF ref_lib.imt_lib_axioms _ this] view show ?thesis
    by (auto simp: ExpireSweeper_new_def live_def IsExpired_def)
qed

end
