(* ===== verification/Replay.thy ===== *)
theory Replay
  imports SlaveReplicator ExpireSweeper
begin

text \<open>
  Why replication works: the record a write logs, applied by a replica that holds the same abstract
  object at the key, gives the replica the abstract object the write stored. This covers every
  command, the records that differ from the command (SPOP is logged as SREM, a non-positive EXPIRE and
  every expiry as DEL), and the clock: a replica applies a record at the time of the write.
\<close>

section \<open>Records that replay a write\<close>

definition replays ::
  "('o, 'h, 's, 'z) containers \<Rightarrow> Rng \<Rightarrow> string \<Rightarrow> AbsObject option \<Rightarrow> ('h, 's, 'z) RedisObject option \<Rightarrow>
   BinlogRecord \<Rightarrow> u64 \<Rightarrow> bool" where
  "replays C R key old x r now \<longleftrightarrow>
     (\<forall>p e seq t. slave_engine p = Some e \<and> engine_abs C e key = old \<longrightarrow>
        (\<exists>e'. ApplyRecord C R p (r\<lparr>rec_seq := seq, rec_written_at_us := now, rec_deadline_us := deadline_of x\<rparr>) t (SlotForKey key) =
            (p\<lparr>slave_engine := Some e'\<rparr>, True) \<and>
          engine_abs C e' = (engine_abs C e)(key := abs_opt C x)))"

text \<open>A write of the master whose record replays it.\<close>

inductive replayed_step :: "('o, 'h, 's, 'z) containers \<Rightarrow> Rng \<Rightarrow> 'o CacheEngine \<Rightarrow> 'o CacheEngine \<Rightarrow> bool"
  for C :: "('o, 'h, 's, 'z) containers" and R :: Rng where
  replayed_write: "ok_write C e key x \<Longrightarrow> replays C R key (engine_abs C e key) x r now \<Longrightarrow>
    replayed_step C R e (commit C e key x r now)"

text \<open>At most \<open>n\<close> such writes, one after the other.\<close>

definition replayed_steps :: "('o, 'h, 's, 'z) containers \<Rightarrow> Rng \<Rightarrow> nat \<Rightarrow> 'o CacheEngine \<Rightarrow> 'o CacheEngine \<Rightarrow> bool" where
  "replayed_steps C R n e e' \<longleftrightarrow> (\<exists>k \<le> n. (replayed_step C R ^^ k) e e')"

lemma replayed_steps_same [simp]: "replayed_steps C R n e e"
  unfolding replayed_steps_def by (rule exI [of _ 0]) simp

lemma replayed_steps_one: "replayed_step C R e e' \<Longrightarrow> 0 < n \<Longrightarrow> replayed_steps C R n e e'"
  unfolding replayed_steps_def by (rule exI [of _ 1]) auto

lemma replayed_steps_trans:
  assumes "replayed_steps C R m e e'" and "replayed_steps C R n e' e''"
  shows "replayed_steps C R (m + n) e e''"
  using assms unfolding replayed_steps_def by (metis add_mono relpowp_trans)

lemma replays_abs:
  assumes "replays C R key old x r now" and "abs_opt C x = abs_opt C y"
  shows "replays C R key old y r now"
  using assms abs_deadline_of [OF assms(2)] by (simp add: replays_def)

lemma IsWriteCommand_upper: "IsWriteCommand C R (ToUpperAscii a) = IsWriteCommand C R a"
  by (simp add: IsWriteCommand_def)

lemma find_SREM: "find_command C R ''SREM'' =
    Some \<lparr>entry_cmd = \<lparr>CheckArity = SRemCmd_CheckArity, ExecCmd = SRemCmd_ExecCmd C\<rparr>, write_cmd = True, multi_key = False\<rparr>"
  by (simp add: find_command_def commands_def)

context imt_lib begin

lemma commit_not_same: "commit C e key x r now \<noteq> e"
proof
  assume "commit C e key x r now = e"
  then have "slot_seq (KeySlot (commit C e key x r now) key) = slot_seq (KeySlot e key)" by simp
  then show False by (simp add: commit_def KeySlot_def)
qed

lemma replays_None:
  assumes "old \<noteq> None"
  shows "replays C R key old None (new_record\<lparr>rec_args := [''DEL'', key]\<rparr>) now"
proof -
  have "IsWriteCommand C R ''DEL''" by (simp add: IsWriteCommand_def)
  moreover have "CacheEngine_Get C e key 0 = engine_view C e key" for e
    by (simp add: CacheEngine_Get_live live_def IsExpired_def split: option.splits)
  moreover have "engine_view C e key \<noteq> None" if "engine_abs C e key = old" for e
    using that assms by (auto simp: engine_abs_def)
  ultimately show ?thesis
    by (fastforce simp: replays_def ApplyRecord_def Del_eq commit_abs)
qed

text \<open>After the replica's write, setting the deadline of the record changes nothing.\<close>

lemma replica_deadline_abs:
  assumes "deadline_of (engine_view C e key) = d \<or> engine_view C e key = None"
  shows "engine_abs C (put_slot e (SlotForKey key) (HashSlot_SetReplicaDeadline C (slots e (SlotForKey key)) key d)) = engine_abs C e"
proof -
  have "map_option (\<lambda>ob. WithDeadline ob d) (slot_view C (slots e (SlotForKey key)) key) = slot_view C (slots e (SlotForKey key)) key"
    using assms by (cases "slot_view C (slots e (SlotForKey key)) key") (auto simp: engine_view_def KeySlot_def deadline_of_def)
  then show ?thesis by (auto simp: engine_abs_def engine_view_def KeySlot_def fun_eq_iff)
qed

text \<open>What a replica does with a record whose execution commits.\<close>

lemma ApplyRecord_commit:
  assumes "slave_engine p = Some e" and "IsWriteCommand C R a" and "ToUpperAscii a \<noteq> ''DEL''" and "as \<noteq> []" and "now \<noteq> 0"
    and "Execute C R (a # as) e now = (commit C e (as ! 0) y r now, reply)" and "\<not> is_error reply"
    and "y = None \<Longrightarrow> engine_view C e (as ! 0) \<noteq> None" and "abs_opt C x = abs_opt C y"
    and "rec_args q = a # as" "rec_written_at_us q = now" "rec_deadline_us q = deadline_of x"
  shows "\<exists>e'. ApplyRecord C R p q t (SlotForKey (as ! 0)) = (p\<lparr>slave_engine := Some e'\<rparr>, True) \<and>
    engine_abs C e' = (engine_abs C e)(as ! 0 := abs_opt C x)"
proof -
  let ?e = "commit C e (as ! 0) y r now" and ?i = "SlotForKey (as ! 0)"
  let ?e' = "put_slot ?e ?i (HashSlot_SetReplicaDeadline C (slots ?e ?i) (as ! 0) (deadline_of x))"
  have len: "\<not> length (a # as) < 2" using assms(4) by (cases as) auto
  have "ApplyRecord C R p q t ?i = (p\<lparr>slave_engine := Some ?e'\<rparr>, True)"
    using assms(1-3,5-7,10-12) len by (simp add: ApplyRecord_def on_engine_def SlotById_Some)
  moreover have "engine_view C ?e (as ! 0) = y" using assms(8) by simp
  then have "engine_abs C ?e' = engine_abs C ?e"
    using abs_deadline_of [OF assms(9)] by (intro replica_deadline_abs) simp
  ultimately show ?thesis using commit_abs [OF assms(8)] assms(9) by auto
qed

text \<open>Every command that writes but three: the record is the command itself.\<close>

lemma Execute_replays:
  assumes "IsWriteCommand C R a" and "ToUpperAscii a \<notin> {''SPOP'', ''DEL'', ''EXPIRE''}" and "now \<noteq> 0"
    and "fst (Execute C R (a # as) e now) \<noteq> e"
  shows "\<exists>x. fst (Execute C R (a # as) e now) = commit C e (as ! 0) x (new_record\<lparr>rec_args := ToUpperAscii a # as\<rparr>) now \<and>
    (x = None \<longrightarrow> engine_view C e (as ! 0) \<noteq> None) \<and>
    replays C R (as ! 0) (engine_abs C e (as ! 0)) x (new_record\<lparr>rec_args := ToUpperAscii a # as\<rparr>) now"
proof -
  let ?r = "new_record\<lparr>rec_args := ToUpperAscii a # as\<rparr>" and ?key = "as ! 0"
  obtain entry where entry: "find_command C R (ToUpperAscii a) = Some entry" "write_cmd entry"
    using assms(1) by (rule IsWriteCommand_entry)
  note twin = Execute_twins [OF entry assms(2)]
  have as: "as \<noteq> []"
    using bspec [OF write_entries_head [of C R, unfolded list_all_iff] find_command_entry [OF entry(1)]] entry assms(2,4)
    by (auto simp: Execute_def split: option.splits)
  have ok: "\<not> is_error (snd (Execute C R (a # as) e now))"
    using Execute_outcome [of e R "a # as" now] assms(4) by (simp add: outcome_ok_def)
  from twin [of e as e now] assms(4) obtain x where
    x: "fst (Execute C R (a # as) e now) = commit C e ?key x ?r now" "x = None \<Longrightarrow> engine_view C e ?key \<noteq> None"
    by (auto simp: twins_def)
  have "replays C R ?key (engine_abs C e ?key) x ?r now"
    unfolding replays_def
  proof (intro allI impI, elim conjE)
    fix p :: "'o SlaveReplicator" and e2 seq t
    assume p: "slave_engine p = Some e2" "engine_abs C e2 ?key = engine_abs C e ?key"
    have both: "twins C ?key ?r now (e, e2) (commit C e ?key x ?r now, fst (Execute C R (ToUpperAscii a # as) e2 now))"
      "snd (Execute C R (a # as) e now) = snd (Execute C R (ToUpperAscii a # as) e2 now)"
      using twin [OF p(2) [symmetric], of now] x(1) by auto
    then obtain x' y where y: "commit C e ?key x ?r now = commit C e ?key x' ?r now"
      "fst (Execute C R (ToUpperAscii a # as) e2 now) = commit C e2 ?key y ?r now" "abs_opt C x' = abs_opt C y"
      "x' = None \<longrightarrow> engine_view C e ?key \<noteq> None \<and> engine_view C e2 ?key \<noteq> None"
      by (auto simp: twins_def commit_not_same)
    have "x = x'" using arg_cong [OF y(1), of "\<lambda>e. engine_view C e ?key"] x(2) y(4) by simp
    with y(3) have abs: "abs_opt C x = abs_opt C y" by simp
    then have none: "y = None \<Longrightarrow> engine_view C e2 ?key \<noteq> None" using y(4) \<open>x = x'\<close> by auto
    show "\<exists>e'. ApplyRecord C R p (?r\<lparr>rec_seq := seq, rec_written_at_us := now, rec_deadline_us := deadline_of x\<rparr>) t (SlotForKey ?key) =
            (p\<lparr>slave_engine := Some e'\<rparr>, True) \<and> engine_abs C e' = (engine_abs C e2)(?key := abs_opt C x)"
    proof (rule ApplyRecord_commit [OF p(1) _ _ as assms(3) _ _ none abs])
      show "Execute C R (ToUpperAscii a # as) e2 now = (commit C e2 ?key y ?r now, snd (Execute C R (a # as) e now))"
        using y(2) both(2) by (simp add: prod_eq_iff)
    qed (use assms(1,2) ok in \<open>auto simp: IsWriteCommand_upper\<close>)
  qed
  with x show ?thesis by blast
qed

text \<open>The other three: DEL, EXPIRE and SPOP.\<close>

lemma Del_replayed:
  assumes "CacheEngine_Get C e key now \<noteq> None"
  shows "replayed_step C R e (fst (CacheEngine_Del C e key now))"
proof -
  have ne: "engine_view C e key \<noteq> None" using assms CacheEngine_Get_Some by fastforce
  have "replayed_step C R e (commit C e key None (new_record\<lparr>rec_args := [''DEL'', key]\<rparr>) now)"
    using ne by (intro replayed_write replays_None) (auto simp: ok_write_def engine_abs_def)
  with assms show ?thesis by (auto simp: Del_eq)
qed

lemma Expire_replayed:
  assumes "CacheEngine_Get C e key now = Some ob" and "int64_ok secs" and "now \<noteq> 0"
  shows "replayed_step C R e (fst (CacheEngine_Expire C e key secs now))"
proof (cases "0 < secs")
  case False
  with assms(1) Del_replayed [of e key now R] show ?thesis by (simp add: Expire_eq)
next
  case True
  let ?d = "SaturatingDeadlineUs now (SaturatingTtlUs secs)"
  let ?r = "new_record\<lparr>rec_args := [''EXPIRE'', key, to_string secs]\<rparr>"
  have "replays C R key (engine_abs C e key) (Some (WithDeadline ob ?d)) ?r now"
    unfolding replays_def
  proof (intro allI impI, elim conjE)
    fix p :: "'o SlaveReplicator" and e2 seq t
    assume p: "slave_engine p = Some e2" "engine_abs C e2 key = engine_abs C e key"
    from abs_Get [OF p(2), of now] assms(1) obtain ob2 where
      ob2: "CacheEngine_Get C e2 key now = Some ob2" "abs_obj C ob2 = abs_obj C ob" by auto
    have ex: "Execute C R [''EXPIRE'', key, to_string secs] e2 now = (commit C e2 key (Some (WithDeadline ob2 ?d)) ?r now, Integer 1)"
      using True ob2(1) assms(2) by (simp add: Execute_def ExpireCmd_CheckArity_def ExpireCmd_ExecCmd_def Expire_eq)
    show "\<exists>e'. ApplyRecord C R p (?r\<lparr>rec_seq := seq, rec_written_at_us := now, rec_deadline_us := deadline_of (Some (WithDeadline ob ?d))\<rparr>) t
        (SlotForKey key) = (p\<lparr>slave_engine := Some e'\<rparr>, True) \<and>
      engine_abs C e' = (engine_abs C e2)(key := abs_opt C (Some (WithDeadline ob ?d)))"
      using ApplyRecord_commit [OF p(1), of R "''EXPIRE''" "[key, to_string secs]" now "Some (WithDeadline ob2 ?d)" ?r "Integer 1"
          "Some (WithDeadline ob ?d)"] ex ob2(2) assms(3)
      by (simp add: IsWriteCommand_def abs_obj_eq)
  qed
  moreover have "ok_write C e key (Some (WithDeadline ob ?d))"
    using CacheEngine_Get_Some [OF assms(1)] by (simp add: ok_write_def)
  ultimately have "replayed_step C R e (commit C e key (Some (WithDeadline ob ?d)) ?r now)" by (intro replayed_write)
  with assms(1) True show ?thesis by (simp add: Expire_eq)
qed

lemma removal_abs:
  assumes "removal_effect C ob A gone m" and "removal_effect C ob A gone m'"
    and "mutation_effect (Some ob) m = Some x"
  shows "\<exists>y. mutation_effect (Some ob) m' = Some y \<and> abs_opt C x = abs_opt C y"
  using assms by (auto simp: removal_effect_def abs_obj_eq set_object_def Let_def split: if_splits)

lemma SPop_replayed:
  assumes "rng_ok R" and "0 < n" and "now \<noteq> 0" and "view_ok (engine_view C e)"
    and "fst (CacheEngine_Mutate C e key (SPopCmd_mutator C R key n) r now) \<noteq> e"
  shows "replayed_step C R e (fst (CacheEngine_Mutate C e key (SPopCmd_mutator C R key n) r now))"
proof -
  let ?g = "CacheEngine_Get C e key now"
  obtain x where eff: "mutation_effect ?g (fst (SPopCmd_mutator C R key n ?g)) = Some x"
    using assms(5) by (auto simp: Mutate_eq Let_def split: option.splits)
  then obtain ob where g: "?g = Some ob" by (cases ?g) (auto simp: SPopCmd_mutator_def mutation_effect_def)
  obtain s where s: "obj_type ob = kSet" "SetOf ob = Some s" "Set_ToVector (sets C) s \<noteq> []"
    using eff g by (auto simp: SPopCmd_mutator_def mutation_effect_def Type_def Let_def split: if_splits)
  define A where "A = {m. Set_Contains (sets C) s m}"
  have vec: "A = set (Set_ToVector (sets C) s)" using sm.set_to_vector [of s] by (simp add: A_def)
  have A: "members_view C (Some ob) = Some A" "A \<noteq> {}" using s vec by (simp_all add: members_view_def A_def)
  obtain m picked where m: "SPopCmd_mutator C R key n (Some ob) = (m, False, picked)" "set picked \<subseteq> A"
    "length picked = min n (card A)" "mut_record m = Some (new_record\<lparr>rec_args := [''SREM'', key] @ picked\<rparr>)"
    "removal_effect C ob A (set picked) m"
    using SPopCmd_mutator_view [OF A(1) assms(1) A(2) assms(2), of key] by blast
  let ?r = "new_record\<lparr>rec_args := ''SREM'' # key # picked\<rparr>"
  obtain m' where m': "SRemCmd_mutator C picked (Some ob) = (m', False, int (card (set picked \<inter> A)))" "mut_record m' = None"
    "removal_effect C ob A (set picked) m'" using SRemCmd_mutator_view [OF A(1), of picked] by blast
  obtain y where y: "mutation_effect (Some ob) m' = Some y" "abs_opt C x = abs_opt C y"
    using removal_abs [OF m(5) m'(3)] eff g m(1) by auto
  have "0 < card A" using A(2) by (simp add: vec card_gt_0_iff)
  then have "picked \<noteq> []" using m(3) assms(2) by auto
  have master: "fst (CacheEngine_Mutate C e key (SPopCmd_mutator C R key n) r now) = commit C e key x ?r now"
    using eff g m(1,4) by (simp add: Mutate_eq Let_def mutation_log_record_def)
  have srem: "fst (Execute C R (''SREM'' # key # picked) e now) = commit C e key y ?r now"
    using \<open>picked \<noteq> []\<close> g m'(1,2) y(1)
    by (cases picked) (simp_all add: Execute_def find_SREM SRemCmd_CheckArity_def SRemCmd_ExecCmd_def Mutate_eq
        mutation_log_record_def MakeRecord_Cons Let_def)
  have cmd: "IsWriteCommand C R ''SREM''" "ToUpperAscii ''SREM'' \<notin> {''SPOP'', ''DEL'', ''EXPIRE''}"
    by (simp_all add: IsWriteCommand_def find_SREM)
  have "fst (Execute C R (''SREM'' # key # picked) e now) \<noteq> e" unfolding srem by (rule commit_not_same)
  from Execute_replays [OF cmd assms(3) this] obtain z where z: "commit C e key y ?r now = commit C e key z ?r now"
    "replays C R key (engine_abs C e key) z ?r now" unfolding srem by (auto simp: upper_names)
  have ne: "engine_view C e key \<noteq> None" using CacheEngine_Get_Some [OF g] by simp
  then have "y = z" using arg_cong [OF z(1), of "\<lambda>e. engine_view C e key"] by simp
  with z(2) have "replays C R key (engine_abs C e key) y ?r now" by simp
  then have "replays C R key (engine_abs C e key) x ?r now" by (rule replays_abs [OF _ y(2) [symmetric]])
  moreover have "ok_write C e key x"
    using eff g ne m(1) by (auto simp: ok_write_def mutation_effect_def SPopCmd_mutator_def Let_def split: if_splits option.splits)
  ultimately show ?thesis unfolding master by (rule replayed_write [rotated])
qed

text \<open>Every command: no write at all, or writes whose records replay them.\<close>

lemma Del_fold_replayed:
  "replayed_steps C R (length keys) e (fst (foldl (\<lambda>(e, deleted) key.
      let (e', wr) = CacheEngine_Del C e key now
      in (e', if wr_changed wr then deleted + 1 else deleted)) (e, n :: int) keys))"
proof (induction keys arbitrary: e n)
  case (Cons k ks)
  let ?e = "fst (CacheEngine_Del C e k now)"
  have "replayed_steps C R 1 e ?e"
    using Del_replayed [of e k now R] by (cases "CacheEngine_Get C e k now") (auto simp: Del_eq replayed_steps_one)
  from replayed_steps_trans [OF this Cons.IH [of ?e "if wr_changed (snd (CacheEngine_Del C e k now)) then n + 1 else n"]]
  show ?case by (cases "wr_changed (snd (CacheEngine_Del C e k now))") (simp_all add: case_prod_beta)
qed simp

lemma SPopCmd_replayed:
  assumes "rng_ok R" and "now \<noteq> 0" and "view_ok (engine_view C e)"
  shows "replayed_steps C R 1 e (fst (SPopCmd_ExecCmd C R args e now))"
proof -
  have pop: "replayed_steps C R 1 e (fst (CacheEngine_Mutate C e key (SPopCmd_mutator C R key n) r now))" if "0 < n" for key n r
    using SPop_replayed [OF assms(1) that assms(2,3), of key r]
    by (cases "fst (CacheEngine_Mutate C e key (SPopCmd_mutator C R key n) r now) = e") (auto intro: replayed_steps_one)
  then show ?thesis by (auto simp: SPopCmd_ExecCmd_def ReadSet_def case_prod_beta Let_def split: option.splits)
qed

lemma Execute_write_replayed:
  assumes "rng_ok R" and "now \<noteq> 0" and "engine_inv C e" and "IsWriteCommand C R a"
  shows "replayed_steps C R (length (a # as)) e (fst (Execute C R (a # as) e now))"
proof -
  have less: "replayed_steps C R (length (a # as)) e e'" if "replayed_steps C R n e e'" "n \<le> length (a # as)" for e' n
    using that order_trans unfolding replayed_steps_def by blast
  consider "ToUpperAscii a = ''SPOP''" | "ToUpperAscii a = ''EXPIRE''" | "ToUpperAscii a = ''DEL''"
    | "ToUpperAscii a \<notin> {''SPOP'', ''DEL'', ''EXPIRE''}" by blast
  then show ?thesis
  proof cases
    case 1
    then have "replayed_steps C R 1 e (fst (Execute C R (a # as) e now))"
      using SPopCmd_replayed [OF assms(1,2)] assms(3) by (simp add: Execute_def Let_def engine_inv_def split: option.splits)
    then show ?thesis by (rule less) simp
  next
    case 2
    have "replayed_steps C R (length (a # as)) e (fst (CacheEngine_Expire C e key secs now))" if "int64_ok secs" for key secs
      using Expire_replayed [OF _ that assms(2), of e key] by (cases "CacheEngine_Get C e key now") (auto simp: Expire_eq replayed_steps_one)
    with 2 show ?thesis
      by (auto simp: Execute_def Let_def ExpireCmd_ExecCmd_def case_prod_beta dest: ParseInt64_range split: option.splits)
  next
    case 3
    then have "replayed_steps C R (length as) e (fst (Execute C R (a # as) e now))"
      using Del_fold_replayed [of R as e now 0]
      by (simp add: Execute_def Let_def DelCmd_ExecCmd_def case_prod_beta split: option.splits)
    then show ?thesis by (rule less) simp
  next
    case 4
    have ok: "ok_write C e (as ! 0) x" if "fst (Execute C R (a # as) e now) = commit C e (as ! 0) x r now"
      "x = None \<longrightarrow> engine_view C e (as ! 0) \<noteq> None" for x r
    proof (cases x)
      case (Some ob)
      have "engine_view C (fst (Execute C R (a # as) e now)) (as ! 0) = Some ob" using that(1) Some by (simp add: commit_Some_view)
      then have "obj_ok ob" using engine_inv_Execute [OF assms(3), of R "a # as" now] by (auto simp: engine_inv_def view_ok_def)
      with Some show ?thesis by (simp add: ok_write_def)
    qed (use that in \<open>simp add: ok_write_def\<close>)
    show ?thesis
    proof (cases "fst (Execute C R (a # as) e now) = e")
      case False
      from Execute_replays [OF assms(4) 4 assms(2) this] obtain x r where
        x: "fst (Execute C R (a # as) e now) = commit C e (as ! 0) x r now" "x = None \<longrightarrow> engine_view C e (as ! 0) \<noteq> None"
          "replays C R (as ! 0) (engine_abs C e (as ! 0)) x r now" by blast
      show ?thesis unfolding x(1) by (rule replayed_steps_one) (rule replayed_write [OF ok [OF x(1,2)] x(3)], simp)
    qed simp
  qed
qed

lemma Execute_replayed:
  assumes "rng_ok R" and "now \<noteq> 0" and "engine_inv C e"
  shows "replayed_steps C R (length args) e (fst (Execute C R args e now))"
proof (cases args)
  case (Cons a as)
  show ?thesis
  proof (cases "IsWriteCommand C R a")
    case True
    then show ?thesis unfolding Cons by (rule Execute_write_replayed [OF assms])
  next
    case False
    then have "fst (Execute C R (a # as) e now) = e"
      using read_command_keeps [of C R] by (auto simp: Execute_def IsWriteCommand_def Let_def split: option.splits)
    then show ?thesis by (simp add: Cons)
  qed
qed (simp add: Execute_def)

lemma DeleteExpired_key_commit:
  assumes "HashSlot_DeleteExpired_key C now (slots e (SlotForKey key), n) key = (s', n')"
  shows "put_slot e (SlotForKey key) s' = e \<or> engine_view C e key \<noteq> None \<and>
    put_slot e (SlotForKey key) s' = commit C e key None (new_record\<lparr>rec_args := [''DEL'', key]\<rparr>) now"
  using assms
  by (auto simp: HashSlot_DeleteExpired_key_def commit_def KeySlot_def engine_view_def slot_view_def deadline_of_def put_slot_def
      split: option.splits if_splits)

lemma sweep_replayed:
  assumes "engine_view C e key \<noteq> None"
  shows "replayed_step C R e (commit C e key None (new_record\<lparr>rec_args := [''DEL'', key]\<rparr>) now)"
  using assms by (intro replayed_write replays_None) (auto simp: ok_write_def engine_abs_def)

end

section \<open>Properties\<close>

text \<open>(C10) Replaying the log of a command gives what the command gave. Whatever command runs, at a time other
  than 0, it makes at most one write per argument, and each of them commits under one key a record that every
  replica holding the same abstract object at that key applies without error, ending with the object the
  master stored there and everything else unchanged; this includes the random choice of SPOP and every
  deadline.\<close>

theorem command_log_replays:
  assumes "imt_lib C" and "rng_ok R" and "now \<noteq> 0" and "engine_inv C e"
  shows "replayed_steps C R (length args) e (fst (Execute C R args e now))"
  by (rule imt_lib.Execute_replayed [OF assms])

theorem command_log_replays_witness:
  "replayed_steps ref_containers demo_rng 3 (CacheEngine_new ref_containers)
     (fst (Execute ref_containers demo_rng [''SET'', ''k'', ''v''] (CacheEngine_new ref_containers) 7))"
proof -
  have "rng_ok demo_rng" by (simp add: rng_ok_def demo_rng_def)
  from command_log_replays [OF ref_lib.imt_lib_axioms this _ ref_lib.engine_inv_new, of 7 "[''SET'', ''k'', ''v'']"]
  show ?thesis by (simp add: numeral_3_eq_3)
qed

end
