(* ===== verification/MasterReplicator.thy ===== *)
theory MasterReplicator
  imports CommandTwins SnapshotCodec
begin

text \<open>
  The master's side of replication, \<^verbatim>\<open>src/repl/master_replicator.h\<close> and \<^verbatim>\<open>master_replicator.cpp\<close>: the
  sessions of the replicas that have said hello, the frames a poll sends, and what becomes of the
  logs. The engine is an argument, \<open>None\<close> for a null pointer; the methods hold the mutex, and a poll
  is taken to read the engine at one moment. The epoch is drawn from \<^verbatim>\<open>std::random_device\<close>, so it is
  an argument of the constructor.
\<close>

section \<open>State\<close>

definition kMaxBatchPayloadBytes :: nat where
  "kMaxBatchPayloadBytes = 16 * 1024 * 1024"

record ReplicaSlotState =
  acked_seq :: u64
  sent_seq :: u64
  slot_need_snapshot :: bool

record ReplicaSession =
  session_replica_id :: string
  session_session_id :: string
  session_slots :: "ReplicaSlotState list"
  session_next_slot :: nat
  session_reset :: bool

record MasterReplicator =
  epoch :: string
  replicas :: "ReplicaSession list"
  next_session_seq :: u64
  global_binlog_budget_bytes :: nat

definition ReplicaSlotState_new :: ReplicaSlotState where
  "ReplicaSlotState_new = \<lparr>acked_seq = 0, sent_seq = 0, slot_need_snapshot = False\<rparr>"

definition ReplicaSession_new :: ReplicaSession where
  "ReplicaSession_new = \<lparr>session_replica_id = [], session_session_id = [], session_slots = [],
     session_next_slot = 0, session_reset = False\<rparr>"

definition MasterReplicator_new :: "nat \<Rightarrow> nat \<Rightarrow> MasterReplicator" where
  "MasterReplicator_new random1 random2 =
     \<lparr>epoch = show_nat random1 @ ''-'' @ show_nat random2, replicas = [], next_session_seq = 1,
      global_binlog_budget_bytes = unat u64_max\<rparr>"

definition NewSessionId :: "MasterReplicator \<Rightarrow> string \<Rightarrow> MasterReplicator \<times> string" where
  "NewSessionId mr rid =
     (mr\<lparr>next_session_seq := next_session_seq mr + 1\<rparr>,
      epoch mr @ ''-'' @ rid @ ''-'' @ u64_to_string (next_session_seq mr))"

text \<open>The position of a replica in the vector; the pointer of the code.\<close>

definition FindReplica :: "MasterReplicator \<Rightarrow> string \<Rightarrow> nat option" where
  "FindReplica mr rid = find (\<lambda>i. session_replica_id (replicas mr ! i) = rid) [0..<length (replicas mr)]"

section \<open>Hello\<close>

definition HasBacklog :: "'o CacheEngine option \<Rightarrow> nat \<Rightarrow> u64 \<Rightarrow> bool" where
  "HasBacklog engine slot seq =
     (case engine of
        None \<Rightarrow> False
      | Some e \<Rightarrow>
          (case SlotById e slot of
             None \<Rightarrow> False
           | Some s \<Rightarrow>
               let min_seq = HashSlot_MinRetainedLogSeq s; max_seq = HashSlot_MaxRetainedLogSeq s
               in if seq = 0 then True
                  else if min_seq = 0 \<and> max_seq = 0 then snap_published_seq (HashSlot_Snapshot s) < seq
                  else min_seq \<le> seq \<and> seq \<le> max_seq + 1))"

text \<open>The loop over the positions a replica reports; \<open>reset\<close> is the new value of the session's flag.
  The vector of slots is as long as the engine has slots, so the slot exists.\<close>

definition hello_position ::
  "'o CacheEngine \<Rightarrow> bool \<Rightarrow> ReplicaSlotState list \<Rightarrow> nat \<times> u64 \<Rightarrow> ReplicaSlotState list" where
  "hello_position e reset states item =
     (case item of (i, position) \<Rightarrow>
        if length states \<le> i then states
        else let seq = (if reset then 0 else position);
                 published = (case SlotById e i of None \<Rightarrow> 0 | Some s \<Rightarrow> snap_published_seq (HashSlot_Snapshot s));
                 st = (states ! i)\<lparr>acked_seq := seq, sent_seq := seq,
                        slot_need_snapshot := published < seq \<or> \<not> HasBacklog (Some e) i (seq + 1)\<rparr>
             in states[i := if published < seq then st\<lparr>acked_seq := 0, sent_seq := 0\<rparr> else st])"

definition OnHelloUnlocked ::
  "'o CacheEngine option \<Rightarrow> MasterReplicator \<Rightarrow> Frame \<Rightarrow> MasterReplicator \<times> string" where
  "OnHelloUnlocked engine mr hello =
     (case engine of
        None \<Rightarrow> (mr, [])
      | Some e \<Rightarrow>
          if subcmd hello \<noteq> kHello then (mr, [])
          else let (mr1, i) = (case FindReplica mr (replica_id hello) of
                       Some i \<Rightarrow> (mr, i)
                     | None \<Rightarrow>
                         (mr\<lparr>replicas := replicas mr @ [ReplicaSession_new\<lparr>session_replica_id := replica_id hello,
                               session_slots := replicate (SlotCount e) ReplicaSlotState_new\<rparr>]\<rparr>, length (replicas mr)));
                   replica = replicas mr1 ! i;
                   reset = (session_session_id replica = [] \<or> session_id hello \<noteq> session_session_id replica);
                   (mr2, sid) = (if reset then NewSessionId mr1 (replica_id hello) else (mr1, session_session_id replica));
                   replica' = replica\<lparr>session_reset := reset, session_session_id := sid,
                     session_slots := foldl (hello_position e reset) (session_slots replica) (slot_positions hello)\<rparr>
               in (mr2\<lparr>replicas := (replicas mr2)[i := replica']\<rparr>, sid))"

section \<open>Building frames\<close>

definition BuildSnapshotFrame ::
  "Resp \<Rightarrow> ('o, 'h, 's, 'z) containers \<Rightarrow> 'o CacheEngine \<Rightarrow> string \<Rightarrow> nat \<Rightarrow> Frame" where
  "BuildSnapshotFrame P C e sid slot =
     (let snapshot = (case SlotById e slot of
                        Some s \<Rightarrow> HashSlot_Snapshot s
                      | None \<Rightarrow> \<lparr>snap_map = Map_empty (objects C), snap_published_seq = 0\<rparr>);
          payload = EncodeSnapshotPayload P C (snap_map snapshot)
      in Frame_Snapshot sid slot (snap_published_seq snapshot) payload)"

text \<open>The variables of \<^verbatim>\<open>BuildFrames\<close>: \<open>batch_next\<close> is the replica's \<^verbatim>\<open>next_slot\<close>.\<close>

record Batch =
  batch_frames :: "Frame list"
  batch_payload :: nat
  batch_full :: bool
  batch_next :: nat

definition fits :: "Batch \<Rightarrow> nat \<Rightarrow> bool" where
  "fits b bytes \<longleftrightarrow> batch_frames b = [] \<or>
     (batch_payload b < kMaxBatchPayloadBytes \<and> bytes \<le> kMaxBatchPayloadBytes - batch_payload b)"

fun send_logs ::
  "string \<Rightarrow> nat \<Rightarrow> u64 \<Rightarrow> ReplicaSlotState \<Rightarrow> Batch \<Rightarrow> BinlogRecord list \<Rightarrow> ReplicaSlotState \<times> Batch" where
  "send_logs sid slot target st b [] = (st, b)"
| "send_logs sid slot target st b (log # logs) =
     (if target < rec_seq log then (st, b)
      else if rec_seq log \<noteq> sent_seq st + 1 then (st\<lparr>slot_need_snapshot := True\<rparr>, b)
      else let bytes = EstimateBinlogRecordBytes log
           in if \<not> fits b bytes then (st, b\<lparr>batch_next := slot, batch_full := True\<rparr>)
              else send_logs sid slot target (st\<lparr>sent_seq := rec_seq log\<rparr>)
                     (b\<lparr>batch_payload := batch_payload b + bytes,
                        batch_frames := batch_frames b @ [Frame_Log sid slot log]\<rparr>) logs)"

text \<open>One slot of the loop, up to the check whether the batch is full: the slot's state, the batch and
  the position promised.\<close>

definition send_slot ::
  "Resp \<Rightarrow> ('o, 'h, 's, 'z) containers \<Rightarrow> 'o CacheEngine \<Rightarrow> string \<Rightarrow> nat \<Rightarrow> nat \<Rightarrow>
   ReplicaSlotState \<Rightarrow> Batch \<Rightarrow> ReplicaSlotState \<times> Batch \<times> u64" where
  "send_slot P C e sid max_frames slot st b =
     (let s = (case SlotById e slot of Some s \<Rightarrow> s | None \<Rightarrow> HashSlot_new C);
          target = snap_published_seq (HashSlot_Snapshot s)
      in if \<not> batch_full b \<and> length (batch_frames b) < max_frames then
           (if slot_need_snapshot st \<or> \<not> HasBacklog (Some e) slot (sent_seq st + 1) then
              (let frame = BuildSnapshotFrame P C e sid slot; bytes = length (snapshot_payload frame)
               in if \<not> fits b bytes then (st, b\<lparr>batch_next := slot, batch_full := True\<rparr>, target)
                  else (st\<lparr>sent_seq := base_seq frame, slot_need_snapshot := False\<rparr>,
                        b\<lparr>batch_payload := batch_payload b + bytes, batch_frames := batch_frames b @ [frame]\<rparr>,
                        base_seq frame))
            else
              (let logs = HashSlot_CopyLogsAfter s (sent_seq st) (min 128 (max_frames - length (batch_frames b)))
                            (kMaxBatchPayloadBytes - batch_payload b);
                   (st', b') = send_logs sid slot target st b logs
               in (st', b', target)))
         else (st, b, target))"

definition close_slot :: "nat \<Rightarrow> nat \<Rightarrow> nat \<Rightarrow> Batch \<Rightarrow> Batch" where
  "close_slot max_frames cnt slot b =
     (if \<not> batch_full b \<and> (max_frames \<le> length (batch_frames b) \<or> kMaxBatchPayloadBytes \<le> batch_payload b)
      then b\<lparr>batch_next := (slot + 1) mod cnt, batch_full := True\<rparr> else b)"

fun BuildFrames_loop ::
  "Resp \<Rightarrow> ('o, 'h, 's, 'z) containers \<Rightarrow> 'o CacheEngine \<Rightarrow> string \<Rightarrow> nat \<Rightarrow> nat list \<Rightarrow>
   ReplicaSlotState list \<Rightarrow> Batch \<Rightarrow> (nat \<times> u64) list \<Rightarrow>
   ReplicaSlotState list \<times> Batch \<times> (nat \<times> u64) list" where
  "BuildFrames_loop P C e sid max_frames [] states b completed = (states, b, completed)"
| "BuildFrames_loop P C e sid max_frames (slot # rest) states b completed =
     (let (st, b1, target) = send_slot P C e sid max_frames slot (states ! slot) b;
          b2 = close_slot max_frames (length states) slot b1;
          completed' = (if \<not> slot_need_snapshot st then completed @ [(slot, target)] else completed)
      in BuildFrames_loop P C e sid max_frames rest (states[slot := st]) b2 completed')"

definition BuildFrames ::
  "Resp \<Rightarrow> ('o, 'h, 's, 'z) containers \<Rightarrow> 'o CacheEngine \<Rightarrow> ReplicaSession \<Rightarrow> nat \<Rightarrow>
   ReplicaSession \<times> Frame list \<times> (nat \<times> u64) list" where
  "BuildFrames P C e replica max_frames =
     (let cnt = length (session_slots replica); start = session_next_slot replica;
          order = map (\<lambda>i. (start + i) mod cnt) [0..<cnt];
          (states, b, completed) = BuildFrames_loop P C e (session_session_id replica) max_frames order
             (session_slots replica) \<lparr>batch_frames = [], batch_payload = 0, batch_full = False, batch_next = start\<rparr> []
      in (replica\<lparr>session_slots := states, session_next_slot := batch_next b\<rparr>, batch_frames b, completed))"

definition Poll ::
  "Resp \<Rightarrow> ('o, 'h, 's, 'z) containers \<Rightarrow> 'o CacheEngine option \<Rightarrow> MasterReplicator \<Rightarrow> Frame \<Rightarrow> nat \<Rightarrow>
   MasterReplicator \<times> Frame list" where
  "Poll P C engine mr hello max_frames =
     (case engine of
        None \<Rightarrow> (mr, [])
      | Some e \<Rightarrow>
          if subcmd hello \<noteq> kHello \<or> proto_version hello \<noteq> kProtocolVersion \<or> replica_id hello = [] then (mr, [])
          else let (mr1, _) = OnHelloUnlocked engine mr hello
               in case FindReplica mr1 (replica_id hello) of
                    None \<Rightarrow> (mr1, [])
                  | Some i \<Rightarrow>
                      let replica = replicas mr1 ! i;
                          (replica', frames, completed) = BuildFrames P C e replica max_frames
                      in (mr1\<lparr>replicas := (replicas mr1)[i := replica']\<rparr>,
                          Frame_Begin (session_session_id replica') (session_reset replica') # frames @
                          [Frame_Done (session_session_id replica') completed]))"

section \<open>Log maintenance\<close>

definition SetGlobalBinlogBudget :: "MasterReplicator \<Rightarrow> nat \<Rightarrow> MasterReplicator" where
  "SetGlobalBinlogBudget mr bytes = mr\<lparr>global_binlog_budget_bytes := bytes\<rparr>"

definition CollectGarbage :: "'o CacheEngine option \<Rightarrow> MasterReplicator \<Rightarrow> 'o CacheEngine option" where
  "CollectGarbage engine mr =
     (case engine of
        None \<Rightarrow> None
      | Some e \<Rightarrow>
          if replicas mr = [] then engine
          else Some (foldl (\<lambda>e slot.
                 let min_ack = foldl (\<lambda>m replica. min m (acked_seq (session_slots replica ! slot))) u64_max (replicas mr)
                 in if min_ack \<noteq> u64_max then put_slot e slot (HashSlot_AckLogsThrough (slots e slot) min_ack) else e)
               e [0..<SlotCount e]))"

text \<open>What dropping a slot's log through \<open>through\<close> means for the replicas.\<close>

definition drop_log :: "nat \<Rightarrow> u64 \<Rightarrow> ReplicaSession \<Rightarrow> ReplicaSession" where
  "drop_log slot through replica =
     (let st = session_slots replica ! slot
      in if acked_seq st < through
         then replica\<lparr>session_slots := (session_slots replica)[slot :=
                st\<lparr>slot_need_snapshot := True, sent_seq := acked_seq st\<rparr>]\<rparr>
         else replica)"

fun EnforceBudget_loop ::
  "nat \<Rightarrow> nat list \<Rightarrow> 'o CacheEngine \<Rightarrow> ReplicaSession list \<Rightarrow> nat \<Rightarrow> 'o CacheEngine \<times> ReplicaSession list" where
  "EnforceBudget_loop budget [] e rs kept = (e, rs)"
| "EnforceBudget_loop budget (slot # rest) e rs kept =
     (if kept \<le> budget then (e, rs)
      else let through = HashSlot_MaxRetainedLogSeq (slots e slot);
               (s, removed) = HashSlot_AckLogsThroughAndCountBytes (slots e slot) through
           in EnforceBudget_loop budget rest (put_slot e slot s) (map (drop_log slot through) rs)
                (kept - min kept removed))"

definition EnforceBudget ::
  "'o CacheEngine option \<Rightarrow> MasterReplicator \<Rightarrow> 'o CacheEngine option \<times> MasterReplicator" where
  "EnforceBudget engine mr =
     (case engine of
        None \<Rightarrow> (None, mr)
      | Some e \<Rightarrow>
          let kept = foldl (\<lambda>kept slot. kept + HashSlot_RetainedLogBytes (slots e slot)) 0 [0..<SlotCount e]
          in if kept \<le> global_binlog_budget_bytes mr then (engine, mr)
             else let (e', rs) = EnforceBudget_loop (global_binlog_budget_bytes mr) [0..<SlotCount e] e (replicas mr) kept
                  in (Some e', mr\<lparr>replicas := rs\<rparr>))"

definition Maintain ::
  "'o CacheEngine option \<Rightarrow> MasterReplicator \<Rightarrow> 'o CacheEngine option \<times> MasterReplicator" where
  "Maintain engine mr = EnforceBudget (CollectGarbage engine mr) mr"

section \<open>What a poll sends\<close>

text \<open>What the batch limit counts for a frame.\<close>

definition frame_bytes :: "Frame \<Rightarrow> nat" where
  "frame_bytes f = (if subcmd f = kSnapshot then length (snapshot_payload f) else EstimateBinlogRecordBytes (frame_record f))"

definition batch_ok :: "nat \<Rightarrow> Batch \<Rightarrow> bool" where
  "batch_ok max_frames b \<longleftrightarrow> length (batch_frames b) \<le> max_frames \<and>
     batch_payload b = sum_list (map frame_bytes (batch_frames b)) \<and>
     (1 < length (batch_frames b) \<longrightarrow> batch_payload b \<le> kMaxBatchPayloadBytes)"

lemma frame_bytes_simps [simp]:
  "frame_bytes (Frame_Log sid slot r) = EstimateBinlogRecordBytes r"
  "frame_bytes (Frame_Snapshot sid slot seq payload) = length payload"
  by (simp_all add: frame_bytes_def Frame_Log_def Frame_Snapshot_def Frame_new_def)

lemma batch_ok_snoc:
  assumes "batch_ok n b" and "fits b (frame_bytes f)" and "length (batch_frames b) < n"
  shows "batch_ok n (b\<lparr>batch_payload := batch_payload b + frame_bytes f, batch_frames := batch_frames b @ [f]\<rparr>)"
  using assms by (auto simp: batch_ok_def fits_def)

text \<open>The frames of one slot: nothing, an image of the slot, or records that follow the position the
  replica has without a gap.\<close>

definition slot_run ::
  "Resp \<Rightarrow> ('o, 'h, 's, 'z) containers \<Rightarrow> 'o CacheEngine \<Rightarrow> string \<Rightarrow> nat \<Rightarrow> ReplicaSlotState \<Rightarrow> ReplicaSlotState \<Rightarrow>
   Frame list \<Rightarrow> bool" where
  "slot_run P C e sid slot st st' fs \<longleftrightarrow>
     fs = [BuildSnapshotFrame P C e sid slot] \<and> sent_seq st' = slot_published_seq (slots e slot) \<and>
       (slot_need_snapshot st \<or> \<not> HasBacklog (Some e) slot (sent_seq st + 1)) \<or>
     (\<exists>rs. fs = map (Frame_Log sid slot) rs \<and> set rs \<subseteq> set (slot_log (slots e slot)) \<and> (slot_need_snapshot st \<longrightarrow> rs = [] \<and> slot_need_snapshot st') \<and>
        (\<forall>k < length rs. rec_seq (rs ! k) = sent_seq st + of_nat (Suc k) \<and> rec_seq (rs ! k) \<le> slot_published_seq (slots e slot)) \<and>
        sent_seq st' = sent_seq st + of_nat (length rs))"

lemma send_logs_run:
  assumes "send_logs sid slot target st b logs = (st', b')" and "batch_ok n b" and "length (batch_frames b) + length logs \<le> n"
  shows "\<exists>k. batch_frames b' = batch_frames b @ map (Frame_Log sid slot) (take k logs) \<and> batch_ok n b' \<and>
    (\<forall>j < length (take k logs). rec_seq (logs ! j) = sent_seq st + of_nat (Suc j) \<and> rec_seq (logs ! j) \<le> target) \<and>
    sent_seq st' = sent_seq st + of_nat (length (take k logs)) \<and> acked_seq st' = acked_seq st"
  using assms
proof (induction sid slot target st b logs rule: send_logs.induct)
  case (1 sid slot target st b)
  then show ?case by (intro exI [of _ 0]) simp
next
  case (2 sid slot target st b log logs)
  let ?st = "st\<lparr>sent_seq := rec_seq log\<rparr>"
  let ?b = "b\<lparr>batch_payload := batch_payload b + EstimateBinlogRecordBytes log, batch_frames := batch_frames b @ [Frame_Log sid slot log]\<rparr>"
  show ?case
  proof (cases "target < rec_seq log \<or> rec_seq log \<noteq> sent_seq st + 1 \<or> \<not> fits b (EstimateBinlogRecordBytes log)")
    case True
    with 2(2,3) show ?thesis by (intro exI [of _ 0]) (auto simp: Let_def batch_ok_def split: if_splits)
  next
    case False
    then have run: "send_logs sid slot target ?st ?b logs = (st', b')" using 2(2) by (simp add: Let_def)
    have "batch_ok n ?b" using batch_ok_snoc [of n b "Frame_Log sid slot log"] 2(3,4) False by simp
    moreover have "length (batch_frames ?b) + length logs \<le> n" using 2(4) by simp
    ultimately obtain k where k: "batch_frames b' = batch_frames ?b @ map (Frame_Log sid slot) (take k logs)" "batch_ok n b'"
      "\<forall>j < length (take k logs). rec_seq (logs ! j) = sent_seq ?st + of_nat (Suc j) \<and> rec_seq (logs ! j) \<le> target"
      "sent_seq st' = sent_seq ?st + of_nat (length (take k logs))" "acked_seq st' = acked_seq ?st"
      using 2(1) [OF _ _ refl _ run] False by auto
    have all: "rec_seq ((log # logs) ! j) = sent_seq st + of_nat (Suc j) \<and> rec_seq ((log # logs) ! j) \<le> target"
      if "j < length (take (Suc k) (log # logs))" for j
      using that k(3) False by (cases j) (auto simp: algebra_simps not_less)
    show ?thesis
    proof (intro exI [of _ "Suc k"] conjI allI impI)
      show "sent_seq st' = sent_seq st + of_nat (length (take (Suc k) (log # logs)))" using k(4) False by (simp add: algebra_simps)
      show "rec_seq ((log # logs) ! j) \<le> target" if "j < length (take (Suc k) (log # logs))" for j using all [OF that] by blast
    qed (use all k in simp_all)
  qed
qed

lemma CopyLogsAfter_prefix:
  "0 < limit \<Longrightarrow> \<exists>n \<le> limit. HashSlot_CopyLogsAfter s seq limit max_bytes = take n (filter (\<lambda>r. seq < rec_seq r) (slot_log s))"
  using CopyAfter_loop_greedy [of _ "[]" seq "slot_log s" limit 0 max_bytes]
  by (auto simp: HashSlot_CopyLogsAfter_def BinlogBuffer_CopyAfter_def greedy_prefix_def)

lemma BuildSnapshotFrame_slot:
  "slot < kSlotCount \<Longrightarrow> BuildSnapshotFrame P C e sid slot =
     Frame_Snapshot sid slot (slot_published_seq (slots e slot)) (EncodeSnapshotPayload P C (slot_map (slots e slot)))"
  by (simp add: BuildSnapshotFrame_def SlotById_def SlotCount_def HashSlot_Snapshot_def Let_def)

lemma send_slot_run:
  assumes "send_slot P C e sid n slot st b = (st', b', target)" and "slot < kSlotCount" and "batch_ok n b"
  shows "\<exists>fs. batch_frames b' = batch_frames b @ fs \<and> slot_run P C e sid slot st st' fs \<and> batch_ok n b' \<and>
    target = slot_published_seq (slots e slot) \<and> acked_seq st' = acked_seq st"
proof -
  let ?s = "slots e slot"
  have slot: "SlotById e slot = Some ?s" using assms(2) by (simp add: SlotById_def SlotCount_def)
  have none: "slot_run P C e sid slot st st []" by (simp add: slot_run_def)
  consider (idle) "batch_full b \<or> n \<le> length (batch_frames b)"
    | (image) "\<not> batch_full b" "length (batch_frames b) < n" "slot_need_snapshot st \<or> \<not> HasBacklog (Some e) slot (sent_seq st + 1)"
    | (logs) "\<not> batch_full b" "length (batch_frames b) < n" "\<not> (slot_need_snapshot st \<or> \<not> HasBacklog (Some e) slot (sent_seq st + 1))"
    by linarith
  then show ?thesis
  proof cases
    case idle
    with assms slot none show ?thesis by (intro exI [of _ "[]"]) (auto simp: send_slot_def HashSlot_Snapshot_def Let_def)
  next
    case image
    let ?f = "BuildSnapshotFrame P C e sid slot"
    have f: "base_seq ?f = slot_published_seq ?s" "frame_bytes ?f = length (snapshot_payload ?f)"
      using assms(2) by (simp_all add: BuildSnapshotFrame_slot) (simp_all add: Frame_Snapshot_def Frame_new_def)
    show ?thesis
    proof (cases "fits b (frame_bytes ?f)")
      case True
      with image assms(1) slot f have "b' = b\<lparr>batch_payload := batch_payload b + frame_bytes ?f, batch_frames := batch_frames b @ [?f]\<rparr>"
        "sent_seq st' = slot_published_seq ?s" "target = slot_published_seq ?s" "acked_seq st' = acked_seq st"
        by (auto simp: send_slot_def Let_def)
      with batch_ok_snoc [OF assms(3) True image(2)] image(3) show ?thesis by (intro exI [of _ "[?f]"]) (simp add: slot_run_def)
    next
      case False
      with image assms(1,3) slot f none show ?thesis
        by (intro exI [of _ "[]"]) (auto simp: send_slot_def HashSlot_Snapshot_def Let_def batch_ok_def)
    qed
  next
    case logs
    let ?limit = "min 128 (n - length (batch_frames b))"
    let ?logs = "HashSlot_CopyLogsAfter ?s (sent_seq st) ?limit (kMaxBatchPayloadBytes - batch_payload b)"
    have "0 < ?limit" using logs(2) by simp
    from CopyLogsAfter_prefix [OF this, of ?s] obtain m where
      m: "m \<le> ?limit" "?logs = take m (filter (\<lambda>r. sent_seq st < rec_seq r) (slot_log ?s))" by blast
    then have len: "length (batch_frames b) + length ?logs \<le> n" and sub: "set ?logs \<subseteq> set (slot_log ?s)"
      using logs(2) by (auto dest: in_set_takeD)
    have run: "send_logs sid slot (slot_published_seq ?s) st b ?logs = (st', b')" "target = slot_published_seq ?s"
      using assms(1) logs slot by (auto simp: send_slot_def HashSlot_Snapshot_def Let_def split: prod.splits)
    from send_logs_run [OF run(1) assms(3) len] obtain k where k:
      "batch_frames b' = batch_frames b @ map (Frame_Log sid slot) (take k ?logs)" "batch_ok n b'"
      "\<forall>j < length (take k ?logs). rec_seq (?logs ! j) = sent_seq st + of_nat (Suc j) \<and> rec_seq (?logs ! j) \<le> slot_published_seq ?s"
      "sent_seq st' = sent_seq st + of_nat (length (take k ?logs))" "acked_seq st' = acked_seq st" by blast
    have "slot_run P C e sid slot st st' (map (Frame_Log sid slot) (take k ?logs))"
      unfolding slot_run_def using k(3,4) sub logs(3) by (intro disjI2 exI [of _ "take k ?logs"]) (auto dest: in_set_takeD)
    with k run(2) show ?thesis by blast
  qed
qed

text \<open>The frames for one slot, in the order they are sent.\<close>

abbreviation slot_frames :: "nat \<Rightarrow> Frame list \<Rightarrow> Frame list" where
  "slot_frames i fs \<equiv> filter (\<lambda>f. slot_id f = i) fs"

lemma frame_slots [simp]:
  "slot_id (Frame_Log sid slot r) = slot" "slot_id (Frame_Snapshot sid slot seq payload) = slot"
  "session_id (Frame_Log sid slot r) = sid" "session_id (Frame_Snapshot sid slot seq payload) = sid"
  by (simp_all add: Frame_Log_def Frame_Snapshot_def Frame_new_def)

lemma slot_run_frames:
  "slot_run P C e sid slot st st' fs \<Longrightarrow> slot < kSlotCount \<Longrightarrow> list_all (\<lambda>f. slot_id f = slot \<and> session_id f = sid) fs"
  by (auto simp: slot_run_def BuildSnapshotFrame_slot list_all_iff)

lemma close_slot_simps [simp]:
  "batch_frames (close_slot n cnt slot b) = batch_frames b" "batch_payload (close_slot n cnt slot b) = batch_payload b"
  by (simp_all add: close_slot_def)

lemma batch_ok_close [simp]: "batch_ok n (close_slot k cnt slot b) = batch_ok n b"
  by (simp add: batch_ok_def)

text \<open>A pass over some slots: frames for those slots only, a run for each, and a position for each slot
  that is not waiting for an image.\<close>

definition pass_ok ::
  "Resp \<Rightarrow> ('o, 'h, 's, 'z) containers \<Rightarrow> 'o CacheEngine \<Rightarrow> string \<Rightarrow> nat set \<Rightarrow> ReplicaSlotState list \<Rightarrow> ReplicaSlotState list \<Rightarrow>
   Frame list \<Rightarrow> (nat \<times> u64) list \<Rightarrow> bool" where
  "pass_ok P C e sid A states states' fs cs \<longleftrightarrow> length states' = length states \<and>
     (\<forall>f \<in> set fs. slot_id f \<in> A \<and> session_id f = sid) \<and>
     (\<forall>i. i \<in> A \<longrightarrow> slot_run P C e sid i (states ! i) (states' ! i) (slot_frames i fs)) \<and>
     (\<forall>i. i \<notin> A \<longrightarrow> states' ! i = states ! i) \<and>
     set cs = {(i, slot_published_seq (slots e i)) | i. i \<in> A \<and> \<not> slot_need_snapshot (states' ! i)}"

lemma BuildFrames_loop_pass:
  assumes "BuildFrames_loop P C e sid n order states b completed = (states', b', completed')"
    and "distinct order" and "set order \<subseteq> {..<kSlotCount}" and "length states = kSlotCount" and "batch_ok n b"
  shows "\<exists>fs cs. batch_frames b' = batch_frames b @ fs \<and> completed' = completed @ cs \<and> batch_ok n b' \<and>
    pass_ok P C e sid (set order) states states' fs cs"
  using assms
proof (induction order arbitrary: states b completed)
  case Nil
  then show ?case by (intro exI [of _ "[]"]) (simp add: pass_ok_def)
next
  case (Cons slot order)
  obtain st b1 target where send: "send_slot P C e sid n slot (states ! slot) b = (st, b1, target)" by (cases "send_slot P C e sid n slot (states ! slot) b")
  have lt: "slot < kSlotCount" using Cons.prems(3) by simp
  obtain fs where fs: "batch_frames b1 = batch_frames b @ fs" "slot_run P C e sid slot (states ! slot) st fs" "batch_ok n b1"
    "target = slot_published_seq (slots e slot)" using send_slot_run [OF send lt Cons.prems(5)] by blast
  let ?c = "if \<not> slot_need_snapshot st then [(slot, target)] else []"
  have "BuildFrames_loop P C e sid n order (states[slot := st]) (close_slot n (length states) slot b1) (completed @ ?c) =
      (states', b', completed')" using Cons.prems(1) send by (simp add: Let_def split: if_splits)
  from Cons.IH [OF this] Cons.prems fs(3) obtain fs' cs where rest:
    "batch_frames b' = batch_frames b1 @ fs'" "completed' = (completed @ ?c) @ cs" "batch_ok n b'"
    "pass_ok P C e sid (set order) (states[slot := st]) states' fs' cs" by auto
  have own: "list_all (\<lambda>f. slot_id f = slot \<and> session_id f = sid) fs" using slot_run_frames [OF fs(2) lt] .
  have new: "slot \<notin> set order" using Cons.prems(2) by simp
  have st': "states' ! slot = st" using rest(4) new lt Cons.prems(4) by (simp add: pass_ok_def)
  have fr: "slot_frames slot fs' = []" "slot_frames slot fs = fs" "i \<noteq> slot \<Longrightarrow> slot_frames i fs = []" for i
    using rest(4) new own by (auto simp: pass_ok_def filter_empty_conv filter_id_conv list_all_iff)
  have "slot_run P C e sid i (states ! i) (states' ! i) (slot_frames i (fs @ fs'))" if "i \<in> set (slot # order)" for i
    using that rest(4) fr fs(2) st' new by (cases "i = slot") (auto simp: pass_ok_def)
  then have "pass_ok P C e sid (set (slot # order)) states states' (fs @ fs') (?c @ cs)"
    using rest(4) own fs(4) st' by (auto simp: pass_ok_def list_all_iff)
  with rest(1,2,3) fs(1) show ?case by (intro exI [of _ "fs @ fs'"] exI [of _ "?c @ cs"]) simp
qed

text \<open>A batch stays empty only when no slot has anything to send.\<close>

definition no_frame ::
  "Resp \<Rightarrow> ('o, 'h, 's, 'z) containers \<Rightarrow> 'o CacheEngine \<Rightarrow> string \<Rightarrow> nat \<Rightarrow> nat \<Rightarrow>
   ReplicaSlotState \<Rightarrow> ReplicaSlotState \<Rightarrow> bool" where
  "no_frame P C e sid n slot st st' \<longleftrightarrow> (\<exists>b b' target. batch_frames b = [] \<and> \<not> batch_full b \<and>
     send_slot P C e sid n slot st b = (st', b', target) \<and> batch_frames b' = [])"

lemma send_logs_prefix: "send_logs sid slot target st b logs = (st', b') \<Longrightarrow> prefix (batch_frames b) (batch_frames b')"
  by (induction sid slot target st b logs rule: send_logs.induct) (auto simp: Let_def split: if_splits dest: append_prefixD)

lemma send_logs_idle:
  assumes "batch_frames b = []" and "send_logs sid slot target st b logs = (st', b')" and "batch_frames b' = []"
  shows "b' = b"
proof (cases logs)
  case (Cons log rest)
  have "fits b k" for k using assms(1) by (simp add: fits_def)
  then show ?thesis using assms Cons send_logs_prefix by (fastforce simp: Let_def split: if_splits)
qed (use assms in simp)

lemma send_slot_idle:
  assumes "batch_frames b = []" and "send_slot P C e sid n slot st b = (st', b', target)" and "batch_frames b' = []"
  shows "b' = b"
proof -
  have "fits b k" for k using assms(1) by (simp add: fits_def)
  with assms send_logs_idle [OF assms(1) _ assms(3)] show ?thesis
    by (auto simp: send_slot_def Let_def split: if_splits prod.splits)
qed

lemma BuildFrames_loop_idle:
  assumes "BuildFrames_loop P C e sid n order states b completed = (states', b', completed')" and "batch_frames b' = []"
    and "distinct order" and "set order \<subseteq> {..<kSlotCount}" and "length states = kSlotCount" and "batch_ok n b"
    and "\<not> batch_full b" and "0 < n" and "i \<in> set order"
  shows "no_frame P C e sid n i (states ! i) (states' ! i)"
  using assms
proof (induction order arbitrary: states b completed)
  case (Cons slot order)
  obtain st b1 target where send: "send_slot P C e sid n slot (states ! slot) b = (st, b1, target)" by (cases "send_slot P C e sid n slot (states ! slot) b")
  have lt: "slot < kSlotCount" using Cons.prems(4) by simp
  obtain fs where fs: "batch_frames b1 = batch_frames b @ fs" "batch_ok n b1" using send_slot_run [OF send lt Cons.prems(6)] by blast
  let ?b = "close_slot n (length states) slot b1"
  obtain c where run: "BuildFrames_loop P C e sid n order (states[slot := st]) ?b c = (states', b', completed')"
    using Cons.prems(1) send by (auto simp: Let_def)
  obtain fs' cs where rest: "batch_frames b' = batch_frames b1 @ fs'" "pass_ok P C e sid (set order) (states[slot := st]) states' fs' cs"
    using BuildFrames_loop_pass [OF run] Cons.prems(3-5) fs(2) by auto
  then have st: "states' ! slot = st" using Cons.prems(3,5) lt by (simp add: pass_ok_def)
  from rest(1) Cons.prems(2) fs(1) have empty: "batch_frames b1 = []" "batch_frames b = []" by auto
  then have b1: "b1 = b" using send_slot_idle [OF _ send] by simp
  have "batch_payload b = 0" using Cons.prems(6) empty(2) by (simp add: batch_ok_def)
  then have "?b = b" using Cons.prems(7,8) empty(2) by (simp add: close_slot_def b1 kMaxBatchPayloadBytes_def)
  with Cons.IH [OF run Cons.prems(2)] Cons.prems send empty show ?case
    by (cases "i = slot") (auto simp: no_frame_def st)
qed simp

lemma round_robin:
  assumes "0 < n"
  shows "set (map (\<lambda>i. (start + i) mod n) [0..<n]) = {..<n}" "distinct (map (\<lambda>i. (start + i) mod n) [0..<n])"
proof -
  have le: "i = j" if "i \<le> j" "j < n" "(start + j) mod n = (start + i) mod n" for i j
  proof -
    have "n dvd j - i" using that mod_eq_dvd_iff_nat [of "start + i" "start + j" n] by simp
    with that show ?thesis by (auto dest: dvd_imp_le)
  qed
  have inj: "inj_on (\<lambda>i. (start + i) mod n) {0..<n}"
    by (rule inj_onI) (metis atLeastLessThan_iff le nat_le_linear)
  then show "distinct (map (\<lambda>i. (start + i) mod n) [0..<n])" by (simp add: distinct_map)
  have "(\<lambda>i. (start + i) mod n) ` {0..<n} \<subseteq> {..<n}" using assms by auto
  then show "set (map (\<lambda>i. (start + i) mod n) [0..<n]) = {..<n}"
    using card_subset_eq [of "{..<n}" "(\<lambda>i. (start + i) mod n) ` {0..<n}"] card_image [OF inj] by simp
qed

lemma BuildFrames_pass:
  assumes "BuildFrames P C e replica n = (replica', frames, completed)" and "length (session_slots replica) = kSlotCount"
  shows "length frames \<le> n \<and> (1 < length frames \<longrightarrow> sum_list (map frame_bytes frames) \<le> kMaxBatchPayloadBytes) \<and>
    session_session_id replica' = session_session_id replica \<and> session_reset replica' = session_reset replica \<and>
    session_replica_id replica' = session_replica_id replica \<and>
    pass_ok P C e (session_session_id replica) {..<kSlotCount} (session_slots replica) (session_slots replica') frames completed \<and>
    (frames = [] \<and> 0 < n \<longrightarrow> (\<forall>i < kSlotCount. no_frame P C e (session_session_id replica) n i (session_slots replica ! i) (session_slots replica' ! i)))"
proof -
  let ?order = "map (\<lambda>i. (session_next_slot replica + i) mod kSlotCount) [0..<kSlotCount]"
  let ?b = "\<lparr>batch_frames = [], batch_payload = 0, batch_full = False, batch_next = session_next_slot replica\<rparr>"
  obtain states b completed' where loop:
    "BuildFrames_loop P C e (session_session_id replica) n ?order (session_slots replica) ?b [] = (states, b, completed')"
    by (metis prod_cases3)
  then have r: "replica' = replica\<lparr>session_slots := states, session_next_slot := batch_next b\<rparr>" "frames = batch_frames b"
    "completed = completed'" using assms by (auto simp: BuildFrames_def Let_def)
  have order: "distinct ?order" "set ?order = {..<kSlotCount}" using round_robin [OF kSlotCount_pos] by auto
  have slots': "session_slots replica' = states" using r(1) by simp
  have "no_frame P C e (session_session_id replica) n i (session_slots replica ! i) (session_slots replica' ! i)"
    if "frames = []" "0 < n" "i < kSlotCount" for i
    unfolding slots'
    by (rule BuildFrames_loop_idle [OF loop _ order(1) _ assms(2)]) (use that r order in \<open>simp_all add: batch_ok_def del: set_map\<close>)
  with BuildFrames_loop_pass [OF loop _ _ assms(2)] r order show ?thesis by (auto simp: batch_ok_def)
qed

section \<open>Sessions\<close>

text \<open>The master knows the replica under the session it names.\<close>

definition in_session :: "MasterReplicator \<Rightarrow> string \<Rightarrow> string \<Rightarrow> bool" where
  "in_session mr rid sid \<longleftrightarrow> sid \<noteq> [] \<and> (\<exists>i. FindReplica mr rid = Some i \<and> session_session_id (replicas mr ! i) = sid)"

text \<open>Every session has a state for each slot, and no two sessions are for the same replica.\<close>

definition sessions_ok :: "MasterReplicator \<Rightarrow> bool" where
  "sessions_ok mr \<longleftrightarrow> list_all (\<lambda>r. length (session_slots r) = kSlotCount) (replicas mr) \<and>
     distinct (map session_replica_id (replicas mr))"

lemma FindReplica_Some:
  "FindReplica mr rid = Some i \<Longrightarrow> i < length (replicas mr) \<and> session_replica_id (replicas mr ! i) = rid"
  by (auto simp: FindReplica_def find_Some_iff)

lemma FindReplica_None: "FindReplica mr rid = None \<longleftrightarrow> rid \<notin> set (map session_replica_id (replicas mr))"
  by (fastforce simp: FindReplica_def find_None_iff in_set_conv_nth image_iff)

lemma FindReplica_unique:
  "sessions_ok mr \<Longrightarrow> i < length (replicas mr) \<Longrightarrow> FindReplica mr (session_replica_id (replicas mr ! i)) = Some i"
  using FindReplica_None [of mr "session_replica_id (replicas mr ! i)"] FindReplica_Some [of mr "session_replica_id (replicas mr ! i)"]
  by (cases "FindReplica mr (session_replica_id (replicas mr ! i))") (auto simp: sessions_ok_def distinct_conv_nth)

lemma NewSessionId_simps [simp]:
  "replicas (fst (NewSessionId mr rid)) = replicas mr" "snd (NewSessionId mr rid) \<noteq> []"
  by (simp_all add: NewSessionId_def)

lemma length_hello_positions [simp]: "length (foldl (hello_position e reset) states items) = length states"
proof (induction items arbitrary: states)
  case (Cons p items)
  have "length (hello_position e reset states p) = length states"
    by (simp add: hello_position_def Let_def split: prod.splits)
  with Cons show ?case by simp
qed simp

text \<open>What the master takes as the replica's position of a slot.\<close>

definition hello_seq :: "'o CacheEngine \<Rightarrow> bool \<Rightarrow> nat \<Rightarrow> u64 \<Rightarrow> u64" where
  "hello_seq e reset i position = (if reset \<or> slot_published_seq (slots e i) < position then 0 else position)"

lemma hello_position_nth:
  assumes "i < kSlotCount" and "length states = kSlotCount"
  shows "(hello_position e reset states (i, q)) ! i =
      (states ! i)\<lparr>acked_seq := hello_seq e reset i q, sent_seq := hello_seq e reset i q,
        slot_need_snapshot := (\<not> reset \<and> slot_published_seq (slots e i) < q) \<or> \<not> HasBacklog (Some e) i ((if reset then 0 else q) + 1)\<rparr>"
    and "j \<noteq> i \<Longrightarrow> (hello_position e reset states (i, q)) ! j = states ! j"
  using assms by (auto simp: hello_position_def hello_seq_def SlotById_def SlotCount_def HashSlot_Snapshot_def Let_def)

lemma hello_positions_nth:
  assumes "(i, q) \<in> set items" and "distinct (map fst items)" and "i < kSlotCount" and "length states = kSlotCount"
  shows "sent_seq (foldl (hello_position e reset) states items ! i) = hello_seq e reset i q \<and>
    slot_need_snapshot (foldl (hello_position e reset) states items ! i) =
      ((\<not> reset \<and> slot_published_seq (slots e i) < q) \<or> \<not> HasBacklog (Some e) i ((if reset then 0 else q) + 1))"
  using assms
proof (induction items arbitrary: states)
  case (Cons p items)
  obtain j q' where p: "p = (j, q')" by fastforce
  let ?states = "hello_position e reset states p"
  have len: "length ?states = kSlotCount" using Cons.prems(4) by (simp add: hello_position_def p Let_def)
  have keep: "foldl (hello_position e reset) states' items ! i = states' ! i" if "i \<notin> fst ` set items" for states' items
    using that by (induction items arbitrary: states') (auto simp: hello_position_def Let_def split: prod.splits)
  show ?case
  proof (cases "(i, q) \<in> set items")
    case True
    then show ?thesis using Cons.IH [OF True _ Cons.prems(3) len] Cons.prems(2) by simp
  next
    case False
    with Cons.prems(1) p have "j = i" "q' = q" by auto
    moreover from this Cons.prems(2) p have "i \<notin> fst ` set items" by simp
    ultimately show ?thesis
      using keep [of items ?states] hello_position_nth(1) [OF Cons.prems(3,4), of e reset q] p by (cases reset) auto
  qed
qed simp

lemma sessions_ok_update:
  assumes "sessions_ok mr" and "i < length (replicas mr)" and "replicas mr' = (replicas mr)[i := r]"
    and "length (session_slots r) = kSlotCount" and "session_replica_id r = session_replica_id (replicas mr ! i)"
  shows "sessions_ok mr'"
proof -
  have "map session_replica_id (replicas mr') = map session_replica_id (replicas mr)"
    using assms(2,3,5) by (simp add: map_update list_update_same_conv)
  with assms show ?thesis
    by (auto simp: sessions_ok_def list_all_iff dest!: set_update_subset_insert [THEN subsetD])
qed

text \<open>The session a hello is answered from: an old one, or a new one with a state for each slot.\<close>

lemma OnHello_session:
  assumes "OnHelloUnlocked (Some e) mr hello = (mr', sid)" and "subcmd hello = kHello" and "sessions_ok mr"
  shows "sessions_ok mr' \<and> sid \<noteq> [] \<and> (\<exists>i states. FindReplica mr' (replica_id hello) = Some i \<and> i < length (replicas mr') \<and>
    length states = kSlotCount \<and> session_session_id (replicas mr' ! i) = sid \<and>
    (\<not> session_reset (replicas mr' ! i) \<longrightarrow> session_id hello = sid) \<and>
    (in_session mr (replica_id hello) (session_id hello) \<longrightarrow> \<not> session_reset (replicas mr' ! i)) \<and>
    session_slots (replicas mr' ! i) = foldl (hello_position e (session_reset (replicas mr' ! i))) states (slot_positions hello))"
proof -
  let ?new = "ReplicaSession_new\<lparr>session_replica_id := replica_id hello, session_slots := replicate (SlotCount e) ReplicaSlotState_new\<rparr>"
  obtain mr1 i where found: "(case FindReplica mr (replica_id hello) of Some i \<Rightarrow> (mr, i)
      | None \<Rightarrow> (mr\<lparr>replicas := replicas mr @ [?new]\<rparr>, length (replicas mr))) = (mr1, i)" by fastforce
  have i: "sessions_ok mr1" "i < length (replicas mr1)" "session_replica_id (replicas mr1 ! i) = replica_id hello"
    using found assms(3) FindReplica_Some [of mr "replica_id hello"] FindReplica_None [of mr "replica_id hello"]
    by (auto simp: sessions_ok_def SlotCount_def ReplicaSession_new_def split: option.splits)
  let ?r = "replicas mr1 ! i"
  let ?reset = "session_session_id ?r = [] \<or> session_id hello \<noteq> session_session_id ?r"
  obtain mr2 sid2 where sid2: "(if ?reset then NewSessionId mr1 (replica_id hello) else (mr1, session_session_id ?r)) = (mr2, sid2)" by fastforce
  have mr2: "replicas mr2 = replicas mr1" "sid2 \<noteq> []" "\<not> ?reset \<longrightarrow> sid2 = session_id hello"
    using sid2 NewSessionId_simps [of mr1 "replica_id hello"] by (auto split: if_splits simp del: NewSessionId_simps)
  let ?r' = "?r\<lparr>session_reset := ?reset, session_session_id := sid2,
     session_slots := foldl (hello_position e ?reset) (session_slots ?r) (slot_positions hello)\<rparr>"
  have run: "mr' = mr2\<lparr>replicas := (replicas mr2)[i := ?r']\<rparr>" "sid = sid2"
    using assms(1,2) found sid2 by (auto simp: OnHelloUnlocked_def Let_def split: prod.splits)
  have len: "length (session_slots ?r) = kSlotCount" using i(1,2) by (simp add: sessions_ok_def list_all_length)
  have ok: "sessions_ok mr'" by (rule sessions_ok_update [OF i(1,2), of _ ?r']) (simp_all add: run(1) mr2(1) len)
  have at: "replicas mr' ! i = ?r'" "i < length (replicas mr')" using i(2) by (simp_all add: run(1) mr2(1))
  have "FindReplica mr' (replica_id hello) = Some i" using FindReplica_unique [OF ok at(2)] at(1) i(3) by simp
  moreover have "\<not> ?reset" if "in_session mr (replica_id hello) (session_id hello)" using that found by (auto simp: in_session_def)
  ultimately show ?thesis using ok mr2 run(2) at len by auto
qed

text \<open>The whole poll.\<close>

definition hello_ok :: "Frame \<Rightarrow> bool" where
  "hello_ok hello \<longleftrightarrow> subcmd hello = kHello \<and> proto_version hello = kProtocolVersion \<and> replica_id hello \<noteq> []"

lemma Poll_pass:
  assumes "Poll P C (Some e) mr hello n = (mr', frames)" and "hello_ok hello" and "sessions_ok mr"
  shows "\<exists>sid reset mid completed states states'. frames = Frame_Begin sid reset # mid @ [Frame_Done sid completed] \<and> sid \<noteq> [] \<and>
    (\<not> reset \<longrightarrow> session_id hello = sid) \<and> sessions_ok mr' \<and> length mid \<le> n \<and>
    (1 < length mid \<longrightarrow> sum_list (map frame_bytes mid) \<le> kMaxBatchPayloadBytes) \<and> length states = kSlotCount \<and>
    pass_ok P C e sid {..<kSlotCount} (foldl (hello_position e reset) states (slot_positions hello)) states' mid completed \<and>
    in_session mr' (replica_id hello) sid \<and> (in_session mr (replica_id hello) (session_id hello) \<longrightarrow> \<not> reset) \<and>
    (mid = [] \<and> 0 < n \<longrightarrow>
       (\<forall>i < kSlotCount. no_frame P C e sid n i (foldl (hello_position e reset) states (slot_positions hello) ! i) (states' ! i)))"
proof -
  obtain mr1 sid where hello: "OnHelloUnlocked (Some e) mr hello = (mr1, sid)" by fastforce
  have kind: "subcmd hello = kHello" using assms(2) by (simp add: hello_ok_def)
  from OnHello_session [OF hello kind assms(3)] obtain i states where
    ok: "sessions_ok mr1" "sid \<noteq> []" and i: "FindReplica mr1 (replica_id hello) = Some i" "i < length (replicas mr1)"
    and states: "length states = kSlotCount" and sid: "session_session_id (replicas mr1 ! i) = sid"
      "\<not> session_reset (replicas mr1 ! i) \<longrightarrow> session_id hello = sid"
      "in_session mr (replica_id hello) (session_id hello) \<longrightarrow> \<not> session_reset (replicas mr1 ! i)"
      "session_slots (replicas mr1 ! i) = foldl (hello_position e (session_reset (replicas mr1 ! i))) states (slot_positions hello)"
    by blast
  obtain replica' mid completed where build: "BuildFrames P C e (replicas mr1 ! i) n = (replica', mid, completed)"
    by (metis prod_cases3)
  have "length (session_slots (replicas mr1 ! i)) = kSlotCount" using sid(4) states by simp
  note pass = BuildFrames_pass [OF build this]
  have run: "mr' = mr1\<lparr>replicas := (replicas mr1)[i := replica']\<rparr>"
    "frames = Frame_Begin (session_session_id replica') (session_reset replica') # mid @ [Frame_Done (session_session_id replica') completed]"
    using assms(1,2) hello i(1) build by (auto simp: Poll_def hello_ok_def)
  have "session_replica_id replica' = session_replica_id (replicas mr1 ! i)" using pass by simp
  moreover have "length (session_slots replica') = kSlotCount" using pass states sid(4) by (simp add: pass_ok_def)
  ultimately have ok': "sessions_ok mr'" by (intro sessions_ok_update [OF ok(1) i(2), of _ replica']) (simp_all add: run(1))
  have "replicas mr' ! i = replica'" "i < length (replicas mr')" using i(2) by (simp_all add: run(1))
  moreover have "session_replica_id replica' = replica_id hello" using pass FindReplica_Some [OF i(1)] by simp
  ultimately have "FindReplica mr' (replica_id hello) = Some i" using FindReplica_unique [OF ok', of i] by simp
  then have "in_session mr' (replica_id hello) sid"
    using \<open>replicas mr' ! i = replica'\<close> pass sid(1) ok(2) by (simp add: in_session_def)
  with ok' pass run(2) sid states ok(2) show ?thesis
    by (intro exI [of _ sid] exI [of _ "session_reset (replicas mr1 ! i)"] exI [of _ mid] exI [of _ completed] exI [of _ states]
        exI [of _ "session_slots replica'"]) simp
qed

section \<open>The logs under maintenance\<close>

lemma foldl_put_slots:
  "distinct is' \<Longrightarrow> slots (foldl (\<lambda>e i. if c i then put_slot e i (f i (slots e i)) else e) e is') j =
     (if j \<in> set is' \<and> c j then f j (slots e j) else slots e j)"
  by (induction is' arbitrary: e) auto

abbreviation min_ack :: "ReplicaSession list \<Rightarrow> nat \<Rightarrow> u64" where
  "min_ack rs slot \<equiv> foldl (\<lambda>m replica. min m (acked_seq (session_slots replica ! slot))) u64_max rs"

lemma foldl_min_le_start: "foldl (\<lambda>m r. min m (f r)) a rs \<le> a" for a :: "'w :: linorder"
  by (induction rs arbitrary: a) (auto intro: order_trans [OF _ min.cobounded1])

lemma foldl_min_le: "r \<in> set rs \<Longrightarrow> foldl (\<lambda>m r. min m (f r)) a rs \<le> f r" for a :: "'w :: linorder"
  by (induction rs arbitrary: a) (auto intro: order_trans [OF foldl_min_le_start min.cobounded2])

lemma CollectGarbage_slots:
  assumes "CollectGarbage (Some e) mr = Some e'" and "replicas mr \<noteq> []"
  shows "slots e' i = (if i < kSlotCount \<and> min_ack (replicas mr) i \<noteq> u64_max
    then HashSlot_AckLogsThrough (slots e i) (min_ack (replicas mr) i) else slots e i)"
  using assms foldl_put_slots [of "[0..<kSlotCount]" "\<lambda>i. min_ack (replicas mr) i \<noteq> u64_max"
      "\<lambda>i s. HashSlot_AckLogsThrough s (min_ack (replicas mr) i)" e i]
  by (auto simp: CollectGarbage_def SlotCount_def Let_def)

lemma AckLogsThrough_simps [simp]:
  "slot_map (HashSlot_AckLogsThrough s q) = slot_map s" "slot_seq (HashSlot_AckLogsThrough s q) = slot_seq s"
  "slot_published_seq (HashSlot_AckLogsThrough s q) = slot_published_seq s"
  "slot_log_writes (HashSlot_AckLogsThrough s q) = slot_log_writes s"
  "slot_log (HashSlot_AckLogsThrough s q) = dropWhile (\<lambda>r. rec_seq r \<le> q) (slot_log s)"
  by (simp_all add: HashSlot_AckLogsThrough_def)

lemma AckLogsThrough_empty: "slot_log s = [] \<Longrightarrow> HashSlot_AckLogsThrough s q = s"
  by (simp add: HashSlot_AckLogsThrough_def BinlogBuffer_AckThrough_def BinlogBuffer_AckThroughAndCountBytes_def)

text \<open>The log bytes the engine retains.\<close>

definition total_log_bytes :: "'o CacheEngine \<Rightarrow> nat" where
  "total_log_bytes e = (\<Sum>i<kSlotCount. HashSlot_RetainedLogBytes (slots e i))"

definition logs_ok :: "'o CacheEngine \<Rightarrow> bool" where
  "logs_ok e \<longleftrightarrow> (\<forall>i. bytes_ok (slot_binlog (slots e i)) \<and> log_upto (slot_seq (slots e i)) (slot_log (slots e i)))"

lemma log_upto_le_last:
  assumes "log_upto n rs" and "r \<in> set rs"
  shows "rec_seq r \<le> rec_seq (last rs)"
proof -
  have seqs: "map (\<lambda>r. unat (rec_seq r)) rs = [Suc (unat n) - length rs ..< Suc (unat n)]" using assms(1) by (simp add: log_upto_def)
  have "unat (rec_seq r) \<in> set (map (\<lambda>r. unat (rec_seq r)) rs)" using assms(2) by auto
  then have "unat (rec_seq r) \<in> set [Suc (unat n) - length rs ..< Suc (unat n)]" unfolding seqs .
  then have "unat (rec_seq r) \<le> unat n" by auto
  moreover have "rs \<noteq> []" using assms(2) by auto
  then have "unat (rec_seq (last rs)) = last (map (\<lambda>r. unat (rec_seq r)) rs)" by (simp add: last_map)
  then have "unat (rec_seq (last rs)) = unat n"
    using \<open>rs \<noteq> []\<close> assms(1) unfolding seqs by (cases rs) (simp_all add: log_upto_def)
  ultimately show ?thesis by (simp add: word_le_nat_alt)
qed

lemma drop_whole_log:
  assumes "bytes_ok (slot_binlog s)" and "log_upto (slot_seq s) (slot_log s)"
    and "HashSlot_AckLogsThroughAndCountBytes s (HashSlot_MaxRetainedLogSeq s) = (s', removed)"
  shows "slot_log s' = []" "removed = HashSlot_RetainedLogBytes s" "s' = HashSlot_AckLogsThrough s (HashSlot_MaxRetainedLogSeq s)"
    "HashSlot_RetainedLogBytes s' = 0"
proof -
  show s': "s' = HashSlot_AckLogsThrough s (HashSlot_MaxRetainedLogSeq s)"
    using assms(3) AckLogsThroughAndCountBytes_fst [of s "HashSlot_MaxRetainedLogSeq s"] by simp
  have all: "\<forall>r \<in> set (slot_log s). rec_seq r \<le> HashSlot_MaxRetainedLogSeq s"
    using log_upto_le_last [OF assms(2)] by (auto simp: HashSlot_MaxRetainedLogSeq_def BinlogBuffer_MaxSeq_def)
  then show "slot_log s' = []" by (simp add: s')
  have "takeWhile (\<lambda>r. rec_seq r \<le> HashSlot_MaxRetainedLogSeq s) (slot_log s) = slot_log s" using all by (simp add: takeWhile_eq_all_conv)
  with assms(1,3) show "removed = HashSlot_RetainedLogBytes s"
    by (auto simp: HashSlot_AckLogsThroughAndCountBytes_def BinlogBuffer_AckThroughAndCountBytes_def AckThrough_loop_eq
        HashSlot_RetainedLogBytes_def BinlogBuffer_RetainedBytes_def bytes_ok_def)
  have "bytes_ok (slot_binlog s')" using assms(1) by (simp add: s' HashSlot_AckLogsThrough_def)
  then show "HashSlot_RetainedLogBytes s' = 0"
    using \<open>slot_log s' = []\<close> by (simp add: bytes_ok_def HashSlot_RetainedLogBytes_def BinlogBuffer_RetainedBytes_def)
qed

lemma EnforceBudget_loop_within:
  assumes "EnforceBudget_loop budget order e rs kept = (e', rs')" and "logs_ok e" and "kept = total_log_bytes e"
    and "distinct order" and "set order \<subseteq> {..<kSlotCount}"
    and "\<And>i. i < kSlotCount \<Longrightarrow> i \<notin> set order \<Longrightarrow> HashSlot_RetainedLogBytes (slots e i) = 0"
  shows "total_log_bytes e' \<le> budget \<and> logs_ok e' \<and> (\<forall>i. slots e' i = slots e i \<or> slots e' i = HashSlot_AckLogsThrough (slots e i) (HashSlot_MaxRetainedLogSeq (slots e i)))"
  using assms
proof (induction budget order e rs kept rule: EnforceBudget_loop.induct)
  case (1 budget e rs kept)
  then show ?case by (auto simp: total_log_bytes_def)
next
  case (2 budget slot order e rs kept)
  show ?case
  proof (cases "kept \<le> budget")
    case False
    obtain s removed where ack: "HashSlot_AckLogsThroughAndCountBytes (slots e slot) (HashSlot_MaxRetainedLogSeq (slots e slot)) = (s, removed)"
      by fastforce
    have dropped: "slot_log s = []" "removed = HashSlot_RetainedLogBytes (slots e slot)"
      "s = HashSlot_AckLogsThrough (slots e slot) (HashSlot_MaxRetainedLogSeq (slots e slot))" "HashSlot_RetainedLogBytes s = 0"
      using drop_whole_log [OF _ _ ack] "2.prems"(2) by (auto simp: logs_ok_def)
    have lt: "slot < kSlotCount" using "2.prems"(5) by simp
    have "total_log_bytes e = HashSlot_RetainedLogBytes (slots e slot) + (\<Sum>i \<in> {..<kSlotCount} - {slot}. HashSlot_RetainedLogBytes (slots e i))"
      unfolding total_log_bytes_def using lt by (simp add: sum.remove)
    moreover have "total_log_bytes (put_slot e slot s) = (\<Sum>i \<in> {..<kSlotCount} - {slot}. HashSlot_RetainedLogBytes (slots e i))"
      unfolding total_log_bytes_def using lt dropped(4) by (simp add: sum.remove [of _ slot])
    ultimately have kept: "kept - min kept removed = total_log_bytes (put_slot e slot s)" using "2.prems"(3) dropped(2) by simp
    have "bytes_ok (slot_binlog s)" using "2.prems"(2) by (simp add: dropped(3) HashSlot_AckLogsThrough_def logs_ok_def)
    then have ok: "logs_ok (put_slot e slot s)" using "2.prems"(2) dropped(1) by (simp add: logs_ok_def)
    have run: "EnforceBudget_loop budget order (put_slot e slot s) (map (drop_log slot (HashSlot_MaxRetainedLogSeq (slots e slot))) rs)
        (kept - min kept removed) = (e', rs')" using "2.prems"(1) False ack by simp
    have "total_log_bytes e' \<le> budget \<and> logs_ok e' \<and> (\<forall>i. slots e' i = slots (put_slot e slot s) i \<or>
        slots e' i = HashSlot_AckLogsThrough (slots (put_slot e slot s) i) (HashSlot_MaxRetainedLogSeq (slots (put_slot e slot s) i)))"
      by (rule "2.IH" [OF False refl ack [symmetric] refl run ok kept]) (use "2.prems"(4-6) dropped(4) in auto)
    moreover have "HashSlot_AckLogsThrough s q = s" for q using dropped(1) by (rule AckLogsThrough_empty)
    ultimately show ?thesis using dropped(3) by (auto split: if_splits)
  qed (use "2.prems" in auto)
qed

lemma logs_ok_CollectGarbage:
  assumes "CollectGarbage (Some e) mr = Some e'" and "logs_ok e"
  shows "logs_ok e'"
proof (cases "replicas mr = []")
  case True
  with assms show ?thesis by (simp add: CollectGarbage_def)
next
  case False
  have "bytes_ok (slot_binlog (HashSlot_AckLogsThrough s q))" if "bytes_ok (slot_binlog s)" for q and s :: "'a HashSlot"
    using that by (simp add: HashSlot_AckLogsThrough_def)
  with assms(2) show ?thesis
    by (simp add: logs_ok_def CollectGarbage_slots [OF assms(1) False] log_upto_dropWhile)
qed

lemma CollectGarbage_Some: "\<exists>e'. CollectGarbage (Some e) mr = Some e'"
  by (simp add: CollectGarbage_def)

lemma foldl_sum_upt: "foldl (\<lambda>k i. k + f i) a [0..<n] = a + (\<Sum>i<n. f i)" for a :: nat
  by (induction n) auto

lemma EnforceBudget_Some: "\<exists>e' mr'. EnforceBudget (Some e) mr = (Some e', mr')"
  by (simp add: EnforceBudget_def Let_def case_prod_beta)

lemma EnforceBudget_within:
  assumes "EnforceBudget (Some e) mr = (Some e', mr')" and "logs_ok e"
  shows "total_log_bytes e' \<le> global_binlog_budget_bytes mr \<and> (\<forall>i. slots e' i = slots e i \<or>
    slots e' i = HashSlot_AckLogsThrough (slots e i) (HashSlot_MaxRetainedLogSeq (slots e i)))"
proof -
  have kept: "foldl (\<lambda>kept slot. kept + HashSlot_RetainedLogBytes (slots e slot)) 0 [0..<SlotCount e] = total_log_bytes e"
    by (simp add: total_log_bytes_def SlotCount_def foldl_sum_upt)
  show ?thesis
  proof (cases "total_log_bytes e \<le> global_binlog_budget_bytes mr")
    case True
    with assms(1) show ?thesis by (simp add: EnforceBudget_def kept)
  next
    case False
    with assms(1) obtain rs where loop: "EnforceBudget_loop (global_binlog_budget_bytes mr) [0..<SlotCount e] e (replicas mr) (total_log_bytes e) = (e', rs)"
      by (auto simp: EnforceBudget_def kept split: prod.splits)
    have "total_log_bytes e' \<le> global_binlog_budget_bytes mr \<and> logs_ok e' \<and> (\<forall>i. slots e' i = slots e i \<or>
        slots e' i = HashSlot_AckLogsThrough (slots e i) (HashSlot_MaxRetainedLogSeq (slots e i)))"
      by (rule EnforceBudget_loop_within [OF loop assms(2) refl]) (auto simp: SlotCount_def)
    then show ?thesis by blast
  qed
qed

lemma Maintain_data:
  assumes "logs_ok e" and "Maintain (Some e) mr = (Some e', mr')"
  shows "total_log_bytes e' \<le> global_binlog_budget_bytes mr \<and>
    (\<forall>i. slot_map (slots e' i) = slot_map (slots e i) \<and> slot_published_seq (slots e' i) = slot_published_seq (slots e i))"
proof -
  obtain e1 where e1: "CollectGarbage (Some e) mr = Some e1" using CollectGarbage_Some by blast
  have "slot_map (slots e1 i) = slot_map (slots e i) \<and> slot_published_seq (slots e1 i) = slot_published_seq (slots e i)" for i
    using e1 CollectGarbage_slots [OF e1] by (cases "replicas mr = []") (simp_all add: CollectGarbage_def)
  moreover have "EnforceBudget (Some e1) mr = (Some e', mr')" using assms(2) by (simp add: Maintain_def e1)
  note EnforceBudget_within [OF this logs_ok_CollectGarbage [OF e1 assms(1)]]
  ultimately show ?thesis by (metis AckLogsThrough_simps(1,3))
qed

section \<open>Properties\<close>

text \<open>(C12) The answer to a replica's hello: a Begin frame, at most \<open>n\<close> frames that carry at most 16 MiB unless
  there is only one, and a Done frame, all of one session. For every slot the replica reports, the
  frames are an image of the slot, or records that follow without a gap the position reported (0 when
  the session is new or the position is ahead of the master) and go no further than what is published;
  the Done frame promises exactly the published positions.\<close>

theorem Poll_batch:
  assumes "Poll P C (Some e) mr hello n = (mr', frames)" and "hello_ok hello" and "sessions_ok mr"
    and "distinct (map fst (slot_positions hello))"
  shows "\<exists>sid reset mid completed. frames = Frame_Begin sid reset # mid @ [Frame_Done sid completed] \<and>
    (\<not> reset \<longrightarrow> session_id hello = sid) \<and> sessions_ok mr' \<and>
    length mid \<le> n \<and> (1 < length mid \<longrightarrow> sum_list (map frame_bytes mid) \<le> kMaxBatchPayloadBytes) \<and>
    (\<forall>f \<in> set mid. session_id f = sid \<and> slot_id f < kSlotCount) \<and>
    (\<forall>i q. (i, q) \<in> set (slot_positions hello) \<and> i < kSlotCount \<longrightarrow>
       slot_frames i mid = [BuildSnapshotFrame P C e sid i] \<or>
       (\<exists>rs. slot_frames i mid = map (Frame_Log sid i) rs \<and> set rs \<subseteq> set (slot_log (slots e i)) \<and>
          (\<forall>k < length rs. rec_seq (rs ! k) = hello_seq e reset i q + of_nat (Suc k) \<and>
             rec_seq (rs ! k) \<le> slot_published_seq (slots e i)))) \<and>
    (\<forall>(i, target) \<in> set completed. i < kSlotCount \<and> target = slot_published_seq (slots e i))"
proof -
  obtain sid reset mid completed states states' where poll:
    "frames = Frame_Begin sid reset # mid @ [Frame_Done sid completed]" "\<not> reset \<longrightarrow> session_id hello = sid" "sessions_ok mr'"
    "length mid \<le> n" "1 < length mid \<longrightarrow> sum_list (map frame_bytes mid) \<le> kMaxBatchPayloadBytes" "length states = kSlotCount"
    and pass: "pass_ok P C e sid {..<kSlotCount} (foldl (hello_position e reset) states (slot_positions hello)) states' mid completed"
    using Poll_pass [OF assms(1-3)] by blast
  have "slot_frames i mid = [BuildSnapshotFrame P C e sid i] \<or>
       (\<exists>rs. slot_frames i mid = map (Frame_Log sid i) rs \<and> set rs \<subseteq> set (slot_log (slots e i)) \<and>
          (\<forall>k < length rs. rec_seq (rs ! k) = hello_seq e reset i q + of_nat (Suc k) \<and>
             rec_seq (rs ! k) \<le> slot_published_seq (slots e i)))"
    if "(i, q) \<in> set (slot_positions hello)" "i < kSlotCount" for i q
  proof -
    have "slot_run P C e sid i (foldl (hello_position e reset) states (slot_positions hello) ! i) (states' ! i) (slot_frames i mid)"
      using pass that(2) by (simp add: pass_ok_def)
    then show ?thesis
      unfolding slot_run_def conjunct1 [OF hello_positions_nth [OF that(1) assms(4) that(2) poll(6)]] by blast
  qed
  moreover have "\<forall>f \<in> set mid. session_id f = sid \<and> slot_id f < kSlotCount"
    "\<forall>(i, target) \<in> set completed. i < kSlotCount \<and> target = slot_published_seq (slots e i)"
    using pass by (auto simp: pass_ok_def)
  ultimately show ?thesis using poll
    by (intro exI [of _ sid] exI [of _ reset] exI [of _ mid] exI [of _ completed]) blast
qed

text \<open>(C26) Collecting garbage drops no record that some replica has not acknowledged, and leaves the data
  and the sequence numbers of every slot alone.\<close>

theorem garbage_keeps_unacked:
  assumes "CollectGarbage (Some e) mr = Some e'"
  shows "slot_map (slots e' i) = slot_map (slots e i) \<and> slot_published_seq (slots e' i) = slot_published_seq (slots e i) \<and>
    (\<forall>r \<in> set (slot_log (slots e i)).
       replicas mr = [] \<or> (\<exists>replica \<in> set (replicas mr). acked_seq (session_slots replica ! i) < rec_seq r) \<longrightarrow>
       r \<in> set (slot_log (slots e' i)))"
proof (cases "replicas mr = []")
  case True
  with assms show ?thesis by (simp add: CollectGarbage_def)
next
  case False
  have "r \<in> set (dropWhile (\<lambda>r. rec_seq r \<le> min_ack (replicas mr) i) rs)"
    if "r \<in> set rs" "replica \<in> set (replicas mr)" "acked_seq (session_slots replica ! i) < rec_seq r" for r replica rs
  proof -
    have "min_ack (replicas mr) i \<le> acked_seq (session_slots replica ! i)" using that(2) by (rule foldl_min_le)
    with that(3) have "\<not> rec_seq r \<le> min_ack (replicas mr) i" by simp
    with that(1) show ?thesis by (metis Un_iff set_append set_takeWhileD takeWhile_dropWhile_id)
  qed
  with False show ?thesis by (auto simp: CollectGarbage_slots [OF assms False])
qed

text \<open>(C27) After maintenance the logs of all slots together hold at most the configured number of bytes,
  whatever they held before and whatever the replicas have acknowledged; the data are untouched.\<close>

theorem Maintain_within_budget:
  assumes "logs_ok e" and "Maintain (Some e) mr = (Some e', mr')"
  shows "total_log_bytes e' \<le> global_binlog_budget_bytes mr \<and>
    (\<forall>i. slot_map (slots e' i) = slot_map (slots e i) \<and> slot_published_seq (slots e' i) = slot_published_seq (slots e i))"
  by (rule Maintain_data [OF assms])

theorem Poll_batch_witness:
  "\<exists>sid reset mid completed. snd (Poll ref_resp ref_containers (Some (CacheEngine_new ref_containers)) (MasterReplicator_new 1 2)
      (Frame_Hello ''r'' kProtocolVersion [] [(0, 0)]) 5) = Frame_Begin sid reset # mid @ [Frame_Done sid completed] \<and> length mid \<le> 5"
proof -
  have hello: "hello_ok (Frame_Hello ''r'' kProtocolVersion [] [(0, 0)])" "sessions_ok (MasterReplicator_new 1 2)"
    "distinct (map fst (slot_positions (Frame_Hello ''r'' kProtocolVersion [] [(0, 0)])))"
    by (simp_all add: hello_ok_def sessions_ok_def MasterReplicator_new_def Frame_Hello_def)
  from Poll_batch [OF surjective_pairing hello, of ref_resp ref_containers "CacheEngine_new ref_containers" 5] show ?thesis by blast
qed

definition demo_log_engine :: "ref_objects CacheEngine" where
  "demo_log_engine = put_slot (CacheEngine_new ref_containers) 3
     (fst (HashSlot_Set ref_containers (HashSlot_new ref_containers) ''k'' (MakeString ''v'') new_record 7))"

definition demo_master :: MasterReplicator where
  "demo_master = (MasterReplicator_new 1 2)\<lparr>global_binlog_budget_bytes := 10,
     replicas := [ReplicaSession_new\<lparr>session_slots := replicate kSlotCount ReplicaSlotState_new\<rparr>]\<rparr>"

lemma demo_log: "slot_log (slots demo_log_engine 3) = [logged_record (HashSlot_new ref_containers) new_record 7 0]"
  by (simp add: demo_log_engine_def HashSlot_Set_def HashSlot_new_def DeadlineUs_def Let_def)

theorem garbage_keeps_unacked_witness:
  "logged_record (HashSlot_new ref_containers) new_record 7 0 \<in> set (slot_log (slots (the (CollectGarbage (Some demo_log_engine) demo_master)) 3))"
proof -
  obtain e' where run: "CollectGarbage (Some demo_log_engine) demo_master = Some e'" using CollectGarbage_Some by blast
  have "3 < kSlotCount" by (simp add: kSlotCount_def)
  then have "\<exists>replica \<in> set (replicas demo_master). acked_seq (session_slots replica ! 3) <
      rec_seq (logged_record (HashSlot_new ref_containers) new_record 7 0)"
    by (simp add: demo_master_def ReplicaSlotState_new_def logged_record_def HashSlot_new_def)
  with garbage_keeps_unacked [OF run, of 3] run show ?thesis by (simp add: demo_log)
qed

theorem Maintain_within_budget_witness:
  "total_log_bytes (the (fst (Maintain (Some demo_log_engine) demo_master))) \<le> 10"
proof -
  have ok: "logs_ok demo_log_engine"
    by (auto simp: logs_ok_def demo_log_engine_def CacheEngine_new_def HashSlot_new_def HashSlot_Set_def logged_record_def log_upto_def Let_def)
  obtain e1 where e1: "CollectGarbage (Some demo_log_engine) demo_master = Some e1" using CollectGarbage_Some by blast
  obtain e' mr' where run: "Maintain (Some demo_log_engine) demo_master = (Some e', mr')"
    using EnforceBudget_Some [of e1 demo_master] by (auto simp: Maintain_def e1)
  from Maintain_within_budget [OF ok run] run show ?thesis by (simp add: demo_master_def)
qed

end
