(* ===== verification/Replication.thy ===== *)
theory Replication
  imports Replay MasterReplicator
begin

text \<open>
  Master and replica together. A ghost history records, for every slot, the records the master has
  logged and the abstract contents after each. The frames of a master tell the truth about that
  history, and a replica that is told the truth holds, in every slot, the contents the master had at
  the sequence number the replica has applied, however frames are delayed, lost, repeated or reordered.
\<close>

section \<open>Histories\<close>

type_synonym contents = "string \<Rightarrow> AbsObject option"
type_synonym history = "nat \<Rightarrow> (BinlogRecord \<times> contents) list"

text \<open>The contents of slot \<open>i\<close> after its first \<open>n\<close> writes.\<close>

definition version :: "history \<Rightarrow> nat \<Rightarrow> nat \<Rightarrow> contents" where
  "version h i n = (if n = 0 then (\<lambda>_. None) else snd (h i ! (n - 1)))"

text \<open>A record takes every replica whose slot has the contents \<open>c\<close> to the contents \<open>c'\<close>.\<close>

definition leads ::
  "('o, 'h, 's, 'z) containers \<Rightarrow> Rng \<Rightarrow> nat \<Rightarrow> BinlogRecord \<Rightarrow> contents \<Rightarrow> contents \<Rightarrow> bool" where
  "leads C R i r c c' \<longleftrightarrow>
     (\<forall>p e t. slave_engine p = Some e \<and> engine_inv C e \<and> slot_abs C (slots e i) = c \<longrightarrow>
        (\<exists>e'. ApplyRecord C R p r t i = (p\<lparr>slave_engine := Some e'\<rparr>, True) \<and> slot_abs C (slots e' i) = c'))"

definition history_ok :: "('o, 'h, 's, 'z) containers \<Rightarrow> Rng \<Rightarrow> history \<Rightarrow> bool" where
  "history_ok C R h \<longleftrightarrow> (\<forall>i. length (h i) < 2 ^ 64 \<and> (\<forall>n < length (h i).
     rec_seq (fst (h i ! n)) = of_nat (Suc n) \<and> leads C R i (fst (h i ! n)) (version h i n) (version h i (Suc n))))"

text \<open>The master's engine is where the history ends; its logs are ends of the history.\<close>

definition master_ok :: "('o, 'h, 's, 'z) containers \<Rightarrow> 'o CacheEngine \<Rightarrow> history \<Rightarrow> bool" where
  "master_ok C e h \<longleftrightarrow> engine_inv C e \<and>
     (\<forall>i. slot_log_writes (slots e i) \<and> unat (slot_seq (slots e i)) = length (h i) \<and>
        slot_abs C (slots e i) = version h i (length (h i)) \<and> (\<exists>k. slot_log (slots e i) = drop k (map fst (h i))))"

definition replica_ok :: "('o, 'h, 's, 'z) containers \<Rightarrow> 'o SlaveReplicator \<Rightarrow> history \<Rightarrow> bool" where
  "replica_ok C p h \<longleftrightarrow> slave_inv C p \<and>
     (\<exists>e. slave_engine p = Some e \<and> (\<forall>i < kSlotCount. unat (applied_seq (apply_slots p ! i)) \<le> length (h i) \<and>
        slot_abs C (slots e i) = version h i (unat (applied_seq (apply_slots p ! i)))))"

text \<open>A frame that says nothing wrong about the history.\<close>

definition truthful :: "Resp \<Rightarrow> ('o, 'h, 's, 'z) containers \<Rightarrow> history \<Rightarrow> Frame \<Rightarrow> bool" where
  "truthful P C h f \<longleftrightarrow>
     (subcmd f = kLog \<longrightarrow> rec_seq (frame_record f) \<noteq> 0 \<and> unat (rec_seq (frame_record f)) \<le> length (h (slot_id f)) \<and>
        frame_record f = fst (h (slot_id f) ! (unat (rec_seq (frame_record f)) - 1))) \<and>
     (subcmd f = kSnapshot \<longrightarrow> unat (base_seq f) \<le> length (h (slot_id f)) \<and>
        (\<forall>m. DecodeSnapshotPayload P C (snapshot_payload f) = Some m \<longrightarrow>
           abs_view C (Map_Find (objects C) m) = version h (slot_id f) (unat (base_seq f))))"

text \<open>A history grows at its ends.\<close>

definition extends :: "history \<Rightarrow> history \<Rightarrow> bool" where
  "extends h h' \<longleftrightarrow> (\<forall>i. prefix (h i) (h' i))"

lemma extends_refl [simp]: "extends h h"
  by (simp add: extends_def)

lemma extends_trans: "extends h h' \<Longrightarrow> extends h' h'' \<Longrightarrow> extends h h''"
  by (auto simp: extends_def intro: prefix_order.trans)

lemma extends_nth:
  assumes "extends h h'"
  shows "length (h i) \<le> length (h' i)" and "n < length (h i) \<Longrightarrow> h' i ! n = h i ! n"
    and "n \<le> length (h i) \<Longrightarrow> version h' i n = version h i n"
proof -
  obtain xs where "h' i = h i @ xs" using assms by (auto simp: extends_def prefix_def)
  then show "length (h i) \<le> length (h' i)" "n < length (h i) \<Longrightarrow> h' i ! n = h i ! n"
    "n \<le> length (h i) \<Longrightarrow> version h' i n = version h i n" by (auto simp: version_def nth_append)
qed

lemma replica_ok_extends:
  assumes "replica_ok C p h" and "extends h h'"
  shows "replica_ok C p h'"
proof -
  obtain e where e: "slave_engine p = Some e" "\<And>i. i < kSlotCount \<Longrightarrow> unat (applied_seq (apply_slots p ! i)) \<le> length (h i)"
    "\<And>i. i < kSlotCount \<Longrightarrow> slot_abs C (slots e i) = version h i (unat (applied_seq (apply_slots p ! i)))"
    using assms(1) by (auto simp: replica_ok_def)
  then show ?thesis
    using assms(1) order_trans [OF e(2) extends_nth(1) [OF assms(2)]] extends_nth(3) [OF assms(2) e(2)] unfolding replica_ok_def by simp
qed

lemma truthful_extends:
  assumes "truthful P C h f" and "extends h h'"
  shows "truthful P C h' f"
proof -
  let ?i = "slot_id f" and ?q = "unat (rec_seq (frame_record f))"
  have "rec_seq (frame_record f) \<noteq> 0 \<Longrightarrow> 0 < ?q" by (simp add: unat_gt_0)
  then have "h' ?i ! (?q - 1) = h ?i ! (?q - 1)" if "rec_seq (frame_record f) \<noteq> 0" "?q \<le> length (h ?i)"
    using that by (intro extends_nth(2) [OF assms(2)]) simp
  then show ?thesis
    using assms(1) extends_nth(1) [OF assms(2), of ?i] extends_nth(3) [OF assms(2), of _ ?i] unfolding truthful_def by auto
qed

section \<open>The master extends its history\<close>

context imt_lib begin

lemma slot_abs_engine:
  "engine_inv C e \<Longrightarrow> slot_abs C (slots e i) k = (if SlotForKey k = i then engine_abs C e k else None)"
  by (cases "slot_view C (slots e i) k")
    (auto simp: slot_abs_def engine_abs_def engine_view_def KeySlot_def dest: engine_inv_slot)

lemma leads_write:
  assumes "engine_inv C e" and "ok_write C e key x" and "replays C R key (engine_abs C e key) x r now" and "i = SlotForKey key"
  shows "leads C R i (logged_record (KeySlot e key) r now (deadline_of x)) (slot_abs C (slots e i))
    (slot_abs C (slots (commit C e key x r now) i))"
  unfolding leads_def
proof (intro allI impI, elim conjE)
  fix p :: "'o SlaveReplicator" and e2 t
  assume p: "slave_engine p = Some e2" "engine_inv C e2" "slot_abs C (slots e2 i) = slot_abs C (slots e i)"
  let ?e = "commit C e key x r now"
  let ?r = "logged_record (KeySlot e key) r now (deadline_of x)"
  have key: "engine_abs C e2 k = engine_abs C e k" if "SlotForKey k = i" for k
    using fun_cong [OF p(3), of k] that by (simp add: slot_abs_engine p(2) assms(1))
  have "engine_abs C e2 key = engine_abs C e key" using key assms(4) by simp
  then obtain e3 where e3: "ApplyRecord C R p ?r t i = (p\<lparr>slave_engine := Some e3\<rparr>, True)"
    "engine_abs C e3 = (engine_abs C e2)(key := abs_opt C x)"
    using assms(3) p(1) unfolding replays_def logged_record_def assms(4) by blast
  have "engine_inv C e3" using ApplyRecord_effect [OF p(2,1) e3(1)] by (auto dest: arg_cong [of _ _ slave_engine])
  moreover have "engine_inv C ?e" using assms(1,2) by (auto intro: engine_inv_step engine_write)
  moreover have "engine_abs C ?e = (engine_abs C e)(key := abs_opt C x)"
    using assms(2) by (intro commit_abs) (auto simp: ok_write_def)
  ultimately have "slot_abs C (slots e3 i) k = slot_abs C (slots ?e i) k" for k
    using key [of k] by (auto simp: slot_abs_engine e3(2))
  with e3(1) show "\<exists>e'. ApplyRecord C R p ?r t i = (p\<lparr>slave_engine := Some e'\<rparr>, True) \<and>
      slot_abs C (slots e' i) = slot_abs C (slots ?e i)" by blast
qed

lemma history_write:
  assumes "history_ok C R h" and "master_ok C e h" and "ok_write C e key x"
    and "replays C R key (engine_abs C e key) x r now" and "slot_seq (KeySlot e key) \<noteq> u64_max"
  shows "\<exists>h'. history_ok C R h' \<and> extends h h' \<and> master_ok C (commit C e key x r now) h' \<and> (\<forall>i. length (h' i) \<le> Suc (length (h i)))"
proof -
  let ?i = "SlotForKey key" and ?e = "commit C e key x r now"
  let ?r = "logged_record (KeySlot e key) r now (deadline_of x)"
  define h' where "h' = h(?i := h ?i @ [(?r, slot_abs C (slots ?e ?i))])"
  have inv: "engine_inv C e" and m: "\<And>i. slot_log_writes (slots e i)" "\<And>i. unat (slot_seq (slots e i)) = length (h i)"
    "\<And>i. slot_abs C (slots e i) = version h i (length (h i))" "\<And>i. \<exists>k. slot_log (slots e i) = drop k (map fst (h i))"
    using assms(2) by (auto simp: master_ok_def)
  have ext: "extends h h'" by (simp add: extends_def h'_def)
  note old = extends_nth [OF ext]
  have new: "version h' ?i (Suc (length (h ?i))) = slot_abs C (slots ?e ?i)" by (simp add: version_def h'_def)
  have lt: "Suc (length (h ?i)) < 2 ^ 64"
    using assms(5) m(2) [of ?i] unat_Suc_u64 [of "slot_seq (KeySlot e key)"] unsigned_less [of "slot_seq (KeySlot e key) + 1", where ?'a = nat]
    by (simp add: KeySlot_def)
  have seq: "rec_seq ?r = of_nat (Suc (length (h ?i)))"
    unfolding m(2) [symmetric] by (simp add: logged_record_def KeySlot_def)
  have last: "leads C R ?i ?r (version h' ?i (length (h ?i))) (version h' ?i (Suc (length (h ?i))))"
    using leads_write [OF inv assms(3,4) refl] m(3) new old(3) [of "length (h ?i)" ?i] by simp
  have "rec_seq (fst (h' i ! n)) = of_nat (Suc n) \<and> leads C R i (fst (h' i ! n)) (version h' i n) (version h' i (Suc n))"
    if n: "n < length (h' i)" for i n
  proof (cases "n < length (h i)")
    case True
    then show ?thesis using assms(1) old(2) [OF True] old(3) [of n i] old(3) [of "Suc n" i] by (simp add: history_ok_def)
  next
    case False
    with n have "i = ?i" "n = length (h ?i)" by (auto simp: h'_def split: if_splits)
    then show ?thesis using last seq by (simp add: h'_def)
  qed
  then have "history_ok C R h'" using assms(1) lt by (auto simp: history_ok_def h'_def)
  moreover have "master_ok C ?e h'"
  proof -
    have "engine_inv C ?e" using inv assms(3) by (auto intro: engine_inv_step engine_write)
    moreover have "slot_log_writes (slots ?e i) \<and> unat (slot_seq (slots ?e i)) = length (h' i) \<and>
        slot_abs C (slots ?e i) = version h' i (length (h' i)) \<and> (\<exists>k. slot_log (slots ?e i) = drop k (map fst (h' i)))" for i
    proof (cases "i = ?i")
      case True
      obtain k where k: "slot_log (slots e ?i) = drop k (map fst (h ?i))" using m(4) by blast
      have "slot_log (slots ?e ?i) = drop (min k (length (h ?i))) (map fst (h' ?i))"
        using k m(1) [of ?i] by (simp add: commit_def h'_def KeySlot_def min_def)
      moreover have "unat (slot_seq (slots ?e ?i)) = length (h' ?i)"
        using m(2) [of ?i] unat_Suc_u64 [OF assms(5)] by (simp add: commit_def h'_def KeySlot_def)
      moreover have "slot_log_writes (slots ?e ?i)" using m(1) by (simp add: commit_def KeySlot_def)
      moreover have "slot_abs C (slots ?e ?i) = version h' ?i (length (h' ?i))" using new by (simp add: h'_def)
      ultimately show ?thesis unfolding True by blast
    next
      case False
      then show ?thesis using m [of i] old(3) [of "length (h i)" i] by (simp add: commit_def h'_def)
    qed
    ultimately show ?thesis by (simp add: master_ok_def)
  qed
  moreover have "\<forall>i. length (h' i) \<le> Suc (length (h i))" by (simp add: h'_def)
  ultimately show ?thesis using ext by blast
qed

lemma history_steps:
  assumes "(replayed_step C R ^^ n) e e'" and "history_ok C R h" and "master_ok C e h"
    and "\<And>i. unat (slot_seq (slots e i)) + n < 2 ^ 64"
  shows "\<exists>h'. history_ok C R h' \<and> extends h h' \<and> master_ok C e' h'"
  using assms
proof (induction n arbitrary: e h)
  case 0
  then have "e' = e" by simp
  with 0 show ?case by (intro exI [of _ h]) simp
next
  case (Suc n)
  from Suc.prems(1) obtain e1 where e1: "replayed_step C R e e1" "(replayed_step C R ^^ n) e1 e'" by (blast dest: relpowp_Suc_D2)
  from e1(1) obtain key x r now where w: "e1 = commit C e key x r now" "ok_write C e key x" "replays C R key (engine_abs C e key) x r now"
    by (auto elim: replayed_step.cases)
  have "slot_seq (KeySlot e key) \<noteq> u64_max"
    using Suc.prems(4) [of "SlotForKey key"] by (auto simp: KeySlot_def unsigned_minus_1_eq_mask mask_eq_exp_minus_1)
  from history_write [OF Suc.prems(2,3) w(2,3) this] w(1) obtain h1 where
    h1: "history_ok C R h1" "extends h h1" "master_ok C e1 h1" "\<And>i. length (h1 i) \<le> Suc (length (h i))" by blast
  have "unat (slot_seq (slots e1 i)) + n < 2 ^ 64" for i
    using Suc.prems(3) Suc.prems(4) [of i] h1(3) h1(4) [of i] by (simp add: master_ok_def)
  from Suc.IH [OF e1(2) h1(1,3) this] extends_trans [OF h1(2)] show ?case by blast
qed

end

section \<open>The master tells the truth\<close>

context replica_codec begin

lemma truthful_Log:
  assumes "history_ok C R h" and "master_ok C e h" and "r \<in> set (slot_log (slots e i))"
  shows "truthful P C h (Frame_Log sid i r)"
proof -
  obtain k where "slot_log (slots e i) = drop k (map fst (h i))" using assms(2) by (auto simp: master_ok_def)
  with assms(3) have "r \<in> set (map fst (h i))" by (metis in_set_dropD)
  then obtain n where n: "n < length (h i)" "r = fst (h i ! n)" by (auto simp: in_set_conv_nth)
  moreover have "length (h i) < 2 ^ 64" using assms(1) by (simp add: history_ok_def)
  ultimately have "rec_seq r = of_nat (Suc n)" "Suc n < 2 ^ 64" using assms(1) by (simp add: history_ok_def, linarith)
  then have "unat (rec_seq r) = Suc n" by (simp only: unat_u64)
  with n show ?thesis by (auto simp: truthful_def Frame_Log_def Frame_new_def)
qed

lemma truthful_Snapshot:
  assumes "master_ok C e h" and "i < kSlotCount" and "\<And>key ob. slot_view C (slots e i) key = Some ob \<Longrightarrow> rereads C (\<lambda>s. s) ob"
  shows "truthful P C h (BuildSnapshotFrame P C e sid i)"
proof -
  have m: "engine_inv C e" "unat (slot_seq (slots e i)) = length (h i)" "slot_abs C (slots e i) = version h i (length (h i))"
    using assms(1) by (simp_all add: master_ok_def)
  then have pub: "unat (slot_published_seq (slots e i)) = length (h i)" by (simp add: engine_inv_def)
  have "view_ok (slot_view C (slots e i))" using engine_inv_slot [OF m(1)] by (auto simp: view_ok_def)
  then have "abs_view C (Map_Find (objects C) m') = slot_abs C (slots e i)"
    if "DecodeSnapshotPayload P C (EncodeSnapshotPayload P C (slot_map (slots e i))) = Some m'" for m'
    using snapshot_faithful [OF _ _ that] assms(3) by (simp add: slot_view_def slot_abs_def abs_view_def fun_eq_iff)
  with pub m(3) show ?thesis
    by (simp add: truthful_def BuildSnapshotFrame_slot [OF assms(2)] Frame_Snapshot_def Frame_new_def)
qed

lemma truthful_Poll:
  assumes "history_ok C R h" and "master_ok C e h" and "sessions_ok mr"
    and "\<And>i key ob. slot_view C (slots e i) key = Some ob \<Longrightarrow> rereads C (\<lambda>s. s) ob"
    and "Poll P C (Some e) mr hello n = (mr', frames)"
  shows "sessions_ok mr' \<and> (\<forall>f \<in> set frames. truthful P C h f)"
proof (cases "hello_ok hello")
  case False
  with assms(3,5) show ?thesis by (auto simp: Poll_def hello_ok_def split: if_splits)
next
  case True
  obtain sid reset mid completed states states' where poll:
    "frames = Frame_Begin sid reset # mid @ [Frame_Done sid completed]" "sessions_ok mr'"
    and pass: "pass_ok P C e sid {..<kSlotCount} (foldl (hello_position e reset) states (slot_positions hello)) states' mid completed"
    using Poll_pass [OF assms(5) True assms(3)] by blast
  have "truthful P C h f" if "f \<in> set mid" for f
  proof -
    let ?i = "slot_id f"
    have i: "?i < kSlotCount" and run: "\<exists>st st'. slot_run P C e sid ?i st st' (slot_frames ?i mid)"
      using pass that by (auto simp: pass_ok_def)
    have mem: "f \<in> set (slot_frames ?i mid)" using that by simp
    obtain st st' where run: "slot_run P C e sid ?i st st' (slot_frames ?i mid)" using run by blast
    consider (image) "slot_frames ?i mid = [BuildSnapshotFrame P C e sid ?i]"
      | (logs) rs where "slot_frames ?i mid = map (Frame_Log sid ?i) rs" "set rs \<subseteq> set (slot_log (slots e ?i))"
      using run unfolding slot_run_def by blast
    then show ?thesis
    proof cases
      case image
      with mem have "f = BuildSnapshotFrame P C e sid ?i" by (simp only: set_simps) simp
      then show ?thesis using truthful_Snapshot [OF assms(2) i, of sid] assms(4) by simp
    next
      case (logs rs)
      from mem have "f \<in> Frame_Log sid ?i ` set rs" unfolding logs(1) set_map .
      with logs(2) show ?thesis using truthful_Log [OF assms(1,2)] by (metis imageE subsetD)
    qed
  qed
  moreover have "truthful P C h (Frame_Begin sid reset)" "truthful P C h (Frame_Done sid completed)"
    by (simp_all add: truthful_def Frame_Begin_def Frame_Done_def)
  ultimately show ?thesis using poll by auto
qed

end

section \<open>The replica believes the truth\<close>

text \<open>A slot of a replica that holds the version it says it holds.\<close>

definition holds :: "('o, 'h, 's, 'z) containers \<Rightarrow> history \<Rightarrow> nat \<Rightarrow> SlotApplyState \<Rightarrow> 'o HashSlot \<Rightarrow> bool" where
  "holds C h i st s \<longleftrightarrow> unat (applied_seq st) \<le> length (h i) \<and> slot_abs C s = version h i (unat (applied_seq st))"

lemma replica_ok_holds:
  "replica_ok C p h \<longleftrightarrow> slave_inv C p \<and> (\<exists>e. slave_engine p = Some e \<and> (\<forall>i < kSlotCount. holds C h i (apply_slots p ! i) (slots e i)))"
  by (simp add: replica_ok_def holds_def)

lemma slot_abs_Install: "slot_abs C (HashSlot_InstallReplicaSnapshot s m q) = abs_view C (Map_Find (objects C) m)"
  by (auto simp: slot_abs_def abs_view_def slot_view_def HashSlot_InstallReplicaSnapshot_def fun_eq_iff)

context imt_lib begin

lemma holds_Mark: "holds C h i st (HashSlot_MarkReplicaAppliedSeq s q) = holds C h i st s"
  by (simp add: holds_def slot_abs_def fun_eq_iff)

lemma version_0: "version h i 0 = abs_view C (Map_Find (objects C) (Map_empty (objects C)))"
  by (simp add: version_def abs_view_def om.find_empty fun_eq_iff)

lemma holds_reset:
  assumes "\<forall>i < kSlotCount. holds C h i (apply_slots p ! i) (slots e i)" and "slave_engine p = Some e"
    and "length (apply_slots p) = kSlotCount" and "list_all (\<lambda>i. i < kSlotCount) ixs"
  shows "\<exists>e'. slave_engine (foldl (reset_slot C) p ixs) = Some e' \<and>
    (\<forall>i < kSlotCount. holds C h i (apply_slots (foldl (reset_slot C) p ixs) ! i) (slots e' i))"
  using assms
proof (induction ixs arbitrary: p e)
  case (Cons j ixs)
  let ?p = "reset_slot C p j" and ?s = "HashSlot_InstallReplicaSnapshot (slots e j) (Map_empty (objects C)) 0"
  have j: "j < kSlotCount" using Cons.prems(4) by simp
  have eng: "slave_engine ?p = Some (put_slot e j ?s)"
    using Cons.prems(2) j by (simp add: reset_slot_def CacheEngine_InstallSlotReplicaSnapshot_def SlotById_Some)
  have "holds C h j SlotApplyState_new ?s"
    using version_0 [of h j] by (simp add: holds_def SlotApplyState_new_def slot_abs_Install)
  then have "\<forall>i < kSlotCount. holds C h i (apply_slots ?p ! i) (slots (put_slot e j ?s) i)"
    using Cons.prems(1,3) j by (auto simp: reset_slot_def nth_list_update)
  from Cons.IH [OF this eng] Cons.prems(3,4) show ?case by (simp add: reset_slot_def)
qed auto

lemma holds_Snapshot:
  assumes "replica_ok C p h" and "truthful P C h f" and "subcmd f = kSnapshot" and "slot_id f < kSlotCount"
  shows "\<exists>e'. slave_engine (fst (ApplySnapshot P C p f)) = Some e' \<and>
    (\<forall>i < kSlotCount. holds C h i (apply_slots (fst (ApplySnapshot P C p f)) ! i) (slots e' i))"
proof -
  obtain e where e: "slave_engine p = Some e" "\<forall>i < kSlotCount. holds C h i (apply_slots p ! i) (slots e i)" "slave_inv C p"
    using assms(1) by (auto simp: replica_ok_holds)
  have len: "length (apply_slots p) = kSlotCount" using e(1,3) by (simp add: slave_inv_def)
  let ?i = "slot_id f"
  show ?thesis
  proof (cases "snd (ApplySnapshot P C p f)")
    case True
    then obtain m where m: "DecodeSnapshotPayload P C (snapshot_payload f) = Some m"
      "ApplySnapshot P C p f = (put_state (on_engine (\<lambda>e. CacheEngine_InstallSlotReplicaSnapshot e ?i m (base_seq f)) p) ?i
         ((apply_slots p ! ?i)\<lparr>applied_seq := base_seq f, need_snapshot := False, apply_state := kCatchingUp\<rparr>), True)"
      by (auto simp: ApplySnapshot_def Let_def split: option.splits if_splits)
    let ?s = "HashSlot_InstallReplicaSnapshot (slots e ?i) m (base_seq f)"
    have "slot_abs C ?s = version h ?i (unat (base_seq f))" "unat (base_seq f) \<le> length (h ?i)"
      using assms(2,3) m(1) by (simp_all add: truthful_def slot_abs_Install)
    with e(1,2) len assms(4) m(2) show ?thesis
      by (intro exI [of _ "put_slot e ?i ?s"])
        (auto simp: CacheEngine_InstallSlotReplicaSnapshot_def SlotById_Some nth_list_update holds_def)
  next
    case False
    then have "fst (ApplySnapshot P C p f) = put_state p ?i ((apply_slots p ! ?i)\<lparr>apply_state := kOffline, need_snapshot := True\<rparr>)"
      by (auto simp: ApplySnapshot_def Let_def split: option.splits if_splits)
    with e(1,2) len assms(4) show ?thesis by (auto simp: nth_list_update holds_def)
  qed
qed

lemma holds_Log:
  assumes "history_ok C R h" and "replica_ok C p h" and "truthful P C h f" and "subcmd f = kLog" and "slot_id f < kSlotCount"
  shows "\<exists>e'. slave_engine (fst (ApplyLog C R p (slot_id f) (frame_record f) now)) = Some e' \<and>
    (\<forall>i < kSlotCount. holds C h i (apply_slots (fst (ApplyLog C R p (slot_id f) (frame_record f) now)) ! i) (slots e' i))"
proof -
  obtain e where e: "slave_engine p = Some e" "\<forall>i < kSlotCount. holds C h i (apply_slots p ! i) (slots e i)" "slave_inv C p"
    using assms(2) by (auto simp: replica_ok_holds)
  have len: "length (apply_slots p) = kSlotCount" and inv: "engine_inv C e" using e(1,3) by (simp_all add: slave_inv_def)
  let ?i = "slot_id f" and ?r = "frame_record f"
  let ?st = "apply_slots p ! ?i"
  let ?n = "unat (applied_seq ?st)"
  have tr: "rec_seq ?r \<noteq> 0" "unat (rec_seq ?r) \<le> length (h ?i)" "?r = fst (h ?i ! (unat (rec_seq ?r) - 1))"
    using assms(3,4) by (auto simp: truthful_def)
  show ?thesis
  proof (cases "\<not> need_snapshot ?st \<and> \<not> rec_seq ?r \<le> applied_seq ?st \<and> rec_seq ?r = applied_seq ?st + 1")
    case False
    then have "fst (ApplyLog C R p ?i ?r now) = p \<or>
        fst (ApplyLog C R p ?i ?r now) = put_state p ?i (?st\<lparr>need_snapshot := True, apply_state := kOffline\<rparr>)"
      by (auto simp: ApplyLog_def Let_def)
    with e(1,2) len assms(5) show ?thesis by (auto simp: nth_list_update holds_def)
  next
    case True
    then have "applied_seq ?st \<noteq> u64_max" by auto
    then have seq: "unat (rec_seq ?r) = Suc ?n" using True unat_Suc_u64 by simp
    then have "leads C R ?i ?r (version h ?i ?n) (version h ?i (Suc ?n))"
      using assms(1) tr(2,3) by (simp add: history_ok_def)
    moreover have "slot_abs C (slots e ?i) = version h ?i ?n" using e(2) assms(5) by (simp add: holds_def)
    ultimately obtain e1 where e1: "ApplyRecord C R p ?r now ?i = (p\<lparr>slave_engine := Some e1\<rparr>, True)"
      "slot_abs C (slots e1 ?i) = version h ?i (Suc ?n)" using e(1) inv unfolding leads_def by blast
    have others: "slots e1 j = slots e j" if "j \<noteq> ?i" for j
      using ApplyRecord_effect [OF inv e(1) e1(1)] that by (auto dest: arg_cong [of _ _ slave_engine])
    have run: "fst (ApplyLog C R p ?i ?r now) = put_state (on_engine (\<lambda>e. CacheEngine_MarkSlotReplicaAppliedSeq e ?i (rec_seq ?r))
        (p\<lparr>slave_engine := Some e1\<rparr>)) ?i (?st\<lparr>applied_seq := rec_seq ?r, apply_state := kCatchingUp\<rparr>)"
      using True len assms(5) e1(1) by (auto simp: ApplyLog_def Let_def)
    have "holds C h ?i (?st\<lparr>applied_seq := rec_seq ?r, apply_state := kCatchingUp\<rparr>) (HashSlot_MarkReplicaAppliedSeq (slots e1 ?i) (rec_seq ?r))"
      using e1(2) seq tr(2) by (simp add: holds_Mark) (simp add: holds_def)
    with run others e(2) len assms(5) show ?thesis
      by (intro exI [of _ "put_slot e1 ?i (HashSlot_MarkReplicaAppliedSeq (slots e1 ?i) (rec_seq ?r))"])
        (auto simp: CacheEngine_MarkSlotReplicaAppliedSeq_def SlotById_Some nth_list_update)
  qed
qed

lemma done_loop_engine: "slave_engine (fst (done_loop p items)) = slave_engine p"
  by (induction p items rule: done_loop.induct) (simp_all add: Let_def)

lemma replica_ok_EnqueueFrame:
  assumes "history_ok C R h" and "replica_ok C p h" and "truthful P C h f"
  shows "replica_ok C (fst (EnqueueFrame P C R p f now)) h"
proof -
  obtain e where e: "slave_engine p = Some e" "\<forall>i < kSlotCount. holds C h i (apply_slots p ! i) (slots e i)" "slave_inv C p"
    using assms(2) by (auto simp: replica_ok_holds)
  have len: "length (apply_slots p) = kSlotCount" using e(1,3) by (simp add: slave_inv_def)
  have ixs: "list_all (\<lambda>i. i < kSlotCount) [0..<length (apply_slots p)]" by (simp add: list_all_iff len)
  have fin: "holds C h i (apply_slots (fst (done_loop p items)) ! i) (slots e i)" if "i < kSlotCount" for i items
    using e(2) that by (simp add: holds_def done_loop_keeps)
  have "\<exists>e'. slave_engine (fst (EnqueueFrame P C R p f now)) = Some e' \<and>
      (\<forall>i < kSlotCount. holds C h i (apply_slots (fst (EnqueueFrame P C R p f now)) ! i) (slots e' i))"
    using e(1,2) len holds_reset [OF e(2,1) len ixs] holds_Snapshot [OF assms(2,3)] holds_Log [OF assms(1-3)] fin
    by (auto simp: EnqueueFrame_def done_loop_engine)
  with slave_inv_EnqueueFrame [OF e(3)] show ?thesis by (simp add: replica_ok_holds)
qed

end

section \<open>Maintenance only shortens logs\<close>

definition trimmed :: "'o HashSlot \<Rightarrow> 'o HashSlot \<Rightarrow> bool" where
  "trimmed s s' \<longleftrightarrow> slot_map s' = slot_map s \<and> slot_seq s' = slot_seq s \<and> slot_published_seq s' = slot_published_seq s \<and>
     slot_log_writes s' = slot_log_writes s \<and> (\<exists>k. slot_log s' = drop k (slot_log s)) \<and>
     (bytes_ok (slot_binlog s) \<longrightarrow> bytes_ok (slot_binlog s'))"

lemma trimmed_refl [simp]: "trimmed s s"
  unfolding trimmed_def by (intro conjI exI [of _ 0]) simp_all

lemma trimmed_trans: "trimmed s s' \<Longrightarrow> trimmed s' s'' \<Longrightarrow> trimmed s s''"
  unfolding trimmed_def by (auto simp: drop_drop)

lemma trimmed_Ack [simp]: "trimmed s (HashSlot_AckLogsThrough s q)"
  unfolding trimmed_def by (auto simp: dropWhile_eq_drop) (simp add: HashSlot_AckLogsThrough_def)

lemma CollectGarbage_trimmed: "CollectGarbage (Some e) mr = Some e' \<Longrightarrow> trimmed (slots e i) (slots e' i)"
  using CollectGarbage_slots [of e mr e' i] by (cases "replicas mr = []") (auto simp: CollectGarbage_def)

lemma drop_log_simps [simp]:
  "length (session_slots (drop_log slot q r)) = length (session_slots r)"
  "session_replica_id (drop_log slot q r) = session_replica_id r"
  by (simp_all add: drop_log_def Let_def)

lemma EnforceBudget_loop_trimmed:
  "EnforceBudget_loop budget order e rs kept = (e', rs') \<Longrightarrow> trimmed (slots e i) (slots e' i) \<and>
   map (\<lambda>r. length (session_slots r)) rs' = map (\<lambda>r. length (session_slots r)) rs \<and>
   map session_replica_id rs' = map session_replica_id rs"
proof (induction budget order e rs kept rule: EnforceBudget_loop.induct)
  case (2 budget slot order e rs kept)
  let ?q = "HashSlot_MaxRetainedLogSeq (slots e slot)"
  obtain s removed where ack: "HashSlot_AckLogsThroughAndCountBytes (slots e slot) ?q = (s, removed)" by fastforce
  then have s: "s = HashSlot_AckLogsThrough (slots e slot) ?q" using AckLogsThroughAndCountBytes_fst [of "slots e slot" ?q] by simp
  show ?case
  proof (cases "kept \<le> budget")
    case False
    then have "EnforceBudget_loop budget order (put_slot e slot s) (map (drop_log slot ?q) rs) (kept - min kept removed) = (e', rs')"
      using 2(2) ack by simp
    from 2(1) [OF False refl ack [symmetric] refl this]
    show ?thesis using trimmed_trans [of "slots e i" "slots (put_slot e slot s) i"] by (cases "i = slot") (auto simp: s comp_def)
  qed (use 2(2) in simp)
qed simp

lemma EnforceBudget_trimmed:
  assumes "EnforceBudget (Some e) mr = (Some e', mr')"
  shows "trimmed (slots e i) (slots e' i)"
  using assms EnforceBudget_loop_trimmed [of _ _ e "replicas mr"]
  by (auto simp: EnforceBudget_def Let_def split: if_splits prod.splits)

lemma sessions_ok_EnforceBudget:
  assumes "EnforceBudget (engine :: 'o CacheEngine option) mr = (engine', mr')" and "sessions_ok mr"
  shows "sessions_ok mr'"
proof -
  have "sessions_ok mr' = sessions_ok mr"
    if "map (\<lambda>r. length (session_slots r)) (replicas mr') = map (\<lambda>r. length (session_slots r)) (replicas mr)"
      "map session_replica_id (replicas mr') = map session_replica_id (replicas mr)"
    using that(2) arg_cong [OF that(1), of "\<lambda>ns. \<forall>n \<in> set ns. n = kSlotCount"] by (auto simp: sessions_ok_def list_all_iff)
  moreover have "mr' = mr \<or> (\<exists>budget order (e :: 'o CacheEngine) kept e' rs. EnforceBudget_loop budget order e (replicas mr) kept = (e', rs) \<and> replicas mr' = rs)"
    using assms(1) by (auto simp: EnforceBudget_def Let_def split: option.splits if_splits prod.splits)
  ultimately show ?thesis using assms(2) EnforceBudget_loop_trimmed by blast
qed

lemma Maintain_trimmed:
  assumes "Maintain (Some e) mr = (Some e', mr')"
  shows "trimmed (slots e i) (slots e' i)"
proof -
  obtain e1 where e1: "CollectGarbage (Some e) mr = Some e1" using CollectGarbage_Some by blast
  from trimmed_trans [OF CollectGarbage_trimmed [OF e1, of i]] EnforceBudget_trimmed [of e1 mr e' mr' i] assms e1
  show ?thesis by (simp add: Maintain_def)
qed

lemma master_ok_trimmed:
  assumes "\<And>i. trimmed (slots e i) (slots e' i)" and "master_ok C e h"
  shows "master_ok C e' h"
proof -
  have "slot_view C (slots e' i) = slot_view C (slots e i)" for i using assms(1) [of i] by (simp add: trimmed_def slot_view_def)
  then have view: "slot_abs C (slots e' i) = slot_abs C (slots e i)" "engine_view C e' = engine_view C e" "placed C e' = placed C e" for i
    by (simp_all add: slot_abs_def engine_view_def KeySlot_def placed_def fun_eq_iff)
  have "\<exists>k. slot_log (slots e' i) = drop k (map fst (h i))" for i
  proof -
    obtain j where j: "slot_log (slots e' i) = drop j (slot_log (slots e i))" using assms(1) [of i] by (auto simp: trimmed_def)
    obtain k where "slot_log (slots e i) = drop k (map fst (h i))" using assms(2) by (auto simp: master_ok_def)
    with j have "slot_log (slots e' i) = drop (j + k) (map fst (h i))" by (simp add: drop_drop)
    then show ?thesis by blast
  qed
  moreover have "engine_inv C e'"
  proof -
    have "slot_log_writes (slots e' i)" "slot_published_seq (slots e' i) = slot_seq (slots e' i)" "bytes_ok (slot_binlog (slots e' i))" for i
      using assms(1) [of i] assms(2) by (auto simp: trimmed_def master_ok_def engine_inv_def)
    then show ?thesis using assms(2) view(2,3) by (simp add: engine_inv_def master_ok_def)
  qed
  ultimately show ?thesis using assms(1,2) view(1) by (auto simp: master_ok_def trimmed_def)
qed

section \<open>The system\<close>

text \<open>
  One master, one replica and a network that may lose, delay, repeat and reorder frames: \<open>net\<close> is
  every frame ever sent, and any of them may arrive at any time. Commands and the sweeper run at a time
  other than 0, which is how a record marks its time as unknown; a slot has room for the writes of a
  command (no slot of a real server comes near \<open>2 ^ 64\<close> writes). A poll is answered only while all scores of the master
  survive their text (\<open>scores_survive\<close>). The code has no such check; it is a restriction on the runs considered, which
  \<open>snapshot_changes_score\<close> shows is needed: an image with another score makes a replica that differs from its master.
\<close>

definition scores_survive :: "('o, 'h, 's, 'z) containers \<Rightarrow> 'o CacheEngine \<Rightarrow> bool" where
  "scores_survive C e \<longleftrightarrow> (\<forall>i key ob. slot_view C (slots e i) key = Some ob \<longrightarrow> rereads C (\<lambda>s. s) ob)"

inductive system ::
  "Resp \<Rightarrow> ('o, 'h, 's, 'z) containers \<Rightarrow> Rng \<Rightarrow> 'o CacheEngine \<Rightarrow> MasterReplicator \<Rightarrow> 'o SlaveReplicator \<Rightarrow> Frame set \<Rightarrow> bool"
  for P :: Resp and C :: "('o, 'h, 's, 'z) containers" and R :: Rng where
  system_start: "system P C R (CacheEngine_new C) (MasterReplicator_new a b) (SlaveReplicator_new (Some (CacheEngine_new C))) {}"
| system_command: "system P C R e mr p net \<Longrightarrow> now \<noteq> 0 \<Longrightarrow> (\<And>i. unat (slot_seq (slots e i)) + length args < 2 ^ 64) \<Longrightarrow>
    system P C R (fst (Execute C R args e now)) mr p net"
| system_sweep: "system P C R e mr p net \<Longrightarrow> (\<And>i. unat (slot_seq (slots e i)) + 1 < 2 ^ 64) \<Longrightarrow>
    HashSlot_DeleteExpired_key C now (slots e (SlotForKey key), n) key = (s', n') \<Longrightarrow>
    system P C R (put_slot e (SlotForKey key) s') mr p net"
| system_poll: "system P C R e mr p net \<Longrightarrow>
    scores_survive C e \<Longrightarrow> Poll P C (Some e) mr hello n = (mr', frames) \<Longrightarrow> system P C R e mr' p (net \<union> set frames)"
| system_maintain: "system P C R e mr p net \<Longrightarrow> Maintain (Some e) mr = (Some e', mr') \<Longrightarrow> system P C R e' mr' p net"
| system_budget: "system P C R e mr p net \<Longrightarrow> system P C R e (SetGlobalBinlogBudget mr bytes) p net"
| system_deliver: "system P C R e mr p net \<Longrightarrow> f \<in> net \<Longrightarrow> system P C R e mr (fst (EnqueueFrame P C R p f now)) net"

definition system_inv ::
  "Resp \<Rightarrow> ('o, 'h, 's, 'z) containers \<Rightarrow> Rng \<Rightarrow> 'o CacheEngine \<Rightarrow> MasterReplicator \<Rightarrow> 'o SlaveReplicator \<Rightarrow> Frame set \<Rightarrow> bool" where
  "system_inv P C R e mr p net \<longleftrightarrow> sessions_ok mr \<and>
     (\<exists>h. history_ok C R h \<and> master_ok C e h \<and> replica_ok C p h \<and> (\<forall>f \<in> net. truthful P C h f))"

context replica_codec begin

lemma system_inv_start:
  "system_inv P C R (CacheEngine_new C) (MasterReplicator_new a b) (SlaveReplicator_new (Some (CacheEngine_new C))) {}"
proof -
  let ?h = "\<lambda>i. [] :: (BinlogRecord \<times> contents) list"
  have abs: "slot_abs C s = (\<lambda>_. None)" if "slot_map s = Map_empty (objects C)" for s
    using that by (simp add: slot_abs_def slot_view_def om.find_empty fun_eq_iff)
  have "master_ok C (CacheEngine_new C) ?h"
    using engine_inv_new abs by (simp add: master_ok_def CacheEngine_new_def HashSlot_new_def version_def)
  moreover have "replica_ok C (SlaveReplicator_new (Some (CacheEngine_new C))) ?h"
    using slave_inv_run [OF replica_start] abs
    by (simp add: replica_ok_def SlaveReplicator_new_def DisableBinlog_def CacheEngine_new_def HashSlot_new_def HashSlot_SetLogWrites_def
        SlotCount_def SlotApplyState_new_def version_def Let_def)
  moreover have "history_ok C R ?h" by (simp add: history_ok_def)
  ultimately show ?thesis by (auto simp: system_inv_def sessions_ok_def MasterReplicator_new_def)
qed

lemma system_inv_steps:
  assumes "system_inv P C R e mr p net" and "replayed_steps C R n e e'" and "\<And>i. unat (slot_seq (slots e i)) + n < 2 ^ 64"
  shows "system_inv P C R e' mr p net"
proof -
  obtain h where h: "history_ok C R h" "master_ok C e h" "replica_ok C p h" "\<forall>f \<in> net. truthful P C h f" "sessions_ok mr"
    using assms(1) by (auto simp: system_inv_def)
  obtain k where k: "k \<le> n" "(replayed_step C R ^^ k) e e'" using assms(2) by (auto simp: replayed_steps_def)
  have "unat (slot_seq (slots e i)) + k < 2 ^ 64" for i using assms(3) [of i] k(1) by linarith
  from history_steps [OF k(2) h(1,2) this] obtain h' where "history_ok C R h'" "extends h h'" "master_ok C e' h'" by blast
  with h(4,5) replica_ok_extends [OF h(3)] truthful_extends [of P C h _ h'] show ?thesis unfolding system_inv_def by blast
qed

lemma system_inv_maintain:
  assumes "system_inv P C R e mr p net" and "Maintain (Some e) mr = (Some e', mr')"
  shows "system_inv P C R e' mr' p net"
proof -
  have trim: "trimmed (slots e i) (slots e' i)" for i by (rule Maintain_trimmed [OF assms(2)])
  have "sessions_ok mr'" using assms by (auto simp: system_inv_def Maintain_def intro: sessions_ok_EnforceBudget)
  with assms(1) master_ok_trimmed [OF trim] show ?thesis by (auto simp: system_inv_def)
qed

lemma system_invariant:
  assumes "rng_ok R" and "system P C R e mr p net"
  shows "system_inv P C R e mr p net"
  using assms(2)
proof (induction rule: system.induct)
  case (system_start a b)
  show ?case by (rule system_inv_start)
next
  case (system_command e mr p net now args)
  have "engine_inv C e" using system_command(4) by (auto simp: system_inv_def master_ok_def)
  from Execute_replayed [OF assms(1) system_command(2) this] show ?case
    by (rule system_inv_steps [OF system_command(4)]) (rule system_command(3))
next
  case (system_sweep e mr p net now key n s' n')
  from DeleteExpired_key_commit [OF system_sweep(3)] have "replayed_steps C R 1 e (put_slot e (SlotForKey key) s')"
    using sweep_replayed [of e key R now] by (auto intro: replayed_steps_one)
  then show ?case by (rule system_inv_steps [OF system_sweep(4)]) (rule system_sweep(2))
next
  case (system_poll e mr p net hello n mr' frames)
  obtain h where h: "history_ok C R h" "master_ok C e h" "replica_ok C p h" "\<forall>f \<in> net. truthful P C h f" "sessions_ok mr"
    using system_poll(4) by (auto simp: system_inv_def)
  have "sessions_ok mr' \<and> (\<forall>f \<in> set frames. truthful P C h f)"
    by (rule truthful_Poll [OF h(1,2,5) _ system_poll(3)]) (use system_poll(2) in \<open>simp add: scores_survive_def\<close>)
  with h show ?case unfolding system_inv_def by blast
next
  case (system_maintain e mr p net e' mr')
  show ?case by (rule system_inv_maintain [OF system_maintain(3,2)])
next
  case (system_budget e mr p net bytes)
  then show ?case by (simp add: system_inv_def SetGlobalBinlogBudget_def sessions_ok_def)
next
  case (system_deliver e mr p net f now)
  obtain h where h: "history_ok C R h" "master_ok C e h" "replica_ok C p h" "\<forall>f \<in> net. truthful P C h f" "sessions_ok mr"
    using system_deliver(3) by (auto simp: system_inv_def)
  with replica_ok_EnqueueFrame [OF h(1,3), of P f now] system_deliver(2) show ?case unfolding system_inv_def by blast
qed

end

section \<open>Properties\<close>

text \<open>(C1) A replica converges to its master. In every state a master and a replica can reach by commands,
  expiry sweeps, polls, log maintenance and the arrival of frames, however the frames are delayed, lost,
  repeated or reordered, the replica has in no slot applied more than the master has published, and
  a slot that has applied all of it holds exactly the master's objects: the same keys, types, values and
  deadlines. The runs are those in which, whenever the master answers a poll, every score it holds survives being printed and
  read again; commands run at a time other than 0, and no slot runs out of sequence numbers.\<close>

theorem replica_converges:
  assumes "imt_lib C" and "resp_lib P" and "rng_ok R" and "system P C R e mr p net"
    and "slave_engine p = Some e'" and "i < kSlotCount"
  shows "applied_seq (apply_slots p ! i) \<le> slot_published_seq (slots e i) \<and>
    (applied_seq (apply_slots p ! i) = slot_published_seq (slots e i) \<longrightarrow> slot_abs C (slots e' i) = slot_abs C (slots e i))"
proof -
  have "system_inv P C R e mr p net"
    by (rule replica_codec.system_invariant [OF replica_codec.intro [OF assms(1,2)] assms(3,4)])
  then obtain h where h: "master_ok C e h" "replica_ok C p h" by (auto simp: system_inv_def)
  have "slot_published_seq (slots e i) = slot_seq (slots e i)" "unat (slot_seq (slots e i)) = length (h i)"
    "slot_abs C (slots e i) = version h i (length (h i))" using h(1) by (auto simp: master_ok_def engine_inv_def)
  moreover have "unat (applied_seq (apply_slots p ! i)) \<le> length (h i)"
    "slot_abs C (slots e' i) = version h i (unat (applied_seq (apply_slots p ! i)))"
    using h(2) assms(5,6) by (auto simp: replica_ok_def)
  ultimately show ?thesis by (auto simp: word_le_nat_alt)
qed

theorem replica_converges_witness:
  "applied_seq (apply_slots (SlaveReplicator_new (Some (CacheEngine_new ref_containers))) ! 3) \<le>
   slot_published_seq (slots (fst (Execute ref_containers demo_rng [''SET'', ''k'', ''v''] (CacheEngine_new ref_containers) 7)) 3)"
proof -
  have rng: "rng_ok demo_rng" by (simp add: rng_ok_def demo_rng_def)
  have "system ref_resp ref_containers demo_rng (fst (Execute ref_containers demo_rng [''SET'', ''k'', ''v''] (CacheEngine_new ref_containers) 7))
      (MasterReplicator_new 1 2) (SlaveReplicator_new (Some (CacheEngine_new ref_containers))) {}"
    by (rule system_command [OF system_start]) (simp_all add: CacheEngine_new_def HashSlot_new_def)
  moreover have "slave_engine (SlaveReplicator_new (Some (CacheEngine_new ref_containers))) = Some (DisableBinlog (CacheEngine_new ref_containers))"
    by (simp add: SlaveReplicator_new_def)
  moreover have "3 < kSlotCount" by (simp add: kSlotCount_def)
  ultimately show ?thesis
    using replica_converges [OF ref_lib.imt_lib_axioms ref_resp_lib.resp_lib_axioms rng] by blast
qed

end
