(* ===== verification/Socket.thy ===== *)
theory Socket
  imports Prelude "HOL-Library.Sublist"
begin

text \<open>
  What the network code sees of the operating system. A system call on a socket is modelled by the
  results it returns, in the order of the calls: a list of results is what the kernel answers, and a
  call made after the end of the list has not returned yet. \<^verbatim>\<open>EWOULDBLOCK\<close> is \<^verbatim>\<open>EAGAIN\<close>, as on Linux.
\<close>

datatype Errno = EAGAIN | EINTR | EINPROGRESS | EOther

text \<open>\<open>Wrote n\<close> took \<open>n\<close> bytes; \<open>ReadBytes []\<close> is the end of the stream.\<close>

datatype SendResult = Wrote nat | WriteError Errno

datatype RecvResult = ReadBytes string | ReadError Errno

text \<open>
  The loop that writes a whole text: it ends when everything is taken, repeats the call on the error
  it takes for temporary, and gives up on any other. The result is what the peer is sent, whether all
  was written (\<open>None\<close> while a call has not returned), and the results of the calls to come.
\<close>

fun write_loop :: "Errno \<Rightarrow> string \<Rightarrow> nat \<Rightarrow> SendResult list \<Rightarrow> string \<times> bool option \<times> SendResult list" where
  "write_loop again bytes written [] = ([], if written < length bytes then None else Some True, [])"
| "write_loop again bytes written (r # rs) =
     (if \<not> written < length bytes then ([], Some True, r # rs)
      else case r of
             Wrote n \<Rightarrow>
               if n = 0 then ([], Some False, rs)
               else (let (out, result, rest) = write_loop again bytes (written + n) rs
                     in (take n (drop written bytes) @ out, result, rest))
           | WriteError err \<Rightarrow>
               if err = again then write_loop again bytes written rs else ([], Some False, rs))"

lemma write_loop_sent:
  "write_loop again bytes written rs = (out, result, rest) \<Longrightarrow>
   prefix out (drop written bytes) \<and> (result = Some True \<longrightarrow> out = drop written bytes)"
proof (induction again bytes written rs arbitrary: out result rest rule: write_loop.induct)
  case (2 again bytes written r rs)
  show ?case
  proof (cases "written < length bytes \<and> (\<exists>n. r = Wrote n \<and> n \<noteq> 0)")
    case True
    then obtain n where n: "r = Wrote n" "n \<noteq> 0" "written < length bytes" by blast
    obtain out' where o: "write_loop again bytes (written + n) rs = (out', result, rest)"
        "out = take n (drop written bytes) @ out'"
      using 2(3) n by (auto split: prod.splits)
    have "drop written bytes = take n (drop written bytes) @ drop (written + n) bytes"
      by (metis append_take_drop_id drop_drop add.commute)
    with 2(1) [OF _ n(1,2) o(1)] n(3) o(2) show ?thesis by (metis not_less same_append_eq same_prefix_prefix)
  next
    case False
    then show ?thesis using 2 by (auto split: if_splits SendResult.splits)
  qed
qed (auto split: if_splits)

text \<open>A socket that stays healthy: every call takes some bytes or is to be repeated.\<close>

definition healthy :: "Errno \<Rightarrow> SendResult list \<Rightarrow> bool" where
  "healthy again rs \<longleftrightarrow> list_all (\<lambda>r. case r of Wrote n \<Rightarrow> 0 < n | WriteError err \<Rightarrow> err = again) rs"

definition progress :: "SendResult list \<Rightarrow> nat" where
  "progress rs = length (filter (\<lambda>r. case r of Wrote n \<Rightarrow> True | WriteError err \<Rightarrow> False) rs)"

lemma healthy_simps [simp]:
  "healthy again []"
  "healthy again (r # rs) \<longleftrightarrow> (case r of Wrote n \<Rightarrow> 0 < n | WriteError err \<Rightarrow> err = again) \<and> healthy again rs"
  by (simp_all add: healthy_def)

lemma progress_simps [simp]:
  "progress [] = 0" "progress (Wrote n # rs) = Suc (progress rs)" "progress (WriteError err # rs) = progress rs"
  by (simp_all add: progress_def)

text \<open>As many calls that take bytes as there are bytes are enough.\<close>

lemma write_loop_healthy:
  assumes "healthy again rs" and "length bytes - written \<le> progress rs"
  shows "\<exists>rest. write_loop again bytes written rs = (drop written bytes, Some True, rest) \<and> healthy again rest \<and>
    progress rs \<le> progress rest + (length bytes - written)"
  using assms
proof (induction again bytes written rs rule: write_loop.induct)
  case (2 again bytes written r rs)
  consider "\<not> written < length bytes" | n where "written < length bytes" "r = Wrote n" "0 < n"
    | "written < length bytes" "r = WriteError again"
    using 2(3) by (cases r) auto
  then show ?case
  proof cases
    case (2 n)
    have "drop written bytes = take n (drop written bytes) @ drop (written + n) bytes"
      by (metis append_take_drop_id drop_drop add.commute)
    moreover have enough: "length bytes - (written + n) \<le> progress rs" using "2.prems"(2) 2 by simp
    moreover obtain rest where "write_loop again bytes (written + n) rs = (drop (written + n) bytes, Some True, rest)"
        "healthy again rest" "progress rs \<le> progress rest + (length bytes - (written + n))"
      using "2.IH"(1) [of n] enough "2.prems"(1) 2 by auto
    ultimately show ?thesis using 2 by simp
  next
    case 3
    then show ?thesis using "2.IH"(2) [of again] "2.prems" by auto
  qed (use 2 in auto)
qed auto

text \<open>What reads that do not fail bring, in pieces.\<close>

fun received :: "RecvResult list \<Rightarrow> string list" where
  "received [] = []"
| "received (ReadBytes bytes # reads) = bytes # received reads"
| "received (ReadError err # reads) = received reads"

definition steady :: "Errno \<Rightarrow> RecvResult list \<Rightarrow> bool" where
  "steady again reads \<longleftrightarrow> list_all (\<lambda>r. case r of ReadBytes bytes \<Rightarrow> bytes \<noteq> [] | ReadError err \<Rightarrow> err = again) reads"

lemma steady_simps [simp]:
  "steady again []" "steady again (ReadBytes bytes # reads) \<longleftrightarrow> bytes \<noteq> [] \<and> steady again reads"
  "steady again (ReadError err # reads) \<longleftrightarrow> err = again \<and> steady again reads"
  by (simp_all add: steady_def)

end
