(* ===== verification/Connection.thy ===== *)
theory Connection
  imports Socket SlaveReplicator MasterReplicator
begin

text \<open>
  One client connection of the server, \<^verbatim>\<open>src/net/server.cpp\<close>: reading, executing the commands that have
  arrived, replying. A connection is served by one coroutine; its reads, writes and polls are modelled
  by the results the operating system gives (theory \<open>Socket\<close>). \<^verbatim>\<open>task->engine\<close> and the dispatcher are never null
  (\<^verbatim>\<open>Server::Run\<close> checks); the configuration and the replicators may be. The engine of the master replicator is the
  server's. The \<open>k\<close>-th command of the connection is executed at \<open>clock k\<close>.
\<close>

section \<open>Configuration\<close>

datatype ServerRole = kMaster | kReplica

record ServerConfig =
  cfg_host :: string
  cfg_port :: "16 word"
  cfg_worker_count :: int
  cfg_coroutine_count_per_worker :: int
  cfg_role :: ServerRole
  cfg_replica_reads :: bool
  cfg_master_host :: string
  cfg_master_port :: "16 word"
  cfg_replica_id :: string
  cfg_binlog_budget_bytes :: nat

definition ServerConfig_new :: ServerConfig where
  "ServerConfig_new = \<lparr>cfg_host = ''127.0.0.1'', cfg_port = 6399, cfg_worker_count = 2,
     cfg_coroutine_count_per_worker = 1024, cfg_role = kMaster, cfg_replica_reads = False,
     cfg_master_host = ''127.0.0.1'', cfg_master_port = 0, cfg_replica_id = [],
     cfg_binlog_budget_bytes = 64 * 1024 * 1024\<rparr>"

definition kReplicationMaxArrayElements :: nat where
  "kReplicationMaxArrayElements = 1000000"

section \<open>State of a connection\<close>

record 'o Task =
  task_fd :: int
  task_engine :: "'o CacheEngine"
  task_config :: "ServerConfig option"
  task_slave :: "'o SlaveReplicator option"
  task_master :: "MasterReplicator option"

text \<open>What the peer was sent, and the results of the writes to come.\<close>

record Conn =
  conn_sent :: string
  conn_writes :: "SendResult list"

definition CloseTask :: "'o Task \<Rightarrow> 'o Task" where
  "CloseTask task = (if task_fd task < 0 then task else task\<lparr>task_fd := -1\<rparr>)"

definition WriteAll :: "Conn \<Rightarrow> string \<Rightarrow> Conn \<times> bool option" where
  "WriteAll conn bytes =
     (let (out, result, rest) = write_loop EAGAIN bytes 0 (conn_writes conn)
      in (conn\<lparr>conn_sent := conn_sent conn @ out, conn_writes := rest\<rparr>, result))"

text \<open>The frames of a poll, one write each.\<close>

fun WriteFrames :: "Resp \<Rightarrow> Conn \<Rightarrow> Frame list \<Rightarrow> Conn \<times> bool option" where
  "WriteFrames P conn [] = (conn, Some True)"
| "WriteFrames P conn (outbound # frames) =
     (case WriteAll conn (EncodeFrame P outbound) of
        (conn', Some True) \<Rightarrow> WriteFrames P conn' frames
      | (conn', result) \<Rightarrow> (conn', result))"

section \<open>Executing what has arrived\<close>

definition IsCacheReplCommand :: "string list \<Rightarrow> bool" where
  "IsCacheReplCommand args \<longleftrightarrow> args \<noteq> [] \<and> ToUpperAscii (args ! 0) = ''CACHE.REPL''"

definition has_role :: "'o Task \<Rightarrow> ServerRole \<Rightarrow> bool" where
  "has_role task role \<longleftrightarrow> (case task_config task of None \<Rightarrow> False | Some config \<Rightarrow> cfg_role config = role)"

definition accept_policy :: "'o Task \<Rightarrow> string \<Rightarrow> nat \<Rightarrow> bool" where
  "accept_policy task name cnt \<longleftrightarrow>
     cnt \<le> 1024 \<or> (task_master task \<noteq> None \<and> has_role task kMaster \<and> ToUpperAscii name = ''CACHE.REPL'')"

text \<open>What the loop does after a command: go on, return a value, or wait in a write.\<close>

datatype Flow = Continue | Return bool | Blocked

definition HandleHello ::
  "Resp \<Rightarrow> ('o, 'h, 's, 'z) containers \<Rightarrow> 'o Task \<Rightarrow> MasterReplicator \<Rightarrow> Conn \<Rightarrow> string \<Rightarrow> string list \<Rightarrow>
   'o Task \<times> Conn \<times> string \<times> Flow" where
  "HandleHello P C task master conn out args =
     (case DecodeFrame_args args of
        None \<Rightarrow> (task, conn, PackResponse P (Error ''ERR invalid repl frame or version'') out, Continue)
      | Some frame \<Rightarrow>
          if subcmd frame \<noteq> kHello
          then (task, conn, PackResponse P (Error ''ERR invalid repl frame or version'') out, Continue)
          else
            let (master', frames) = Poll P C (Some (task_engine task)) master frame 4096;
                task1 = task\<lparr>task_master := Some master'\<rparr>
            in (case (if out \<noteq> [] then WriteAll conn out else (conn, Some True)) of
                  (conn1, None) \<Rightarrow> (task1, conn1, out, Blocked)
                | (conn1, Some False) \<Rightarrow> (CloseTask task1, conn1, out, Return False)
                | (conn1, Some True) \<Rightarrow>
                    (case WriteFrames P conn1 frames of
                       (conn2, None) \<Rightarrow> (task1, conn2, [], Blocked)
                     | (conn2, Some written) \<Rightarrow> (CloseTask task1, conn2, [], Return False))))"

definition HandleCommand ::
  "Resp \<Rightarrow> ('o, 'h, 's, 'z) containers \<Rightarrow> Rng \<Rightarrow> u64 \<Rightarrow> 'o Task \<Rightarrow> Conn \<Rightarrow> string \<Rightarrow> string list \<Rightarrow>
   'o Task \<times> Conn \<times> string \<times> Flow" where
  "HandleCommand P C R now task conn out args =
     (if args = [] then (task, conn, out, Continue)
      else if IsCacheReplCommand args \<and> has_role task kMaster \<and> task_master task \<noteq> None
        then HandleHello P C task (the (task_master task)) conn out args
      else if has_role task kReplica then
        (case task_slave task of
           Some slave \<Rightarrow>
             let (slave', response) = ExecuteRead C R slave args now (cfg_replica_reads (the (task_config task)))
             in (task\<lparr>task_slave := Some slave'\<rparr>, conn, PackResponse P response out, Continue)
         | None \<Rightarrow> (task, conn, PackResponse P (Error ''TRYAGAIN replica is unavailable'') out, Continue))
      else
        let (engine', response) = Execute C R args (task_engine task) now
        in (task\<lparr>task_engine := engine'\<rparr>, conn, PackResponse P response out, Continue))"

partial_function (option) CommandLoop ::
  "Resp \<Rightarrow> ('o, 'h, 's, 'z) containers \<Rightarrow> Rng \<Rightarrow> (nat \<Rightarrow> u64) \<Rightarrow> nat \<Rightarrow> 'o Task \<Rightarrow> Conn \<Rightarrow> RespCodec \<Rightarrow> string \<Rightarrow>
   (nat \<times> 'o Task \<times> Conn \<times> RespCodec \<times> string \<times> Flow) option" where
  "CommandLoop P C R clock k task conn codec out =
     (case NextCommand P (Some (accept_policy task)) codec of
        (codec', None) \<Rightarrow> Some (k, task, conn, codec', out, Continue)
      | (codec', Some args) \<Rightarrow>
          (case HandleCommand P C R (clock k) task conn out args of
             (task', conn', out', Continue) \<Rightarrow> CommandLoop P C R clock (Suc k) task' conn' codec' out'
           | (task', conn', out', flow) \<Rightarrow> Some (Suc k, task', conn', codec', out', flow)))"

definition ProcessInput ::
  "Resp \<Rightarrow> ('o, 'h, 's, 'z) containers \<Rightarrow> Rng \<Rightarrow> (nat \<Rightarrow> u64) \<Rightarrow> nat \<Rightarrow> 'o Task \<Rightarrow> Conn \<Rightarrow> RespCodec \<Rightarrow> string \<Rightarrow>
   (nat \<times> 'o Task \<times> Conn \<times> RespCodec \<times> string \<times> Flow) option" where
  "ProcessInput P C R clock k task conn codec out =
     (case CommandLoop P C R clock k task conn codec out of
        None \<Rightarrow> None
      | Some (k', task', conn', codec', out', Continue) \<Rightarrow>
          if \<not> HasProtocolError codec' then Some (k', task', conn', codec', out', Return True)
          else
            let out'' = PackResponse P (Error (''ERR '' @ ProtocolError codec')) out'
            in (case WriteAll conn' out'' of
                  (conn'', None) \<Rightarrow> Some (k', task', conn'', codec', out'', Blocked)
                | (conn'', Some written) \<Rightarrow> Some (k', task', conn'', codec', out'', Return False))
      | Some returned \<Rightarrow> Some returned)"

section \<open>The connection\<close>

text \<open>
  Where the coroutine of a connection stands when the results run out: waiting for input, waiting to
  write, or done with the connection, whose descriptor is then closed.
\<close>

datatype Phase = Reading | Writing | Closed

fun ReadInput ::
  "Resp \<Rightarrow> ('o, 'h, 's, 'z) containers \<Rightarrow> Rng \<Rightarrow> (nat \<Rightarrow> u64) \<Rightarrow> nat \<Rightarrow> 'o Task \<Rightarrow> Conn \<Rightarrow> RespCodec \<Rightarrow>
   RecvResult list \<Rightarrow> int list \<Rightarrow> ('o Task \<times> Conn \<times> Phase) option" where
  "ReadInput P C R clock k task conn codec [] polls = Some (task, conn, Reading)"
| "ReadInput P C R clock k task conn codec (ReadError err # reads) polls =
     (if err = EAGAIN then
        (case polls of
           [] \<Rightarrow> Some (task, conn, Reading)
         | ready # polls' \<Rightarrow>
             if 0 < ready then ReadInput P C R clock k task conn codec reads polls'
             else Some (CloseTask task, conn, Closed))
      else Some (CloseTask task, conn, Closed))"
| "ReadInput P C R clock k task conn codec (ReadBytes bytes # reads) polls =
     (if bytes = [] then Some (CloseTask task, conn, Closed)
      else case AppendBytes codec bytes of
             (codec1, False) \<Rightarrow>
               (case WriteAll conn (PackResponse P (Error (''ERR '' @ ProtocolError codec1)) []) of
                  (conn1, None) \<Rightarrow> Some (task, conn1, Writing)
                | (conn1, Some written) \<Rightarrow> Some (CloseTask task, conn1, Closed))
           | (codec1, True) \<Rightarrow>
               (case ProcessInput P C R clock k task conn codec1 [] of
                  None \<Rightarrow> None
                | Some (k', task1, conn1, codec2, out, Return True) \<Rightarrow>
                    (case (if out \<noteq> [] then WriteAll conn1 out else (conn1, Some True)) of
                       (conn2, None) \<Rightarrow> Some (task1, conn2, Writing)
                     | (conn2, Some False) \<Rightarrow> Some (CloseTask task1, conn2, Closed)
                     | (conn2, Some True) \<Rightarrow> ReadInput P C R clock k' task1 conn2 codec2 reads polls)
                | Some (k', task1, conn1, codec2, out, Return False) \<Rightarrow> Some (CloseTask task1, conn1, Closed)
                | Some (k', task1, conn1, codec2, out, _) \<Rightarrow> Some (task1, conn1, Writing)))"

definition connection_codec :: "'o Task \<Rightarrow> RespCodec" where
  "connection_codec task =
     RespCodec_new (64 * 1024 * 1024) (64 * 1024 * 1024)
       (if has_role task kMaster \<and> task_master task \<noteq> None then kReplicationMaxArrayElements else 1024)"

text \<open>One turn of the coroutine with an open connection.\<close>

definition ConnectionRoutine ::
  "Resp \<Rightarrow> ('o, 'h, 's, 'z) containers \<Rightarrow> Rng \<Rightarrow> (nat \<Rightarrow> u64) \<Rightarrow> 'o Task \<Rightarrow> SendResult list \<Rightarrow>
   RecvResult list \<Rightarrow> int list \<Rightarrow> ('o Task \<times> Conn \<times> Phase) option" where
  "ConnectionRoutine P C R clock task writes reads polls =
     (let conn = \<lparr>conn_sent = [], conn_writes = writes\<rparr>
      in if task_fd task < 0 then Some (task, conn, Closed)
         else ReadInput P C R clock 0 task conn (connection_codec task) reads polls)"

section \<open>Running commands one after the other\<close>

text \<open>The loop over the buffer is a loop over the commands it holds.\<close>

fun run_commands ::
  "Resp \<Rightarrow> ('o, 'h, 's, 'z) containers \<Rightarrow> Rng \<Rightarrow> (nat \<Rightarrow> u64) \<Rightarrow> nat \<Rightarrow> 'o Task \<Rightarrow> Conn \<Rightarrow> string \<Rightarrow> string list list \<Rightarrow>
   nat \<times> 'o Task \<times> Conn \<times> string \<times> Flow" where
  "run_commands P C R clock k task conn out [] = (k, task, conn, out, Continue)"
| "run_commands P C R clock k task conn out (args # cmds) =
     (case HandleCommand P C R (clock k) task conn out args of
        (task', conn', out', Continue) \<Rightarrow> run_commands P C R clock (Suc k) task' conn' out' cmds
      | (task', conn', out', flow) \<Rightarrow> (Suc k, task', conn', out', flow))"

lemma CloseTask_simps [simp]:
  "task_engine (CloseTask t) = task_engine t" "task_config (CloseTask t) = task_config t"
  "task_slave (CloseTask t) = task_slave t" "task_master (CloseTask t) = task_master t" "task_fd (CloseTask t) < 0"
  by (simp_all add: CloseTask_def)

text \<open>A descriptor is closed only together with the end of the connection.\<close>

definition fd_kept :: "Flow \<Rightarrow> 'o Task \<Rightarrow> 'o Task \<Rightarrow> bool" where
  "fd_kept flow task task' \<longleftrightarrow> task_fd task' = task_fd task \<or> (flow = Return False \<and> task_fd task' = -1)"

lemma fd_kept_refl [simp]: "task_fd task' = task_fd task \<Longrightarrow> fd_kept flow task task'"
  by (simp add: fd_kept_def)

lemma fd_kept_Close: "task_fd task' = task_fd task \<Longrightarrow> 0 \<le> task_fd task \<Longrightarrow> fd_kept (Return False) task (CloseTask task')"
  by (simp add: fd_kept_def CloseTask_def)

lemma HandleHello_keeps:
  assumes "HandleHello P C task master conn out args = (task', conn', out', flow)" and "0 \<le> task_fd task"
  shows "task_config task' = task_config task \<and> task_slave task' = task_slave task \<and> task_engine task' = task_engine task \<and>
    (task_master task' = task_master task \<or> (\<exists>hello. task_master task' = Some (fst (Poll P C (Some (task_engine task)) master hello 4096)))) \<and>
    fd_kept flow task task' \<and> flow \<noteq> Return True"
proof (cases "\<exists>frame. DecodeFrame_args args = Some frame \<and> subcmd frame = kHello")
  case False
  then show ?thesis using assms by (auto simp: HandleHello_def split: option.splits if_splits)
next
  case True
  then obtain frame master' frames where f: "DecodeFrame_args args = Some frame" "subcmd frame = kHello"
      "Poll P C (Some (task_engine task)) master frame 4096 = (master', frames)" by fastforce
  let ?task = "task\<lparr>task_master := Some master'\<rparr>"
  have "(task' = ?task \<or> (flow = Return False \<and> task' = CloseTask ?task)) \<and> flow \<noteq> Return True"
    using assms(1) f by (auto simp: HandleHello_def Let_def split: if_splits option.splits prod.splits bool.splits)
  moreover have "master' = fst (Poll P C (Some (task_engine task)) master frame 4096)" using f(3) by simp
  ultimately show ?thesis using assms(2) fd_kept_Close [of ?task task] by auto
qed

text \<open>A replica answers without a change: the dispatcher it uses changes no engine.\<close>

lemma HandleCommand_replica:
  assumes "has_role task kReplica" and "HandleCommand P C R now task conn out args = (task', conn', out', flow)"
  shows "task' = task" and "flow = Continue"
proof -
  have "task\<lparr>task_slave := Some slave\<rparr> = task" if "task_slave task = Some slave" for slave using that by simp
  moreover have "\<not> has_role task kMaster" using assms(1) by (auto simp: has_role_def split: option.splits)
  ultimately have "task' = task \<and> flow = Continue"
    using assms by (auto simp: HandleCommand_def case_prod_beta ExecuteRead_keeps split: option.splits if_splits)
  then show "task' = task" and "flow = Continue" by auto
qed

lemma HandleCommand_keeps:
  assumes "HandleCommand P C R now task conn out args = (task', conn', out', flow)" and "0 \<le> task_fd task"
  shows "task_config task' = task_config task" and "task_slave task' = task_slave task"
    and "task_master task' = None \<longleftrightarrow> task_master task = None"
    and "fd_kept flow task task'" and "flow \<noteq> Return True"
proof -
  consider (hello) "task_master task \<noteq> None" "HandleHello P C task (the (task_master task)) conn out args = (task', conn', out', flow)"
    | (plain) engine' where "task' = task\<lparr>task_engine := engine'\<rparr>" "flow = Continue"
    using assms(1) that(2) [of "task_engine task"] HandleCommand_replica [OF _ assms(1)]
    by (cases "has_role task kReplica") (auto simp: HandleCommand_def Let_def split: if_splits prod.splits)
  then have "task_config task' = task_config task \<and> task_slave task' = task_slave task \<and>
      (task_master task' = None \<longleftrightarrow> task_master task = None) \<and> fd_kept flow task task' \<and> flow \<noteq> Return True"
  proof cases
    case hello
    with HandleHello_keeps [OF hello(2) assms(2)] show ?thesis by auto
  qed simp
  then show "task_config task' = task_config task" and "task_slave task' = task_slave task"
    and "task_master task' = None \<longleftrightarrow> task_master task = None"
    and "fd_kept flow task task'" and "flow \<noteq> Return True" by auto
qed

lemma HandleCommand_policy:
  assumes "HandleCommand P C R now task conn out args = (task', conn', out', flow)" and "0 \<le> task_fd task"
  shows "accept_policy task' = accept_policy task"
  using HandleCommand_keeps(1,3) [OF assms] by (simp add: accept_policy_def fun_eq_iff has_role_def)

lemma CommandLoop_drain:
  assumes "drain P (Some (accept_policy task)) c = Some (c', cmds)" and "0 \<le> task_fd task"
    and "run_commands P C R clock k task conn out cmds = (k', task', conn', out', flow)"
  shows "\<exists>c''. CommandLoop P C R clock k task conn c out = Some (k', task', conn', c'', out', flow) \<and>
    (flow = Continue \<longrightarrow> c'' = c')"
  using assms
proof (induction cmds arbitrary: c k task conn out)
  case Nil
  then have "NextCommand P (Some (accept_policy task)) c = (c', None)"
    by (subst (asm) drain.simps) (auto split: prod.splits option.splits bind_splits)
  with Nil(3) show ?case by (subst CommandLoop.simps) simp
next
  case (Cons args cmds)
  from Cons.prems(1) obtain c1 where c1: "NextCommand P (Some (accept_policy task)) c = (c1, Some args)"
      "drain P (Some (accept_policy task)) c1 = Some (c', cmds)"
    by (subst (asm) drain.simps) (auto split: prod.splits option.splits bind_splits)
  obtain t1 cn1 o1 f1 where h: "HandleCommand P C R (clock k) task conn out args = (t1, cn1, o1, f1)"
    by (cases "HandleCommand P C R (clock k) task conn out args")
  show ?case
  proof (cases "f1 = Continue")
    case True
    have "drain P (Some (accept_policy t1)) c1 = Some (c', cmds)" using c1(2) HandleCommand_policy [OF h Cons.prems(2)] by simp
    moreover have "run_commands P C R clock (Suc k) t1 cn1 o1 cmds = (k', task', conn', out', flow)"
      using Cons.prems(3) h True by simp
    moreover have "0 \<le> task_fd t1" using HandleCommand_keeps(4) [OF h Cons.prems(2)] Cons.prems(2) True by (simp add: fd_kept_def)
    ultimately show ?thesis using Cons.IH by (subst CommandLoop.simps) (auto simp: c1(1) h True)
  next
    case False
    with h Cons.prems(3) show ?thesis by (subst CommandLoop.simps) (cases f1; auto simp: c1(1))
  qed
qed

text \<open>What every command keeps, the connection keeps.\<close>

lemma run_commands_keeps:
  assumes "\<And>now t cn o' args. I t \<Longrightarrow> 0 \<le> task_fd t \<Longrightarrow> I (fst (HandleCommand P C R now t cn o' args))"
    and "I task" and "0 \<le> task_fd task"
    and "run_commands P C R clock k task conn out cmds = (k', task', conn', out', flow)"
  shows "I task' \<and> fd_kept flow task task' \<and> flow \<noteq> Return True"
  using assms(2-4)
proof (induction cmds arbitrary: k task conn out)
  case (Cons args cmds)
  obtain t1 cn1 o1 f1 where h: "HandleCommand P C R (clock k) task conn out args = (t1, cn1, o1, f1)"
    by (cases "HandleCommand P C R (clock k) task conn out args")
  have "I t1" using assms(1) [OF Cons.prems(1,2), of "clock k" conn out args] h by simp
  moreover note fd = HandleCommand_keeps(4,5) [OF h Cons.prems(2)]
  ultimately show ?case
    using Cons.IH [of t1 "Suc k" cn1 o1] Cons.prems(2,3) by (cases f1) (auto simp: h fd_kept_def)
qed simp

text \<open>How a connection may stand: the invariant holds, and its descriptor is closed exactly when it is over.\<close>

definition settled :: "('o Task \<Rightarrow> bool) \<Rightarrow> int \<Rightarrow> ('o Task \<times> Conn \<times> Phase) option \<Rightarrow> bool" where
  "settled I fd r \<longleftrightarrow> (\<exists>t cn phase. r = Some (t, cn, phase) \<and> I t \<and> task_fd t = (if phase = Closed then -1 else fd))"

lemma settled_simps [simp]:
  "settled I fd (Some (t, cn, Reading)) \<longleftrightarrow> I t \<and> task_fd t = fd"
  "settled I fd (Some (t, cn, Writing)) \<longleftrightarrow> I t \<and> task_fd t = fd"
  "settled I fd (Some (t, cn, Closed)) \<longleftrightarrow> I t \<and> task_fd t = -1"
  by (simp_all add: settled_def)

context resp_lib begin

lemma ProcessInput_keeps:
  assumes "\<And>now t cn o' args. I t \<Longrightarrow> 0 \<le> task_fd t \<Longrightarrow> I (fst (HandleCommand P C R now t cn o' args))"
    and "I task" and "0 \<le> task_fd task"
  obtains k' task' conn' c' out' flow where
    "ProcessInput P C R clock k task conn c out = Some (k', task', conn', c', out', flow)"
    and "I task'" and "fd_kept flow task task'"
proof -
  obtain c1 cmds where d: "drain P (Some (accept_policy task)) c = Some (c1, cmds)" using drain_returns by blast
  obtain k' t' cn' o' f where run: "run_commands P C R clock k task conn out cmds = (k', t', cn', o', f)"
    by (cases "run_commands P C R clock k task conn out cmds")
  from CommandLoop_drain [OF d assms(3) run] obtain c2 where loop: "CommandLoop P C R clock k task conn c out = Some (k', t', cn', c2, o', f)"
    by blast
  have kept: "I t'" "fd_kept f task t'" "f \<noteq> Return True"
    using run_commands_keeps [of I, OF assms run] by auto
  show ?thesis
  proof (cases f)
    case Continue
    then have "task_fd t' = task_fd task" using kept(2) by (simp add: fd_kept_def)
    moreover obtain cn2 res where w: "WriteAll cn' (PackResponse P (Error (''ERR '' @ ProtocolError c2)) o') = (cn2, res)" by fastforce
    ultimately show ?thesis
      using that kept(1) loop Continue by (cases "HasProtocolError c2"; cases res) (simp_all add: ProcessInput_def Let_def)
  qed (use that kept loop in \<open>auto simp: ProcessInput_def\<close>)
qed

lemma ReadInput_keeps:
  assumes "\<And>now t cn o' args. I t \<Longrightarrow> 0 \<le> task_fd t \<Longrightarrow> I (fst (HandleCommand P C R now t cn o' args))" and "\<And>t. I t \<Longrightarrow> I (CloseTask t)"
    and "I task" and "0 \<le> task_fd task"
  shows "settled I (task_fd task) (ReadInput P C R clock k task conn c reads polls)"
  using assms(3,4)
proof (induction reads arbitrary: k task conn c polls)
  case (Cons r reads)
  have over: "settled I fd (Some (CloseTask t, cn, Closed))" if "I t" "task_fd t = -1 \<or> 0 \<le> task_fd t" for t cn fd
  proof -
    have "task_fd (CloseTask t) = -1" using that(2) by (auto simp: CloseTask_def)
    with assms(2) [OF that(1)] show ?thesis by simp
  qed
  show ?case
  proof (cases r)
    case (ReadError err)
    with Cons over show ?thesis by (cases polls) simp_all
  next
    case (ReadBytes bytes)
    obtain c1 ok where app: "AppendBytes c bytes = (c1, ok)" by fastforce
    obtain k' t' cn' c' o' f where pi: "ProcessInput P C R clock k task conn c1 [] = Some (k', t', cn', c', o', f)"
        and kept: "I t'" "fd_kept f task t'"
      by (rule ProcessInput_keeps [of I, OF assms(1) Cons.prems])
    consider "bytes = []" | "bytes \<noteq> []" "\<not> ok" | "bytes \<noteq> []" ok "f \<noteq> Return True" | "bytes \<noteq> []" ok "f = Return True"
      by blast
    then show ?thesis
    proof cases
      case 2
      with ReadBytes app over Cons.prems show ?thesis by (simp split: prod.split option.split)
    next
      case 3
      have "task_fd t' = -1 \<or> 0 \<le> task_fd t'" using kept(2) Cons.prems(2) by (auto simp: fd_kept_def)
      with 3 ReadBytes app pi over kept show ?thesis by (cases f) (auto simp: fd_kept_def)
    next
      case 4
      then have fd: "task_fd t' = task_fd task" using kept(2) by (simp add: fd_kept_def)
      obtain cn2 res where w: "(if o' \<noteq> [] then WriteAll cn' o' else (cn', Some True)) = (cn2, res)" by fastforce
      have "settled I (task_fd task) (case res of None \<Rightarrow> Some (t', cn2, Writing) | Some False \<Rightarrow> Some (CloseTask t', cn2, Closed)
          | Some True \<Rightarrow> ReadInput P C R clock k' t' cn2 c' reads polls)"
        using Cons.IH [of t'] Cons.prems(2) over kept(1) fd by (simp split: option.split bool.split)
      with 4 ReadBytes app pi w show ?thesis by simp
    qed (use ReadBytes over Cons.prems in simp)
  qed
qed simp

lemma ConnectionRoutine_keeps:
  assumes "\<And>now t cn o' args. I t \<Longrightarrow> 0 \<le> task_fd t \<Longrightarrow> I (fst (HandleCommand P C R now t cn o' args))" and "\<And>t. I t \<Longrightarrow> I (CloseTask t)"
    and "I task" and "0 \<le> task_fd task"
  shows "settled I (task_fd task) (ConnectionRoutine P C R clock task writes reads polls)"
  using ReadInput_keeps [of I, OF assms] assms(4) by (simp add: ConnectionRoutine_def)

text \<open>Replies are appended to what is to be written.\<close>

lemma PackResponse_append: "PackResponse P r out = out @ PackResponse P r []"
proof (induction r arbitrary: out)
  case (Array elements)
  have "fold (PackResponse P) xs (a @ b) = a @ fold (PackResponse P) xs b" if "set xs \<subseteq> set elements" for xs a b
    using that
  proof (induction xs arbitrary: b)
    case (Cons x xs)
    then have "PackResponse P x (a @ b) = a @ PackResponse P x b" using Array.IH by (metis append.assoc list.set_intros(1) subsetD)
    with Cons show ?case by simp
  qed simp
  from this [of elements out "PackArrayHeader P (length elements) []"] show ?case by (simp add: pack_header)
qed (auto simp: pack_bulk intro: pack_simple pack_error pack_integer pack_null)

end

section \<open>Pipelining\<close>

text \<open>The specification: the commands are executed one after the other, and each reply is sent. An empty
  array is no command and has no reply.\<close>

fun replies ::
  "Resp \<Rightarrow> ('o, 'h, 's, 'z) containers \<Rightarrow> Rng \<Rightarrow> (nat \<Rightarrow> u64) \<Rightarrow> nat \<Rightarrow> 'o CacheEngine \<Rightarrow> string list list \<Rightarrow>
   'o CacheEngine \<times> string" where
  "replies P C R clock k e [] = (e, [])"
| "replies P C R clock k e (args # cmds) =
     (if args = [] then replies P C R clock (Suc k) e cmds
      else let (e1, response) = Execute C R args e (clock k);
               (e2, rest) = replies P C R clock (Suc k) e1 cmds
           in (e2, PackResponse P response [] @ rest))"

lemma replies_append:
  "replies P C R clock k e (xs @ ys) =
     (fst (replies P C R clock (k + length xs) (fst (replies P C R clock k e xs)) ys),
      snd (replies P C R clock k e xs) @ snd (replies P C R clock (k + length xs) (fst (replies P C R clock k e xs)) ys))"
  by (induction xs arbitrary: k e) (auto simp: Let_def split: prod.splits)

text \<open>A server that executes commands itself, and a command that is not for the replicator.\<close>

definition plain_task :: "'o Task \<Rightarrow> string list \<Rightarrow> bool" where
  "plain_task task args \<longleftrightarrow> \<not> has_role task kReplica \<and> \<not> IsCacheReplCommand args"

lemma task_engine_simps [simp]:
  "has_role (task\<lparr>task_engine := e\<rparr>) role = has_role task role"
  "accept_policy (task\<lparr>task_engine := e\<rparr>) = accept_policy task"
  "plain_task (task\<lparr>task_engine := e\<rparr>) = plain_task task"
  by (simp_all add: has_role_def accept_policy_def plain_task_def fun_eq_iff)

context resp_lib begin

lemma run_commands_plain:
  assumes "list_all (plain_task task) cmds"
  shows "run_commands P C R clock k task conn out cmds =
    (k + length cmds, task\<lparr>task_engine := fst (replies P C R clock k (task_engine task) cmds)\<rparr>, conn,
     out @ snd (replies P C R clock k (task_engine task) cmds), Continue)"
  using assms
proof (induction cmds arbitrary: k task out)
  case (Cons args cmds)
  obtain e1 response where ex: "Execute C R args (task_engine task) (clock k) = (e1, response)" by fastforce
  show ?case
  proof (cases "args = []")
    case True
    with Cons show ?thesis by (simp add: HandleCommand_def)
  next
    case False
    then have "HandleCommand P C R (clock k) task conn out args =
        (task\<lparr>task_engine := e1\<rparr>, conn, out @ PackResponse P response [], Continue)"
      using Cons.prems ex PackResponse_append [of response out] by (simp add: HandleCommand_def plain_task_def)
    with Cons.IH [of "task\<lparr>task_engine := e1\<rparr>" "Suc k" "out @ PackResponse P response []"] Cons.prems False ex show ?thesis
      by (simp add: Let_def split: prod.split)
  qed
qed simp

end

lemma WriteAll_healthy:
  assumes "healthy EAGAIN (conn_writes conn)" and "length bytes \<le> progress (conn_writes conn)"
  obtains ws where "WriteAll conn bytes = (\<lparr>conn_sent = conn_sent conn @ bytes, conn_writes = ws\<rparr>, Some True)"
    and "healthy EAGAIN ws" and "progress (conn_writes conn) \<le> progress ws + length bytes"
  using write_loop_healthy [OF assms(1), of bytes 0] assms(2) by (cases conn) (auto simp: WriteAll_def)

context resp_lib begin

lemma ProcessInput_plain:
  assumes "drain P (Some (accept_policy task)) c = Some (c', cmds)" and "\<not> protocol_error c'"
    and "0 \<le> task_fd task" and "list_all (plain_task task) cmds"
  shows "ProcessInput P C R clock k task conn c [] =
    Some (k + length cmds, task\<lparr>task_engine := fst (replies P C R clock k (task_engine task) cmds)\<rparr>, conn, c',
      snd (replies P C R clock k (task_engine task) cmds), Return True)"
  using CommandLoop_drain [OF assms(1,3) run_commands_plain [OF assms(4)], of C R clock k conn "[]"] assms(2)
  by (auto simp: ProcessInput_def HasProtocolError_def)

lemma ReadInput_plain:
  assumes "\<not> protocol_error c" and "list_all (acceptable (Some (accept_policy task)) (codec_limits c)) cmds"
    and "stream c @ concat (received reads) = concat (map resp_array cmds)"
    and "if cmds = [] then stream c = [] else strict_prefix (stream c) (resp_array (hd cmds))"
    and "\<And>bytes args. bytes \<in> set (received reads) \<Longrightarrow> args \<in> set cmds \<Longrightarrow>
      length bytes + length (resp_array args) \<le> max_stream_bytes c"
    and "steady EAGAIN reads" and "list_all (\<lambda>ready. 0 < ready) polls" and "length reads \<le> length polls"
    and "0 \<le> task_fd task" and "list_all (plain_task task) cmds"
    and "healthy EAGAIN (conn_writes conn)"
    and "length (snd (replies P C R clock k (task_engine task) cmds)) \<le> progress (conn_writes conn)"
  shows "\<exists>ws. ReadInput P C R clock k task conn c reads polls =
    Some (task\<lparr>task_engine := fst (replies P C R clock k (task_engine task) cmds)\<rparr>,
      \<lparr>conn_sent = conn_sent conn @ snd (replies P C R clock k (task_engine task) cmds), conn_writes = ws\<rparr>, Reading)"
  using assms
proof (induction reads arbitrary: c cmds k task conn polls)
  case Nil
  then have "cmds = []" by (cases cmds) (auto simp: strict_prefix_def)
  then show ?case by (cases conn) simp
next
  case (Cons r reads)
  obtain ready polls' where polls: "polls = ready # polls'" "0 < ready" using Cons.prems(7,8) by (cases polls) auto
  show ?case
  proof (cases r)
    case (ReadError err)
    with Cons.prems polls have "\<exists>ws. ReadInput P C R clock k task conn c reads polls' =
      Some (task\<lparr>task_engine := fst (replies P C R clock k (task_engine task) cmds)\<rparr>,
        \<lparr>conn_sent = conn_sent conn @ snd (replies P C R clock k (task_engine task) cmds), conn_writes = ws\<rparr>, Reading)"
      by (intro Cons.IH) auto
    with ReadError Cons.prems(6) polls show ?thesis by simp
  next
    case (ReadBytes bytes)
    obtain taken rest s where d: "AppendBytes c bytes = (c\<lparr>stream := stream c @ bytes\<rparr>, True)" "cmds = taken @ rest"
        "drain P (Some (accept_policy task)) (c\<lparr>stream := stream c @ bytes\<rparr>) = Some (c\<lparr>stream := s\<rparr>, taken)"
        "s @ concat (received reads) = concat (map resp_array rest)"
        "if rest = [] then s = [] else strict_prefix s (resp_array (hd rest))"
      using append_drain [of c "Some (accept_policy task)" cmds bytes "concat (received reads)"] Cons.prems(1-5) ReadBytes
      by fastforce
    let ?e = "fst (replies P C R clock k (task_engine task) taken)" and ?out = "snd (replies P C R clock k (task_engine task) taken)"
    have pi: "ProcessInput P C R clock k task conn (c\<lparr>stream := stream c @ bytes\<rparr>) [] =
        Some (k + length taken, task\<lparr>task_engine := ?e\<rparr>, conn, c\<lparr>stream := s\<rparr>, ?out, Return True)"
      using Cons.prems(1,9,10) d(2) by (intro ProcessInput_plain [OF d(3)]) auto
    have "length ?out \<le> progress (conn_writes conn)" using Cons.prems(12) by (simp add: d(2) replies_append)
    from WriteAll_healthy [OF Cons.prems(11) this] obtain ws where
      w: "WriteAll conn ?out = (\<lparr>conn_sent = conn_sent conn @ ?out, conn_writes = ws\<rparr>, Some True)"
        "healthy EAGAIN ws" "progress (conn_writes conn) \<le> progress ws + length ?out" by blast
    let ?conn = "if ?out \<noteq> [] then \<lparr>conn_sent = conn_sent conn @ ?out, conn_writes = ws\<rparr> else conn"
    have "\<exists>ws. ReadInput P C R clock (k + length taken) (task\<lparr>task_engine := ?e\<rparr>) ?conn (c\<lparr>stream := s\<rparr>) reads polls =
      Some (task\<lparr>task_engine := ?e\<rparr>\<lparr>task_engine := fst (replies P C R clock (k + length taken) (task_engine (task\<lparr>task_engine := ?e\<rparr>)) rest)\<rparr>,
        \<lparr>conn_sent = conn_sent ?conn @ snd (replies P C R clock (k + length taken) (task_engine (task\<lparr>task_engine := ?e\<rparr>)) rest),
         conn_writes = ws\<rparr>, Reading)"
      using Cons.prems d(2,4,5) ReadBytes w(2,3) by (intro Cons.IH) (auto simp: replies_append)
    with Cons.prems(6) ReadBytes d(1,2) pi w(1) show ?thesis by (cases "?out = []") (auto simp: replies_append)
  qed
qed

text \<open>The answer to a hello: the frames of the poll, then the connection is closed.\<close>

lemma WriteFrames_healthy:
  assumes "healthy EAGAIN (conn_writes conn)" and "length (concat (map (EncodeFrame P) frames)) \<le> progress (conn_writes conn)"
  shows "\<exists>ws. WriteFrames P conn frames = (\<lparr>conn_sent = conn_sent conn @ concat (map (EncodeFrame P) frames), conn_writes = ws\<rparr>, Some True)"
  using assms
proof (induction frames arbitrary: conn)
  case Nil
  then show ?case by (cases conn) simp
next
  case (Cons f frames)
  have "length (EncodeFrame P f) \<le> progress (conn_writes conn)" using Cons.prems(2) by simp
  from WriteAll_healthy [OF Cons.prems(1) this] obtain ws where
    w: "WriteAll conn (EncodeFrame P f) = (\<lparr>conn_sent = conn_sent conn @ EncodeFrame P f, conn_writes = ws\<rparr>, Some True)"
      "healthy EAGAIN ws" "progress (conn_writes conn) \<le> progress ws + length (EncodeFrame P f)" by blast
  with Cons.IH [of "\<lparr>conn_sent = conn_sent conn @ EncodeFrame P f, conn_writes = ws\<rparr>"] Cons.prems(2) show ?case by simp
qed

lemma ProcessInput_hello:
  assumes "drain P (Some (accept_policy task)) c = Some (c', [frame_args hello])" and "0 \<le> task_fd task"
    and "has_role task kMaster" and "task_master task = Some mr" and "sendable hello" and "subcmd hello = kHello"
    and "Poll P C (Some (task_engine task)) mr hello 4096 = (mr', frames)"
    and "healthy EAGAIN (conn_writes conn)" and "length (concat (map (EncodeFrame P) frames)) \<le> progress (conn_writes conn)"
  shows "\<exists>c'' ws. ProcessInput P C R clock k task conn c [] =
    Some (Suc k, CloseTask (task\<lparr>task_master := Some mr'\<rparr>),
      \<lparr>conn_sent = conn_sent conn @ concat (map (EncodeFrame P) frames), conn_writes = ws\<rparr>, c'', [], Return False)"
proof -
  obtain ws where ws: "WriteFrames P conn frames =
      (\<lparr>conn_sent = conn_sent conn @ concat (map (EncodeFrame P) frames), conn_writes = ws\<rparr>, Some True)"
    using WriteFrames_healthy [OF assms(8,9)] by blast
  have "IsCacheReplCommand (frame_args hello) \<and> frame_args hello \<noteq> []"
    by (simp add: IsCacheReplCommand_def frame_args_def ToUpperAscii_def split: Subcmd.split)
  then have "HandleCommand P C R (clock k) task conn [] (frame_args hello) =
      (CloseTask (task\<lparr>task_master := Some mr'\<rparr>), \<lparr>conn_sent = conn_sent conn @ concat (map (EncodeFrame P) frames), conn_writes = ws\<rparr>,
       [], Return False)"
    using assms(3,4,6,7) ws by (simp add: HandleCommand_def HandleHello_def DecodeFrame_args_encode [OF assms(5)])
  then have "run_commands P C R clock k task conn [] [frame_args hello] =
      (Suc k, CloseTask (task\<lparr>task_master := Some mr'\<rparr>), \<lparr>conn_sent = conn_sent conn @ concat (map (EncodeFrame P) frames), conn_writes = ws\<rparr>,
       [], Return False)" by simp
  from CommandLoop_drain [OF assms(1,2) this] show ?thesis by (auto simp: ProcessInput_def)
qed

lemma ReadInput_hello:
  assumes "\<not> protocol_error c" and "acceptable (Some (accept_policy task)) (codec_limits c) (frame_args hello)"
    and "stream c @ concat (received reads) = resp_array (frame_args hello)"
    and "strict_prefix (stream c) (resp_array (frame_args hello))"
    and "\<And>bytes. bytes \<in> set (received reads) \<Longrightarrow> length bytes + length (resp_array (frame_args hello)) \<le> max_stream_bytes c"
    and "steady EAGAIN reads" and "list_all (\<lambda>ready. 0 < ready) polls" and "length reads \<le> length polls"
    and "0 \<le> task_fd task" and "has_role task kMaster" and "task_master task = Some mr" and "sendable hello" and "subcmd hello = kHello"
    and "Poll P C (Some (task_engine task)) mr hello 4096 = (mr', frames)"
    and "healthy EAGAIN (conn_writes conn)" and "length (concat (map (EncodeFrame P) frames)) \<le> progress (conn_writes conn)"
  shows "\<exists>ws. ReadInput P C R clock k task conn c reads polls =
    Some (CloseTask (task\<lparr>task_master := Some mr'\<rparr>),
      \<lparr>conn_sent = conn_sent conn @ concat (map (EncodeFrame P) frames), conn_writes = ws\<rparr>, Closed)"
  using assms(1-8)
proof (induction reads arbitrary: c k polls)
  case Nil
  then show ?case by (simp add: strict_prefix_def)
next
  case (Cons r reads)
  obtain ready polls' where polls: "polls = ready # polls'" "0 < ready" using Cons.prems(7,8) by (cases polls) auto
  show ?case
  proof (cases r)
    case (ReadError err)
    with Cons.prems polls have "\<exists>ws. ReadInput P C R clock k task conn c reads polls' =
        Some (CloseTask (task\<lparr>task_master := Some mr'\<rparr>),
          \<lparr>conn_sent = conn_sent conn @ concat (map (EncodeFrame P) frames), conn_writes = ws\<rparr>, Closed)"
      by (intro Cons.IH) auto
    with ReadError Cons.prems(6) polls show ?thesis by simp
  next
    case (ReadBytes bytes)
    obtain taken rest s where d: "AppendBytes c bytes = (c\<lparr>stream := stream c @ bytes\<rparr>, True)" "[frame_args hello] = taken @ rest"
        "drain P (Some (accept_policy task)) (c\<lparr>stream := stream c @ bytes\<rparr>) = Some (c\<lparr>stream := s\<rparr>, taken)"
        "s @ concat (received reads) = concat (map resp_array rest)"
        "if rest = [] then s = [] else strict_prefix s (resp_array (hd rest))"
      using append_drain [of c "Some (accept_policy task)" "[frame_args hello]" bytes "concat (received reads)"] Cons.prems(1-5) ReadBytes
      by fastforce
    show ?thesis
    proof (cases taken)
      case Nil
      then have "ProcessInput P C R clock k task conn (c\<lparr>stream := stream c @ bytes\<rparr>) [] =
          Some (k, task, conn, c\<lparr>stream := s\<rparr>, [], Return True)"
        using ProcessInput_plain [OF d(3) _ assms(9), of C R clock k conn] Cons.prems(1) by simp
      moreover have "\<exists>ws. ReadInput P C R clock k task conn (c\<lparr>stream := s\<rparr>) reads polls =
          Some (CloseTask (task\<lparr>task_master := Some mr'\<rparr>),
            \<lparr>conn_sent = conn_sent conn @ concat (map (EncodeFrame P) frames), conn_writes = ws\<rparr>, Closed)"
        using Cons.prems d(2,4,5) ReadBytes Nil by (intro Cons.IH) auto
      ultimately show ?thesis using Cons.prems(6) ReadBytes d(1) by simp
    next
      case (Cons args rest')
      with d(2) have "taken = [frame_args hello]" by (simp add: Cons_eq_append_conv)
      with d(3) have "drain P (Some (accept_policy task)) (c\<lparr>stream := stream c @ bytes\<rparr>) = Some (c\<lparr>stream := s\<rparr>, [frame_args hello])" by simp
      from ProcessInput_hello [OF this assms(9-16)] obtain c'' ws where
        "ProcessInput P C R clock k task conn (c\<lparr>stream := stream c @ bytes\<rparr>) [] =
          Some (Suc k, CloseTask (task\<lparr>task_master := Some mr'\<rparr>),
            \<lparr>conn_sent = conn_sent conn @ concat (map (EncodeFrame P) frames), conn_writes = ws\<rparr>, c'', [], Return False)" by blast
      then show ?thesis using Cons.prems(6) ReadBytes d(1) by (simp add: CloseTask_def)
    qed
  qed
qed

end

section \<open>Properties\<close>

text \<open>(C19) Pipelining: a client that sends commands to a master in one go, cut into reads in whatever way, is
  sent the replies of executing them one after the other, in order, each once and whole, however the
  writes are cut; the engine is the one after the last command, and the connection waits for more.\<close>

theorem pipelined_replies:
  assumes "resp_lib P" and "0 \<le> task_fd task" and "list_all (plain_task task) cmds"
    and "concat (received reads) = concat (map resp_array cmds)" and "steady EAGAIN reads"
    and "\<And>bytes. bytes \<in> set (received reads) \<Longrightarrow> length bytes \<le> 16 * 1024"
    and "\<And>args. args \<in> set cmds \<Longrightarrow> length args \<le> 1024 \<and> length (resp_array args) \<le> 63 * 1024 * 1024"
    and "list_all (\<lambda>ready. 0 < ready) polls" and "length reads \<le> length polls"
    and "replies P C R clock 0 (task_engine task) cmds = (engine, sent)"
    and "healthy EAGAIN writes" and "length sent \<le> progress writes"
  shows "\<exists>ws. ConnectionRoutine P C R clock task writes reads polls =
    Some (task\<lparr>task_engine := engine\<rparr>, \<lparr>conn_sent = sent, conn_writes = ws\<rparr>, Reading)"
proof -
  let ?c = "connection_codec task"
  have c: "stream ?c = []" "\<not> protocol_error ?c" "max_stream_bytes ?c = 64 * 1024 * 1024" "0 < max_depth (codec_limits ?c)"
    "max_bulk_bytes (codec_limits ?c) = 64 * 1024 * 1024" "1024 \<le> max_array_elements (codec_limits ?c)"
    by (simp_all add: connection_codec_def RespCodec_new_def kReplicationMaxArrayElements_def)
  have "acceptable (Some (accept_policy task)) (codec_limits ?c) args" if "args \<in> set cmds" for args
    using assms(7) [OF that] c bulk_in_array [of _ args]
    by (fastforce simp: acceptable_def fits_limits_def accept_policy_def list_all_iff)
  moreover have "length bytes + length (resp_array args) \<le> max_stream_bytes ?c"
    if "bytes \<in> set (received reads)" "args \<in> set cmds" for bytes args
    using assms(6) [OF that(1)] assms(7) [OF that(2)] c(3) by simp
  ultimately have "\<exists>ws. ReadInput P C R clock 0 task \<lparr>conn_sent = [], conn_writes = writes\<rparr> ?c reads polls =
      Some (task\<lparr>task_engine := fst (replies P C R clock 0 (task_engine task) cmds)\<rparr>,
        \<lparr>conn_sent = conn_sent \<lparr>conn_sent = [], conn_writes = writes\<rparr> @ snd (replies P C R clock 0 (task_engine task) cmds),
         conn_writes = ws\<rparr>, Reading)"
    using assms(2-5,8-12) c(1,2)
    by (intro resp_lib.ReadInput_plain [OF assms(1) c(2)]) (auto simp: list_all_iff resp_array_def resp_header_def)
  with assms(2,10) show ?thesis by (simp add: ConnectionRoutine_def)
qed

definition demo_task :: "ServerRole \<Rightarrow> ref_objects Task" where
  "demo_task role = \<lparr>task_fd = 5, task_engine = CacheEngine_new ref_containers, task_config = Some (ServerConfig_new\<lparr>cfg_role := role\<rparr>),
     task_slave = Some demo_replica, task_master = Some (MasterReplicator_new 1 2)\<rparr>"

definition demo_pipeline :: "string list list" where
  "demo_pipeline = [[''SET'', ''k'', ''v''], [], [''GET'', ''k'']]"

theorem pipelined_replies_witness:
  "\<exists>ws. ConnectionRoutine ref_resp ref_containers demo_rng (\<lambda>_. 7) (demo_task kMaster)
      (WriteError EAGAIN # replicate (length (snd (replies ref_resp ref_containers demo_rng (\<lambda>_. 7) 0 (CacheEngine_new ref_containers) demo_pipeline))) (Wrote 1))
      [ReadBytes (take 9 (concat (map resp_array demo_pipeline))), ReadError EAGAIN, ReadBytes (drop 9 (concat (map resp_array demo_pipeline)))] [1, 1, 1] =
    Some ((demo_task kMaster)\<lparr>task_engine := fst (replies ref_resp ref_containers demo_rng (\<lambda>_. 7) 0 (CacheEngine_new ref_containers) demo_pipeline)\<rparr>,
      \<lparr>conn_sent = snd (replies ref_resp ref_containers demo_rng (\<lambda>_. 7) 0 (CacheEngine_new ref_containers) demo_pipeline), conn_writes = ws\<rparr>, Reading)"
proof -
  have size: "length (concat (map resp_array demo_pipeline)) = 51" and each: "list_all (\<lambda>args. length (resp_array args) \<le> 27) demo_pipeline"
    by code_simp+
  have ne: "concat (map resp_array demo_pipeline) \<noteq> []" using size by (metis list.size(3) zero_neq_numeral)
  show ?thesis
  proof (rule pipelined_replies [OF ref_resp_lib.resp_lib_axioms, where cmds = demo_pipeline], goal_cases)
    case 2
    show ?case by (simp add: demo_task_def demo_pipeline_def plain_task_def has_role_def IsCacheReplCommand_def ToUpperAscii_def)
  next
    case 6
    then show ?case using each by (auto simp: demo_pipeline_def)
  next
    case 9
    show ?case by (simp add: demo_task_def)
  qed (use size ne in \<open>auto simp: demo_task_def healthy_def progress_def list_all_iff\<close>)
qed

text \<open>(C20) No input makes the server loop: whatever a client sends, in whatever pieces, and however its reads
  and writes fail, the connection is over, or waits for the client. Its descriptor is closed exactly when
  it is over, and the engine is one reached by executing commands.\<close>

theorem connection_returns:
  assumes "resp_lib P" and "served C R (task_engine task)" and "0 \<le> task_fd task"
  shows "\<exists>task' conn' phase. ConnectionRoutine P C R clock task writes reads polls = Some (task', conn', phase) \<and>
    served C R (task_engine task') \<and> task_fd task' = (if phase = Closed then -1 else task_fd task)"
proof -
  have "served C R (task_engine (fst (HandleCommand P C R now t cn o' args)))"
    if "served C R (task_engine t)" "0 \<le> task_fd t" for now t cn o' args
    using that HandleHello_keeps [of P C t "the (task_master t)" cn o' args, OF _ that(2)] served_Execute [OF that(1), of args now]
    by (cases "HandleHello P C t (the (task_master t)) cn o' args") (auto simp: HandleCommand_def case_prod_beta split: prod.split option.split)
  then have "settled (\<lambda>t. served C R (task_engine t)) (task_fd task)
      (ConnectionRoutine P C R clock task writes reads polls)"
    using assms(2,3) by (intro resp_lib.ConnectionRoutine_keeps [OF assms(1)]) auto
  then show ?thesis by (auto simp: settled_def)
qed

text \<open>(C22) A server that is a replica never changes anything for a client: whatever bytes arrive, its replicator with the engine it
  serves from, the positions and the session, and its configuration stay as they are. Writes are refused, and no command that
  the read-only dispatcher runs changes the engine.\<close>

theorem replica_server_read_only:
  assumes "resp_lib P" and "has_role task kReplica" and "0 \<le> task_fd task"
    and "ConnectionRoutine P C R clock task writes reads polls = Some (task', conn', phase)"
  shows "task'\<lparr>task_fd := task_fd task\<rparr> = task"
proof -
  let ?I = "\<lambda>t. t\<lparr>task_fd := task_fd task\<rparr> = task"
  have "?I (fst (HandleCommand P C R now t cn o' args))" if "?I t" for now t cn o' args
  proof -
    have "has_role t role = has_role task role" for role using that by (metis Task.select_convs(3) Task.surjective Task.update_convs(1) has_role_def)
    then have "has_role t kReplica" using assms(2) by simp
    then have "fst (HandleCommand P C R now t cn o' args) = t" by (metis HandleCommand_replica(1) prod.exhaust_sel)
    with that show ?thesis by simp
  qed
  moreover have "?I (CloseTask t)" if "?I t" for t using that by (simp add: CloseTask_def)
  ultimately have "settled ?I (task_fd task)
      (ConnectionRoutine P C R clock task writes reads polls)"
    using assms(3) by (intro resp_lib.ConnectionRoutine_keeps [OF assms(1)]) auto
  with assms(4) show ?thesis by (auto simp: settled_def)
qed

theorem connection_returns_witness:
  "\<exists>task' conn' phase. ConnectionRoutine ref_resp ref_containers demo_rng (\<lambda>_. 7) (demo_task kMaster) [Wrote 3, WriteError EAGAIN]
      [ReadBytes ''*-1'', ReadBytes CRLF, ReadError EOther] [] = Some (task', conn', phase) \<and>
    served ref_containers demo_rng (task_engine task')"
proof -
  have "served ref_containers demo_rng (task_engine (demo_task kMaster))" "0 \<le> task_fd (demo_task kMaster)"
    using served_new [of ref_containers demo_rng] by (simp_all add: demo_task_def)
  from connection_returns [OF ref_resp_lib.resp_lib_axioms this, of "\<lambda>_. 7" "[Wrote 3, WriteError EAGAIN]"
      "[ReadBytes ''*-1'', ReadBytes CRLF, ReadError EOther]" "[]"] show ?thesis by blast
qed

theorem replica_server_read_only_witness:
  "\<exists>task' conn' phase. ConnectionRoutine ref_resp ref_containers demo_rng (\<lambda>_. 7) (demo_task kReplica) [Wrote 3]
      [ReadBytes (resp_array [''SET'', ''k'', ''v''])] [] = Some (task', conn', phase) \<and> task'\<lparr>task_fd := 5\<rparr> = demo_task kReplica"
proof -
  have role: "has_role (demo_task kReplica) kReplica" "0 \<le> task_fd (demo_task kReplica)" by (simp_all add: demo_task_def has_role_def)
  have "settled (\<lambda>_. True) (task_fd (demo_task kReplica)) (ConnectionRoutine ref_resp ref_containers demo_rng (\<lambda>_. 7) (demo_task kReplica) [Wrote 3]
      [ReadBytes (resp_array [''SET'', ''k'', ''v''])] [])"
    by (rule ref_resp_lib.ConnectionRoutine_keeps) (use role(2) in simp_all)
  then obtain task' conn' phase where run: "ConnectionRoutine ref_resp ref_containers demo_rng (\<lambda>_. 7) (demo_task kReplica) [Wrote 3]
      [ReadBytes (resp_array [''SET'', ''k'', ''v''])] [] = Some (task', conn', phase)" by (auto simp: settled_def)
  from replica_server_read_only [OF ref_resp_lib.resp_lib_axioms role run] run show ?thesis by (simp add: demo_task_def)
qed

end
