(* ===== verification/ReplicationLink.thy ===== *)
theory ReplicationLink
  imports Socket SlaveReplicator
begin

text \<open>
  One poll of the master by a replica, \<^verbatim>\<open>src/repl/replication_link.cpp\<close>: connect, send the hello frame,
  read frames and apply them until the Done frame. The calls to the operating system are modelled by
  their results (theory \<open>Socket\<close>), those of opening the connection by the record \<open>Dial\<close>; resolving the
  address is done by a third-party class, and its success is one of these results. The clock is read
  once per frame: the \<open>k\<close>-th frame is applied at \<open>clock k\<close>.
\<close>

section \<open>Opening the connection\<close>

record Dial =
  addr_ok :: bool
  socket_fd :: int
  getfl_flags :: int
  nonblock_result :: int
  connect_result :: "Errno option"
  poll_result :: int
  getsockopt_result :: int
  so_error :: int
  setfl_result :: int

text \<open>\<open>connect_result\<close> is the error of \<^verbatim>\<open>connect\<close>, none when it returns 0.\<close>

definition OpenConnection :: "Dial \<Rightarrow> bool" where
  "OpenConnection d =
     (if \<not> addr_ok d then False
      else if socket_fd d < 0 then False
      else if getfl_flags d < 0 \<or> nonblock_result d \<noteq> 0 then False
      else if (case connect_result d of
                 None \<Rightarrow> False
               | Some err \<Rightarrow>
                   (err \<noteq> EINPROGRESS \<and> err \<noteq> EINTR) \<or>
                   poll_result d \<le> 0 \<or> getsockopt_result d \<noteq> 0 \<or> so_error d \<noteq> 0) then False
      else setfl_result d = 0)"

section \<open>The frames\<close>

definition BuildHelloFrame :: "string \<Rightarrow> string \<Rightarrow> 'o SlaveReplicator \<Rightarrow> u64 \<Rightarrow> Frame" where
  "BuildHelloFrame rid previous_session slave proto =
     Frame_Hello rid proto previous_session (SlaveReplicator_Positions slave)"

text \<open>One command of the stream; a result is what the poll returns, none when it goes on.\<close>

definition TakeFrame ::
  "Resp \<Rightarrow> ('o, 'h, 's, 'z) containers \<Rightarrow> Rng \<Rightarrow> u64 \<Rightarrow> bool \<Rightarrow> 'o SlaveReplicator \<Rightarrow> string list \<Rightarrow>
   'o SlaveReplicator \<times> bool option" where
  "TakeFrame P C R now started slave args =
     (case DecodeFrame_args args of
        None \<Rightarrow> (slave, Some False)
      | Some frame \<Rightarrow>
          if (\<not> started \<and> subcmd frame \<noteq> kBegin) \<or> (started \<and> subcmd frame = kBegin) then (slave, Some False)
          else (case EnqueueFrame P C R slave frame now of
                  (slave', ok) \<Rightarrow>
                    if \<not> ok then (slave', Some False)
                    else if subcmd frame = kDone then (slave', Some True)
                    else (slave', None)))"

text \<open>The loop over the commands in the buffer; \<open>k\<close> frames were taken before.\<close>

partial_function (option) FrameLoop ::
  "Resp \<Rightarrow> ('o, 'h, 's, 'z) containers \<Rightarrow> Rng \<Rightarrow> (nat \<Rightarrow> u64) \<Rightarrow> RespCodec \<Rightarrow> nat \<Rightarrow> 'o SlaveReplicator \<Rightarrow>
   (RespCodec \<times> nat \<times> 'o SlaveReplicator \<times> bool option) option" where
  "FrameLoop P C R clock codec k slave =
     (case NextCommand P None codec of
        (codec', None) \<Rightarrow> Some (codec', k, slave, None)
      | (codec', Some args) \<Rightarrow>
          (case TakeFrame P C R (clock k) (0 < k) slave args of
             (slave', Some result) \<Rightarrow> Some (codec', Suc k, slave', Some result)
           | (slave', None) \<Rightarrow> FrameLoop P C R clock codec' (Suc k) slave'))"

text \<open>The loop over the reads. The value is the replica and what the poll returns, none while it waits.\<close>

fun ReadLoop ::
  "Resp \<Rightarrow> ('o, 'h, 's, 'z) containers \<Rightarrow> Rng \<Rightarrow> (nat \<Rightarrow> u64) \<Rightarrow> RespCodec \<Rightarrow> nat \<Rightarrow> 'o SlaveReplicator \<Rightarrow>
   RecvResult list \<Rightarrow> ('o SlaveReplicator \<times> bool option) option" where
  "ReadLoop P C R clock codec k slave [] = Some (slave, None)"
| "ReadLoop P C R clock codec k slave (ReadError err # reads) =
     (if err = EINTR then ReadLoop P C R clock codec k slave reads else Some (slave, Some False))"
| "ReadLoop P C R clock codec k slave (ReadBytes bytes # reads) =
     (if bytes = [] then Some (slave, Some False)
      else case AppendBytes codec bytes of
             (_, False) \<Rightarrow> Some (slave, Some False)
           | (codec1, True) \<Rightarrow>
               (case FrameLoop P C R clock codec1 k slave of
                  None \<Rightarrow> None
                | Some (codec2, k', slave', Some result) \<Rightarrow> Some (slave', Some result)
                | Some (codec2, k', slave', None) \<Rightarrow>
                    if HasProtocolError codec2 then Some (slave', Some False)
                    else ReadLoop P C R clock codec2 k' slave' reads))"

text \<open>
  The whole poll: what is written to the master, and the replica with the value returned. The first
  \<open>None\<close> would be a loop that never ends.
\<close>

definition link_codec :: RespCodec where
  "link_codec = RespCodec_new (256 * 1024 * 1024) (256 * 1024 * 1024) 1000000"

definition PollReplicaOnce ::
  "Resp \<Rightarrow> ('o, 'h, 's, 'z) containers \<Rightarrow> Rng \<Rightarrow> (nat \<Rightarrow> u64) \<Rightarrow> nat \<Rightarrow> string \<Rightarrow> Dial \<Rightarrow>
   SendResult list \<Rightarrow> RecvResult list \<Rightarrow> 'o SlaveReplicator option \<Rightarrow>
   string \<times> ('o SlaveReplicator option \<times> bool option) option" where
  "PollReplicaOnce P C R clock master_port rid dial writes reads slave =
     (case slave of
        None \<Rightarrow> ([], Some (None, Some False))
      | Some sl \<Rightarrow>
          if master_port = 0 then ([], Some (Some sl, Some False))
          else if \<not> OpenConnection dial then ([], Some (Some sl, Some False))
          else
            let hello = EncodeFrame P (BuildHelloFrame rid (CurrentSessionId sl) sl kProtocolVersion);
                (sent, written, _) = write_loop EINTR hello 0 writes
            in (sent,
                case written of
                  None \<Rightarrow> Some (Some sl, None)
                | Some False \<Rightarrow> Some (Some sl, Some False)
                | Some True \<Rightarrow>
                    map_option (\<lambda>(sl', result). (Some sl', result)) (ReadLoop P C R clock link_codec 0 sl reads)))"

section \<open>What a poll does with the frames it is sent\<close>

text \<open>The specification: the frames are applied in order, the first being the only Begin, until one is
  refused or the Done frame is applied.\<close>

fun deliver ::
  "Resp \<Rightarrow> ('o, 'h, 's, 'z) containers \<Rightarrow> Rng \<Rightarrow> (nat \<Rightarrow> u64) \<Rightarrow> nat \<Rightarrow> 'o SlaveReplicator \<Rightarrow> Frame list \<Rightarrow>
   'o SlaveReplicator \<times> bool option" where
  "deliver P C R clock k slave [] = (slave, None)"
| "deliver P C R clock k slave (f # fs) =
     (if (k = 0) \<noteq> (subcmd f = kBegin) then (slave, Some False)
      else case EnqueueFrame P C R slave f (clock k) of
             (slave', False) \<Rightarrow> (slave', Some False)
           | (slave', True) \<Rightarrow>
               if subcmd f = kDone then (slave', Some True) else deliver P C R clock (Suc k) slave' fs)"

fun deliver_args ::
  "Resp \<Rightarrow> ('o, 'h, 's, 'z) containers \<Rightarrow> Rng \<Rightarrow> (nat \<Rightarrow> u64) \<Rightarrow> nat \<Rightarrow> 'o SlaveReplicator \<Rightarrow> string list list \<Rightarrow>
   'o SlaveReplicator \<times> bool option" where
  "deliver_args P C R clock k slave [] = (slave, None)"
| "deliver_args P C R clock k slave (args # cmds) =
     (case TakeFrame P C R (clock k) (0 < k) slave args of
        (slave', Some result) \<Rightarrow> (slave', Some result)
      | (slave', None) \<Rightarrow> deliver_args P C R clock (Suc k) slave' cmds)"

lemma deliver_args_frames:
  "list_all sendable fs \<Longrightarrow> deliver_args P C R clock k slave (map frame_args fs) = deliver P C R clock k slave fs"
  by (induction fs arbitrary: k slave)
    (auto simp: TakeFrame_def DecodeFrame_args_encode split: prod.splits bool.splits)

lemma deliver_args_append:
  "deliver_args P C R clock k slave (xs @ ys) =
     (case deliver_args P C R clock k slave xs of
        (slave', None) \<Rightarrow> deliver_args P C R clock (k + length xs) slave' ys
      | done_result \<Rightarrow> done_result)"
  by (induction xs arbitrary: k slave) (auto split: prod.splits option.splits)

lemma FrameLoop_drain:
  assumes "drain P None c = Some (c', cmds)" and "deliver_args P C R clock k slave cmds = (slave', result)"
  shows "\<exists>c'' k'. FrameLoop P C R clock c k slave = Some (c'', k', slave', result) \<and>
    (result = None \<longrightarrow> c'' = c' \<and> k' = k + length cmds)"
  using assms
proof (induction cmds arbitrary: c k slave)
  case Nil
  then have "NextCommand P None c = (c', None)" by (subst (asm) drain.simps) (auto split: prod.splits option.splits bind_splits)
  with Nil(2) show ?case by (subst FrameLoop.simps) simp
next
  case (Cons args cmds)
  from Cons.prems(1) obtain c1 where c1: "NextCommand P None c = (c1, Some args)" "drain P None c1 = Some (c', cmds)"
    by (subst (asm) drain.simps) (auto split: prod.splits option.splits bind_splits)
  show ?case
  proof (cases "TakeFrame P C R (clock k) (0 < k) slave args")
    case (Pair s1 res)
    show ?thesis
    proof (cases res)
      case None
      with Pair Cons.prems(2) have "deliver_args P C R clock (Suc k) s1 cmds = (slave', result)" by simp
      from Cons.IH [OF c1(2) this] show ?thesis by (subst FrameLoop.simps) (auto simp: c1(1) Pair None)
    next
      case (Some b)
      with Pair Cons.prems(2) show ?thesis by (subst FrameLoop.simps) (auto simp: c1(1))
    qed
  qed
qed

context resp_lib begin

lemma ReadLoop_frames:
  assumes "\<not> protocol_error c" and "list_all (acceptable None (codec_limits c)) cmds"
    and "steady EINTR reads" and "stream c @ concat (received reads) = concat (map resp_array cmds)"
    and "if cmds = [] then stream c = [] else strict_prefix (stream c) (resp_array (hd cmds))"
    and "\<And>bytes args. bytes \<in> set (received reads) \<Longrightarrow> args \<in> set cmds \<Longrightarrow>
      length bytes + length (resp_array args) \<le> max_stream_bytes c"
  shows "ReadLoop P C R clock c k slave reads = Some (deliver_args P C R clock k slave cmds)"
  using assms
proof (induction reads arbitrary: c k slave cmds)
  case Nil
  then have "cmds = []" by (cases cmds) (auto simp: strict_prefix_def)
  then show ?case by simp
next
  case (Cons r reads)
  show ?case
  proof (cases r)
    case (ReadError err)
    with Cons.prems have "ReadLoop P C R clock c k slave reads = Some (deliver_args P C R clock k slave cmds)"
      by (intro Cons.IH) auto
    with ReadError Cons.prems(3) show ?thesis by simp
  next
    case (ReadBytes bytes)
    obtain taken rest s where d: "AppendBytes c bytes = (c\<lparr>stream := stream c @ bytes\<rparr>, True)" "cmds = taken @ rest"
        "drain P None (c\<lparr>stream := stream c @ bytes\<rparr>) = Some (c\<lparr>stream := s\<rparr>, taken)"
        "s @ concat (received reads) = concat (map resp_array rest)"
        "if rest = [] then s = [] else strict_prefix s (resp_array (hd rest))"
      using append_drain [of c None cmds bytes "concat (received reads)"] Cons.prems ReadBytes by fastforce
    obtain slave' result where del: "deliver_args P C R clock k slave taken = (slave', result)" by fastforce
    from FrameLoop_drain [OF d(3) del] obtain c'' k' where
      loop: "FrameLoop P C R clock (c\<lparr>stream := stream c @ bytes\<rparr>) k slave = Some (c'', k', slave', result)"
        "result = None \<longrightarrow> c'' = c\<lparr>stream := s\<rparr> \<and> k' = k + length taken" by blast
    have "ReadLoop P C R clock (c\<lparr>stream := s\<rparr>) n sl reads = Some (deliver_args P C R clock n sl rest)" for n sl
      using Cons.prems d(2,4,5) ReadBytes by (intro Cons.IH) auto
    with Cons.prems(1,3) ReadBytes d(1,2) loop del show ?thesis
      by (cases result) (simp_all add: deliver_args_append HasProtocolError_def)
  qed
qed

lemma FrameLoop_returns:
  obtains c' k' cmds slave' result where "FrameLoop P C R clock c k slave = Some (c', k', slave', result)"
    and "deliver_args P C R clock k slave cmds = (slave', result)"
proof -
  obtain c' cmds where "drain P None c = Some (c', cmds)" using drain_returns by blast
  from FrameLoop_drain [OF this surjective_pairing, of C R clock k slave] that [OF _ surjective_pairing] show ?thesis by blast
qed

lemma deliver_args_run: "replica_run P C R slave \<Longrightarrow> replica_run P C R (fst (deliver_args P C R clock k slave cmds))"
proof (induction cmds arbitrary: k slave)
  case (Cons args cmds)
  have "replica_run P C R (fst (TakeFrame P C R (clock k) (0 < k) slave args))"
    using Cons.prems replica_frame [OF Cons.prems] by (auto simp: TakeFrame_def split: option.split prod.split) (metis fst_conv)+
  with Cons.IH show ?case by (auto split: prod.split option.split)
qed simp

lemma ReadLoop_run:
  assumes "replica_run P C R slave"
  shows "\<exists>slave' result. ReadLoop P C R clock c k slave reads = Some (slave', result) \<and> replica_run P C R slave'"
  using assms
proof (induction reads arbitrary: c k slave)
  case (Cons r reads)
  show ?case
  proof (cases r)
    case (ReadBytes bytes)
    obtain c1 ok where app: "AppendBytes c bytes = (c1, ok)" by fastforce
    obtain c2 k' cmds slave' result where loop: "FrameLoop P C R clock c1 k slave = Some (c2, k', slave', result)"
        and del: "deliver_args P C R clock k slave cmds = (slave', result)" by (rule FrameLoop_returns)
    have run: "replica_run P C R slave'" using deliver_args_run [OF Cons.prems, of clock k cmds] del by simp
    show ?thesis
    proof (cases "bytes = [] \<or> \<not> ok \<or> result \<noteq> None \<or> HasProtocolError c2")
      case True
      with Cons.prems run ReadBytes app loop show ?thesis by (cases ok; cases result) auto
    next
      case False
      with Cons.IH [OF run] ReadBytes app loop show ?thesis by simp
    qed
  qed (use Cons in auto)
qed simp

end

lemma PollReplicaOnce_frames:
  assumes "resp_lib P" and "master_port \<noteq> 0" and "OpenConnection dial"
    and "hello = EncodeFrame P (BuildHelloFrame rid (CurrentSessionId slave) slave kProtocolVersion)"
    and "healthy EINTR writes" and "length hello \<le> progress writes"
    and "steady EINTR reads" and "\<And>bytes. bytes \<in> set (received reads) \<Longrightarrow> length bytes \<le> 64 * 1024"
    and "concat (received reads) = concat (map (EncodeFrame P) frames)"
    and "\<And>f. f \<in> set frames \<Longrightarrow> sendable f \<and> length (EncodeFrame P f) \<le> 255 * 1024 * 1024"
  shows "PollReplicaOnce P C R clock master_port rid dial writes reads (Some slave) =
    (hello, Some (map_prod Some id (deliver P C R clock 0 slave frames)))"
proof -
  let ?cmds = "map frame_args frames"
  have wire: "EncodeFrame P f = resp_array (frame_args f)" for f by (rule resp_lib.EncodeFrame_array [OF assms(1)])
  have codec: "stream link_codec = []" "\<not> protocol_error link_codec" "max_stream_bytes link_codec = 256 * 1024 * 1024"
    "codec_limits link_codec = \<lparr>max_depth = 1, max_array_elements = 1000000, max_bulk_bytes = 256 * 1024 * 1024\<rparr>"
    by (simp_all add: link_codec_def RespCodec_new_def)
  have "acceptable None (codec_limits link_codec) (frame_args f)" if "f \<in> set frames" for f
    using assms(10) [OF that] bulk_in_array [of _ "frame_args f"]
    by (fastforce simp: acceptable_def fits_limits_def codec sendable_def kMaxFrameElements_def list_all_iff wire)
  then have acc: "list_all (acceptable None (codec_limits link_codec)) ?cmds" by (simp add: list_all_iff)
  have "ReadLoop P C R clock link_codec 0 slave reads = Some (deliver_args P C R clock 0 slave ?cmds)"
  proof (rule resp_lib.ReadLoop_frames [OF assms(1) codec(2) acc assms(7)])
    show "stream link_codec @ concat (received reads) = concat (map resp_array ?cmds)"
      using assms(9) by (simp add: codec wire comp_def cong: map_cong)
    show "if ?cmds = [] then stream link_codec = [] else strict_prefix (stream link_codec) (resp_array (hd ?cmds))"
      by (simp add: codec resp_array_def resp_header_def)
    show "length bytes + length (resp_array args) \<le> max_stream_bytes link_codec"
      if bytes: "bytes \<in> set (received reads)" and args: "args \<in> set ?cmds" for bytes args
    proof -
      obtain f where "f \<in> set frames" "args = frame_args f" using args by auto
      with assms(8) [OF bytes] assms(10) [of f] show ?thesis by (simp add: codec wire)
    qed
  qed
  moreover have "list_all sendable frames" using assms(10) by (simp add: list_all_iff)
  moreover obtain rest where "write_loop EINTR hello 0 writes = (hello, Some True, rest)"
    using write_loop_healthy [OF assms(5), of hello 0] assms(6) by auto
  ultimately show ?thesis
    using assms(2,3,4) by (simp add: PollReplicaOnce_def deliver_args_frames case_prod_beta map_prod_def)
qed

text \<open>A poll ends or waits for the network whatever the master sends: no input makes it loop. What it has
  written is a prefix of its hello frame, and the replica it leaves is one reached by applying frames.\<close>

lemma PollReplicaOnce_returns:
  assumes "resp_lib P" and "replica_run P C R slave"
  shows "\<exists>sent slave' result. PollReplicaOnce P C R clock master_port rid dial writes reads (Some slave) =
      (sent, Some (Some slave', result)) \<and> replica_run P C R slave' \<and>
    prefix sent (EncodeFrame P (BuildHelloFrame rid (CurrentSessionId slave) slave kProtocolVersion))"
proof (cases "master_port = 0 \<or> \<not> OpenConnection dial")
  case True
  then show ?thesis using assms(2) by (auto simp: PollReplicaOnce_def)
next
  case False
  let ?hello = "EncodeFrame P (BuildHelloFrame rid (CurrentSessionId slave) slave kProtocolVersion)"
  obtain sent result rest where wr: "write_loop EINTR ?hello 0 writes = (sent, result, rest)" by (cases "write_loop EINTR ?hello 0 writes")
  with write_loop_sent [OF wr] resp_lib.ReadLoop_run [OF assms, of clock link_codec 0 reads] False assms(2) show ?thesis
    by (cases result) (auto simp: PollReplicaOnce_def split: bool.split)
qed

section \<open>Properties\<close>

text \<open>(C18) A poll that reaches its master sends its hello frame whole, however the kernel splits the writes,
  and applies the frames the master answers with in order, until the Done frame or the first refusal,
  however the kernel splits the reads; it returns what the application returned.\<close>

theorem poll_applies_frames:
  assumes "resp_lib P" and "master_port \<noteq> 0" and "OpenConnection dial"
    and "hello = EncodeFrame P (BuildHelloFrame rid (CurrentSessionId slave) slave kProtocolVersion)"
    and "healthy EINTR writes" and "length hello \<le> progress writes"
    and "steady EINTR reads" and "\<And>bytes. bytes \<in> set (received reads) \<Longrightarrow> length bytes \<le> 64 * 1024"
    and "concat (received reads) = concat (map (EncodeFrame P) frames)"
    and "\<And>f. f \<in> set frames \<Longrightarrow> sendable f \<and> length (EncodeFrame P f) \<le> 255 * 1024 * 1024"
  shows "PollReplicaOnce P C R clock master_port rid dial writes reads (Some slave) =
    (hello, Some (map_prod Some id (deliver P C R clock 0 slave frames)))"
  by (rule PollReplicaOnce_frames [OF assms])

definition demo_dial :: Dial where
  "demo_dial = \<lparr>addr_ok = True, socket_fd = 3, getfl_flags = 2, nonblock_result = 0, connect_result = Some EINPROGRESS,
     poll_result = 1, getsockopt_result = 0, so_error = 0, setfl_result = 0\<rparr>"

definition demo_hello :: string where
  "demo_hello = EncodeFrame ref_resp (BuildHelloFrame ''r'' (CurrentSessionId demo_replica) demo_replica kProtocolVersion)"

theorem poll_applies_frames_witness:
  "PollReplicaOnce ref_resp ref_containers demo_rng (\<lambda>_. 7) 6399 ''r'' demo_dial (WriteError EINTR # replicate (length demo_hello) (Wrote 1))
     [ReadBytes (take 9 (EncodeFrame ref_resp (Frame_Begin ''s'' True))), ReadError EINTR,
      ReadBytes (drop 9 (EncodeFrame ref_resp (Frame_Begin ''s'' True)))] (Some demo_replica) =
   (demo_hello, Some (map_prod Some id (deliver ref_resp ref_containers demo_rng (\<lambda>_. 7) 0 demo_replica [Frame_Begin ''s'' True])))"
proof -
  have wire: "length (EncodeFrame ref_resp (Frame_Begin ''s'' True)) = 46"
    by (simp add: ref_resp_lib.EncodeFrame_array) code_simp
  then have size: "EncodeFrame ref_resp (Frame_Begin ''s'' True) \<noteq> []" by auto
  show ?thesis
  proof (rule poll_applies_frames [OF ref_resp_lib.resp_lib_axioms])
    show "healthy EINTR (WriteError EINTR # replicate (length demo_hello) (Wrote 1))"
      by (simp add: healthy_def list_all_iff)
    show "length demo_hello \<le> progress (WriteError EINTR # replicate (length demo_hello) (Wrote 1))"
      by (simp add: progress_def)
    show "OpenConnection demo_dial" by (simp add: OpenConnection_def demo_dial_def)
    show "sendable f \<and> length (EncodeFrame ref_resp f) \<le> 255 * 1024 * 1024" if "f \<in> set [Frame_Begin ''s'' True]" for f
      using that wire by (simp add: sendable_def kMaxFrameElements_def) (simp add: frame_args_def Frame_defs)
  qed (use wire size in \<open>auto simp: demo_hello_def\<close>)
qed

end
