(* ===== verification/CatchUp.thy ===== *)
theory CatchUp
  imports Replication Connection ReplicationLink
begin

text \<open>
  A poll of the master by a replica, from end to end: the replica says what it has applied, the master answers
  with a batch, and the replica applies it. A poll over a healthy network succeeds, every frame of the batch
  is applied, and a slot the batch completes becomes readable with exactly the master's contents.
\<close>

section \<open>Applying one frame\<close>

text \<open>The position a frame takes its slot to.\<close>

definition frame_seq :: "Frame \<Rightarrow> u64" where
  "frame_seq f = (if subcmd f = kSnapshot then base_seq f else rec_seq (frame_record f))"

text \<open>The frames of a batch for one slot fit what the replica has applied of it.\<close>

definition ready ::
  "Resp \<Rightarrow> ('o, 'h, 's, 'z) containers \<Rightarrow> 'o CacheEngine \<Rightarrow> string \<Rightarrow> nat \<Rightarrow> SlotApplyState \<Rightarrow> Frame list \<Rightarrow> bool" where
  "ready P C e sid i st fs \<longleftrightarrow> fs = [BuildSnapshotFrame P C e sid i] \<or>
     (\<exists>rs. fs = map (Frame_Log sid i) rs \<and> (rs \<noteq> [] \<longrightarrow> \<not> need_snapshot st) \<and>
        (\<forall>k < length rs. rec_seq (rs ! k) = applied_seq st + of_nat (Suc k)))"

text \<open>The image of every slot can be decoded: it has not too many elements, and its scores survive printing.\<close>

definition images_ok :: "('o, 'h, 's, 'z) containers \<Rightarrow> 'o CacheEngine \<Rightarrow> bool" where
  "images_ok C e \<longleftrightarrow> (\<forall>i. length (snapshot_fields C (slot_map (slots e i))) \<le> kMaxSnapshotElements) \<and> scores_survive C e"

definition settled_slot :: "Frame list \<Rightarrow> SlotApplyState \<Rightarrow> SlotApplyState \<Rightarrow> bool" where
  "settled_slot fs st st' \<longleftrightarrow>
     (if fs = [] then st' = st else \<not> need_snapshot st' \<and> applied_seq st' = frame_seq (last fs))"

lemma apply_slots_reset:
  "i < length (apply_slots p) \<Longrightarrow>
   apply_slots (foldl (reset_slot C) p ixs) ! i = (if i \<in> set ixs then SlotApplyState_new else apply_slots p ! i)"
  by (induction ixs arbitrary: p) (auto simp: reset_slot_def nth_list_update)

lemma session_put [simp]: "slave_session_id (put_state p i st) = slave_session_id p"
  by (simp add: put_state_def)

lemma session_on_engine [simp]: "slave_session_id (on_engine f p) = slave_session_id p"
  by (simp add: on_engine_def)

context replica_codec begin

lemma image_applies:
  assumes "engine_inv C e" and "images_ok C e" and "i < kSlotCount"
    and "slave_engine p \<noteq> None" and "length (apply_slots p) = kSlotCount"
  obtains p' where "ApplySnapshot P C p (BuildSnapshotFrame P C e sid i) = (p', True)"
    and "apply_slots p' = (apply_slots p)[i := (apply_slots p ! i)\<lparr>applied_seq := slot_published_seq (slots e i), need_snapshot := False,
      apply_state := kCatchingUp\<rparr>]" and "slave_session_id p' = slave_session_id p"
proof -
  let ?m = "slot_map (slots e i)"
  have view: "view_ok (Map_Find (objects C) ?m)"
    using engine_inv_slot [OF assms(1)] by (auto simp: view_ok_def slot_view_def)
  obtain m' where m': "DecodeSnapshotPayload P C (EncodeSnapshotPayload P C ?m) = Some m'"
      "\<forall>key. abs_view C (Map_Find (objects C) m') key = map_option (rescore (\<lambda>s. s)) (abs_view C (Map_Find (objects C) ?m) key)"
    using snapshot_decodes [OF view, of "\<lambda>s. s"] assms(2) by (auto simp: images_ok_def scores_survive_def slot_view_def)
  have "SlotForKey key = i" if "(key, ob) \<in> set (Map_ForEach (objects C) m')" for key ob
  proof -
    have "Map_Find (objects C) m' key \<noteq> None" using that by (simp add: om.mem_foreach)
    then have "Map_Find (objects C) ?m key \<noteq> None"
      using m'(2) [rule_format, of key] by (cases "Map_Find (objects C) ?m key") (auto simp: abs_view_def)
    then show ?thesis using assms(1) by (auto simp: engine_inv_def placed_def slot_view_def)
  qed
  then have "list_all (\<lambda>(key, object). SlotForKey key = i) (Map_ForEach (objects C) m')" by (auto simp: list_all_iff)
  with m'(1) assms(3) that show ?thesis
    by (simp add: ApplySnapshot_def BuildSnapshotFrame_slot Frame_Snapshot_def Let_def)
qed

lemma log_applies:
  assumes "history_ok C R h" and "replica_ok C p h" and "truthful P C h (Frame_Log sid i r)" and "i < kSlotCount"
    and "\<not> need_snapshot (apply_slots p ! i)" and "rec_seq r = applied_seq (apply_slots p ! i) + 1"
  obtains p' where "ApplyLog C R p i r now = (p', True)"
    and "apply_slots p' = (apply_slots p)[i := (apply_slots p ! i)\<lparr>applied_seq := rec_seq r, apply_state := kCatchingUp\<rparr>]"
    and "slave_session_id p' = slave_session_id p"
proof -
  let ?n = "unat (applied_seq (apply_slots p ! i))"
  obtain e where e: "slave_engine p = Some e" "engine_inv C e" "slot_abs C (slots e i) = version h i ?n"
      "length (apply_slots p) = kSlotCount"
    using assms(2,4) by (auto simp: replica_ok_def slave_inv_def)
  have tr: "rec_seq r \<noteq> 0" "unat (rec_seq r) \<le> length (h i)" "r = fst (h i ! (unat (rec_seq r) - 1))"
    using assms(3) by (auto simp: truthful_def Frame_Log_def Frame_new_def)
  have "applied_seq (apply_slots p ! i) \<noteq> u64_max" using tr(1) assms(6) by auto
  then have seq: "unat (rec_seq r) = Suc ?n" using assms(6) unat_Suc_u64 by simp
  then have "leads C R i r (version h i ?n) (version h i (Suc ?n))" using assms(1) tr(2,3) by (simp add: history_ok_def)
  then obtain e1 where e1: "ApplyRecord C R p r now i = (p\<lparr>slave_engine := Some e1\<rparr>, True)"
    using e(1-3) unfolding leads_def by blast
  have "\<not> rec_seq r \<le> applied_seq (apply_slots p ! i)" using seq by (simp add: word_le_nat_alt)
  with e(4) e1 assms(4-6) that show ?thesis by (simp add: ApplyLog_def Let_def)
qed

lemma frame_applies:
  assumes "history_ok C R h" and "replica_ok C p h" and "engine_inv C e" and "images_ok C e" and "i < kSlotCount"
    and "slave_session_id p = sid" and "sid \<noteq> []" and "truthful P C h f" and "ready P C e sid i (apply_slots p ! i) (f # fs)"
  obtains p' where "EnqueueFrame P C R p f now = (p', True)" and "slave_session_id p' = sid" and "subcmd f \<noteq> kBegin" and "subcmd f \<noteq> kDone"
    and "ready P C e sid i (apply_slots p' ! i) fs" and "settled_slot [f] (apply_slots p ! i) (apply_slots p' ! i)"
    and "\<And>j. j \<noteq> i \<Longrightarrow> apply_slots p' ! j = apply_slots p ! j"
proof -
  have p: "slave_engine p \<noteq> None" "length (apply_slots p) = kSlotCount"
    using assms(2) by (auto simp: replica_ok_def slave_inv_def)
  consider (image) "f = BuildSnapshotFrame P C e sid i" "fs = []"
    | (log) r rs where "f = Frame_Log sid i r" "fs = map (Frame_Log sid i) rs" "\<not> need_snapshot (apply_slots p ! i)"
        "\<forall>k < Suc (length rs). rec_seq ((r # rs) ! k) = applied_seq (apply_slots p ! i) + of_nat (Suc k)"
    using assms(9) by (auto simp: ready_def Cons_eq_map_conv)
  then show ?thesis
  proof cases
    case image
    obtain p' where p': "ApplySnapshot P C p f = (p', True)"
        "apply_slots p' = (apply_slots p)[i := (apply_slots p ! i)\<lparr>applied_seq := slot_published_seq (slots e i), need_snapshot := False,
          apply_state := kCatchingUp\<rparr>]" "slave_session_id p' = slave_session_id p"
      using image_applies [OF assms(3,4,5) p] image(1) by metis
    have f: "subcmd f = kSnapshot" "session_id f = sid" "slot_id f = i" "base_seq f = slot_published_seq (slots e i)"
      by (simp_all add: image(1) BuildSnapshotFrame_slot [OF assms(5)] Frame_Snapshot_def)
    have "EnqueueFrame P C R p f now = (p', True)" using p f p'(1) assms(5,6,7) by (simp add: EnqueueFrame_def)
    with that p' f p(2) assms(5,6) image(2) show ?thesis by (simp add: settled_slot_def frame_seq_def ready_def)
  next
    case log
    have "rec_seq r = applied_seq (apply_slots p ! i) + 1" using log(4) by fastforce
    moreover have "truthful P C h (Frame_Log sid i r)" using assms(8) log(1) by simp
    ultimately obtain p' where p': "ApplyLog C R p i r now = (p', True)"
        "apply_slots p' = (apply_slots p)[i := (apply_slots p ! i)\<lparr>applied_seq := rec_seq r, apply_state := kCatchingUp\<rparr>]"
        "slave_session_id p' = slave_session_id p"
      using log_applies [OF assms(1,2) _ assms(5) log(3)] by metis
    have f: "subcmd f = kLog" "session_id f = sid" "slot_id f = i" "frame_record f = r" by (simp_all add: log(1) Frame_Log_def)
    have "EnqueueFrame P C R p f now = (p', True)" using p f p'(1) assms(5,6,7) by (simp add: EnqueueFrame_def)
    moreover have "ready P C e sid i (apply_slots p' ! i) fs"
    proof -
      have "rec_seq (rs ! k) = rec_seq r + of_nat (Suc k)" if "k < length rs" for k
        using log(4)[rule_format, of "Suc k"] log(4)[rule_format, of 0] that by (simp add: algebra_simps)
      with log(2,3) p'(2) p(2) assms(5) show ?thesis unfolding ready_def by (intro disjI2 exI [of _ rs]) simp
    qed
    ultimately show ?thesis using that p' f p(2) assms(5,6) log(3) by (simp add: settled_slot_def frame_seq_def)
  qed
qed

lemma batch_applies:
  assumes "history_ok C R h" and "engine_inv C e" and "images_ok C e" and "sid \<noteq> []"
    and "replica_ok C p h" and "slave_session_id p = sid" and "0 < k"
    and "\<And>f. f \<in> set mid \<Longrightarrow> slot_id f < kSlotCount \<and> truthful P C h f"
    and "\<And>i. i < kSlotCount \<Longrightarrow> ready P C e sid i (apply_slots p ! i) (slot_frames i mid)"
  shows "\<exists>p'. deliver P C R clock k p (mid @ rest) = deliver P C R clock (k + length mid) p' rest \<and> replica_ok C p' h \<and>
    slave_session_id p' = sid \<and> (\<forall>i < kSlotCount. settled_slot (slot_frames i mid) (apply_slots p ! i) (apply_slots p' ! i))"
  using assms(5-9)
proof (induction mid arbitrary: p k)
  case Nil
  then show ?case by (intro exI [of _ p]) (simp add: settled_slot_def)
next
  case (Cons f mid)
  let ?i = "slot_id f"
  have i: "?i < kSlotCount" and tr: "truthful P C h f" using Cons.prems(4) by auto
  have "ready P C e sid ?i (apply_slots p ! ?i) (f # slot_frames ?i mid)" using Cons.prems(5) [OF i] by simp
  from frame_applies [OF assms(1) Cons.prems(1) assms(2,3) i Cons.prems(2) assms(4) tr this]
  obtain p1 where p1: "EnqueueFrame P C R p f (clock k) = (p1, True)" "slave_session_id p1 = sid" "subcmd f \<noteq> kBegin" "subcmd f \<noteq> kDone"
    "ready P C e sid ?i (apply_slots p1 ! ?i) (slot_frames ?i mid)" "settled_slot [f] (apply_slots p ! ?i) (apply_slots p1 ! ?i)"
    "\<And>j. j \<noteq> ?i \<Longrightarrow> apply_slots p1 ! j = apply_slots p ! j" by metis
  have "replica_ok C p1 h" using replica_ok_EnqueueFrame [OF assms(1) Cons.prems(1) tr, of "clock k"] p1(1) by simp
  moreover have "ready P C e sid j (apply_slots p1 ! j) (slot_frames j mid)" if "j < kSlotCount" for j
    using p1(5) p1(7) [of j] Cons.prems(5) [OF that] by (cases "j = ?i") auto
  ultimately obtain p' where p': "deliver P C R clock (Suc k) p1 (mid @ rest) = deliver P C R clock (Suc k + length mid) p' rest"
      "replica_ok C p' h" "slave_session_id p' = sid"
      "\<forall>j < kSlotCount. settled_slot (slot_frames j mid) (apply_slots p1 ! j) (apply_slots p' ! j)"
    using Cons.IH [of p1 "Suc k"] p1(2) Cons.prems(4) by auto
  have "settled_slot (slot_frames j (f # mid)) (apply_slots p ! j) (apply_slots p' ! j)" if "j < kSlotCount" for j
    using p'(4) [rule_format, OF that] p1(6) p1(7) [of j] by (cases "j = ?i") (auto simp: settled_slot_def split: if_splits)
  with p' p1(1,3,4) Cons.prems(3) show ?case by (intro exI [of _ p']) simp
qed

end

section \<open>The end of the batch\<close>

lemma done_loop_step:
  assumes "slot < length (apply_slots p)"
  obtains p1 where "done_loop p ((slot, t) # items) = done_loop p1 items" and "length (apply_slots p1) = length (apply_slots p)"
    and "\<And>i. need_snapshot (apply_slots p1 ! i) = need_snapshot (apply_slots p ! i)"
    and "\<And>i. applied_seq (apply_slots p1 ! i) = applied_seq (apply_slots p ! i)"
    and "\<And>i. i \<noteq> slot \<Longrightarrow> CanReadSlot p1 i = CanReadSlot p i"
    and "\<not> need_snapshot (apply_slots p ! slot) \<Longrightarrow> t \<le> applied_seq (apply_slots p ! slot) \<Longrightarrow> CanReadSlot p1 slot"
proof (rule that)
  let ?st = "apply_slots p ! slot"
  let ?p = "if \<not> need_snapshot ?st then put_state p slot (?st\<lparr>apply_state := if t \<le> applied_seq ?st then kOnline else kCatchingUp\<rparr>) else p"
  show "done_loop p ((slot, t) # items) = done_loop ?p items" using assms by (simp add: Let_def)
qed (use assms in \<open>auto simp: nth_list_update CanReadSlot_def\<close>)

lemma done_loop_completes:
  assumes "\<And>j t. (j, t) \<in> set items \<Longrightarrow> j < length (apply_slots p)"
    and "\<not> need_snapshot (apply_slots p ! i)" and "\<And>t. (i, t) \<in> set items \<Longrightarrow> t \<le> applied_seq (apply_slots p ! i)"
    and "i \<in> fst ` set items \<or> CanReadSlot p i"
  shows "CanReadSlot (fst (done_loop p items)) i"
  using assms
proof (induction items arbitrary: p)
  case (Cons item items)
  obtain slot t where item: "item = (slot, t)" by fastforce
  have "slot < length (apply_slots p)" using Cons.prems(1) [of slot t] item by simp
  then obtain p1 where p1: "done_loop p ((slot, t) # items) = done_loop p1 items" "length (apply_slots p1) = length (apply_slots p)"
    "\<And>i. need_snapshot (apply_slots p1 ! i) = need_snapshot (apply_slots p ! i)"
    "\<And>i. applied_seq (apply_slots p1 ! i) = applied_seq (apply_slots p ! i)"
    "\<And>i. i \<noteq> slot \<Longrightarrow> CanReadSlot p1 i = CanReadSlot p i"
    "\<not> need_snapshot (apply_slots p ! slot) \<Longrightarrow> t \<le> applied_seq (apply_slots p ! slot) \<Longrightarrow> CanReadSlot p1 slot"
    by (rule done_loop_step [where t = t and items = items]) blast
  have "CanReadSlot (fst (done_loop p1 items)) i"
  proof (rule Cons.IH)
    show "i \<in> fst ` set items \<or> CanReadSlot p1 i"
      using Cons.prems(2-4) p1(5) [of i] p1(6) item by (cases "i = slot") auto
  qed (use Cons.prems p1 in auto)
  with item p1(1) show ?case by (simp del: done_loop.simps)
qed simp

lemma done_loop_accepts:
  "(\<And>j t. (j, t) \<in> set items \<Longrightarrow> j < length (apply_slots p)) \<Longrightarrow> snd (done_loop p items)"
proof (induction items arbitrary: p)
  case (Cons item items)
  obtain slot t where item: "item = (slot, t)" by fastforce
  have "slot < length (apply_slots p)" using Cons.prems [of slot t] item by simp
  then show ?case
  proof (rule done_loop_step [where t = t and items = items])
    fix p1 assume p1: "done_loop p ((slot, t) # items) = done_loop p1 items" "length (apply_slots p1) = length (apply_slots p)"
    have "snd (done_loop p1 items)" using Cons.prems p1(2) by (intro Cons.IH) auto
    with item p1(1) show ?thesis by (simp del: done_loop.simps)
  qed
qed simp

lemma done_loop_session: "slave_session_id (fst (done_loop p items)) = slave_session_id p"
  by (induction p items rule: done_loop.induct) (auto simp: Let_def)

section \<open>A whole poll\<close>

text \<open>Once the replica has taken the Begin frame, the master's idea of each slot is right.\<close>

definition agrees :: "'o CacheEngine \<Rightarrow> nat \<Rightarrow> SlotApplyState \<Rightarrow> ReplicaSlotState \<Rightarrow> bool" where
  "agrees e i st hst \<longleftrightarrow> (if need_snapshot st then slot_need_snapshot hst
     else sent_seq hst = applied_seq st \<and> slot_need_snapshot hst = (\<not> HasBacklog (Some e) i (applied_seq st + 1)))"

lemma Positions_of: "i < length (apply_slots p) \<Longrightarrow>
    (i, if need_snapshot (apply_slots p ! i) then u64_max else applied_seq (apply_slots p ! i)) \<in> set (SlaveReplicator_Positions p)"
  by (simp add: SlaveReplicator_Positions_def)

lemma distinct_Positions: "distinct (map fst (SlaveReplicator_Positions p))"
  by (simp add: SlaveReplicator_Positions_def comp_def)

context replica_codec begin

lemma begin_agrees:
  assumes "replica_ok C p h" and "master_ok C e h" and "\<And>i. slot_published_seq (slots e i) \<noteq> u64_max"
    and "sid \<noteq> []" and "\<not> reset \<longrightarrow> slave_session_id p = sid" and "length states = kSlotCount"
  obtains p' where "EnqueueFrame P C R p (Frame_Begin sid reset) now = (p', True)" and "slave_session_id p' = sid"
    and "\<And>i. i < kSlotCount \<Longrightarrow> agrees e i (apply_slots p' ! i) (foldl (hello_position e reset) states (SlaveReplicator_Positions p) ! i)"
    and "\<not> reset \<Longrightarrow> apply_slots p' = apply_slots p"
proof -
  have p: "slave_engine p \<noteq> None" "length (apply_slots p) = kSlotCount" using assms(1) by (auto simp: replica_ok_def slave_inv_def)
  let ?p = "(if reset then foldl (reset_slot C) p [0..<length (apply_slots p)] else p)\<lparr>slave_session_id := sid\<rparr>"
  have run: "EnqueueFrame P C R p (Frame_Begin sid reset) now = (?p, True)"
    using p assms(4,5) by (auto simp: EnqueueFrame_def Frame_Begin_def)
  have "agrees e i (apply_slots ?p ! i) (foldl (hello_position e reset) states (SlaveReplicator_Positions p) ! i)" if i: "i < kSlotCount" for i
  proof -
    let ?st = "apply_slots p ! i" and ?q = "if need_snapshot (apply_slots p ! i) then u64_max else applied_seq (apply_slots p ! i)"
    let ?hst = "foldl (hello_position e reset) states (SlaveReplicator_Positions p) ! i"
    have hello: "sent_seq ?hst = hello_seq e reset i ?q \<and> slot_need_snapshot ?hst =
        ((\<not> reset \<and> slot_published_seq (slots e i) < ?q) \<or> \<not> HasBacklog (Some e) i ((if reset then 0 else ?q) + 1))"
      by (rule hello_positions_nth [OF Positions_of distinct_Positions i assms(6)]) (simp add: p(2) i)
    have "unat (applied_seq ?st) \<le> unat (slot_published_seq (slots e i))"
      using assms(1,2) i by (auto simp: replica_ok_def master_ok_def engine_inv_def)
    then have le: "\<not> slot_published_seq (slots e i) < applied_seq ?st" by (simp add: word_less_nat_alt)
    have max: "slot_published_seq (slots e i) < u64_max"
      using assms(3) [of i] by (simp add: word_order.not_eq_extremum)
    show ?thesis
    proof (cases reset)
      case True
      then have "apply_slots ?p ! i = SlotApplyState_new" using apply_slots_reset [of i p C "[0..<length (apply_slots p)]"] p(2) i by simp
      with True hello show ?thesis by (simp add: SlotApplyState_new_def hello_seq_def agrees_def)
    next
      case False
      with hello max le show ?thesis by (auto simp: hello_seq_def agrees_def)
    qed
  qed
  with that run show ?thesis by simp
qed

lemma agrees_ready:
  assumes "agrees e i st hst" and "slot_run P C e sid i hst hst' fs"
  shows "ready P C e sid i st fs \<and> (need_snapshot st \<longrightarrow> fs \<noteq> [] \<or> slot_need_snapshot hst')"
proof -
  consider "fs = [BuildSnapshotFrame P C e sid i]"
    | rs where "fs = map (Frame_Log sid i) rs" "slot_need_snapshot hst \<longrightarrow> rs = [] \<and> slot_need_snapshot hst'"
      "\<forall>k < length rs. rec_seq (rs ! k) = sent_seq hst + of_nat (Suc k)"
    using assms(2) unfolding slot_run_def by blast
  then show ?thesis
  proof cases
    case (2 rs)
    with assms(1) show ?thesis unfolding ready_def agrees_def by (intro conjI disjI2 exI [of _ rs]) (auto split: if_splits)
  qed (simp add: ready_def)
qed

lemma completed_readable:
  assumes "master_ok C e h" and "replica_ok C p h" and "(i, t) \<in> set completed"
    and "\<And>j t. (j, t) \<in> set completed \<Longrightarrow> j < kSlotCount \<and> t = slot_published_seq (slots e j) \<and> \<not> need_snapshot (apply_slots p ! j)"
    and "applied_seq (apply_slots (fst (done_loop p completed)) ! i) = t"
  shows "CanReadSlot (fst (done_loop p completed)) i \<and>
    slot_abs C (slots (the (slave_engine (fst (done_loop p completed)))) i) = slot_abs C (slots e i)"
proof -
  have len: "length (apply_slots p) = kSlotCount" using assms(2) by (auto simp: replica_ok_def slave_inv_def)
  have t: "applied_seq (apply_slots p ! i) = t" "t = slot_published_seq (slots e i)" "i < kSlotCount"
    using assms(3,5) assms(4) [OF assms(3)] by (simp_all add: done_loop_keeps)
  have "CanReadSlot (fst (done_loop p completed)) i"
  proof (rule done_loop_completes)
    show "j < length (apply_slots p)" if "(j, u) \<in> set completed" for j u using assms(4) [OF that] len by simp
    show "\<not> need_snapshot (apply_slots p ! i)" using assms(4) [OF assms(3)] by simp
    show "u \<le> applied_seq (apply_slots p ! i)" if "(i, u) \<in> set completed" for u using assms(4) [OF that] t by simp
    show "i \<in> fst ` set completed \<or> CanReadSlot p i" using assms(3) by force
  qed
  moreover have "slot_abs C (slots (the (slave_engine p)) i) = version h i (unat t)" using assms(2) t by (auto simp: replica_ok_def)
  moreover have "slot_abs C (slots e i) = version h i (unat t)"
    using assms(1) t(2) by (simp add: master_ok_def engine_inv_def)
  ultimately show ?thesis by (simp add: done_loop_engine)
qed

text \<open>What the Done frame promises is promised of slots that are not waiting for an image.\<close>

lemma promised:
  assumes "pass_ok P C e sid {..<kSlotCount} hs hs' mid completed" and "(i, t) \<in> set completed"
    and "\<forall>i < kSlotCount. agrees e i (apply_slots p1 ! i) (hs ! i)"
    and "\<forall>i < kSlotCount. settled_slot (slot_frames i mid) (apply_slots p1 ! i) (apply_slots p2 ! i)"
  shows "i < kSlotCount \<and> t = slot_published_seq (slots e i) \<and> \<not> need_snapshot (apply_slots p2 ! i)"
proof -
  have i: "i < kSlotCount" "t = slot_published_seq (slots e i)" "\<not> slot_need_snapshot (hs' ! i)"
    and run: "slot_run P C e sid i (hs ! i) (hs' ! i) (slot_frames i mid)"
    using assms(1,2) by (auto simp: pass_ok_def)
  from agrees_ready [OF assms(3) [rule_format, OF i(1)] run] assms(4) i show ?thesis by (fastforce simp: settled_slot_def split: if_splits)
qed

text \<open>The course of a poll: the replica after the Begin frame, after the batch, and after the Done frame.\<close>

lemma poll_course:
  assumes "history_ok C R h" and "master_ok C e h" and "replica_ok C p h" and "sessions_ok mr" and "images_ok C e"
    and "\<And>i. slot_published_seq (slots e i) \<noteq> u64_max"
    and "rid \<noteq> []" and "Poll P C (Some e) mr (BuildHelloFrame rid (CurrentSessionId p) p kProtocolVersion) n = (mr', frames)"
  obtains sid reset mid completed hs hs' p1 p2 p3 where "frames = Frame_Begin sid reset # mid @ [Frame_Done sid completed]"
    and "deliver P C R clock 0 p frames = (p3, Some True)" and "done_loop p2 completed = (p3, True)"
    and "slave_session_id p3 = sid" and "in_session mr' rid sid" and "in_session mr rid (slave_session_id p) \<longrightarrow> apply_slots p1 = apply_slots p"
    and "pass_ok P C e sid {..<kSlotCount} hs hs' mid completed" and "replica_ok C p1 h" and "replica_ok C p2 h"
    and "\<forall>i < kSlotCount. agrees e i (apply_slots p1 ! i) (hs ! i)"
    and "\<forall>i < kSlotCount. settled_slot (slot_frames i mid) (apply_slots p1 ! i) (apply_slots p2 ! i)"
    and "mid = [] \<and> 0 < n \<longrightarrow> (\<forall>i < kSlotCount. no_frame P C e sid n i (hs ! i) (hs' ! i))"
proof -
  let ?hello = "BuildHelloFrame rid (CurrentSessionId p) p kProtocolVersion"
  have hello: "hello_ok ?hello" "session_id ?hello = slave_session_id p" "slot_positions ?hello = SlaveReplicator_Positions p" "replica_id ?hello = rid"
    using assms(7) by (simp_all add: hello_ok_def BuildHelloFrame_def Frame_Hello_def CurrentSessionId_def)
  obtain sid reset mid completed states hs' where frames: "frames = Frame_Begin sid reset # mid @ [Frame_Done sid completed]"
    and sid: "sid \<noteq> []" "\<not> reset \<longrightarrow> slave_session_id p = sid" and states: "length states = kSlotCount"
    and pass: "pass_ok P C e sid {..<kSlotCount} (foldl (hello_position e reset) states (SlaveReplicator_Positions p)) hs' mid completed"
    and session: "in_session mr' rid sid" "in_session mr rid (slave_session_id p) \<longrightarrow> \<not> reset"
    and idle: "mid = [] \<and> 0 < n \<longrightarrow> (\<forall>i < kSlotCount. no_frame P C e sid n i
      (foldl (hello_position e reset) states (SlaveReplicator_Positions p) ! i) (hs' ! i))"
    using Poll_pass [OF assms(8) hello(1) assms(4)] unfolding hello by metis
  let ?hs = "foldl (hello_position e reset) states (SlaveReplicator_Positions p)"
  have tr: "\<forall>f \<in> set frames. truthful P C h f"
    using truthful_Poll [OF assms(1,2,4) _ assms(8)] assms(5) unfolding images_ok_def scores_survive_def by blast
  obtain p1 where p1: "EnqueueFrame P C R p (Frame_Begin sid reset) (clock 0) = (p1, True)" "slave_session_id p1 = sid"
      "\<not> reset \<Longrightarrow> apply_slots p1 = apply_slots p"
    and agr: "\<forall>i < kSlotCount. agrees e i (apply_slots p1 ! i) (?hs ! i)"
    using begin_agrees [OF assms(3,2,6) sid states] by metis
  have ok1: "replica_ok C p1 h"
    using replica_ok_EnqueueFrame [OF assms(1,3), of P "Frame_Begin sid reset" "clock 0"] tr p1(1) by (simp add: frames)
  have mid: "slot_id f < kSlotCount \<and> truthful P C h f" if "f \<in> set mid" for f
    using that tr pass by (auto simp: frames pass_ok_def)
  have rdy: "ready P C e sid i (apply_slots p1 ! i) (slot_frames i mid)" if "i < kSlotCount" for i
    using agrees_ready [OF agr [rule_format, OF that]] pass that by (auto simp: pass_ok_def)
  have inv: "engine_inv C e" using assms(2) by (simp add: master_ok_def)
  obtain p2 where p2: "deliver P C R clock 1 p1 (mid @ [Frame_Done sid completed]) = deliver P C R clock (1 + length mid) p2 [Frame_Done sid completed]"
      "replica_ok C p2 h" "slave_session_id p2 = sid"
      "\<forall>i < kSlotCount. settled_slot (slot_frames i mid) (apply_slots p1 ! i) (apply_slots p2 ! i)"
    using batch_applies [OF assms(1) inv assms(5) sid(1) ok1 p1(2) zero_less_one mid rdy] by blast
  have eng2: "slave_engine p2 \<noteq> None" "length (apply_slots p2) = kSlotCount" using p2(2) by (auto simp: replica_ok_def slave_inv_def)
  obtain p3 where p3: "done_loop p2 completed = (p3, True)"
    using done_loop_accepts [of completed p2] promised [OF pass _ agr p2(4)] eng2(2) by (metis prod.collapse)
  then have end_ok: "EnqueueFrame P C R p2 (Frame_Done sid completed) now = (p3, True)" for now
    using eng2(1) p2(3) sid(1) by (simp add: EnqueueFrame_def Frame_Done_def)
  have kind: "subcmd (Frame_Begin sid reset) = kBegin" "subcmd (Frame_Done sid completed) = kDone"
    by (simp_all add: Frame_Begin_def Frame_Done_def)
  have run: "deliver P C R clock 0 p frames = (p3, Some True)" using p1(1) p2(1) end_ok kind by (simp add: frames)
  have ends: "slave_session_id p3 = sid" using p2(3) p3 by (metis done_loop_session fst_conv)
  have same: "in_session mr rid (slave_session_id p) \<longrightarrow> apply_slots p1 = apply_slots p" using p1(3) session(2) by blast
  show ?thesis by (rule that [of sid reset mid completed p3 p2 p1 ?hs hs', OF frames run p3 ends session(1) same pass ok1 p2(2) agr p2(4) idle])
qed

lemma poll_delivered:
  assumes "rng_ok R" and "system P C R e mr p net" and "images_ok C e" and "\<And>i. slot_published_seq (slots e i) \<noteq> u64_max"
    and "rid \<noteq> []" and "Poll P C (Some e) mr (BuildHelloFrame rid (CurrentSessionId p) p kProtocolVersion) n = (mr', frames)"
  shows "\<exists>p' sid reset mid completed. frames = Frame_Begin sid reset # mid @ [Frame_Done sid completed] \<and>
    deliver P C R clock 0 p frames = (p', Some True) \<and>
    (\<forall>i < kSlotCount. slot_frames i mid \<noteq> [] \<longrightarrow> applied_seq (apply_slots p' ! i) = frame_seq (last (slot_frames i mid))) \<and>
    (\<forall>(i, target) \<in> set completed. applied_seq (apply_slots p' ! i) = target \<longrightarrow>
       CanReadSlot p' i \<and> slot_abs C (slots (the (slave_engine p')) i) = slot_abs C (slots e i))"
proof -
  obtain h where h: "history_ok C R h" "master_ok C e h" "replica_ok C p h" "sessions_ok mr"
    using system_invariant [OF assms(1,2)] by (auto simp: system_inv_def)
  obtain sid reset mid completed hs hs' p1 p2 p3 where frames: "frames = Frame_Begin sid reset # mid @ [Frame_Done sid completed]"
    and run: "deliver P C R clock 0 p frames = (p3, Some True)" and p3: "done_loop p2 completed = (p3, True)"
    and pass: "pass_ok P C e sid {..<kSlotCount} hs hs' mid completed" and "replica_ok C p1 h" and ok2: "replica_ok C p2 h"
    and agr: "\<forall>i < kSlotCount. agrees e i (apply_slots p1 ! i) (hs ! i)"
    and set: "\<forall>i < kSlotCount. settled_slot (slot_frames i mid) (apply_slots p1 ! i) (apply_slots p2 ! i)"
    by (rule poll_course [OF h assms(3-6), of clock]) (rule that, assumption+)
  have "applied_seq (apply_slots p3 ! i) = frame_seq (last (slot_frames i mid))"
    if "i < kSlotCount" "slot_frames i mid \<noteq> []" for i
    using set [rule_format, OF that(1)] that(2) done_loop_keeps(2) [of p2 completed i] p3 by (auto simp: settled_slot_def)
  moreover have "CanReadSlot p3 i \<and> slot_abs C (slots (the (slave_engine p3)) i) = slot_abs C (slots e i)"
    if "(i, t) \<in> set completed" "applied_seq (apply_slots p3 ! i) = t" for i t
    using completed_readable [OF h(2) ok2 that(1) promised [OF pass _ agr set]] that(2) p3 by simp
  ultimately show ?thesis using frames run by (intro exI [of _ p3] exI [of _ sid] exI [of _ reset] exI [of _ mid] exI [of _ completed]) auto
qed

end

section \<open>Over the wire\<close>

lemma sendable_hello:
  assumes "length (apply_slots slave) \<le> kSlotCount"
  shows "sendable (BuildHelloFrame rid session slave kProtocolVersion)"
proof -
  let ?f = "BuildHelloFrame rid session slave kProtocolVersion"
  have "length (frame_args ?f) = 6 + 2 * length (apply_slots slave)"
    using length_encode_positions [of "SlaveReplicator_Positions slave"]
    by (simp add: BuildHelloFrame_def frame_args_def Frame_defs SlaveReplicator_Positions_def)
  then have "length (frame_args ?f) \<le> kMaxFrameElements" using assms by (simp add: kMaxFrameElements_def kSlotCount_def)
  moreover have "list_all (\<lambda>(slot, seq). slot < 2 ^ 64) (SlaveReplicator_Positions slave)"
    using assms by (auto simp: SlaveReplicator_Positions_def list_all_iff kSlotCount_def)
  ultimately show ?thesis by (simp add: sendable_def BuildHelloFrame_def Frame_defs)
qed

lemma ConnectionRoutine_hello:
  assumes "resp_lib P" and "has_role task kMaster" and "task_master task = Some mr" and "0 \<le> task_fd task"
    and "sendable hello" and "subcmd hello = kHello" and "length (EncodeFrame P hello) \<le> 63 * 1024 * 1024"
    and "concat (received reads) = EncodeFrame P hello" and "steady EAGAIN reads"
    and "\<And>bytes. bytes \<in> set (received reads) \<Longrightarrow> length bytes \<le> 16 * 1024"
    and "list_all (\<lambda>ready. 0 < ready) polls" and "length reads \<le> length polls"
    and "Poll P C (Some (task_engine task)) mr hello 4096 = (mr', frames)"
    and "healthy EAGAIN writes" and "length (concat (map (EncodeFrame P) frames)) \<le> progress writes"
  shows "\<exists>ws. ConnectionRoutine P C R clock task writes reads polls =
    Some (CloseTask (task\<lparr>task_master := Some mr'\<rparr>), \<lparr>conn_sent = concat (map (EncodeFrame P) frames), conn_writes = ws\<rparr>, Closed)"
proof -
  let ?c = "connection_codec task"
  have wire: "EncodeFrame P hello = resp_array (frame_args hello)" by (rule resp_lib.EncodeFrame_array [OF assms(1)])
  have c: "stream ?c = []" "\<not> protocol_error ?c" "max_stream_bytes ?c = 64 * 1024 * 1024"
    "codec_limits ?c = \<lparr>max_depth = 1, max_array_elements = 1000000, max_bulk_bytes = 64 * 1024 * 1024\<rparr>"
    using assms(2,3) by (simp_all add: connection_codec_def RespCodec_new_def kReplicationMaxArrayElements_def)
  have "hd (frame_args hello) = ''CACHE.REPL''" by (simp add: frame_args_def split: Subcmd.split)
  then have "accept_policy task (hd (frame_args hello)) (length (frame_args hello))"
    using assms(2,3) by (simp add: accept_policy_def ToUpperAscii_def)
  moreover have "length a \<le> 64 * 1024 * 1024" if "a \<in> set (frame_args hello)" for a
    using bulk_in_array [OF that] assms(7) by (simp add: wire)
  ultimately have acc: "acceptable (Some (accept_policy task)) (codec_limits ?c) (frame_args hello)"
    using assms(5) by (auto simp: acceptable_def fits_limits_def c sendable_def kMaxFrameElements_def list_all_iff)
  have "\<exists>ws. ReadInput P C R clock 0 task \<lparr>conn_sent = [], conn_writes = writes\<rparr> ?c reads polls =
    Some (CloseTask (task\<lparr>task_master := Some mr'\<rparr>),
      \<lparr>conn_sent = conn_sent \<lparr>conn_sent = [], conn_writes = writes\<rparr> @ concat (map (EncodeFrame P) frames), conn_writes = ws\<rparr>, Closed)"
  proof (rule resp_lib.ReadInput_hello [OF assms(1) c(2) acc _ _ _ assms(9,11,12,4,2,3,5,6,13)])
    show "length bytes + length (resp_array (frame_args hello)) \<le> max_stream_bytes ?c" if "bytes \<in> set (received reads)" for bytes
      using assms(10) [OF that] assms(7) by (simp add: wire c)
  qed (use assms(8,14,15) c(1) in \<open>simp_all add: wire resp_array_def resp_header_def\<close>)
  with assms(4) show ?thesis by (simp add: ConnectionRoutine_def)
qed

lemma demo_images: "images_ok ref_containers (CacheEngine_new ref_containers)"
  by (simp add: images_ok_def scores_survive_def CacheEngine_new_def HashSlot_new_def slot_view_def snapshot_fields_def ref_containers_def ref_map_def
      kMaxSnapshotElements_def DAList.empty.rep_eq)

section \<open>Properties\<close>

text \<open>(C4) A poll brings a replica forward. In every state a master and its replica can reach, if each slot of the master has an
  image of at most a million elements and every score survives being printed and read, the answer to the replica's hello, applied
  in order, is accepted whole: the poll succeeds, every slot ends at the last of its frames, and every slot whose position the
  Done frame promises and the frames reach becomes readable and holds exactly the master's objects.\<close>

theorem poll_catches_up:
  assumes "imt_lib C" and "resp_lib P" and "rng_ok R" and "system P C R e mr p net"
    and "images_ok C e" and "\<And>i. slot_published_seq (slots e i) \<noteq> u64_max" and "rid \<noteq> []"
    and "Poll P C (Some e) mr (BuildHelloFrame rid (CurrentSessionId p) p kProtocolVersion) n = (mr', frames)"
  shows "\<exists>p' sid reset mid completed. frames = Frame_Begin sid reset # mid @ [Frame_Done sid completed] \<and>
    deliver P C R clock 0 p frames = (p', Some True) \<and>
    (\<forall>i < kSlotCount. slot_frames i mid \<noteq> [] \<longrightarrow> applied_seq (apply_slots p' ! i) = frame_seq (last (slot_frames i mid))) \<and>
    (\<forall>(i, target) \<in> set completed. applied_seq (apply_slots p' ! i) = target \<longrightarrow>
       CanReadSlot p' i \<and> slot_abs C (slots (the (slave_engine p')) i) = slot_abs C (slots e i))"
  by (rule replica_codec.poll_delivered [OF replica_codec.intro [OF assms(1,2)] assms(3-8)])

text \<open>(C5) A replication round over sockets. When the replica's hello reaches the master and the master's answer
  reaches the replica, each cut into pieces in whatever way and with interrupted calls in between, the master's
  connection sends exactly the frames of its poll and closes, and the replica's poll applies exactly these frames.\<close>

theorem replication_round:
  assumes "resp_lib P" and "has_role task kMaster" and "task_master task = Some mr" and "0 \<le> task_fd task"
    and "hello = BuildHelloFrame rid (CurrentSessionId slave) slave kProtocolVersion" and "length (apply_slots slave) \<le> kSlotCount"
    and "length (EncodeFrame P hello) \<le> 63 * 1024 * 1024"
    and "Poll P C (Some (task_engine task)) mr hello 4096 = (mr', frames)"
    and "\<And>f. f \<in> set frames \<Longrightarrow> sendable f \<and> length (EncodeFrame P f) \<le> 255 * 1024 * 1024"
    and "answer = concat (map (EncodeFrame P) frames)"
    and "concat (received reads) = EncodeFrame P hello" and "steady EAGAIN reads"
    and "\<And>bytes. bytes \<in> set (received reads) \<Longrightarrow> length bytes \<le> 16 * 1024"
    and "list_all (\<lambda>ready. 0 < ready) polls" and "length reads \<le> length polls"
    and "healthy EAGAIN writes" and "length answer \<le> progress writes"
    and "master_port \<noteq> 0" and "OpenConnection dial"
    and "healthy EINTR writes'" and "length (EncodeFrame P hello) \<le> progress writes'"
    and "concat (received reads') = answer" and "steady EINTR reads'"
    and "\<And>bytes. bytes \<in> set (received reads') \<Longrightarrow> length bytes \<le> 64 * 1024"
  shows "(\<exists>ws. ConnectionRoutine P C R clock task writes reads polls =
      Some (CloseTask (task\<lparr>task_master := Some mr'\<rparr>), \<lparr>conn_sent = answer, conn_writes = ws\<rparr>, Closed)) \<and>
    PollReplicaOnce P C R clock' master_port rid dial writes' reads' (Some slave) =
      (EncodeFrame P hello, Some (map_prod Some id (deliver P C R clock' 0 slave frames)))"
proof
  have hello: "sendable hello" "subcmd hello = kHello"
    using sendable_hello [OF assms(6)] by (simp_all add: assms(5) BuildHelloFrame_def Frame_Hello_def)
  show "\<exists>ws. ConnectionRoutine P C R clock task writes reads polls =
      Some (CloseTask (task\<lparr>task_master := Some mr'\<rparr>), \<lparr>conn_sent = answer, conn_writes = ws\<rparr>, Closed)"
    using assms(17) unfolding assms(10)
    by (intro ConnectionRoutine_hello [OF assms(1-4) hello assms(7,11,12,13,14,15,8,16)]) simp_all
  show "PollReplicaOnce P C R clock' master_port rid dial writes' reads' (Some slave) =
      (EncodeFrame P hello, Some (map_prod Some id (deliver P C R clock' 0 slave frames)))"
    using assms(5,21,22) unfolding assms(10)
    by (intro PollReplicaOnce_frames [OF assms(1,18,19) _ assms(20) _ assms(23,24) _ assms(9)]) simp_all
qed

theorem poll_catches_up_witness:
  "\<exists>p'. deliver ref_resp ref_containers demo_rng (\<lambda>_. 7) 0 (SlaveReplicator_new (Some (CacheEngine_new ref_containers)))
      (snd (Poll ref_resp ref_containers (Some (CacheEngine_new ref_containers)) (MasterReplicator_new 1 2)
         (BuildHelloFrame ''r'' (CurrentSessionId (SlaveReplicator_new (Some (CacheEngine_new ref_containers))))
            (SlaveReplicator_new (Some (CacheEngine_new ref_containers))) kProtocolVersion) 9)) = (p', Some True)"
proof -
  have "rng_ok demo_rng" by (simp add: rng_ok_def demo_rng_def)
  moreover note demo_images
  moreover have "slot_published_seq (slots (CacheEngine_new ref_containers) i) \<noteq> u64_max" for i
    by (simp add: CacheEngine_new_def HashSlot_new_def)
  ultimately show ?thesis
    using poll_catches_up [OF ref_lib.imt_lib_axioms ref_resp_lib.resp_lib_axioms _ system_start _ _ _ surjective_pairing,
        of demo_rng "''r''" 1 2 9 "\<lambda>_. 7"] by fastforce
qed

text \<open>The first answer of a fresh master, to a replica that reports no slots.\<close>

lemma fresh_send_slot:
  assumes "i < kSlotCount" and "b = \<lparr>batch_frames = [], batch_payload = 0, batch_full = False, batch_next = nxt\<rparr>"
  shows "send_slot P C (CacheEngine_new C) sid 4096 i ReplicaSlotState_new b = (ReplicaSlotState_new, b, 0)"
  using assms
  by (simp add: send_slot_def HasBacklog_def SlotById_def SlotCount_def CacheEngine_new_def HashSlot_new_def HashSlot_Snapshot_def
      HashSlot_MinRetainedLogSeq_def HashSlot_MaxRetainedLogSeq_def BinlogBuffer_new_def BinlogBuffer_MinSeq_def BinlogBuffer_MaxSeq_def
      HashSlot_CopyLogsAfter_def BinlogBuffer_CopyAfter_def ReplicaSlotState_new_def Let_def)

lemma fresh_pass:
  assumes "set order \<subseteq> {..<kSlotCount}" and "b = \<lparr>batch_frames = [], batch_payload = 0, batch_full = False, batch_next = nxt\<rparr>"
  shows "BuildFrames_loop P C (CacheEngine_new C) sid 4096 order (replicate kSlotCount ReplicaSlotState_new) b cs =
    (replicate kSlotCount ReplicaSlotState_new, b, cs @ map (\<lambda>i. (i, 0)) order)"
  using assms(1)
proof (induction order arbitrary: cs)
  case (Cons i order)
  then have i: "i < kSlotCount" by simp
  have "send_slot P C (CacheEngine_new C) sid 4096 i ReplicaSlotState_new b = (ReplicaSlotState_new, b, 0)"
    by (rule fresh_send_slot [OF i assms(2)])
  moreover have "(replicate kSlotCount ReplicaSlotState_new)[i := ReplicaSlotState_new] = replicate kSlotCount ReplicaSlotState_new"
    by (metis i list_update_id nth_replicate)
  moreover have "close_slot 4096 kSlotCount i b = b" by (simp add: close_slot_def assms(2) kMaxBatchPayloadBytes_def)
  moreover have "\<not> slot_need_snapshot ReplicaSlotState_new" by (simp add: ReplicaSlotState_new_def)
  ultimately show ?case using Cons i by simp
qed simp

definition first_answer :: "Frame list" where
  "first_answer = [Frame_Begin ''1-2-r-1'' True, Frame_Done ''1-2-r-1'' (map (\<lambda>i. (i, 0)) [0..<kSlotCount])]"

lemma fresh_Poll:
  "snd (Poll P C (Some (CacheEngine_new C)) (MasterReplicator_new 1 2) (Frame_Hello ''r'' kProtocolVersion [] []) 4096) = first_answer"
proof -
  let ?hello = "Frame_Hello ''r'' kProtocolVersion [] []" and ?mr = "MasterReplicator_new 1 2"
  let ?replica = "ReplicaSession_new\<lparr>session_replica_id := ''r'', session_slots := replicate kSlotCount ReplicaSlotState_new,
    session_reset := True, session_session_id := ''1-2-r-1''\<rparr>"
  have order: "map (\<lambda>i. i mod kSlotCount) [0..<kSlotCount] = [0..<kSlotCount]" by (rule map_idI) simp
  have sid: "epoch ?mr @ ''-'' @ ''r'' @ ''-'' @ u64_to_string (next_session_seq ?mr) = ''1-2-r-1''"
  proof -
    have "show_nat 1 = ''1''" "show_nat 2 = ''2''" "u64_to_string 1 = ''1''" by code_simp+
    then show ?thesis by (simp add: MasterReplicator_new_def)
  qed
  have hello: "replica_id ?hello = ''r''" "subcmd ?hello = kHello" "proto_version ?hello = kProtocolVersion" "session_id ?hello = []"
    "slot_positions ?hello = []" by (simp_all add: Frame_Hello_def Frame_new_def)
  have "\<exists>mr1. OnHelloUnlocked (Some (CacheEngine_new C)) ?mr ?hello = (mr1, ''1-2-r-1'') \<and> replicas mr1 = [?replica]"
  proof -
    have empty: "replicas ?mr = []" by (simp add: MasterReplicator_new_def)
    have new: "NewSessionId (?mr\<lparr>replicas := rs\<rparr>) ''r'' = (?mr\<lparr>replicas := rs, next_session_seq := next_session_seq ?mr + 1\<rparr>, ''1-2-r-1'')" for rs
      unfolding sid [symmetric] by (simp add: NewSessionId_def)
    have "session_session_id ReplicaSession_new = []" by (simp add: ReplicaSession_new_def)
    then show ?thesis
      by (simp only: OnHelloUnlocked_def hello FindReplica_def empty option.case list.size upt_0 find.simps Let_def prod.case new
          append.simps nth_Cons_0 simp_thms if_True SlotCount_def foldl.simps list_update_code) simp
  qed
  then obtain mr1 where mr1: "OnHelloUnlocked (Some (CacheEngine_new C)) ?mr ?hello = (mr1, ''1-2-r-1'')" "replicas mr1 = [?replica]" by blast
  have "BuildFrames P C (CacheEngine_new C) ?replica 4096 = (?replica, [], map (\<lambda>i. (i, 0)) [0..<kSlotCount])"
    using fresh_pass [OF _ refl, of "[0..<kSlotCount]" P C "''1-2-r-1''" 0 "[]"]
    by (simp add: BuildFrames_def Let_def ReplicaSession_new_def order atLeast0LessThan)
  with mr1 show ?thesis by (simp add: Poll_def hello FindReplica_def first_answer_def)
qed

lemma length_show_nat: "length (show_nat n) \<le> Suc n"
proof (cases "n = 0")
  case False
  let ?k = "length (show_nat n) - 1"
  have "?k < 10 ^ ?k" by (rule power_gt_expt) simp
  with show_nat_bounds(2) [of n] False show ?thesis by linarith
qed (simp add: show_nat.simps)

lemma short_show_nat: "n < 10 ^ 10 \<Longrightarrow> length (show_nat n) \<le> 10"
proof (cases "n = 0")
  case False
  assume "n < 10 ^ 10"
  then have "(10::nat) ^ (length (show_nat n) - 1) < 10 ^ 10" using show_nat_bounds(2) [of n] False by (meson le_less_trans neq0_conv)
  then have "length (show_nat n) - 1 < 10" by (rule power_less_imp_less_exp [rotated]) simp
  then show ?thesis by linarith
qed (simp add: show_nat.simps)

lemma length_resp_array:
  assumes "\<forall>a \<in> set args. length a \<le> 10"
  shows "length (resp_array args) \<le> 30 * length args + 4"
proof -
  have "length (resp_bulk a) \<le> 26" if "a \<in> set args" for a
    using that assms length_show_nat [of "length a"] by (fastforce simp: resp_bulk_def CRLF_def)
  then have "length (concat (map resp_bulk args)) \<le> 26 * length args"
    by (induction args) (simp, fastforce)
  then show ?thesis using length_show_nat [of "length args"] by (simp add: resp_array_def resp_header_def CRLF_def)
qed

lemma first_answer_fits:
  assumes "f \<in> set first_answer"
  shows "sendable f \<and> length (EncodeFrame ref_resp f) \<le> 255 * 1024 * 1024"
proof
  have z: "u64_to_string 0 = ''0''" "u64_to_string 1 = ''1''" by code_simp+
  let ?done = "map (\<lambda>i. (i, 0)) [0..<kSlotCount]"
  have f: "f = Frame_Begin ''1-2-r-1'' True \<or> f = Frame_Done ''1-2-r-1'' ?done" using assms by (simp add: first_answer_def)
  have len: "length (frame_args f) \<le> 4 + 2 * kSlotCount"
    using f length_encode_positions [of ?done] by (auto simp: frame_args_def Frame_defs kSlotCount_def)
  then show "sendable f" using f by (auto simp: sendable_def Frame_defs kMaxFrameElements_def kSlotCount_def list_all_iff)
  have "length a \<le> 10" if "a \<in> set (frame_args f)" for a
    using that f by (auto simp: frame_args_def Frame_defs encode_positions_def z kSlotCount_def intro!: short_show_nat)
  then show "length (EncodeFrame ref_resp f) \<le> 255 * 1024 * 1024"
    using length_resp_array [of "frame_args f"] len by (simp add: ref_resp_lib.EncodeFrame_array kSlotCount_def)
qed

definition bytewise :: "string \<Rightarrow> RecvResult list" where
  "bytewise bytes = map (\<lambda>c. ReadBytes [c]) bytes"

lemma bytewise_reads [simp]:
  "concat (received (bytewise bytes)) = bytes" "steady again (bytewise bytes)" "length (bytewise bytes) = length bytes"
  "piece \<in> set (received (bytewise bytes)) \<Longrightarrow> length piece = 1"
  by (induction bytes) (auto simp: bytewise_def)

lemma healthy_ones [simp]: "healthy again (replicate n (Wrote (Suc 0)))" "progress (replicate n (Wrote (Suc 0))) = n"
  by (simp_all add: healthy_def progress_def list_all_iff)

definition first_hello :: Frame where
  "first_hello = Frame_Hello ''r'' kProtocolVersion [] []"

theorem replication_round_witness:
  "\<exists>mr' ws. ConnectionRoutine ref_resp ref_containers demo_rng (\<lambda>_. 7) (demo_task kMaster)
       (replicate (length (concat (map (EncodeFrame ref_resp) first_answer))) (Wrote 1))
       (bytewise (EncodeFrame ref_resp first_hello)) (replicate (length (EncodeFrame ref_resp first_hello)) 1) =
     Some (CloseTask (demo_task kMaster\<lparr>task_master := Some mr'\<rparr>),
       \<lparr>conn_sent = concat (map (EncodeFrame ref_resp) first_answer), conn_writes = ws\<rparr>, Closed)"
proof -
  let ?slave = "SlaveReplicator_new None :: ref_objects SlaveReplicator" and ?answer = "concat (map (EncodeFrame ref_resp) first_answer)"
  let ?mr = "fst (Poll ref_resp ref_containers (Some (task_engine (demo_task kMaster))) (MasterReplicator_new 1 2) first_hello 4096)"
  have hello: "first_hello = BuildHelloFrame ''r'' (CurrentSessionId ?slave) ?slave kProtocolVersion"
    by (simp add: first_hello_def BuildHelloFrame_def CurrentSessionId_def SlaveReplicator_new_def SlaveReplicator_Positions_def)
  have short: "length (EncodeFrame ref_resp first_hello) \<le> 1000"
    by (simp add: ref_resp_lib.EncodeFrame_array first_hello_def) code_simp
  have poll: "Poll ref_resp ref_containers (Some (task_engine (demo_task kMaster))) (MasterReplicator_new 1 2) first_hello 4096 =
      (?mr, first_answer)"
    using fresh_Poll [of ref_resp ref_containers] by (simp add: demo_task_def first_hello_def prod_eq_iff)
  have "(\<exists>ws. ConnectionRoutine ref_resp ref_containers demo_rng (\<lambda>_. 7) (demo_task kMaster)
       (replicate (length ?answer) (Wrote 1))
       (bytewise (EncodeFrame ref_resp first_hello)) (replicate (length (EncodeFrame ref_resp first_hello)) 1) =
     Some (CloseTask (demo_task kMaster\<lparr>task_master := Some ?mr\<rparr>), \<lparr>conn_sent = ?answer, conn_writes = ws\<rparr>, Closed)) \<and>
    PollReplicaOnce ref_resp ref_containers demo_rng (\<lambda>_. 7) 6399 ''r'' demo_dial
      (replicate (length (EncodeFrame ref_resp first_hello)) (Wrote 1)) (bytewise ?answer) (Some ?slave) =
    (EncodeFrame ref_resp first_hello, Some (map_prod Some id (deliver ref_resp ref_containers demo_rng (\<lambda>_. 7) 0 ?slave first_answer)))"
    by (rule replication_round [OF ref_resp_lib.resp_lib_axioms _ _ _ hello _ _ poll first_answer_fits])
       (use short in \<open>simp_all add: demo_task_def has_role_def ServerConfig_new_def SlaveReplicator_new_def demo_dial_def OpenConnection_def list_all_iff\<close>)
  then show ?thesis by blast
qed

end
