(* ===== verification/Convergence.thy ===== *)
theory Convergence
  imports CatchUp
begin

text \<open>
  Replication converges. A replica that goes on polling a master whose data are at rest is, after finitely many
  polls and from then on, readable in every slot and equal to the master, whatever state the two start from. Each poll
  carries at most so many frames; the argument is that a poll whose batch is empty leaves nothing to do, and
  every other one shortens the distance.
\<close>

section \<open>One slot\<close>

text \<open>What a replica still has to do in a slot.\<close>

definition slot_lag :: "'o CacheEngine \<Rightarrow> nat \<Rightarrow> SlotApplyState \<Rightarrow> nat" where
  "slot_lag e i st = (unat (slot_published_seq (slots e i)) - unat (applied_seq st)) + (if need_snapshot st then 1 else 0)"

text \<open>What a log without gaps says about the next record.\<close>

lemma log_upto_ends:
  assumes "log_upto n rs" and "rs \<noteq> []"
  shows "unat (rec_seq (hd rs)) = Suc (unat n) - length rs" and "rec_seq (last rs) = n" and "length rs \<le> unat n"
proof -
  have seqs: "map (\<lambda>r. unat (rec_seq r)) rs = [Suc (unat n) - length rs ..< Suc (unat n)]" and len: "length rs \<le> unat n"
    using assms(1) by (simp_all add: log_upto_def)
  have lt: "Suc (unat n) - length rs < Suc (unat n)" using assms(2) by (simp add: length_greater_0_conv)
  show "unat (rec_seq (hd rs)) = Suc (unat n) - length rs"
    using arg_cong [OF seqs, of hd] assms(2) lt by (simp add: hd_map del: upt_Suc)
  have "unat (rec_seq (last rs)) = unat n"
    using arg_cong [OF seqs, of last] assms(2) lt by (simp add: last_map del: upt_Suc)
  then show "rec_seq (last rs) = n" by (simp only: word_unat_eq_iff)
  show "length rs \<le> unat n" by (rule len)
qed

lemma HasBacklog_log:
  assumes "log_upto (slot_published_seq (slots e i)) (slot_log (slots e i))" and "i < kSlotCount"
    and "slot_published_seq (slots e i) \<noteq> u64_max" and "q \<le> slot_published_seq (slots e i)"
  shows "HasBacklog (Some e) i (q + 1) \<longleftrightarrow> q = slot_published_seq (slots e i) \<or>
    slot_log (slots e i) \<noteq> [] \<and> HashSlot_MinRetainedLogSeq (slots e i) \<le> q + 1"
proof -
  let ?s = "slots e i" and ?n = "slot_published_seq (slots e i)"
  have q: "q \<noteq> u64_max" using assms(3,4) by (metis word_order.extremum_uniqueI)
  note up = unat_Suc_u64 [OF assms(3)] unat_Suc_u64 [OF q]
  have "q + 1 \<noteq> 0" using up(2) by (metis nat.distinct(1) unat_0)
  moreover have "q + 1 \<le> ?n + 1" using up assms(4) by (simp add: word_le_nat_alt)
  moreover have "?n < q + 1 \<longleftrightarrow> q = ?n" using up assms(4) by (auto simp: word_less_nat_alt word_le_nat_alt word_unat_eq_iff)
  moreover have "HashSlot_MinRetainedLogSeq ?s \<noteq> 0 \<and> HashSlot_MinRetainedLogSeq ?s \<le> ?n + 1 \<and> HashSlot_MaxRetainedLogSeq ?s = ?n" if "slot_log ?s \<noteq> []"
  proof -
    note ends = log_upto_ends [OF assms(1) that]
    have "unat (rec_seq (hd (slot_log ?s))) \<noteq> 0" "unat (rec_seq (hd (slot_log ?s))) \<le> unat (?n + 1)" using ends up(1) by simp_all
    then show ?thesis using that ends(2)
      by (auto simp: HashSlot_MinRetainedLogSeq_def HashSlot_MaxRetainedLogSeq_def BinlogBuffer_MinSeq_def BinlogBuffer_MaxSeq_def word_le_nat_alt)
  qed
  ultimately show ?thesis
    using assms(2)
    by (cases "slot_log ?s = []")
       (auto simp: HasBacklog_def SlotById_def SlotCount_def HashSlot_Snapshot_def Let_def HashSlot_MinRetainedLogSeq_def
          HashSlot_MaxRetainedLogSeq_def BinlogBuffer_MinSeq_def BinlogBuffer_MaxSeq_def)
qed

lemma unat_run:
  assumes "\<forall>k < length rs. rec_seq (rs ! k) = (a :: u64) + of_nat (Suc k) \<and> rec_seq (rs ! k) \<le> m" and "m \<noteq> u64_max" and "a \<le> m"
    and "k < length rs"
  shows "unat (rec_seq (rs ! k)) = unat a + Suc k"
  using assms(4)
proof (induction k)
  case 0
  have "a \<noteq> u64_max" using assms(2,3) by (metis word_order.extremum_uniqueI)
  with 0 assms(1) unat_Suc_u64 [of a] show ?case by (auto simp: add.commute)
next
  case (Suc k)
  then have k: "rec_seq (rs ! k) \<le> m" "rec_seq (rs ! k) = a + of_nat (Suc k)" "rec_seq (rs ! Suc k) = a + of_nat (Suc (Suc k))"
    using assms(1) by (meson Suc_lessD)+
  then have "rec_seq (rs ! k) \<noteq> u64_max" using assms(2) by (metis word_order.extremum_uniqueI)
  moreover have "rec_seq (rs ! Suc k) = rec_seq (rs ! k) + 1" unfolding k(2,3) by simp
  ultimately show ?case using Suc unat_Suc_u64 by simp
qed

text \<open>Frames for a slot shorten what is left to do in it.\<close>

lemma slot_progress:
  assumes "agrees e i st hst" and "slot_run P C e sid i hst hst' fs" and "settled_slot fs st st'"
    and "log_upto (slot_published_seq (slots e i)) (slot_log (slots e i))" and "i < kSlotCount"
    and "slot_published_seq (slots e i) \<noteq> u64_max" and "applied_seq st \<le> slot_published_seq (slots e i)" and "fs \<noteq> []"
  shows "slot_lag e i st' < slot_lag e i st"
proof -
  let ?n = "slot_published_seq (slots e i)"
  have st': "\<not> need_snapshot st'" "applied_seq st' = frame_seq (last fs)" using assms(3,8) by (simp_all add: settled_slot_def)
  consider (image) "fs = [BuildSnapshotFrame P C e sid i]" "slot_need_snapshot hst \<or> \<not> HasBacklog (Some e) i (sent_seq hst + 1)"
    | (logs) rs where "fs = map (Frame_Log sid i) rs" "slot_need_snapshot hst \<longrightarrow> rs = []"
      "\<forall>k < length rs. rec_seq (rs ! k) = sent_seq hst + of_nat (Suc k) \<and> rec_seq (rs ! k) \<le> ?n"
    using assms(2) unfolding slot_run_def by blast
  then show ?thesis
  proof cases
    case image
    have "frame_seq (last fs) = ?n" by (simp add: image(1) frame_seq_def BuildSnapshotFrame_slot [OF assms(5)] Frame_Snapshot_def)
    moreover have "need_snapshot st \<or> applied_seq st \<noteq> ?n"
      using image(2) assms(1) HasBacklog_log [OF assms(4,5,6), of ?n] by (auto simp: agrees_def)
    ultimately show ?thesis using st' assms(7) by (auto simp: slot_lag_def word_le_nat_alt word_unat_eq_iff)
  next
    case (logs rs)
    then have rs: "rs \<noteq> []" and agr: "\<not> need_snapshot st" "sent_seq hst = applied_seq st"
      using assms(1,8) by (auto simp: agrees_def split: if_splits)
    have last: "frame_seq (last fs) = rec_seq (rs ! (length rs - 1))"
      using rs by (simp add: logs(1) frame_seq_def last_map last_conv_nth Frame_Log_def)
    have run: "\<forall>k < length rs. rec_seq (rs ! k) = applied_seq st + of_nat (Suc k) \<and> rec_seq (rs ! k) \<le> ?n"
      using logs(3) unfolding agr(2) .
    have "unat (rec_seq (rs ! (length rs - 1))) = unat (applied_seq st) + Suc (length rs - 1)"
      by (rule unat_run [OF run assms(6,7)]) (use rs in simp)
    moreover have "rec_seq (rs ! (length rs - 1)) \<le> ?n" using run [rule_format, of "length rs - 1"] rs by (metis diff_less length_greater_0_conv zero_less_one)
    ultimately show ?thesis using st' agr(1) last by (simp add: slot_lag_def word_le_nat_alt)
  qed
qed

text \<open>A slot that sends nothing into an empty batch has nothing to send.\<close>

lemma no_frame_needless:
  assumes "no_frame P C e sid n i hst hst'" and "i < kSlotCount" and "0 < n"
  shows "\<not> slot_need_snapshot hst"
proof -
  have "fits b k" if "batch_frames b = []" for b k using that by (simp add: fits_def)
  with assms show ?thesis by (auto simp: no_frame_def send_slot_def SlotById_def SlotCount_def Let_def split: if_splits)
qed

context imt_lib begin

lemma no_frame_level:
  assumes "no_frame P C e sid n i hst hst'" and "slot_inv C (slots e i)" and "i < kSlotCount" and "0 < n"
    and "slot_published_seq (slots e i) \<noteq> u64_max" and "sent_seq hst \<le> slot_published_seq (slots e i)"
  shows "\<not> slot_need_snapshot hst \<and> \<not> slot_need_snapshot hst' \<and> sent_seq hst = slot_published_seq (slots e i)"
proof -
  let ?s = "slots e i" and ?n = "slot_published_seq (slots e i)" and ?limit = "min 128 n"
  have slot: "SlotById e i = Some ?s" using assms(3) by (simp add: SlotById_def SlotCount_def)
  have log: "log_upto ?n (slot_log ?s)" using assms(2) by (auto simp: slot_inv_def)
  obtain b b' target where b: "batch_frames b = []" "\<not> batch_full b" "send_slot P C e sid n i hst b = (hst', b', target)" "batch_frames b' = []"
    using assms(1) by (auto simp: no_frame_def)
  have fit: "fits b k" for k using b(1) by (simp add: fits_def)
  let ?logs = "HashSlot_CopyLogsAfter ?s (sent_seq hst) ?limit (kMaxBatchPayloadBytes - batch_payload b)"
  have held: "\<not> slot_need_snapshot hst" "HasBacklog (Some e) i (sent_seq hst + 1)"
    using b fit assms(4) by (auto simp: send_slot_def slot Let_def split: if_splits)
  then have sent: "send_logs sid i ?n hst b ?logs = (hst', b')"
    using b assms(4) by (auto simp: send_slot_def slot Let_def HashSlot_Snapshot_def split: prod.splits)
  have level: "sent_seq hst = ?n"
  proof (rule ccontr)
    assume ne: "sent_seq hst \<noteq> ?n"
    then have min: "slot_log ?s \<noteq> []" "HashSlot_MinRetainedLogSeq ?s \<le> sent_seq hst + 1"
      using held(2) HasBacklog_log [OF log assms(3,5,6)] by auto
    have lt: "sent_seq hst < ?n" using ne assms(6) by simp
    obtain k where k: "map (\<lambda>r. unat (rec_seq r)) ?logs = [Suc (unat (sent_seq hst)) ..< Suc (unat (sent_seq hst)) + k]" "0 < k"
      using CopyLogsAfter_seqs [OF assms(2) _ lt min(2), of ?limit] min(1) assms(4) by (auto simp del: upt_Suc)
    then obtain r rs where r: "?logs = r # rs" "unat (rec_seq r) = Suc (unat (sent_seq hst))"
      by (cases ?logs) (auto simp: upt_conv_Cons simp del: upt_Suc)
    have "sent_seq hst \<noteq> u64_max" using lt by (metis word_not_simps(3))
    then have "rec_seq r = sent_seq hst + 1" using r(2) unat_Suc_u64 by (metis word_unat_eq_iff)
    moreover have "\<not> ?n < rec_seq r" using r(2) lt by (simp add: word_less_nat_alt)
    ultimately obtain st1 b1 where "send_logs sid i ?n st1 b1 rs = (hst', b')" "batch_frames b1 \<noteq> []"
      using sent r(1) fit by (auto simp: Let_def)
    then show False using b(4) send_logs_prefix by fastforce
  qed
  have "filter (\<lambda>r. ?n < rec_seq r) (slot_log ?s) = []"
    using log_upto_filter [OF log, of ?n] by (auto simp del: upt_Suc)
  then have "?logs = []" using CopyLogsAfter_prefix [of ?limit ?s ?n] level assms(4) by (metis min_less_iff_conj take_Nil zero_less_numeral)
  with sent level held show ?thesis by simp
qed

end

section \<open>One round\<close>

definition lag :: "'o CacheEngine \<Rightarrow> 'o SlaveReplicator \<Rightarrow> nat" where
  "lag e p = (\<Sum>i<kSlotCount. slot_lag e i (apply_slots p ! i))"

text \<open>The replica serves every slot, with the master's objects.\<close>

definition synced :: "('o, 'h, 's, 'z) containers \<Rightarrow> 'o CacheEngine \<Rightarrow> 'o SlaveReplicator \<Rightarrow> bool" where
  "synced C e p \<longleftrightarrow> (\<forall>i < kSlotCount. CanReadSlot p i \<and> slot_abs C (slots (the (slave_engine p)) i) = slot_abs C (slots e i))"

text \<open>A round: the replica asks, the master answers, the replica applies the answer.\<close>

definition poll_round ::
  "Resp \<Rightarrow> ('o, 'h, 's, 'z) containers \<Rightarrow> Rng \<Rightarrow> string \<Rightarrow> nat \<Rightarrow> 'o CacheEngine \<Rightarrow> (nat \<Rightarrow> u64) \<Rightarrow>
   MasterReplicator \<times> 'o SlaveReplicator \<Rightarrow> MasterReplicator \<times> 'o SlaveReplicator" where
  "poll_round P C R rid n e clock = (\<lambda>(mr, p).
     let (mr', frames) = Poll P C (Some e) mr (BuildHelloFrame rid (CurrentSessionId p) p kProtocolVersion) n
     in (mr', fst (deliver P C R clock 0 p frames)))"

text \<open>The maintenance of the master's logs, when it is due, runs between two polls.\<close>

definition upkeep :: "bool \<Rightarrow> 'o CacheEngine \<times> MasterReplicator \<Rightarrow> 'o CacheEngine \<times> MasterReplicator" where
  "upkeep due = (\<lambda>(e, mr). if due then (case Maintain (Some e) mr of (e', mr') \<Rightarrow> (the e', mr')) else (e, mr))"

primrec poll_rounds ::
  "Resp \<Rightarrow> ('o, 'h, 's, 'z) containers \<Rightarrow> Rng \<Rightarrow> string \<Rightarrow> nat \<Rightarrow> (nat \<Rightarrow> bool) \<Rightarrow> (nat \<Rightarrow> nat \<Rightarrow> u64) \<Rightarrow> nat \<Rightarrow>
   'o CacheEngine \<times> MasterReplicator \<times> 'o SlaveReplicator \<Rightarrow> 'o CacheEngine \<times> MasterReplicator \<times> 'o SlaveReplicator" where
  "poll_rounds P C R rid n due clock 0 s = s"
| "poll_rounds P C R rid n due clock (Suc k) s =
     (case poll_rounds P C R rid n due clock k s of (e, mr, p) \<Rightarrow>
        let (e1, mr1) = upkeep (due k) (e, mr) in (e1, poll_round P C R rid n e1 (clock k) (mr1, p)))"

abbreviation replica_after :: "'o CacheEngine \<times> MasterReplicator \<times> 'o SlaveReplicator \<Rightarrow> 'o SlaveReplicator" where
  "replica_after s \<equiv> snd (snd s)"

lemma deliver_system:
  "system P C R e mr p net \<Longrightarrow> set fs \<subseteq> net \<Longrightarrow> system P C R e mr (fst (deliver P C R clock k p fs)) net"
proof (induction fs arbitrary: k p)
  case (Cons f fs)
  obtain p1 ok where p1: "EnqueueFrame P C R p f (clock k) = (p1, ok)" by fastforce
  have "system P C R e mr p1 net" using system_deliver [OF Cons.prems(1), of f "clock k"] Cons.prems(2) p1 by simp
  then show ?case using Cons p1 by (cases ok) auto
qed simp

text \<open>Two states of the master between which only log records were dropped.\<close>

definition same_data :: "'o CacheEngine \<Rightarrow> 'o CacheEngine \<Rightarrow> bool" where
  "same_data e e' \<longleftrightarrow> (\<forall>i. slot_map (slots e' i) = slot_map (slots e i) \<and> slot_published_seq (slots e' i) = slot_published_seq (slots e i))"

lemma same_dataD:
  assumes "same_data e e'"
  shows "slot_map (slots e' i) = slot_map (slots e i)" and "slot_published_seq (slots e' i) = slot_published_seq (slots e i)"
  using assms by (simp_all add: same_data_def)

lemma same_data_trans: "same_data e e' \<Longrightarrow> same_data e' e'' \<Longrightarrow> same_data e e''"
  by (simp add: same_data_def)

lemma same_data_images: "same_data e e' \<Longrightarrow> images_ok C e' \<longleftrightarrow> images_ok C e"
  by (simp add: images_ok_def scores_survive_def slot_view_def same_data_def)

lemma same_data_lag: "same_data e e' \<Longrightarrow> lag e' p = lag e p"
  by (simp add: lag_def slot_lag_def same_data_def)

lemma same_data_synced: "same_data e e' \<Longrightarrow> synced C e' p \<longleftrightarrow> synced C e p"
proof -
  assume "same_data e e'"
  then have "slot_abs C (slots e' i) = slot_abs C (slots e i)" for i
    by (simp add: fun_eq_iff slot_abs_def slot_view_def same_data_def)
  then show ?thesis by (simp add: synced_def)
qed

lemma in_session_cong:
  assumes "map session_replica_id (replicas mr') = map session_replica_id (replicas mr)"
    and "map session_session_id (replicas mr') = map session_session_id (replicas mr)"
  shows "in_session mr' rid sid = in_session mr rid sid"
proof -
  have len: "length (replicas mr') = length (replicas mr)" using assms(1) map_eq_imp_length_eq by blast
  then have ids: "session_replica_id (replicas mr' ! i) = session_replica_id (replicas mr ! i)"
    "session_session_id (replicas mr' ! i) = session_session_id (replicas mr ! i)" if "i < length (replicas mr)" for i
    using that assms by (metis nth_map)+
  have "FindReplica mr' rid = FindReplica mr rid" unfolding FindReplica_def len by (rule find_cong) (use ids in auto)
  then show ?thesis using ids(2) FindReplica_Some [of mr rid] by (auto simp: in_session_def)
qed

lemma Maintain_sessions:
  assumes "Maintain (Some e) mr = (Some e', mr')"
  shows "map session_replica_id (replicas mr') = map session_replica_id (replicas mr)"
    and "map session_session_id (replicas mr') = map session_session_id (replicas mr)"
proof -
  have keep: "session_replica_id (drop_log slot through r) = session_replica_id r" "session_session_id (drop_log slot through r) = session_session_id r"
    for slot through r by (simp_all add: drop_log_def Let_def)
  have loop: "map session_replica_id rs' = map session_replica_id rs \<and> map session_session_id rs' = map session_session_id rs"
    if "EnforceBudget_loop budget order e0 rs kept = (e1, rs')" for budget order kept rs rs' and e0 e1 :: "'a CacheEngine"
    using that
    by (induction budget order e0 rs kept rule: EnforceBudget_loop.induct) (auto simp: keep comp_def Let_def split: if_splits prod.splits)
  obtain e1 where e1: "CollectGarbage (Some e) mr = Some e1" using CollectGarbage_Some by blast
  have run: "EnforceBudget (Some e1) mr = (Some e', mr')" using assms by (simp add: Maintain_def e1)
  have "mr' = mr \<or> (\<exists>budget order kept rs'. EnforceBudget_loop budget order e1 (replicas mr) kept = (e', rs') \<and> mr' = mr\<lparr>replicas := rs'\<rparr>)"
    using run unfolding EnforceBudget_def by (auto simp: Let_def split: if_splits prod.splits)
  then show "map session_replica_id (replicas mr') = map session_replica_id (replicas mr)"
    "map session_session_id (replicas mr') = map session_session_id (replicas mr)" using loop by fastforce+
qed

text \<open>A number that falls until it is zero, and a condition that holds from then on.\<close>

lemma settles:
  fixes f :: "nat \<Rightarrow> nat"
  assumes "\<And>k. if f (Suc k) = 0 then f (Suc (Suc k)) = 0 \<and> Q (Suc (Suc k)) else f (Suc (Suc k)) < f (Suc k)"
  shows "\<exists>N. \<forall>k \<ge> N. Q k"
proof -
  have down: "f (Suc k) \<le> f 1 - k" for k
  proof (induction k)
    case (Suc k)
    have "f (Suc (Suc k)) \<le> f (Suc k) - 1" using assms [of k] by (cases "f (Suc k) = 0") auto
    with Suc show ?case by linarith
  qed simp
  have "Q k" if "f 1 + 2 \<le> k" for k
  proof -
    define j where "j = k - 2"
    have j: "k = Suc (Suc j)" "f 1 \<le> j" using that unfolding j_def by linarith+
    then have "f (Suc j) = 0" using down [of j] by simp
    with assms [of j] j(1) show ?thesis by simp
  qed
  then show ?thesis by blast
qed

lemma lag_done: "lag e (fst (done_loop p items)) = lag e p"
  by (simp add: lag_def slot_lag_def done_loop_keeps)

lemma sum_less_one: "(\<And>i. i < k \<Longrightarrow> f i \<le> g i) \<Longrightarrow> j < k \<Longrightarrow> f j < g j \<Longrightarrow> (\<Sum>i<k. f i) < (\<Sum>i<k. g i)" for f :: "nat \<Rightarrow> nat"
  by (rule sum_strict_mono_ex1) auto

context replica_codec begin

text \<open>A log that is an end of the history has no gaps.\<close>

lemma master_slot_inv:
  assumes "history_ok C R h" and "master_ok C e h"
  shows "slot_inv C (slots e i)"
proof -
  let ?s = "slots e i"
  obtain k where k: "slot_log ?s = drop k (map fst (h i))" and seq: "unat (slot_seq ?s) = length (h i)" and inv: "engine_inv C e"
    using assms(2) unfolding master_ok_def by blast
  have "map (\<lambda>r. unat (rec_seq r)) (map fst (h i)) = [1..<Suc (length (h i))]"
  proof (rule nth_equalityI)
    fix j assume "j < length (map (\<lambda>r. unat (rec_seq r)) (map fst (h i)))"
    moreover from this have "rec_seq (fst (h i ! j)) = of_nat (Suc j)" "length (h i) < 2 ^ 64" using assms(1) by (auto simp: history_ok_def)
    ultimately show "map (\<lambda>r. unat (rec_seq r)) (map fst (h i)) ! j = [1..<Suc (length (h i))] ! j"
      by (simp add: unat_of_nat_u64 del: upt_Suc of_nat_Suc)
  qed (simp del: upt_Suc)
  then have "log_upto (slot_seq ?s) (map fst (h i))" by (simp add: log_upto_def seq)
  then have "log_upto (slot_seq ?s) (slot_log ?s)" unfolding k by (rule log_upto_drop)
  with engine_inv_slot [OF inv, of i] inv show ?thesis by (auto simp: slot_inv_def engine_inv_def view_ok_def)
qed

text \<open>A batch that is not empty brings the replica nearer.\<close>

lemma batch_progress:
  assumes "history_ok C R h" and "master_ok C e h" and "replica_ok C p1 h" and "\<And>i. slot_published_seq (slots e i) \<noteq> u64_max"
    and "pass_ok P C e sid {..<kSlotCount} hs hs' mid completed"
    and "\<forall>i < kSlotCount. agrees e i (apply_slots p1 ! i) (hs ! i)"
    and "\<forall>i < kSlotCount. settled_slot (slot_frames i mid) (apply_slots p1 ! i) (apply_slots p2 ! i)" and "mid \<noteq> []"
  shows "lag e p2 < lag e p1"
proof -
  have le: "applied_seq (apply_slots p1 ! i) \<le> slot_published_seq (slots e i)" if "i < kSlotCount" for i
    using assms(2,3) that by (auto simp: replica_ok_def master_ok_def engine_inv_def word_le_nat_alt)
  have less: "slot_lag e i (apply_slots p2 ! i) < slot_lag e i (apply_slots p1 ! i)" if "i < kSlotCount" "slot_frames i mid \<noteq> []" for i
  proof (rule slot_progress)
    show "log_upto (slot_published_seq (slots e i)) (slot_log (slots e i))"
      using master_slot_inv [OF assms(1,2), of i] by (auto simp: slot_inv_def)
    show "slot_run P C e sid i (hs ! i) (hs' ! i) (slot_frames i mid)" using assms(5) that(1) by (simp add: pass_ok_def)
  qed (use assms(4,6,7) le that in auto)
  have same: "slot_lag e i (apply_slots p2 ! i) \<le> slot_lag e i (apply_slots p1 ! i)" if "i < kSlotCount" for i
    using less [OF that] assms(7) that by (cases "slot_frames i mid = []") (auto simp: settled_slot_def)
  obtain f where f: "f \<in> set mid" using assms(8) by (cases mid) auto
  then have "slot_id f < kSlotCount" "slot_frames (slot_id f) mid \<noteq> []" using assms(5) by (auto simp: pass_ok_def filter_empty_conv)
  with less same show ?thesis unfolding lag_def by (intro sum_less_one [of kSlotCount _ _ "slot_id f"]) auto
qed

text \<open>After an empty batch nothing is left to do.\<close>

lemma empty_batch:
  assumes "history_ok C R h" and "master_ok C e h" and "replica_ok C p1 h" and "replica_ok C p2 h"
    and "\<And>i. slot_published_seq (slots e i) \<noteq> u64_max" and "0 < n"
    and "pass_ok P C e sid {..<kSlotCount} hs hs' [] completed"
    and "\<forall>i < kSlotCount. agrees e i (apply_slots p1 ! i) (hs ! i)"
    and "\<forall>i < kSlotCount. settled_slot [] (apply_slots p1 ! i) (apply_slots p2 ! i)"
    and "\<forall>i < kSlotCount. no_frame P C e sid n i (hs ! i) (hs' ! i)"
  shows "lag e p1 = 0 \<and> lag e p2 = 0 \<and> synced C e (fst (done_loop p2 completed))"
proof -
  have slot: "slot_lag e i (apply_slots p1 ! i) = 0 \<and> apply_slots p2 ! i = apply_slots p1 ! i \<and>
      applied_seq (apply_slots p1 ! i) = slot_published_seq (slots e i) \<and> (i, slot_published_seq (slots e i)) \<in> set completed"
    if i: "i < kSlotCount" for i
  proof -
    have agr: "agrees e i (apply_slots p1 ! i) (hs ! i)" and run: "no_frame P C e sid n i (hs ! i) (hs' ! i)" using assms(8,10) i by auto
    have le: "applied_seq (apply_slots p1 ! i) \<le> slot_published_seq (slots e i)"
      using assms(2,3) i by (auto simp: replica_ok_def master_ok_def engine_inv_def word_le_nat_alt)
    have "\<not> slot_need_snapshot (hs ! i)" using run by (rule no_frame_needless [OF _ i assms(6)])
    with agr have st: "\<not> need_snapshot (apply_slots p1 ! i)" "sent_seq (hs ! i) = applied_seq (apply_slots p1 ! i)"
      by (auto simp: agrees_def split: if_splits)
    from no_frame_level [OF run master_slot_inv [OF assms(1,2)] i assms(6,5)] st le
    have "\<not> slot_need_snapshot (hs' ! i)" "applied_seq (apply_slots p1 ! i) = slot_published_seq (slots e i)" by auto
    with st(1) assms(7,9) i show ?thesis by (auto simp: slot_lag_def settled_slot_def pass_ok_def)
  qed
  have "synced C e (fst (done_loop p2 completed))" unfolding synced_def
  proof (intro allI impI)
    fix i assume i: "i < kSlotCount"
    have nil: "\<forall>i < kSlotCount. settled_slot (slot_frames i []) (apply_slots p1 ! i) (apply_slots p2 ! i)" using assms(9) by simp
    show "CanReadSlot (fst (done_loop p2 completed)) i \<and>
        slot_abs C (slots (the (slave_engine (fst (done_loop p2 completed)))) i) = slot_abs C (slots e i)"
      by (rule completed_readable [OF assms(2,4) _ promised [OF assms(7) _ assms(8) nil]])
         (use slot [OF i] in \<open>simp_all add: done_loop_keeps\<close>)
  qed
  with slot show ?thesis by (simp add: lag_def)
qed

text \<open>One round, from any state.\<close>

lemma round_progress:
  assumes "rng_ok R" and "system P C R e mr p net" and "images_ok C e" and "\<And>i. slot_published_seq (slots e i) \<noteq> u64_max"
    and "rid \<noteq> []" and "0 < n" and "poll_round P C R rid n e clock (mr, p) = (mr', p')"
  shows "(\<exists>net'. system P C R e mr' p' net') \<and> in_session mr' rid (slave_session_id p') \<and>
    (in_session mr rid (slave_session_id p) \<longrightarrow> (if lag e p = 0 then lag e p' = 0 \<and> synced C e p' else lag e p' < lag e p))"
proof -
  obtain frames where poll: "Poll P C (Some e) mr (BuildHelloFrame rid (CurrentSessionId p) p kProtocolVersion) n = (mr', frames)"
      "p' = fst (deliver P C R clock 0 p frames)"
    using assms(7) by (auto simp: poll_round_def split: prod.splits)
  have "system P C R e mr' p (net \<union> set frames)"
    by (rule system_poll [OF assms(2) _ poll(1)]) (use assms(3) in \<open>auto simp: images_ok_def\<close>)
  from deliver_system [OF this, of frames clock 0] have next_state: "system P C R e mr' p' (net \<union> set frames)" using poll(2) by simp
  obtain h where h: "history_ok C R h" "master_ok C e h" "replica_ok C p h" "sessions_ok mr"
    using system_invariant [OF assms(1,2)] by (auto simp: system_inv_def)
  obtain sid reset mid completed hs hs' p1 p2 p3 where run: "deliver P C R clock 0 p frames = (p3, Some True)" and p3: "done_loop p2 completed = (p3, True)"
    and session: "slave_session_id p3 = sid" "in_session mr' rid sid" "in_session mr rid (slave_session_id p) \<longrightarrow> apply_slots p1 = apply_slots p"
    and pass: "pass_ok P C e sid {..<kSlotCount} hs hs' mid completed" and ok: "replica_ok C p1 h" "replica_ok C p2 h"
    and agr: "\<forall>i < kSlotCount. agrees e i (apply_slots p1 ! i) (hs ! i)"
    and set: "\<forall>i < kSlotCount. settled_slot (slot_frames i mid) (apply_slots p1 ! i) (apply_slots p2 ! i)"
    and idle: "mid = [] \<and> 0 < n \<longrightarrow> (\<forall>i < kSlotCount. no_frame P C e sid n i (hs ! i) (hs' ! i))"
    by (rule poll_course [OF h assms(3-5) poll(1), of clock]) (rule that, assumption+)
  have p': "p' = fst (done_loop p2 completed)" using poll(2) run p3 by simp
  have "if lag e p1 = 0 then lag e p' = 0 \<and> synced C e p' else lag e p' < lag e p1"
  proof (cases "mid = []")
    case True
    have "lag e p1 = 0 \<and> lag e p2 = 0 \<and> synced C e (fst (done_loop p2 completed))"
      by (rule empty_batch [OF h(1,2) ok assms(4,6) pass [unfolded True] agr]) (use set idle True assms(6) in simp_all)
    then show ?thesis by (simp add: p' lag_done)
  next
    case False
    have "lag e p2 < lag e p1" by (rule batch_progress [OF h(1,2) ok(1) assms(4) pass agr set False])
    then show ?thesis by (simp add: p' lag_done)
  qed
  moreover have "lag e p1 = lag e p" if "in_session mr rid (slave_session_id p)" using session(3) that by (simp add: lag_def)
  ultimately show ?thesis using next_state session(1,2) poll(2) run by auto
qed

text \<open>Maintenance drops log records and nothing else, and keeps the sessions.\<close>

lemma upkeep_keeps:
  assumes "rng_ok R" and "system P C R e mr p net" and "upkeep due (e, mr) = (e', mr')"
  shows "system P C R e' mr' p net" and "same_data e e'" and "in_session mr rid sid \<Longrightarrow> in_session mr' rid sid"
proof -
  have "system P C R e' mr' p net \<and> same_data e e' \<and> (in_session mr rid sid \<longrightarrow> in_session mr' rid sid)"
  proof (cases due)
    case True
    obtain e1 mr1 where m: "Maintain (Some e) mr = (Some e1, mr1)"
    proof -
      obtain e0 where "CollectGarbage (Some e) mr = Some e0" using CollectGarbage_Some by blast
      with that EnforceBudget_Some [of e0 mr] show ?thesis by (auto simp: Maintain_def)
    qed
    then have e': "e' = e1" "mr' = mr1" using assms(3) True by (simp_all add: upkeep_def)
    obtain h where h: "history_ok C R h" "master_ok C e h" using system_invariant [OF assms(1,2)] by (auto simp: system_inv_def)
    have "logs_ok e" using master_slot_inv [OF h] by (simp add: logs_ok_def slot_inv_def)
    from Maintain_data [OF this m] have "same_data e e1" by (simp add: same_data_def)
    moreover have "in_session mr1 rid sid" if "in_session mr rid sid" using in_session_cong [OF Maintain_sessions [OF m]] that by blast
    ultimately show ?thesis using system_maintain [OF assms(2) m] e' by simp
  qed (use assms in \<open>simp add: upkeep_def same_data_def\<close>)
  then show "system P C R e' mr' p net" "same_data e e'" "in_session mr rid sid \<Longrightarrow> in_session mr' rid sid" by auto
qed

lemma rounds_reach:
  assumes "rng_ok R" and "system P C R e mr p net" and "images_ok C e" and "\<And>i. slot_published_seq (slots e i) \<noteq> u64_max"
    and "rid \<noteq> []" and "0 < n" and "poll_rounds P C R rid n due clock k (e, mr, p) = (ek, mrk, pk)"
  shows "(\<exists>net. system P C R ek mrk pk net) \<and> same_data e ek"
  using assms(7)
proof (induction k arbitrary: ek mrk pk)
  case 0
  with assms(2) show ?case by (auto simp: same_data_def)
next
  case (Suc k)
  obtain e0 mr0 p0 where s0: "poll_rounds P C R rid n due clock k (e, mr, p) = (e0, mr0, p0)" by (metis prod_cases3)
  obtain e1 mr1 where up: "upkeep (due k) (e0, mr0) = (e1, mr1)" by fastforce
  have run: "poll_round P C R rid n e1 (clock k) (mr1, p0) = (mrk, pk)" "ek = e1" using Suc.prems s0 up by auto
  obtain net0 where net0: "system P C R e0 mr0 p0 net0" "same_data e e0" using Suc.IH [OF s0] by blast
  note up1 = upkeep_keeps [OF assms(1) net0(1) up]
  have data: "same_data e e1" using net0(2) up1(2) by (rule same_data_trans)
  have "\<exists>net'. system P C R e1 mrk pk net'"
    using round_progress [OF assms(1) up1(1) _ _ assms(5,6) run(1)] same_data_images [OF data] assms(3,4) same_dataD(2) [OF data] by auto
  with run(2) data show ?case by blast
qed

lemma round_step:
  fixes due :: "nat \<Rightarrow> bool" and clock :: "nat \<Rightarrow> nat \<Rightarrow> u64"
  assumes "rng_ok R" and "system P C R e mr p net" and "images_ok C e" and "\<And>i. slot_published_seq (slots e i) \<noteq> u64_max"
    and "rid \<noteq> []" and "0 < n"
  defines "s \<equiv> \<lambda>k. poll_rounds P C R rid n due clock k (e, mr, p)"
  shows "if lag e (replica_after (s (Suc k))) = 0 then lag e (replica_after (s (Suc (Suc k)))) = 0 \<and> synced C e (replica_after (s (Suc (Suc k))))
    else lag e (replica_after (s (Suc (Suc k)))) < lag e (replica_after (s (Suc k)))"
proof -
  have step: "\<exists>e1. same_data e e1 \<and> in_session mr2 rid (slave_session_id p2) \<and>
      (in_session mr1 rid (slave_session_id p1) \<longrightarrow>
        (if lag e p1 = 0 then lag e p2 = 0 \<and> synced C e p2 else lag e p2 < lag e p1))"
    if s1: "s k = (e1, mr1, p1)" and s2: "s (Suc k) = (e2, mr2, p2)" for k e1 mr1 p1 e2 mr2 p2
  proof -
    obtain e' mr' where up: "upkeep (due k) (e1, mr1) = (e', mr')" by fastforce
    have run: "poll_round P C R rid n e' (clock k) (mr', p1) = (mr2, p2)" using s1 s2 up by (auto simp: s_def)
    obtain net1 where net1: "system P C R e1 mr1 p1 net1" "same_data e e1"
      using rounds_reach [OF assms(1-6), of due clock k e1 mr1 p1] s1 by (auto simp: s_def)
    note up1 = upkeep_keeps [OF assms(1) net1(1) up]
    have data: "same_data e e'" using net1(2) up1(2) by (rule same_data_trans)
    show ?thesis
      using round_progress [OF assms(1) up1(1) _ _ assms(5,6) run] up1(3) same_data_images [OF data] assms(3,4) same_dataD(2) [OF data] data
        same_data_lag [OF data] same_data_synced [OF data, of C] by auto
  qed
  obtain e0 mr0 p0 e1 mr1 p1 e2 mr2 p2 where s: "s k = (e0, mr0, p0)" "s (Suc k) = (e1, mr1, p1)" "s (Suc (Suc k)) = (e2, mr2, p2)"
    by (metis prod_cases3)
  show ?thesis using step [OF s(1,2)] step [OF s(2,3)] by (simp add: s(2,3))
qed

lemma rounds_converge:
  assumes "rng_ok R" and "system P C R e mr p net" and "images_ok C e" and "\<And>i. slot_published_seq (slots e i) \<noteq> u64_max"
    and "rid \<noteq> []" and "0 < n"
  shows "\<exists>N. \<forall>k \<ge> N. synced C e (replica_after (poll_rounds P C R rid n due clock k (e, mr, p)))"
  by (rule settles [where f = "\<lambda>k. lag e (replica_after (poll_rounds P C R rid n due clock k (e, mr, p)))"])
     (rule round_step [OF assms])

end

section \<open>Properties\<close>

text \<open>(C2) Replication converges. From any state a master and its replica can reach, if each slot of the master has an image of at
  most a million elements and every score survives being printed and read, and the master's data then stay as they are,
  finitely many polls bring the replica to serve every slot with exactly the master's objects, and it stays so
  from then on, whatever maintenance drops from the logs between the polls. A poll may carry as little as one frame.\<close>

theorem replication_converges:
  assumes "imt_lib C" and "resp_lib P" and "rng_ok R" and "system P C R e mr p net"
    and "images_ok C e" and "\<And>i. slot_published_seq (slots e i) \<noteq> u64_max" and "rid \<noteq> []" and "0 < n"
  shows "\<exists>N. \<forall>k \<ge> N. synced C e (replica_after (poll_rounds P C R rid n due clock k (e, mr, p)))"
  by (rule replica_codec.rounds_converge [OF replica_codec.intro [OF assms(1,2)] assms(3-8)])

theorem replication_converges_witness:
  "\<exists>N. \<forall>k \<ge> N. synced ref_containers (CacheEngine_new ref_containers)
     (replica_after (poll_rounds ref_resp ref_containers demo_rng ''r'' 1 (\<lambda>k. 3 dvd k) (\<lambda>_ _. 7) k
       (CacheEngine_new ref_containers, MasterReplicator_new 1 2, SlaveReplicator_new (Some (CacheEngine_new ref_containers)))))"
proof -
  have "rng_ok demo_rng" by (simp add: rng_ok_def demo_rng_def)
  then show ?thesis
    by (rule replication_converges [OF ref_lib.imt_lib_axioms ref_resp_lib.resp_lib_axioms _ system_start demo_images])
       (simp_all add: CacheEngine_new_def HashSlot_new_def)
qed

end
