(* ===== verification/ReadTwins.thy ===== *)
theory ReadTwins
  imports CommandTwins "HOL-Library.Multiset"
begin

text \<open>
  The reading commands see only abstract objects: on two engines with the same abstract contents they give the same
  reply. HGETALL, HKEYS, HVALS and SMEMBERS list a container in its own order, which the contents do not determine:
  their replies are the same up to order. SCAN and SRANDMEMBER choose what they return and are not compared.
\<close>

section \<open>Containers with the same contents\<close>

context imt_map begin

lemma foreach_mset: "Map_Find M m = Map_Find M m' \<Longrightarrow> mset (Map_ForEach M m) = mset (Map_ForEach M m')"
proof -
  assume eq: "Map_Find M m = Map_Find M m'"
  have "set (Map_ForEach M m) = set (Map_ForEach M m')" using eq by (auto simp: mem_foreach)
  moreover have "distinct (Map_ForEach M m)" "distinct (Map_ForEach M m')" using foreach_distinct distinct_map by blast+
  ultimately show ?thesis by (metis set_eq_iff_mset_eq_distinct)
qed

lemma size_find: "Map_Find M m = Map_Find M m' \<Longrightarrow> Map_Size M m = Map_Size M m'"
  by (simp add: size_card)

end

context imt_set begin

lemma to_vector_mset: "Set_Contains S s = Set_Contains S s' \<Longrightarrow> mset (Set_ToVector S s) = mset (Set_ToVector S s')"
  by (metis set_to_vector set_eq_iff_mset_eq_distinct to_vector_distinct)

lemma size_contains: "Set_Contains S s = Set_Contains S s' \<Longrightarrow> Set_Size S s = Set_Size S s'"
  by (metis set_size size_mset to_vector_mset)

end

section \<open>Replies that agree\<close>

text \<open>Two listings of the same chunks of \<open>n\<close> elements, in whatever order.\<close>

definition same_up_to :: "nat \<Rightarrow> Response \<Rightarrow> Response \<Rightarrow> bool" where
  "same_up_to n r r' \<longleftrightarrow> r = r' \<or>
     (\<exists>ps qs. r = Array (concat ps) \<and> r' = Array (concat qs) \<and> mset ps = mset qs \<and> (\<forall>c \<in> set ps. length c = n))"

definition same_contents :: "('o, 'h, 's, 'z) containers \<Rightarrow> 'o CacheEngine \<Rightarrow> 'o CacheEngine \<Rightarrow> bool" where
  "same_contents C e e' \<longleftrightarrow> engine_abs C e = engine_abs C e'"

text \<open>A command whose replies on engines of the same contents are related by \<open>rel\<close>.\<close>

definition reads_alike ::
  "('o, 'h, 's, 'z) containers \<Rightarrow> (Response \<Rightarrow> Response \<Rightarrow> bool) \<Rightarrow>
   (string list \<Rightarrow> 'o CacheEngine \<Rightarrow> u64 \<Rightarrow> 'o CacheEngine \<times> Response) \<Rightarrow> bool" where
  "reads_alike C rel f \<longleftrightarrow> (\<forall>args e e' now. same_contents C e e' \<longrightarrow> rel (snd (f args e now)) (snd (f args e' now)))"

named_theorems read_twins \<open>reading commands that see only the abstract contents\<close>

lemma same_up_to_refl [simp]: "same_up_to n r r"
  by (simp add: same_up_to_def)

lemma same_up_to_map:
  assumes "mset xs = mset ys" and "\<And>x. length (f x) = n"
  shows "same_up_to n (Array (concat (map f xs))) (Array (concat (map f ys)))"
  unfolding same_up_to_def using assms by (intro disjI2 exI [of _ "map f xs"] exI [of _ "map f ys"]) auto

lemma same_up_to_elements:
  assumes "mset xs = mset ys"
  shows "same_up_to 1 (Array (map f xs)) (Array (map f ys))"
  using same_up_to_map [OF assms, of "\<lambda>x. [f x]" 1] by (simp add: concat_map_singleton)

lemma same_contents_Get: "same_contents C e e' \<Longrightarrow>
    abs_opt C (CacheEngine_Get C e key now) = abs_opt C (CacheEngine_Get C e' key now)"
  by (rule abs_Get) (simp add: same_contents_def)

section \<open>Reading an object\<close>

lemma HashOrWrongType_abs:
  assumes "abs_opt C x = abs_opt C y"
  obtains "HashOrWrongType x = (None, False)" "HashOrWrongType y = (None, False)"
  | "HashOrWrongType x = (None, True)" "HashOrWrongType y = (None, True)"
  | h h' where "HashOrWrongType x = (Some h, False)" "HashOrWrongType y = (Some h', False)"
      "Map_Find (hashes C) h = Map_Find (hashes C) h'"
proof -
  have "HashOrWrongType x = (None, False) \<and> HashOrWrongType y = (None, False) \<or>
      HashOrWrongType x = (None, True) \<and> HashOrWrongType y = (None, True) \<or>
      (\<exists>h h'. HashOrWrongType x = (Some h, False) \<and> HashOrWrongType y = (Some h', False) \<and>
        Map_Find (hashes C) h = Map_Find (hashes C) h')"
    using assms
    by (cases x; cases y)
      (auto simp: HashOrWrongType_def accessor_defs abs_obj_eq abs_val_def split: ObjectValue.splits)
  then show ?thesis using that by blast
qed

lemma ReadHash_alike:
  assumes "same_contents C e e'" and "rel (reader None) (reader None)" and "rel (Error kWrongTypeError) (Error kWrongTypeError)"
    and "\<And>h h'. Map_Find (hashes C) h = Map_Find (hashes C) h' \<Longrightarrow> rel (reader (Some h)) (reader (Some h'))"
  shows "rel (snd (ReadHash C e key now reader)) (snd (ReadHash C e' key now reader))"
  by (rule HashOrWrongType_abs [OF same_contents_Get [OF assms(1), of key now]]) (use assms(2-4) in \<open>simp_all add: ReadHash_def\<close>)

lemma ReadSet_alike:
  assumes "same_contents C e e'" and "rel (reader None) (reader None)" and "rel (Error kWrongTypeError) (Error kWrongTypeError)"
    and "\<And>s s'. Set_Contains (sets C) s = Set_Contains (sets C) s' \<Longrightarrow> rel (reader (Some s)) (reader (Some s'))"
  shows "rel (snd (ReadSet C e key now reader)) (snd (ReadSet C e' key now reader))"
  using same_contents_Get [OF assms(1), of key now] assms(2-4)
  by (cases "CacheEngine_Get C e key now"; cases "CacheEngine_Get C e' key now")
    (auto simp: ReadSet_def accessor_defs abs_obj_eq abs_val_def set_eq_iff fun_eq_iff split: ObjectValue.splits)

lemma ReadZSet_abs:
  assumes "same_contents C e e'"
  obtains "ReadZSet C e key now = ZMissing" "ReadZSet C e' key now = ZMissing"
  | "ReadZSet C e key now = ZWrongType" "ReadZSet C e' key now = ZWrongType"
  | z z' where "ReadZSet C e key now = ZOk z" "ReadZSet C e' key now = ZOk z'" "Map_Find (zsets C) z = Map_Find (zsets C) z'"
proof -
  have "ReadZSet C e key now = ZMissing \<and> ReadZSet C e' key now = ZMissing \<or>
      ReadZSet C e key now = ZWrongType \<and> ReadZSet C e' key now = ZWrongType \<or>
      (\<exists>z z'. ReadZSet C e key now = ZOk z \<and> ReadZSet C e' key now = ZOk z' \<and> Map_Find (zsets C) z = Map_Find (zsets C) z')"
    using same_contents_Get [OF assms, of key now]
    by (cases "CacheEngine_Get C e key now"; cases "CacheEngine_Get C e' key now")
      (auto simp: ReadZSet_def accessor_defs abs_obj_eq abs_val_def split: ObjectValue.splits)
  then show ?thesis using that by blast
qed

lemmas ReadHash_same = ReadHash_alike [where rel = "(=)"]
  and ReadHash_same_up_to = ReadHash_alike [where rel = "same_up_to n" for n]
  and ReadSet_same = ReadSet_alike [where rel = "(=)"]
  and ReadSet_same_up_to = ReadSet_alike [where rel = "same_up_to n" for n]

section \<open>The commands\<close>

lemma reads_alikeI:
  "(\<And>args e e' now. same_contents C e e' \<Longrightarrow> rel (snd (f args e now)) (snd (f args e' now))) \<Longrightarrow> reads_alike C rel f"
  by (simp add: reads_alike_def)

lemma same_contents_string: "same_contents C e e' \<Longrightarrow>
    \<forall>key now. ReadStringObject (CacheEngine_Get C e key now) = ReadStringObject (CacheEngine_Get C e' key now)"
  by (blast intro: ReadStringObject_abs same_contents_Get)

lemma same_contents_cases:
  assumes "same_contents C e e'"
  obtains "CacheEngine_Get C e key now = None" "CacheEngine_Get C e' key now = None"
  | a b where "CacheEngine_Get C e key now = Some a" "CacheEngine_Get C e' key now = Some b" "abs_obj C a = abs_obj C b"
      "Type a = Type b" "DeadlineUs a = DeadlineUs b"
  using same_contents_Get [OF assms, of key now] that
  by (cases "CacheEngine_Get C e key now"; cases "CacheEngine_Get C e' key now") (auto simp: abs_obj_eq Type_def DeadlineUs_def)

lemma twins_strings [read_twins]:
  "reads_alike C (=) (GetCmd_ExecCmd C)" "reads_alike C (=) (StrLenCmd_ExecCmd C)" "reads_alike C (=) (MGetCmd_ExecCmd C)"
  by (rule reads_alikeI, drule same_contents_string, simp add: GetCmd_ExecCmd_def StrLenCmd_ExecCmd_def MGetCmd_ExecCmd_def Let_def)+

lemma twins_Type [read_twins]: "reads_alike C (=) (TypeCmd_ExecCmd C)"
proof (rule reads_alikeI)
  fix args now and e e' :: "'a CacheEngine" assume "same_contents C e e'"
  then show "snd (TypeCmd_ExecCmd C args e now) = snd (TypeCmd_ExecCmd C args e' now)"
    by (rule same_contents_cases [of C e e' "args ! 1" now]) (simp_all add: TypeCmd_ExecCmd_def)
qed

lemma twins_PTtl [read_twins]: "reads_alike C (=) (PTtlCmd_ExecCmd C)"
proof (rule reads_alikeI)
  fix args now and e e' :: "'a CacheEngine" assume "same_contents C e e'"
  then show "snd (PTtlCmd_ExecCmd C args e now) = snd (PTtlCmd_ExecCmd C args e' now)"
    by (rule same_contents_cases [of C e e' "args ! 1" now]) (simp_all add: PTtlCmd_ExecCmd_def)
qed

lemma twins_Exists [read_twins]: "reads_alike C (=) (ExistsCmd_ExecCmd C)"
proof (rule reads_alikeI)
  fix args now and e e' :: "'a CacheEngine" assume "same_contents C e e'"
  then have "(CacheEngine_Get C e key now = None) = (CacheEngine_Get C e' key now = None)" for key
    by (rule same_contents_cases [of C e e' key now]) simp_all
  then show "snd (ExistsCmd_ExecCmd C args e now) = snd (ExistsCmd_ExecCmd C args e' now)" by (simp add: ExistsCmd_ExecCmd_def)
qed

lemma Ttl_Get: "CacheEngine_Ttl C e key now =
    (case CacheEngine_Get C e key now of
       None \<Rightarrow> -2
     | Some ob \<Rightarrow> if DeadlineUs ob = 0 then -1 else u64_to_i64 ((DeadlineUs ob - now) div 1000000))"
  unfolding CacheEngine_Get_live
  by (simp add: CacheEngine_Ttl_def HashSlot_Ttl_def engine_view_def slot_view_def live_def split: option.split)

lemma twins_Ttl [read_twins]: "reads_alike C (=) (TtlCmd_ExecCmd C)"
proof (rule reads_alikeI)
  fix args now and e e' :: "'a CacheEngine" assume "same_contents C e e'"
  then show "snd (TtlCmd_ExecCmd C args e now) = snd (TtlCmd_ExecCmd C args e' now)"
    by (rule same_contents_cases [of C e e' "args ! 1" now]) (simp_all add: TtlCmd_ExecCmd_def Ttl_Get)
qed

context imt_lib begin

lemma twins_hash [read_twins]:
  "reads_alike C (=) (HGetCmd_ExecCmd C)" "reads_alike C (=) (HExistsCmd_ExecCmd C)" "reads_alike C (=) (HLenCmd_ExecCmd C)"
  "reads_alike C (=) (HStrLenCmd_ExecCmd C)" "reads_alike C (=) (HMGetCmd_ExecCmd C)"
  by (rule reads_alikeI,
      simp only: HGetCmd_ExecCmd_def HExistsCmd_ExecCmd_def HLenCmd_ExecCmd_def HStrLenCmd_ExecCmd_def HMGetCmd_ExecCmd_def,
      rule ReadHash_same, assumption, auto dest: hm.size_find)+

lemma twins_set [read_twins]:
  "reads_alike C (=) (SIsMemberCmd_ExecCmd C)" "reads_alike C (=) (SCardCmd_ExecCmd C)" "reads_alike C (=) (SMIsMemberCmd_ExecCmd C)"
  by (rule reads_alikeI, simp only: SIsMemberCmd_ExecCmd_def SCardCmd_ExecCmd_def SMIsMemberCmd_ExecCmd_def,
      rule ReadSet_same, assumption, auto dest: sm.size_contains)+

lemma twins_hash_listings [read_twins]:
  "reads_alike C (same_up_to 1) (HKeysCmd_ExecCmd C)" "reads_alike C (same_up_to 1) (HValsCmd_ExecCmd C)"
  by (rule reads_alikeI, simp only: HKeysCmd_ExecCmd_def HValsCmd_ExecCmd_def, rule ReadHash_same_up_to, assumption,
      auto intro: same_up_to_elements hm.foreach_mset simp del: One_nat_def)+

lemma twins_HGetAll [read_twins]: "reads_alike C (same_up_to 2) (HGetAllCmd_ExecCmd C)"
  by (rule reads_alikeI, simp only: HGetAllCmd_ExecCmd_def, rule ReadHash_same_up_to, assumption,
      simp_all, rule same_up_to_map) (auto intro: hm.foreach_mset)

lemma twins_SMembers [read_twins]: "reads_alike C (same_up_to 1) (SMembersCmd_ExecCmd C)"
  by (rule reads_alikeI, simp only: SMembersCmd_ExecCmd_def MembersToResponses_def, rule ReadSet_same_up_to, assumption,
      auto intro: same_up_to_elements sm.to_vector_mset simp del: One_nat_def)

lemma sort_key_mset:
  assumes "mset xs = mset ys" and "inj_on f (set xs)"
  shows "sort_key f xs = sort_key f ys"
proof (rule map_inj_on [of f])
  have "sort (map f zs) = map f (sort_key f zs)" for zs by (rule properties_for_sort) simp_all
  moreover have "sort (map f xs) = sort (map f ys)" using assms(1) by (metis mset_map mset_sort properties_for_sort sorted_sort)
  ultimately show "map f (sort_key f xs) = map f (sort_key f ys)" by simp
qed (use assms mset_eq_setD [OF assms(1)] in auto)

lemma EntriesByLex_find:
  assumes "Map_Find (zsets C) z = Map_Find (zsets C) z'"
  shows "EntriesByLex (zsets C) z = EntriesByLex (zsets C) z'"
proof -
  have "mset (zentries (zsets C) z) = mset (zentries (zsets C) z')"
    using zm.foreach_mset [OF assms] by (simp add: zentries_def)
  moreover have "inj_on ze_member (set (zentries (zsets C) z))"
    using zm.mem_foreach [of _ _ z] by (auto simp: zentries_def inj_on_def)
  ultimately show ?thesis unfolding EntriesByLex_sort by (rule sort_key_mset)
qed

lemma EntriesByScore_find:
  "Map_Find (zsets C) z = Map_Find (zsets C) z' \<Longrightarrow> EntriesByScore (zsets C) z = EntriesByScore (zsets C) z'"
  unfolding EntriesByScore_def by (drule EntriesByLex_find) simp

lemma count_fold: "foldl (\<lambda>cnt (m, x). if Q x then cnt + 1 else cnt) k xs = k + int (size (filter_mset (\<lambda>(m, x). Q x) (mset xs)))"
  by (induction xs arbitrary: k) auto

lemma twins_ZScore [read_twins]: "reads_alike C (=) (ZScoreCmd_ExecCmd C)"
proof (rule reads_alikeI)
  fix args now and e e' :: "'o CacheEngine" assume "same_contents C e e'"
  then show "snd (ZScoreCmd_ExecCmd C args e now) = snd (ZScoreCmd_ExecCmd C args e' now)"
    by (rule same_contents_cases [of C e e' "args ! 1" now])
      (auto simp: ZScoreCmd_ExecCmd_def accessor_defs abs_obj_eq abs_val_def split: ObjectValue.splits)
qed

lemma zset_readers_alike:
  assumes "same_contents C e e'"
  shows "snd (ZCardCmd_ExecCmd C args e now) = snd (ZCardCmd_ExecCmd C args e' now)"
    and "RankResponse C e now key member rv = RankResponse C e' now key member rv"
    and "snd (ZCountCmd_ExecCmd C args e now) = snd (ZCountCmd_ExecCmd C args e' now)"
    and "snd (ZRangeCmd_ExecCmd C args e now) = snd (ZRangeCmd_ExecCmd C args e' now)"
proof -
  show "snd (ZCardCmd_ExecCmd C args e now) = snd (ZCardCmd_ExecCmd C args e' now)"
    by (rule ReadZSet_abs [OF assms, of "args ! 1" now]) (auto simp: ZCardCmd_ExecCmd_def dest: zm.size_find)
  show "RankResponse C e now key member rv = RankResponse C e' now key member rv"
    by (rule ReadZSet_abs [OF assms, of key now])
      (auto simp: RankResponse_def EntriesByScoreReverse_def dest: EntriesByScore_find)
  show "snd (ZCountCmd_ExecCmd C args e now) = snd (ZCountCmd_ExecCmd C args e' now)"
    by (rule ReadZSet_abs [OF assms, of "args ! 1" now])
      (auto simp: ZCountCmd_ExecCmd_def count_fold dest: zm.foreach_mset split: option.split)
  show "snd (ZRangeCmd_ExecCmd C args e now) = snd (ZRangeCmd_ExecCmd C args e' now)"
  proof (rule ReadZSet_abs [OF assms, of "args ! 1" now])
    fix z z' assume z: "ReadZSet C e (args ! 1) now = ZOk z" "ReadZSet C e' (args ! 1) now = ZOk z'" "Map_Find (zsets C) z = Map_Find (zsets C) z'"
    have "ZRange_select (zsets C) options bounds z = ZRange_select (zsets C) options bounds z'" for options bounds
      unfolding ZRange_select_def EntriesByScoreReverse_def EntriesByScore_find [OF z(3)] EntriesByLex_find [OF z(3)] ..
    with z(1,2) show ?thesis by (simp add: ZRangeCmd_ExecCmd_def split: option.split sum.split)
  qed (simp_all add: ZRangeCmd_ExecCmd_def split: option.split sum.split)
qed

lemma twins_zset [read_twins]:
  "reads_alike C (=) (ZCardCmd_ExecCmd C)" "reads_alike C (=) (ZRankCmd_ExecCmd C)" "reads_alike C (=) (ZRevRankCmd_ExecCmd C)"
  "reads_alike C (=) (ZCountCmd_ExecCmd C)" "reads_alike C (=) (ZRangeCmd_ExecCmd C)"
  unfolding reads_alike_def ZRankCmd_ExecCmd_def ZRevRankCmd_ExecCmd_def snd_conv using zset_readers_alike by blast+

end

section \<open>Dispatch\<close>

text \<open>How much of the reply the contents determine.\<close>

definition reply_agrees :: "string \<Rightarrow> Response \<Rightarrow> Response \<Rightarrow> bool" where
  "reply_agrees name = (if name = ''HGETALL'' then same_up_to 2
     else if name \<in> {''HKEYS'', ''HVALS'', ''SMEMBERS''} then same_up_to 1 else (=))"

lemma reply_agrees_refl [simp]: "reply_agrees name r r"
  by (simp add: reply_agrees_def)

context imt_lib begin

lemma read_entries_alike:
  "\<forall>(name, entry) \<in> set (commands C R). \<not> write_cmd entry \<longrightarrow> name \<notin> {''SCAN'', ''SRANDMEMBER''} \<longrightarrow>
     reads_alike C (reply_agrees name) (ExecCmd (entry_cmd entry))"
  by (simp add: commands_def reply_agrees_def read_twins del: One_nat_def)

lemma Execute_reads_alike:
  assumes "same_contents C e e'" and "args = [] \<or> \<not> IsWriteCommand C R (args ! 0)"
    and "args \<noteq> [] \<Longrightarrow> ToUpperAscii (args ! 0) \<notin> {''SCAN'', ''SRANDMEMBER''}"
  shows "reply_agrees (ToUpperAscii (args ! 0)) (snd (Execute C R args e now)) (snd (Execute C R args e' now))"
proof (cases "args = [] \<or> find_command C R (ToUpperAscii (args ! 0)) = None")
  case True
  then show ?thesis by (auto simp: Execute_def Let_def)
next
  case False
  then obtain entry where entry: "find_command C R (ToUpperAscii (args ! 0)) = Some entry" by auto
  then have "(ToUpperAscii (args ! 0), entry) \<in> set (commands C R)" by (auto simp: find_command_def dest: map_of_SomeD)
  moreover have "\<not> write_cmd entry" using False assms(2) entry by (simp add: IsWriteCommand_def)
  ultimately have "reads_alike C (reply_agrees (ToUpperAscii (args ! 0))) (ExecCmd (entry_cmd entry))"
    using read_entries_alike [of R] assms(3) False by fast
  with assms(1) entry False show ?thesis by (auto simp: Execute_def Let_def reads_alike_def split: option.split)
qed

end

end
