(* ===== verification/ReplicaReads.thy ===== *)
theory ReplicaReads
  imports Convergence ReadTwins
begin

text \<open>
  What replication is for: a client that reads from a replica gets what it would get from the master. A replica that has
  caught up answers every read as the master does, and replication brings it there.
\<close>

lemma synced_contents:
  assumes "synced C e p" and "slave_engine p = Some e'"
  shows "same_contents C e' e"
proof -
  have "slot_abs C (slots e' (SlotForKey key)) = slot_abs C (slots e (SlotForKey key))" for key
    using assms SlotForKey_less by (simp add: synced_def)
  then show ?thesis by (simp add: same_contents_def fun_eq_iff engine_abs_slot KeySlot_def)
qed

text \<open>On a replica that serves every slot, the dispatcher for replicas runs the command.\<close>

lemma synced_ExecuteRead:
  assumes "synced C e p" and "slave_engine p = Some e'" and "args = [] \<or> \<not> IsWriteCommand C R (args ! 0)"
    and "args \<noteq> [] \<Longrightarrow> ToUpperAscii (args ! 0) \<noteq> ''SCAN''"
  shows "snd (ExecuteRead C R p args now True) = snd (Execute C R args e' now)"
proof -
  have "SlotForKey key < length (apply_slots p) \<and> apply_state (apply_slots p ! SlotForKey key) = kOnline" for key
    using assms(1) SlotForKey_less [of key] by (simp add: synced_def CanReadSlot_def)
  then show ?thesis
    using assms(2-4)
    by (auto simp: ExecuteRead_def case_prod_beta ExecuteReadOnly_def Execute_def IsWriteCommand_def Let_def split: option.splits)
qed

context imt_lib begin

lemma synced_reads:
  assumes "synced C e p" and "slave_engine p \<noteq> None" and "args = [] \<or> \<not> IsWriteCommand C R (args ! 0)"
    and "args \<noteq> [] \<Longrightarrow> ToUpperAscii (args ! 0) \<notin> {''SCAN'', ''SRANDMEMBER''}"
  shows "reply_agrees (ToUpperAscii (args ! 0)) (snd (ExecuteRead C R p args now True)) (snd (Execute C R args e now))"
proof -
  obtain e' where e': "slave_engine p = Some e'" using assms(2) by blast
  have "snd (ExecuteRead C R p args now True) = snd (Execute C R args e' now)"
    by (rule synced_ExecuteRead [OF assms(1) e' assms(3)]) (use assms(4) in auto)
  with Execute_reads_alike [OF synced_contents [OF assms(1) e'] assms(3,4), of now] show ?thesis by simp
qed

end

section \<open>Properties\<close>

text \<open>(C3) A replica comes to answer reads as its master does. From any reachable state in which each slot of the master has an image of at
  most a million elements and every score survives being printed and read, if the master's data stay as they are, then
  after finitely many polls every read the replica is sent, at whatever time, gets the master's reply, errors for
  unknown commands and wrong types included; HGETALL, HKEYS, HVALS and SMEMBERS list the same elements in an
  order of their own. SCAN and SRANDMEMBER, which choose what to return, are left out.\<close>

theorem replica_reads_converge:
  assumes "imt_lib C" and "resp_lib P" and "rng_ok R" and "system P C R e mr p net"
    and "images_ok C e" and "\<And>i. slot_published_seq (slots e i) \<noteq> u64_max" and "rid \<noteq> []" and "0 < n"
  shows "\<exists>N. \<forall>k \<ge> N. \<forall>args now. \<not> IsWriteCommand C R (hd args) \<and> ToUpperAscii (hd args) \<notin> {''SCAN'', ''SRANDMEMBER''} \<and> args \<noteq> [] \<longrightarrow>
    reply_agrees (ToUpperAscii (hd args))
      (snd (ExecuteRead C R (replica_after (poll_rounds P C R rid n due clock k (e, mr, p))) args now True))
      (snd (Execute C R args e now))"
proof -
  let ?s = "\<lambda>k. poll_rounds P C R rid n due clock k (e, mr, p)"
  have rc: "replica_codec C P" by (rule replica_codec.intro [OF assms(1,2)])
  obtain N where N: "\<And>k. N \<le> k \<Longrightarrow> synced C e (replica_after (?s k))"
    using replica_codec.rounds_converge [OF rc assms(3-8)] by blast
  have "slave_engine (replica_after (?s k)) \<noteq> None" for k
  proof -
    obtain ek mrk pk where s: "?s k = (ek, mrk, pk)" by (metis prod_cases3)
    then obtain net' where "system P C R ek mrk pk net'" using replica_codec.rounds_reach [OF rc assms(3-8) s] by blast
    from replica_codec.system_invariant [OF rc assms(3) this] s show ?thesis by (auto simp: system_inv_def replica_ok_def)
  qed
  with N imt_lib.synced_reads [OF assms(1)] show ?thesis by (intro exI [of _ N]) (auto simp: hd_conv_nth)
qed

theorem replica_reads_converge_witness:
  "\<exists>N. \<forall>k \<ge> N.
     snd (ExecuteRead ref_containers demo_rng
       (replica_after (poll_rounds ref_resp ref_containers demo_rng ''r'' 1 (\<lambda>k. 3 dvd k) (\<lambda>_ _. 7) k
         (CacheEngine_new ref_containers, MasterReplicator_new 1 2, SlaveReplicator_new (Some (CacheEngine_new ref_containers)))))
       [''get'', ''k''] 9 True) = snd (Execute ref_containers demo_rng [''get'', ''k''] (CacheEngine_new ref_containers) 9)"
proof -
  have "rng_ok demo_rng" by (simp add: rng_ok_def demo_rng_def)
  then obtain N where N: "\<forall>k \<ge> N. \<forall>args now. \<not> IsWriteCommand ref_containers demo_rng (hd args) \<and>
      ToUpperAscii (hd args) \<notin> {''SCAN'', ''SRANDMEMBER''} \<and> args \<noteq> [] \<longrightarrow>
      reply_agrees (ToUpperAscii (hd args))
        (snd (ExecuteRead ref_containers demo_rng (replica_after (poll_rounds ref_resp ref_containers demo_rng ''r'' 1 (\<lambda>k. 3 dvd k) (\<lambda>_ _. 7) k
          (CacheEngine_new ref_containers, MasterReplicator_new 1 2, SlaveReplicator_new (Some (CacheEngine_new ref_containers))))) args now True))
        (snd (Execute ref_containers demo_rng args (CacheEngine_new ref_containers) now))"
    using replica_reads_converge [where rid = "''r''" and n = 1 and due = "\<lambda>k. 3 dvd k" and clock = "\<lambda>_ _. 7",
        OF ref_lib.imt_lib_axioms ref_resp_lib.resp_lib_axioms _ system_start [where a = 1 and b = 2] demo_images, of demo_rng]
    by (auto simp: CacheEngine_new_def HashSlot_new_def)
  have upper: "ToUpperAscii ''get'' = ''GET''" by code_simp
  have "\<not> IsWriteCommand ref_containers demo_rng ''get''" by (simp add: IsWriteCommand_def upper find_command_def commands_def)
  with N [rule_format, of _ "[''get'', ''k'']" 9] show ?thesis by (intro exI [of _ N]) (auto simp: upper reply_agrees_def)
qed

end
