(* ===== verification/Worker.thy ===== *)
theory Worker
  imports Connection "HOL-Library.Multiset"
begin

text \<open>
  The workers and the acceptor of the server, \<^verbatim>\<open>src/net/server.cpp\<close>: accepted descriptors are dispatched to
  workers in turn, wait in a worker's list, and are handed by its reaper to idle coroutines. The tasks of a worker
  are numbered; its state lists the descriptor of each. Running a coroutine until it yields is the
  parameter \<open>ends\<close>, which says of a descriptor whether its connection is over by then (theory
  \<open>Connection\<close> models what happens in between). Closed descriptors are recorded.
\<close>

section \<open>State\<close>

definition kPendingFdLimit :: nat where
  "kPendingFdLimit = 4096"

record Worker =
  pending_fds :: "int list"
  has_pending_fds :: bool
  idle_tasks :: "nat list"
  task_fds :: "int list"
  closed_fds :: "int list"

definition Worker_new :: Worker where
  "Worker_new = \<lparr>pending_fds = [], has_pending_fds = False, idle_tasks = [], task_fds = [], closed_fds = []\<rparr>"

text \<open>The pool: every coroutine starts without a descriptor, and pushes itself on the idle stack.\<close>

definition Worker_Run :: "Worker \<Rightarrow> int \<Rightarrow> Worker" where
  "Worker_Run w coroutine_count =
     (let pool_size = nat (max 1 coroutine_count)
      in w\<lparr>task_fds := replicate pool_size (-1), idle_tasks := rev [0..<pool_size] @ idle_tasks w\<rparr>)"

section \<open>Operations\<close>

definition DispatchFd :: "Worker \<Rightarrow> int \<Rightarrow> Worker" where
  "DispatchFd w fd =
     (if kPendingFdLimit \<le> length (pending_fds w) then w\<lparr>closed_fds := closed_fds w @ [fd]\<rparr>
      else w\<lparr>pending_fds := pending_fds w @ [fd], has_pending_fds := True\<rparr>)"

text \<open>The end of a connection: \<^verbatim>\<open>CloseTask\<close>, then the coroutine pushes its task on the idle stack.\<close>

definition finish_task :: "Worker \<Rightarrow> nat \<Rightarrow> Worker" where
  "finish_task w task =
     w\<lparr>closed_fds := closed_fds w @ [task_fds w ! task], task_fds := (task_fds w)[task := -1],
       idle_tasks := task # idle_tasks w\<rparr>"

text \<open>The reaper's turns: take the list, give each descriptor to an idle task, put back what is left.\<close>

definition ReapFds_take :: "Worker \<Rightarrow> Worker \<times> int list" where
  "ReapFds_take w = (w\<lparr>pending_fds := [], has_pending_fds := False\<rparr>, pending_fds w)"

definition assign_fd :: "(int \<Rightarrow> bool) \<Rightarrow> Worker \<Rightarrow> int \<Rightarrow> Worker" where
  "assign_fd ends w fd =
     (let task = hd (idle_tasks w);
          w1 = w\<lparr>idle_tasks := tl (idle_tasks w), task_fds := (task_fds w)[task := fd]\<rparr>
      in if ends fd then finish_task w1 task else w1)"

fun ReapFds_assign :: "(int \<Rightarrow> bool) \<Rightarrow> Worker \<Rightarrow> int list \<Rightarrow> Worker \<times> int list" where
  "ReapFds_assign ends w [] = (w, [])"
| "ReapFds_assign ends w (fd # fds) =
     (if idle_tasks w = [] then (w, fd # fds) else ReapFds_assign ends (assign_fd ends w fd) fds)"

fun put_back :: "Worker \<Rightarrow> int list \<Rightarrow> Worker" where
  "put_back w [] = w"
| "put_back w (fd # fds) =
     (if length (pending_fds w) < kPendingFdLimit then put_back (w\<lparr>pending_fds := pending_fds w @ [fd]\<rparr>) fds
      else w\<lparr>closed_fds := closed_fds w @ fd # fds\<rparr>)"

definition ReapFds_return :: "Worker \<Rightarrow> int list \<Rightarrow> Worker" where
  "ReapFds_return w fds =
     (if fds = [] then w
      else let w1 = put_back w fds in w1\<lparr>has_pending_fds := (pending_fds w1 \<noteq> [])\<rparr>)"

definition ReapFds :: "(int \<Rightarrow> bool) \<Rightarrow> Worker \<Rightarrow> Worker" where
  "ReapFds ends w =
     (if idle_tasks w = [] then w
      else if \<not> has_pending_fds w then w
      else let (w1, fds) = ReapFds_take w; (w2, rest) = ReapFds_assign ends w1 fds in ReapFds_return w2 rest)"

section \<open>Accepting\<close>

text \<open>A result of \<^verbatim>\<open>co_accept\<close> with the result of \<^verbatim>\<open>SetNonBlocking\<close>; a failed accept is tried again later.\<close>

fun AcceptRoutine :: "Worker list \<Rightarrow> nat \<Rightarrow> (int \<times> int) list \<Rightarrow> Worker list \<times> nat" where
  "AcceptRoutine workers next_worker [] = (workers, next_worker)"
| "AcceptRoutine workers next_worker ((fd, nonblock) # accepts) =
     (if fd < 0 then AcceptRoutine workers next_worker accepts
      else if nonblock \<noteq> 0 then AcceptRoutine workers next_worker accepts
      else AcceptRoutine (workers[next_worker := DispatchFd (workers ! next_worker) fd])
             ((next_worker + 1) mod length workers) accepts)"

text \<open>
  Starting the server: the exit code, or the configuration with its counts made positive and the
  workers, each with its pool. \<open>listen_fd\<close> is the result of creating the listening socket.
\<close>

definition Server_Run :: "ServerConfig \<Rightarrow> bool \<Rightarrow> int \<Rightarrow> int + ServerConfig \<times> Worker list" where
  "Server_Run config has_engine listen_fd =
     (if \<not> has_engine then Inl 1
      else
        let config1 = config\<lparr>cfg_worker_count := max 1 (cfg_worker_count config),
              cfg_coroutine_count_per_worker := max 1 (cfg_coroutine_count_per_worker config)\<rparr>
        in if listen_fd < 0 then Inl 1
           else Inr (config1, map (\<lambda>i. Worker_Run Worker_new (cfg_coroutine_count_per_worker config1))
                                [0..<nat (cfg_worker_count config1)]))"

section \<open>No descriptor is lost\<close>

text \<open>
  A worker runs in its own thread, while the acceptor dispatches to it and its connections end. The state
  is the worker, the descriptors its reaper holds in its hands, none when it is not reaping, and the
  descriptors dispatched so far.
\<close>

inductive worker_run :: "Worker \<Rightarrow> int list option \<Rightarrow> int multiset \<Rightarrow> bool" where
  worker_start: "worker_run (Worker_Run Worker_new cnt) None {#}"
| worker_dispatch: "worker_run w held seen \<Longrightarrow> 0 \<le> fd \<Longrightarrow> worker_run (DispatchFd w fd) held (seen + {#fd#})"
| worker_take: "worker_run w None seen \<Longrightarrow> idle_tasks w \<noteq> [] \<Longrightarrow> has_pending_fds w \<Longrightarrow> ReapFds_take w = (w', fds) \<Longrightarrow>
    worker_run w' (Some fds) seen"
| worker_assign: "worker_run w (Some (fd # fds)) seen \<Longrightarrow> idle_tasks w \<noteq> [] \<Longrightarrow>
    worker_run (assign_fd ends w fd) (Some fds) seen"
| worker_return: "worker_run w (Some fds) seen \<Longrightarrow> fds = [] \<or> idle_tasks w = [] \<Longrightarrow> worker_run (ReapFds_return w fds) None seen"
| worker_finish: "worker_run w held seen \<Longrightarrow> task < length (task_fds w) \<Longrightarrow> 0 \<le> task_fds w ! task \<Longrightarrow>
    worker_run (finish_task w task) held seen"

definition served_fds :: "Worker \<Rightarrow> int multiset" where
  "served_fds w = filter_mset (\<lambda>fd. 0 \<le> fd) (mset (task_fds w))"

abbreviation held_list :: "int list option \<Rightarrow> int list" where
  "held_list held \<equiv> (case held of None \<Rightarrow> [] | Some fds \<Rightarrow> fds)"

definition worker_inv :: "Worker \<Rightarrow> int list option \<Rightarrow> int multiset \<Rightarrow> bool" where
  "worker_inv w held seen \<longleftrightarrow>
     length (pending_fds w) \<le> kPendingFdLimit \<and> (has_pending_fds w \<longleftrightarrow> pending_fds w \<noteq> []) \<and>
     distinct (idle_tasks w) \<and> set (idle_tasks w) = {i. i < length (task_fds w) \<and> task_fds w ! i < 0} \<and>
     list_all (\<lambda>fd. 0 \<le> fd) (pending_fds w @ held_list held) \<and>
     seen = mset (pending_fds w) + mset (held_list held) + served_fds w + mset (closed_fds w)"

text \<open>The part of the invariant about the tasks: a task is idle exactly when it has no descriptor.\<close>

definition pool_ok :: "nat list \<Rightarrow> int list \<Rightarrow> bool" where
  "pool_ok idle fds \<longleftrightarrow> distinct idle \<and> set idle = {i. i < length fds \<and> fds ! i < 0}"

lemma served_update:
  assumes "task < length fds"
  shows "filter_mset (\<lambda>fd. 0 \<le> fd) (mset (fds[task := fd])) + (if 0 \<le> fds ! task then {#fds ! task#} else {#}) =
    filter_mset (\<lambda>fd. 0 \<le> fd) (mset fds) + (if 0 \<le> fd then {#fd#} else ({#} :: int multiset))"
proof -
  have "fds ! task \<in># mset fds" using assms by simp
  then obtain M where M: "mset fds = add_mset (fds ! task) M" by (metis insert_DiffM)
  moreover have "mset (fds[task := fd]) = add_mset fd M" unfolding mset_update [OF assms] M by simp
  ultimately show ?thesis by simp
qed

lemma pool_assign:
  assumes "pool_ok (task # idle) fds" and "0 \<le> fd"
  shows "pool_ok idle (fds[task := fd])"
proof -
  have "set idle = {i. i < length fds \<and> fds ! i < 0} - {task}" "distinct idle"
    using assms(1) unfolding pool_ok_def by (metis Diff_insert_absorb distinct.simps(2) list.simps(15))+
  moreover have "{i. i < length fds \<and> fds ! i < 0} - {task} = {i. i < length (fds[task := fd]) \<and> fds[task := fd] ! i < 0}"
    using assms(2) by (auto simp: nth_list_update split: if_splits) (metis list_update_beyond not_le nth_list_update leD)+
  ultimately show ?thesis by (simp only: pool_ok_def)
qed

lemma pool_finish:
  assumes "pool_ok idle fds" and "task < length fds" and "0 \<le> fds ! task"
  shows "pool_ok (task # idle) (fds[task := -1])"
proof -
  have "insert task {i. i < length fds \<and> fds ! i < 0} = {i. i < length (fds[task := -1]) \<and> fds[task := -1] ! i < 0}"
    using assms(2) by (auto simp: nth_list_update)
  moreover have "task \<notin> {i. i < length fds \<and> fds ! i < 0}" using assms(3) by simp
  ultimately show ?thesis using assms(1) by (simp only: pool_ok_def distinct.simps list.simps) simp
qed

lemma worker_inv_alt: "worker_inv w held seen \<longleftrightarrow>
     length (pending_fds w) \<le> kPendingFdLimit \<and> (has_pending_fds w \<longleftrightarrow> pending_fds w \<noteq> []) \<and>
     pool_ok (idle_tasks w) (task_fds w) \<and> list_all (\<lambda>fd. 0 \<le> fd) (pending_fds w @ held_list held) \<and>
     seen = mset (pending_fds w) + mset (held_list held) + served_fds w + mset (closed_fds w)"
  by (simp add: worker_inv_def pool_ok_def)

lemma worker_inv_finish:
  assumes "worker_inv w held seen" and "task < length (task_fds w)" and "0 \<le> task_fds w ! task"
  shows "worker_inv (finish_task w task) held seen"
  using assms pool_finish [of "idle_tasks w" "task_fds w" task] served_update [OF assms(2), of "-1"]
  by (auto simp: worker_inv_alt finish_task_def served_fds_def)

lemma worker_inv_assign:
  assumes "worker_inv w (Some (fd # fds)) seen" and "idle_tasks w \<noteq> []"
  shows "worker_inv (assign_fd ends w fd) (Some fds) seen"
proof -
  obtain task idle where idle: "idle_tasks w = task # idle" using assms(2) by (cases "idle_tasks w") auto
  let ?w = "w\<lparr>idle_tasks := idle, task_fds := (task_fds w)[task := fd]\<rparr>"
  have task: "task < length (task_fds w)" "task_fds w ! task < 0" using assms(1) idle by (auto simp: worker_inv_def)
  then have "worker_inv ?w (Some fds) seen"
    using assms(1) pool_assign [of task idle "task_fds w" fd] served_update [OF task(1), of fd]
    by (auto simp: worker_inv_alt served_fds_def idle)
  moreover have "0 \<le> fd" using assms(1) by (simp add: worker_inv_alt)
  ultimately show ?thesis
    using worker_inv_finish [of ?w "Some fds" seen task] task by (simp add: assign_fd_def idle Let_def)
qed

lemma worker_inv_return:
  assumes "worker_inv w (Some fds) seen"
  shows "worker_inv (ReapFds_return w fds) None seen"
proof -
  have "length (pending_fds w') \<le> kPendingFdLimit \<and> idle_tasks w' = idle_tasks w \<and> task_fds w' = task_fds w \<and>
      list_all (\<lambda>fd. 0 \<le> fd) (pending_fds w') \<and>
      mset (pending_fds w') + mset (closed_fds w') = mset (pending_fds w) + mset fds + mset (closed_fds w)"
    if "put_back w fds = w'" "length (pending_fds w) \<le> kPendingFdLimit" "list_all (\<lambda>fd. 0 \<le> fd) (pending_fds w @ fds)" for w fds w'
    using that
  proof (induction w fds rule: put_back.induct)
    case (2 w fd fds)
    then show ?case by (cases "length (pending_fds w) < kPendingFdLimit") auto
  qed simp
  from this [OF refl, of w fds] assms show ?thesis
    by (cases "fds = []") (auto simp: worker_inv_alt ReapFds_return_def Let_def served_fds_def)
qed

lemma worker_inv_run: "worker_run w held seen \<Longrightarrow> worker_inv w held seen"
proof (induction rule: worker_run.induct)
  case (worker_start cnt)
  show ?case by (auto simp: worker_inv_def Worker_Run_def Worker_new_def served_fds_def Let_def)
next
  case (worker_dispatch w held seen fd)
  then show ?case by (auto simp: worker_inv_alt DispatchFd_def served_fds_def)
next
  case (worker_take w seen w' fds)
  then show ?case by (auto simp: worker_inv_alt ReapFds_take_def served_fds_def)
qed (auto intro: worker_inv_assign worker_inv_return worker_inv_finish)

section \<open>Reaping\<close>

lemma ReapFds_assign_run:
  assumes "worker_run w (Some fds) seen" and "ReapFds_assign ends w fds = (w', rest)"
  shows "worker_run w' (Some rest) seen \<and> (rest = [] \<or> idle_tasks w' = [])"
  using assms by (induction ends w fds rule: ReapFds_assign.induct) (auto intro: worker_assign split: if_splits)

lemma ReapFds_run:
  assumes "worker_run w None seen"
  shows "worker_run (ReapFds ends w) None seen"
proof (cases "idle_tasks w = [] \<or> \<not> has_pending_fds w")
  case False
  obtain w1 fds where take: "ReapFds_take w = (w1, fds)" by fastforce
  obtain w2 rest where assign: "ReapFds_assign ends w1 fds = (w2, rest)" by fastforce
  have "worker_run w1 (Some fds) seen" using assms False take by (auto intro: worker_take)
  from ReapFds_assign_run [OF this assign] have "worker_run (ReapFds_return w2 rest) None seen" by (auto intro: worker_return)
  with False take assign show ?thesis by (simp add: ReapFds_def)
qed (use assms in \<open>auto simp: ReapFds_def\<close>)

lemma ReapFds_assign_all:
  "length fds \<le> length (idle_tasks w) \<Longrightarrow> \<exists>w'. ReapFds_assign ends w fds = (w', []) \<and> pending_fds w' = pending_fds w"
proof (induction ends w fds rule: ReapFds_assign.induct)
  case (2 ends w fd fds)
  then have idle: "idle_tasks w \<noteq> []" by auto
  have "length (idle_tasks w) \<le> Suc (length (idle_tasks (assign_fd ends w fd)))" "pending_fds (assign_fd ends w fd) = pending_fds w"
    by (cases "idle_tasks w"; simp add: assign_fd_def finish_task_def Let_def)+
  with 2 idle show ?case by auto
qed simp

section \<open>Properties\<close>

text \<open>(C23) No connection is lost or served twice. However dispatching, reaping and the ends of connections
  interleave, every descriptor a worker was ever given is in exactly one place: waiting, in the reaper's
  hands, with one task, or closed; at most 4096 wait; the flag the reaper reads is set exactly when some
  do; and a task is on the idle stack, once, exactly when it has no connection.\<close>

theorem worker_accounts_for_fds:
  assumes "worker_run w held seen"
  shows "worker_inv w held seen"
  by (rule worker_inv_run [OF assms])

theorem worker_accounts_for_fds_witness:
  "worker_inv (assign_fd (\<lambda>_. False) (fst (ReapFds_take (DispatchFd (Worker_Run Worker_new 2) 9))) 9) (Some []) {#9#}"
proof (rule worker_accounts_for_fds)
  have "worker_run (DispatchFd (Worker_Run Worker_new 2) 9) None {#9#}"
    using worker_dispatch [OF worker_start, of 9 2] by simp
  then have "worker_run (fst (ReapFds_take (DispatchFd (Worker_Run Worker_new 2) 9))) (Some [9]) {#9#}"
    by (rule worker_take [where fds = "[9]"])
      (simp_all add: DispatchFd_def Worker_Run_def Worker_new_def ReapFds_take_def kPendingFdLimit_def Let_def)
  then show "worker_run (assign_fd (\<lambda>_. False) (fst (ReapFds_take (DispatchFd (Worker_Run Worker_new 2) 9))) 9) (Some []) {#9#}"
    by (rule worker_assign)
      (simp add: DispatchFd_def Worker_Run_def Worker_new_def ReapFds_take_def kPendingFdLimit_def Let_def)
qed

text \<open>A worker with enough idle tasks leaves no connection waiting: after one reap every descriptor that
  waited is with a task, or its connection is over and it is closed.\<close>

theorem reap_serves_waiting:
  assumes "worker_run w None seen" and "length (pending_fds w) \<le> length (idle_tasks w)"
  shows "pending_fds (ReapFds ends w) = [] \<and> seen = served_fds (ReapFds ends w) + mset (closed_fds (ReapFds ends w))"
proof -
  have inv: "has_pending_fds w \<longleftrightarrow> pending_fds w \<noteq> []" using worker_inv_run [OF assms(1)] by (simp add: worker_inv_alt)
  have "pending_fds (ReapFds ends w) = []"
  proof (cases "pending_fds w = []")
    case False
    then have idle: "idle_tasks w \<noteq> []" using assms(2) by auto
    obtain w2 where "ReapFds_assign ends (w\<lparr>pending_fds := [], has_pending_fds := False\<rparr>) (pending_fds w) = (w2, [])"
        "pending_fds w2 = []"
      using ReapFds_assign_all [of "pending_fds w" "w\<lparr>pending_fds := [], has_pending_fds := False\<rparr>" ends] assms(2) by auto
    with False idle inv show ?thesis by (simp add: ReapFds_def ReapFds_take_def ReapFds_return_def)
  qed (use inv in \<open>simp add: ReapFds_def\<close>)
  with worker_inv_run [OF ReapFds_run [OF assms(1), of ends]] show ?thesis by (simp add: worker_inv_alt)
qed

theorem reap_serves_waiting_witness:
  "pending_fds (ReapFds (\<lambda>_. False) (DispatchFd (Worker_Run Worker_new 2) 9)) = []"
proof -
  have "worker_run (DispatchFd (Worker_Run Worker_new 2) 9) None ({#} + {#9#})" by (intro worker_dispatch worker_start) simp
  from reap_serves_waiting [OF this, of "\<lambda>_. False"] show ?thesis
    by (simp add: DispatchFd_def Worker_Run_def Worker_new_def kPendingFdLimit_def Let_def)
qed

definition accepted :: "(int \<times> int) list \<Rightarrow> int list" where
  "accepted accepts = map fst (filter (\<lambda>(fd, nonblock). 0 \<le> fd \<and> nonblock = 0) accepts)"

text \<open>Connections are spread evenly: of the descriptors accepted, the \<open>k\<close>-th from now goes to the worker
  \<open>k\<close> places after the next one, round and round, and failed accepts take no turn.\<close>

theorem accept_round_robin:
  assumes "j < length workers" and "next_worker < length workers"
  shows "fst (AcceptRoutine workers next_worker accepts) ! j =
    foldl DispatchFd (workers ! j) (nths (accepted accepts) {k. (next_worker + k) mod length workers = j})"
  using assms
proof (induction workers next_worker accepts rule: AcceptRoutine.induct)
  case (2 workers next_worker fd nonblock accepts)
  show ?case
  proof (cases "0 \<le> fd \<and> nonblock = 0")
    case True
    have "{k. ((next_worker + 1) mod length workers + k) mod length workers = j} = {k. (next_worker + Suc k) mod length workers = j}"
      by (simp add: mod_simps)
    moreover have "0 < length workers" using 2(5) by linarith
    ultimately show ?thesis using 2(3-5) True by (auto simp: accepted_def nths_Cons nth_list_update)
  next
    case False
    with 2 show ?thesis by (auto simp: accepted_def)
  qed
qed (simp add: accepted_def)

theorem accept_round_robin_witness:
  "fst (AcceptRoutine [Worker_new, Worker_new] 0 [(7, 0), (-1, 0), (8, 0), (9, 0)]) ! 0 =
   foldl DispatchFd Worker_new [7, 9]"
  using accept_round_robin [of 0 "[Worker_new, Worker_new]" 0 "[(7, 0), (-1, 0), (8, 0), (9, 0)]"] by (simp add: accepted_def nths_Cons)

end
