(* ===== verification/Startup.thy ===== *)
theory Startup
  imports Worker ReplicationLink ExpireSweeper
begin

text \<open>
  The program's entry, \<^verbatim>\<open>src/main.cpp\<close>: reading the command line, building the engine and the replicator of the
  role, and the two background loops. Parsing an endpoint is done by a third-party class, the parameter
  \<open>parse\<close>; the random numbers of the master's epoch are arguments.
\<close>

section \<open>The command line\<close>

text \<open>\<^verbatim>\<open>std::atoi\<close>, as glibc computes it: the value of \<^verbatim>\<open>strtol\<close> cut to 32 bits.\<close>

definition atoi :: "string \<Rightarrow> int" where
  "atoi text = sint (word_of_int (fst (strtoll text)) :: 32 word)"

fun parse_flags ::
  "(string \<Rightarrow> (string \<times> 16 word) option) \<Rightarrow> ServerConfig \<Rightarrow> string list \<Rightarrow> int + ServerConfig" where
  "parse_flags parse config [] = Inr config"
| "parse_flags parse config (arg # args) =
     (if arg = ''--replica'' then parse_flags parse (config\<lparr>cfg_role := kReplica\<rparr>) args
      else if arg = ''--replica-reads'' then parse_flags parse (config\<lparr>cfg_replica_reads := True\<rparr>) args
      else if prefix ''--master='' arg then
        (case parse (drop 9 arg) of
           Some (host, port) \<Rightarrow> parse_flags parse (config\<lparr>cfg_master_host := host, cfg_master_port := port\<rparr>) args
         | None \<Rightarrow> parse_flags parse config args)
      else if prefix ''--binlog-budget='' arg then
        (case ParseInt64 (drop 16 arg) of
           None \<Rightarrow> Inl 2
         | Some bytes \<Rightarrow>
             if bytes < 0 then Inl 2
             else parse_flags parse (config\<lparr>cfg_binlog_budget_bytes := nat bytes\<rparr>) args)
      else if prefix ''--replica-id='' arg then parse_flags parse (config\<lparr>cfg_replica_id := drop 13 arg\<rparr>) args
      else parse_flags parse config args)"

definition parse_args ::
  "(string \<Rightarrow> (string \<times> 16 word) option) \<Rightarrow> string list \<Rightarrow> int + ServerConfig" where
  "parse_args parse argv =
     (let config = ServerConfig_new;
          config = (if 2 \<le> length argv then config\<lparr>cfg_port := word_of_int (atoi (argv ! 1))\<rparr> else config);
          config = (if 3 \<le> length argv then config\<lparr>cfg_worker_count := atoi (argv ! 2)\<rparr> else config);
          config = (if 4 \<le> length argv then config\<lparr>cfg_coroutine_count_per_worker := atoi (argv ! 3)\<rparr> else config)
      in case parse_flags parse config (drop 4 argv) of
           Inl code \<Rightarrow> Inl code
         | Inr config \<Rightarrow>
             Inr (if cfg_replica_id config = []
                  then config\<lparr>cfg_replica_id := cfg_host config @ '':'' @ show_nat (unat (cfg_port config))\<rparr>
                  else config))"

section \<open>The node\<close>

record 'o Node =
  node_config :: ServerConfig
  node_engine :: "'o CacheEngine"
  node_slave :: "'o SlaveReplicator option"
  node_master :: "MasterReplicator option"

text \<open>The replica's replicator works on the server's engine, and turns its log off.\<close>

definition build_node ::
  "('o, 'h, 's, 'z) containers \<Rightarrow> nat \<Rightarrow> nat \<Rightarrow> ServerConfig \<Rightarrow> 'o Node" where
  "build_node C random1 random2 config =
     (let engine = CacheEngine_new C;
          slave = (if cfg_role config = kReplica then Some (SlaveReplicator_new (Some engine)) else None);
          master = (if cfg_role config = kMaster
                    then Some (SetGlobalBinlogBudget (MasterReplicator_new random1 random2) (cfg_binlog_budget_bytes config))
                    else None)
      in \<lparr>node_config = config,
          node_engine = (case slave of None \<Rightarrow> engine | Some sl \<Rightarrow> the (slave_engine sl)),
          node_slave = slave, node_master = master\<rparr>)"

definition main_start ::
  "('o, 'h, 's, 'z) containers \<Rightarrow> (string \<Rightarrow> (string \<times> 16 word) option) \<Rightarrow> nat \<Rightarrow> nat \<Rightarrow> string list \<Rightarrow>
   int + 'o Node" where
  "main_start C parse random1 random2 argv =
     (case parse_args parse argv of
        Inl code \<Rightarrow> Inl code
      | Inr config \<Rightarrow> Inr (build_node C random1 random2 config))"

section \<open>The background loops\<close>

text \<open>One turn of the master's loop; \<open>None\<close> is an exception of the sweeper. Every hundredth turn maintains the logs.\<close>

definition master_turn ::
  "('o, 'h, 's, 'z) containers \<Rightarrow> u64 \<Rightarrow> ExpireSweeper \<times> nat \<times> 'o CacheEngine \<times> MasterReplicator \<Rightarrow>
   (ExpireSweeper \<times> nat \<times> 'o CacheEngine \<times> MasterReplicator) option" where
  "master_turn C now = (\<lambda>(sweeper, ticks, engine, master).
     (case SweepOnce C sweeper (Some engine) now of
        None \<Rightarrow> None
      | Some (sweeper', engine', deleted) \<Rightarrow>
          if ticks + 1 = 100
          then (case Maintain engine' master of (kept, master') \<Rightarrow> Some (sweeper', 0, the kept, master'))
          else Some (sweeper', ticks + 1, the engine', master)))"

text \<open>The master's loop, one turn for each reading of the clock before \<^verbatim>\<open>stopping\<close> is set.\<close>

definition master_background ::
  "('o, 'h, 's, 'z) containers \<Rightarrow> 'o CacheEngine \<Rightarrow> MasterReplicator \<Rightarrow> u64 list \<Rightarrow>
   (ExpireSweeper \<times> nat \<times> 'o CacheEngine \<times> MasterReplicator) option" where
  "master_background C engine master clock =
     foldl (\<lambda>st now. case st of None \<Rightarrow> None | Some st \<Rightarrow> master_turn C now st)
       (Some (ExpireSweeper_new 1000, 0, engine, master)) clock"

text \<open>The replica's loop: one poll after the other, each with its clock and the results of its system calls, whatever a
  poll returns. A poll that waits for the network is the last.\<close>

type_synonym PollCalls = "(nat \<Rightarrow> u64) \<times> Dial \<times> SendResult list \<times> RecvResult list"

fun replica_background ::
  "Resp \<Rightarrow> ('o, 'h, 's, 'z) containers \<Rightarrow> Rng \<Rightarrow> ServerConfig \<Rightarrow> PollCalls list \<Rightarrow> 'o SlaveReplicator \<Rightarrow>
   'o SlaveReplicator option" where
  "replica_background P C R config [] slave = Some slave"
| "replica_background P C R config ((clock, dial, writes, reads) # polls) slave =
     (case snd (PollReplicaOnce P C R clock (unat (cfg_master_port config)) (cfg_replica_id config) dial writes reads (Some slave)) of
        None \<Rightarrow> None
      | Some (slave', None) \<Rightarrow> slave'
      | Some (slave', Some result) \<Rightarrow>
          (case slave' of None \<Rightarrow> None | Some next_slave \<Rightarrow> replica_background P C R config polls next_slave))"

section \<open>Sweeping keeps the logs in order\<close>

context imt_lib begin

lemma slot_inv_delete_keys:
  assumes "slot_inv C s" and "unat (slot_seq s) + length keys < 2 ^ 64"
  shows "slot_inv C (fst (foldl (HashSlot_DeleteExpired_key C now) (s, n) keys)) \<and>
    unat (slot_seq (fst (foldl (HashSlot_DeleteExpired_key C now) (s, n) keys))) \<le> unat (slot_seq s) + length keys"
  using assms
proof (induction keys arbitrary: s n)
  case (Cons key keys)
  obtain s1 n1 where step: "HashSlot_DeleteExpired_key C now (s, n) key = (s1, n1)" by fastforce
  have room: "slot_seq s \<noteq> u64_max" using Cons.prems(2) by (auto simp: unat_u64_max)
  have "slot_inv C s1" using slot_inv_DeleteExpired_key [OF Cons.prems(1) room, of now n key] step by simp
  moreover have "unat (slot_seq s1) \<le> Suc (unat (slot_seq s))"
    using DeleteExpired_key_cases [of now s n key] step unat_Suc_u64 [OF room] by (auto simp: committed_def)
  ultimately show ?case using Cons.IH [of s1 n1] Cons.prems(2) step by fastforce
qed simp

lemma slot_inv_swept:
  assumes "slot_inv C s" and "unat (slot_seq s) + kMaxExpiredKeysPerSlot < 2 ^ 64"
  shows "slot_inv C (swept C now s)" and "unat (slot_seq (swept C now s)) \<le> unat (slot_seq s) + kMaxExpiredKeysPerSlot"
proof -
  let ?keys = "HashSlot_expired_keys C (slot_map s) kMaxExpiredKeysPerSlot now"
  have len: "length ?keys \<le> kMaxExpiredKeysPerSlot" by (simp add: expired_keys_take)
  have "swept C now s = fst (foldl (HashSlot_DeleteExpired_key C now) (s, 0) ?keys)"
    by (simp add: swept_def HashSlot_DeleteExpired_def kMaxExpiredKeysPerSlot_def)
  with slot_inv_delete_keys [OF assms(1), of ?keys now 0] len assms(2)
  show "slot_inv C (swept C now s)" and "unat (slot_seq (swept C now s)) \<le> unat (slot_seq s) + kMaxExpiredKeysPerSlot" by auto
qed

lemma slot_inv_sweep_slots:
  assumes "\<And>i. slot_inv C (slots e i) \<and> unat (slot_seq (slots e i)) + n * kMaxExpiredKeysPerSlot < b" and "b \<le> 2 ^ 64"
  shows "slot_inv C (slots (sweep_slots C now nxt n e) i) \<and> unat (slot_seq (slots (sweep_slots C now nxt n e) i)) < b"
  using assms(1)
proof (induction n arbitrary: nxt e)
  case (Suc n)
  have "unat (slot_seq (slots e nxt)) + kMaxExpiredKeysPerSlot < 2 ^ 64" using Suc.prems [of nxt] assms(2) by simp
  note swept = slot_inv_swept [OF conjunct1 [OF Suc.prems [of nxt]] this, of now]
  have "slot_inv C (slots (put_slot e nxt (swept C now (slots e nxt))) j) \<and>
      unat (slot_seq (slots (put_slot e nxt (swept C now (slots e nxt))) j)) + n * kMaxExpiredKeysPerSlot < b" for j
    using Suc.prems [of j] Suc.prems [of nxt] swept by auto
  then show ?case using Suc.IH by simp
qed simp

lemma swept_Get_later:
  assumes "now \<le> t"
  shows "HashSlot_Get C (swept C now s) key t = HashSlot_Get C s key t"
proof -
  obtain s' n where d: "HashSlot_DeleteExpired C s kMaxExpiredKeysPerSlot now = (s', n)" by fastforce
  from DeleteExpired_removed [OF d] obtain ks where
    ks: "ks \<subseteq> expired_in C s now" "slot_view C s' = (\<lambda>key. if key \<in> ks then None else slot_view C s key)" by auto
  from d have "swept C now s = s'" by (simp add: swept_def)
  with ks assms show ?thesis
    by (cases "key \<in> ks") (auto simp: Get_view expired_in_def IsExpired_def)
qed

lemma sweep_slots_Get_later:
  "now \<le> t \<Longrightarrow> HashSlot_Get C (slots (sweep_slots C now nxt i e) j) key t = HashSlot_Get C (slots e j) key t"
  by (induction i arbitrary: nxt e) (simp_all add: swept_Get_later)

end

lemma slot_inv_logs_ok: "(\<And>i. slot_inv C (slots e i)) \<Longrightarrow> logs_ok e"
  by (simp add: logs_ok_def slot_inv_def)

context imt_lib begin

lemma Maintain_slot_inv:
  assumes "\<And>i. slot_inv C (slots e i)" and "Maintain (Some e) master = (Some e', master')"
  shows "slot_inv C (slots e' i) \<and> slot_seq (slots e' i) = slot_seq (slots e i)"
proof -
  obtain e1 where e1: "CollectGarbage (Some e) master = Some e1" using CollectGarbage_Some by blast
  have inv: "slot_inv C (slots e1 i) \<and> slot_seq (slots e1 i) = slot_seq (slots e i)" for i
  proof (cases "replicas master = []")
    case True
    with e1 assms(1) show ?thesis by (simp add: CollectGarbage_def)
  next
    case False
    with assms(1) show ?thesis by (simp add: CollectGarbage_slots [OF e1] slot_inv_AckLogsThrough)
  qed
  have "EnforceBudget (Some e1) master = (Some e', master')" using assms(2) by (simp add: Maintain_def e1)
  from EnforceBudget_within [OF this slot_inv_logs_ok] inv have "slots e' i = slots e1 i \<or>
      slots e' i = HashSlot_AckLogsThrough (slots e1 i) (HashSlot_MaxRetainedLogSeq (slots e1 i))" by blast
  with inv slot_inv_AckLogsThrough show ?thesis by auto
qed

end

lemma Maintain_budget: "Maintain engine master = (engine', master') \<Longrightarrow> global_binlog_budget_bytes master' = global_binlog_budget_bytes master"
  by (auto simp: Maintain_def EnforceBudget_def Let_def split: option.splits if_splits prod.splits)

lemma Maintain_returns: "\<exists>e' master'. Maintain (Some e) master = (Some e', master')"
  using CollectGarbage_Some [of e master] EnforceBudget_Some by (auto simp: Maintain_def)

text \<open>What holds between two turns, with room for \<open>n\<close> more: the numbers of a slot grow by at most 64 at a visit.\<close>

definition background_ok ::
  "('o, 'h, 's, 'z) containers \<Rightarrow> nat \<Rightarrow> ExpireSweeper \<times> nat \<times> 'o CacheEngine \<times> MasterReplicator \<Rightarrow> bool" where
  "background_ok C n = (\<lambda>(sweeper, ticks, e, master).
     next_slot sweeper < kSlotCount \<and> slots_per_tick sweeper = 1000 \<and> ticks < 100 \<and>
     (\<forall>i. slot_inv C (slots e i) \<and> unat (slot_seq (slots e i)) + n * 64000 < 2 ^ 64))"

lemma master_turn_step:
  assumes "imt_lib C" and "background_ok C (Suc n) (sweeper, ticks, e, master)"
  shows "\<exists>sweeper' e' master'. master_turn C now (sweeper, ticks, e, master) = Some (sweeper', (ticks + 1) mod 100, e', master') \<and>
    background_ok C n (sweeper', (ticks + 1) mod 100, e', master') \<and>
    global_binlog_budget_bytes master' = global_binlog_budget_bytes master \<and>
    (\<forall>key t. now \<le> t \<longrightarrow> CacheEngine_Get C e' key t = CacheEngine_Get C e key t) \<and>
    (ticks + 1 = 100 \<longrightarrow> total_log_bytes e' \<le> global_binlog_budget_bytes master)"
proof -
  have ok: "next_slot sweeper < kSlotCount" "slots_per_tick sweeper = 1000" "ticks < 100"
    and room: "\<And>i. slot_inv C (slots e i) \<and> unat (slot_seq (slots e i)) + 1000 * kMaxExpiredKeysPerSlot < 2 ^ 64 - n * 64000"
    using assms(2) by (auto simp: background_ok_def kMaxExpiredKeysPerSlot_def less_diff_conv add_ac)
  let ?e = "sweep_slots C now (next_slot sweeper) 1000 e"
  let ?sw = "sweeper\<lparr>next_slot := (next_slot sweeper + 1000) mod kSlotCount\<rparr>"
  obtain d where sweep: "SweepOnce C sweeper (Some e) now = Some (?sw, Some ?e, d)" using SweepOnce_eq [OF ok(1)] ok(2) by metis
  have inv: "slot_inv C (slots ?e i) \<and> unat (slot_seq (slots ?e i)) < 2 ^ 64 - n * 64000" for i
    by (rule imt_lib.slot_inv_sweep_slots [OF assms(1) room]) simp
  have get: "CacheEngine_Get C ?e key t = CacheEngine_Get C e key t" if "now \<le> t" for key t
    using that by (simp add: CacheEngine_Get_def KeySlot_def imt_lib.sweep_slots_Get_later [OF assms(1)])
  show ?thesis
  proof (cases "ticks + 1 = 100")
    case True
    obtain e' master' where m: "Maintain (Some ?e) master = (Some e', master')" using Maintain_returns by blast
    have keep: "slot_map (slots e' i) = slot_map (slots ?e i)" "total_log_bytes e' \<le> global_binlog_budget_bytes master" for i
      using Maintain_data [OF slot_inv_logs_ok m] inv by blast+
    have "CacheEngine_Get C e' key t = CacheEngine_Get C ?e key t" for key t
      by (simp add: CacheEngine_Get_def KeySlot_def HashSlot_Get_def keep)
    moreover have "background_ok C n (?sw, 0, e', master')"
      using imt_lib.Maintain_slot_inv [OF assms(1) _ m] inv ok(2) by (auto simp: background_ok_def less_diff_conv)
    ultimately show ?thesis using True sweep m get keep(2) Maintain_budget [OF m] by (simp add: master_turn_def)
  next
    case False
    with ok inv have "background_ok C n (?sw, ticks + 1, ?e, master)" by (auto simp: background_ok_def less_diff_conv)
    with False ok(3) sweep get show ?thesis by (simp add: master_turn_def)
  qed
qed

section \<open>The state at the start\<close>

definition bad_budget :: "string \<Rightarrow> bool" where
  "bad_budget arg \<longleftrightarrow> prefix ''--binlog-budget='' arg \<and>
     (case ParseInt64 (drop 16 arg) of None \<Rightarrow> True | Some bytes \<Rightarrow> bytes < 0)"

definition fresh_node :: "('o, 'h, 's, 'z) containers \<Rightarrow> 'o Node \<Rightarrow> bool" where
  "fresh_node C node \<longleftrightarrow>
     (case cfg_role (node_config node) of
        kMaster \<Rightarrow> node_slave node = None \<and> engine_inv C (node_engine node) \<and>
          (\<forall>i. slot_log_writes (slots (node_engine node) i)) \<and> (\<forall>key. engine_view C (node_engine node) key = None) \<and>
          (\<exists>master. node_master node = Some master \<and> sessions_ok master \<and> replicas master = [] \<and>
             global_binlog_budget_bytes master = cfg_binlog_budget_bytes (node_config node))
      | kReplica \<Rightarrow> node_master node = None \<and>
          (\<exists>slave. node_slave node = Some slave \<and> slave_engine slave = Some (node_engine node) \<and> slave_inv C slave \<and>
             (\<forall>i. \<not> CanReadSlot slave i))) \<and>
     cfg_replica_id (node_config node) \<noteq> [] \<and>
     (\<exists>config w ws. Server_Run (node_config node) True 3 = Inr (config, w # ws) \<and> idle_tasks w \<noteq> [])"

lemma Server_Run_pool: "\<exists>config' w ws. Server_Run config True 3 = Inr (config', w # ws) \<and> idle_tasks w \<noteq> []"
proof -
  have "[0..<nat (max 1 n)] = 0 # [1..<nat (max 1 n)]" for n :: int by (subst upt_conv_Cons) auto
  then show ?thesis by (simp add: Server_Run_def Let_def Worker_Run_def Worker_new_def)
qed

context imt_lib begin

lemma fresh_build_node:
  assumes "cfg_replica_id config \<noteq> []"
  shows "fresh_node C (build_node C random1 random2 config)"
proof (cases "cfg_role config")
  case kMaster
  have "engine_view C (CacheEngine_new C) key = None" for key
    by (simp add: engine_view_def slot_view_def KeySlot_def CacheEngine_new_def HashSlot_new_def om.find_empty)
  with kMaster assms engine_inv_new Server_Run_pool [of config] show ?thesis
    by (simp add: fresh_node_def build_node_def SetGlobalBinlogBudget_def MasterReplicator_new_def sessions_ok_def
        CacheEngine_new_def HashSlot_new_def)
next
  case kReplica
  let ?slave = "SlaveReplicator_new (Some (CacheEngine_new C))"
  have "slave_inv C ?slave" using slave_inv_run [OF replica_start] .
  moreover have "slave_engine ?slave \<noteq> None" "\<not> CanReadSlot ?slave i" for i
    by (simp_all add: SlaveReplicator_new_def CanReadSlot_def SlotApplyState_new_def)
  ultimately show ?thesis using kReplica assms Server_Run_pool [of config]
    by (auto simp: fresh_node_def build_node_def)
qed

end

lemma replica_background_run:
  assumes "resp_lib P" and "replica_run P C R slave"
  shows "\<exists>slave'. replica_background P C R config polls slave = Some slave' \<and> replica_run P C R slave'"
  using assms
proof (induction P C R config polls slave rule: replica_background.induct)
  case (2 P C R config clock dial writes reads polls slave)
  obtain sent slave' result where
    poll: "PollReplicaOnce P C R clock (unat (cfg_master_port config)) (cfg_replica_id config) dial writes reads (Some slave) =
      (sent, Some (Some slave', result))" and run: "replica_run P C R slave'"
    using PollReplicaOnce_returns [OF 2(2,3)] by blast
  with 2 show ?case by (cases result) simp_all
qed auto

section \<open>Properties\<close>

text \<open>(C24) The background loop of a master. However many turns it takes, none throws; together they change no read at
  the time of the last turn or later, and after every hundredth turn the logs are within the budget, whatever the
  sweeps have logged. The numbers of the slots must have room for the deletions, 64 a slot at each visit.\<close>

theorem master_background_outcome:
  assumes "imt_lib C" and "\<And>i. slot_inv C (slots e i)" and "\<And>i. unat (slot_seq (slots e i)) + length clock * 64000 < 2 ^ 64"
  shows "\<exists>sweeper e' master'. master_background C e master clock = Some (sweeper, length clock mod 100, e', master') \<and>
    next_slot sweeper < kSlotCount \<and> (\<forall>i. slot_inv C (slots e' i)) \<and>
    (\<forall>key t. (\<forall>now \<in> set clock. now \<le> t) \<longrightarrow> CacheEngine_Get C e' key t = CacheEngine_Get C e key t) \<and>
    (clock \<noteq> [] \<and> 100 dvd length clock \<longrightarrow> total_log_bytes e' \<le> global_binlog_budget_bytes master)"
proof -
  have "\<exists>sweeper e' master'. master_background C e master clock = Some (sweeper, length clock mod 100, e', master') \<and>
      background_ok C n (sweeper, length clock mod 100, e', master') \<and>
      global_binlog_budget_bytes master' = global_binlog_budget_bytes master \<and>
      (\<forall>key t. (\<forall>now \<in> set clock. now \<le> t) \<longrightarrow> CacheEngine_Get C e' key t = CacheEngine_Get C e key t) \<and>
      (clock \<noteq> [] \<and> 100 dvd length clock \<longrightarrow> total_log_bytes e' \<le> global_binlog_budget_bytes master)"
    if "\<And>i. unat (slot_seq (slots e i)) + (length clock + n) * 64000 < 2 ^ 64" for n clock
    using that
  proof (induction clock arbitrary: n rule: rev_induct)
    case Nil
    with assms(2) show ?case by (simp add: master_background_def background_ok_def ExpireSweeper_new_def)
  next
    case (snoc now clock)
    from snoc.IH [of "Suc n"] snoc.prems obtain sweeper e1 m1 where
      run: "master_background C e master clock = Some (sweeper, length clock mod 100, e1, m1)"
      and ok: "background_ok C (Suc n) (sweeper, length clock mod 100, e1, m1)"
      and keep: "global_binlog_budget_bytes m1 = global_binlog_budget_bytes master"
        "\<And>key t. \<forall>now \<in> set clock. now \<le> t \<Longrightarrow> CacheEngine_Get C e1 key t = CacheEngine_Get C e key t" by auto
    have ticks: "(length clock mod 100 + 1) mod 100 = length (clock @ [now]) mod 100" by (simp add: mod_simps)
    have "length clock mod 100 + 1 = 100" if "100 dvd length (clock @ [now])" using that by (auto simp: dvd_eq_mod_eq_0 mod_Suc split: if_splits)
    moreover obtain sweeper' e' m' where
      turn: "master_turn C now (sweeper, length clock mod 100, e1, m1) = Some (sweeper', length (clock @ [now]) mod 100, e', m')"
      and ok': "background_ok C n (sweeper', length (clock @ [now]) mod 100, e', m')"
      and keep': "global_binlog_budget_bytes m' = global_binlog_budget_bytes m1"
        "\<And>key t. now \<le> t \<Longrightarrow> CacheEngine_Get C e' key t = CacheEngine_Get C e1 key t"
        "length clock mod 100 + 1 = 100 \<Longrightarrow> total_log_bytes e' \<le> global_binlog_budget_bytes m1"
      using master_turn_step [OF assms(1) ok, of now, unfolded ticks] by blast
    moreover have "master_background C e master (clock @ [now]) = Some (sweeper', length (clock @ [now]) mod 100, e', m')"
      using run turn by (simp add: master_background_def)
    ultimately show ?case using keep
      by (intro exI [of _ sweeper'] exI [of _ e'] exI [of _ m'] conjI) (simp_all del: length_append)
  qed
  from this [of clock 0] assms(3) show ?thesis by (auto simp: background_ok_def)
qed

lemma parse_flags_error:
  "parse_flags parse config args = Inl code \<longleftrightarrow> code = 2 \<and> list_ex bad_budget args"
proof (induction args arbitrary: config)
  case (Cons arg args)
  have "bad_budget arg \<Longrightarrow> arg \<noteq> ''--replica'' \<and> arg \<noteq> ''--replica-reads'' \<and> \<not> prefix ''--master='' arg"
    by (auto simp: bad_budget_def prefix_def)
  with Cons show ?case by (auto simp: bad_budget_def split: option.splits)
qed simp

lemma parse_flags_accepts: "parse_flags parse config args = Inr config' \<Longrightarrow> \<not> list_ex bad_budget args"
  using parse_flags_error [of parse config args 2] by auto

text \<open>(C25) What the program starts from. The command line is refused with exit code 2 exactly when some budget
  option is not a non-negative 64-bit signed integer. Otherwise it gives a node with exactly the replicator of its role: a master
  with an empty, logged engine, no session and the budget asked for, or a replica at the start of its run
  whose engine is the server's, which reads nothing yet. The node has a name, and its server at least one worker
  with at least one idle task, whatever counts were given.\<close>

theorem startup_establishes:
  assumes "imt_lib C"
  shows "case main_start C parse random1 random2 argv of
      Inl code \<Rightarrow> code = 2 \<and> list_ex bad_budget (drop 4 argv)
    | Inr node \<Rightarrow> \<not> list_ex bad_budget (drop 4 argv) \<and> fresh_node C node"
proof (cases "parse_args parse argv")
  case (Inl code)
  then show ?thesis
    by (auto simp: main_start_def parse_args_def Let_def parse_flags_error split: sum.splits if_splits)
next
  case (Inr config)
  then have "\<not> list_ex bad_budget (drop 4 argv) \<and> cfg_replica_id config \<noteq> []"
    by (auto simp: parse_args_def Let_def split: sum.splits if_splits dest: parse_flags_accepts)
  with Inr imt_lib.fresh_build_node [OF assms] show ?thesis by (simp add: main_start_def)
qed

text \<open>(C21) The background loop of a replica. From the node the program starts with, whatever its master sends and whatever the
  system calls of its polls return, no poll loops: the loop gets through all of them or waits for the network. The
  replica it leaves has applied frames and nothing else; its engine is well formed and logs nothing, each slot's number
  is the position it has applied, and a slot that waits for an image is not read.\<close>

theorem replica_background_returns:
  assumes "imt_lib C" and "resp_lib P" and "main_start C parse random1 random2 argv = Inr node" and "node_slave node = Some slave"
  shows "\<exists>slave'. replica_background P C R (node_config node) polls slave = Some slave' \<and> replica_run P C R slave' \<and> slave_inv C slave'"
proof -
  have "replica_run P C R slave"
    using assms(3,4) by (auto simp: main_start_def build_node_def Let_def split: sum.splits if_splits intro: replica_start)
  from replica_background_run [OF assms(2) this] imt_lib.slave_inv_run [OF assms(1)] show ?thesis by blast
qed

theorem master_background_outcome_witness:
  "\<exists>sweeper e' master'. master_background ref_containers (CacheEngine_new ref_containers) (MasterReplicator_new 1 2) (replicate 100 9) =
      Some (sweeper, 0, e', master') \<and> total_log_bytes e' \<le> global_binlog_budget_bytes (MasterReplicator_new 1 2)"
proof -
  have "\<And>i. slot_inv ref_containers (slots (CacheEngine_new ref_containers) i)"
    using ref_lib.slot_inv_new by (simp add: CacheEngine_new_def)
  moreover have "\<And>i. unat (slot_seq (slots (CacheEngine_new ref_containers) i)) + length (replicate 100 (9 :: u64)) * 64000 < 2 ^ 64"
    by (simp add: CacheEngine_new_def HashSlot_new_def)
  ultimately show ?thesis
    using master_background_outcome [OF ref_lib.imt_lib_axioms, of "CacheEngine_new ref_containers" "replicate 100 9"
        "MasterReplicator_new 1 2"] by force
qed

theorem startup_establishes_witness:
  "case main_start ref_containers (\<lambda>_. None) 1 2 [''server'', ''6400'', ''0'', ''-3'', ''--replica''] of
      Inl code \<Rightarrow> code = 2 \<and> list_ex bad_budget (drop 4 [''server'', ''6400'', ''0'', ''-3'', ''--replica''])
    | Inr node \<Rightarrow> \<not> list_ex bad_budget (drop 4 [''server'', ''6400'', ''0'', ''-3'', ''--replica'']) \<and> fresh_node ref_containers node"
  by (rule startup_establishes [OF ref_lib.imt_lib_axioms])

theorem replica_background_returns_witness:
  "\<exists>node slave slave'. main_start ref_containers (\<lambda>_. Some (''m'', 6399)) 1 2 [''server'', ''6400'', ''1'', ''1'', ''--replica'', ''--master=m''] = Inr node \<and>
     node_slave node = Some slave \<and> cfg_master_port (node_config node) = 6399 \<and>
     replica_background ref_resp ref_containers demo_rng (node_config node)
       [(\<lambda>_. 7, demo_dial, [Wrote 100000000], [ReadBytes ''*1'', ReadBytes ''junk'']), (\<lambda>_. 9, demo_dial, [Wrote 5], [])] slave = Some slave' \<and>
     slave_inv ref_containers slave'"
proof -
  let ?argv = "[''server'', ''6400'', ''1'', ''1'', ''--replica'', ''--master=m'']" and ?parse = "\<lambda>_. Some (''m'', 6399)"
  obtain config where args: "parse_args ?parse ?argv = Inr config" "cfg_role config = kReplica" "cfg_master_port config = 6399"
    by (simp add: parse_args_def ServerConfig_new_def)
  let ?node = "build_node ref_containers 1 2 config"
  have start: "main_start ref_containers ?parse 1 2 ?argv = Inr ?node" by (simp add: main_start_def args)
  obtain slave where slave: "node_slave ?node = Some slave" by (simp add: build_node_def args(2) Let_def)
  have "node_config ?node = config" by (simp add: build_node_def Let_def)
  with replica_background_returns [OF ref_lib.imt_lib_axioms ref_resp_lib.resp_lib_axioms start slave, of demo_rng
      "[(\<lambda>_. 7, demo_dial, [Wrote 100000000], [ReadBytes ''*1'', ReadBytes ''junk'']), (\<lambda>_. 9, demo_dial, [Wrote 5], [])]"]
    start slave args(3) show ?thesis by metis
qed

end
