(* ===== verification/Spec2Isabelle.thy ===== *)
theory Spec2Isabelle
  imports GlobMatch SlotExpiry ResponseRep ReplicaReads Startup
begin

text \<open>
  A verification development for cache_server, a Redis-like in-memory server in C++ with asynchronous
  replication. All paths below are relative to the repository's \<^verbatim>\<open>src/\<close>.

  \<^bold>\<open>The program.\<close> A node keeps \<open>kSlotCount\<close> hash slots; a key belongs to the slot of its FNV-1a hash. A slot
  maps keys to typed objects (string, hash, set, sorted set) with an optional deadline, numbers its writes
  and keeps them in a bounded write log. Clients speak RESP: the server reads bytes, takes whole commands out
  of them, runs each through the dispatcher and sends the replies. A replica polls its master: it says
  which position it has applied of each slot, the master answers with a batch of snapshots and log records,
  and the replica applies them. A slot of a replica is readable only when it has caught up. In the background a
  master deletes expired keys and trims the logs to a budget.

  \<^bold>\<open>The theories, from the bottom up.\<close>

  \<^item> \<open>Prelude\<close>: machine types, decimal printing and reading, C strings, shared lemmas and lemma collections.
  \<open>Common\<close> is \<^verbatim>\<open>common/hash.h\<close> and \<^verbatim>\<open>parse_utils.cpp\<close>; \<open>GlobMatch\<close> is \<^verbatim>\<open>common/glob_match.cpp\<close>; \<open>Double\<close> is
  \<^verbatim>\<open>double\<close> as 64 bits, with the printing, reading, comparison and addition the sorted sets use.
  \<^item> \<open>Containers\<close>: the persistent maps and sets of the package \<^verbatim>\<open>cpp_util\<close>, as locales \<open>imt_map\<close> and \<open>imt_set\<close>;
  \<open>RespLib\<close>: its RESP parser and packers, as the locale \<open>resp_lib\<close>. These are not part of the repository, so
  every definition that uses them takes them as an argument (\<open>C\<close>, \<open>P\<close>). Both come with an executable reference
  instance that satisfies the laws.
  \<^item> \<open>Binlog\<close>, \<open>RedisObject\<close>, \<open>HashSlot\<close>, \<open>CacheEngine\<close>: \<^verbatim>\<open>cache/\<close>. \<open>SlotSteps\<close> has a slot's life as a step relation
  and its invariant, \<open>SlotExpiry\<close> the deadlines. The locale \<open>object_store\<close> is the contract between the
  store and the commands; a slot and the engine are both instances of it. \<open>ExpireSweeper\<close> is \<^verbatim>\<open>expire/\<close>.
  \<^item> \<open>Response\<close>, \<open>KeyCmd\<close>, \<open>StringCmd\<close>, \<open>HashCmd\<close>, \<open>SetTypeCmd\<close>, \<open>ZSetCmd\<close>, \<open>ScanCmd\<close>, \<open>CommandDispatcher\<close>: the 47
  commands of \<^verbatim>\<open>command/\<close> with their arity checks, option parsers and every error reply. A class of the headers is
  a value of \<open>RedisCmd\<close>, its name, arity check and body, under the class's name; the dispatcher's table holds these.
  A reply is a datatype in \<open>Response\<close>; \<open>ResponseRep\<close> has the struct of \<^verbatim>\<open>protocol/response.h\<close> with its factories and
  packer, and shows that the datatype is what the code packs.
  \<^item> \<open>RespCodec\<close>: \<^verbatim>\<open>protocol/resp_codec.cpp\<close>; \<open>ReplFrame\<close>, \<open>SnapshotCodec\<close>: the wire forms of \<^verbatim>\<open>repl/repl_frame.cpp\<close>
  and \<^verbatim>\<open>snapshot_codec.cpp\<close>.
  \<^item> \<open>MasterReplicator\<close>, \<open>SlaveReplicator\<close>, \<open>ReplicationLink\<close>: the files of \<^verbatim>\<open>repl/\<close> with these names.
  \<^item> \<open>Socket\<close>, \<open>Connection\<close>, \<open>Worker\<close>: \<^verbatim>\<open>net/server.cpp\<close>. \<open>Startup\<close>: \<^verbatim>\<open>main.cpp\<close>.
  \<^item> \<open>ObjectAbs\<close>, \<open>CommandTwins\<close>, \<open>Replay\<close>, \<open>Replication\<close>, \<open>CatchUp\<close>, \<open>Convergence\<close>, \<open>ReadTwins\<close>, \<open>ReplicaReads\<close>: what
  spans components. An object's abstract meaning, writes and reads that see only this meaning, the replay of the log,
  the history of a master, a whole replication round, what repeated rounds lead to, and what a client of the
  replica then reads.

  \<^bold>\<open>How code becomes definitions.\<close> A class is a record and a method a function on it that returns the new
  record. A definition has its method's name, with the class in front where two classes share it; the body of a
  loop is a function of its own (\<open>f_loop\<close>). A lambda handed to the store (an updater or mutator) is a
  definition as well. On a replica the server and the replicator share one engine; the model keeps it in the replicator, and a
  read passes it on. Errors are values: replies, \<open>None\<close>, or a flag, as the code has them. Sequence numbers, deadlines and
  counters are 64-bit words, and wrap as in the code. A string is a list of characters, each a byte.

  \<^bold>\<open>What is shown.\<close>

  \<^item> The store: an atomic update is a map update at one key with one number and one log record; every reachable
  slot has its log gap-free up to the number of its last write and its byte count right; what is handed
  to a replica continues its position. Any sequence of commands keeps the engine well formed.
  \<^item> The commands: an error reply means nothing has changed. SET, ZADD and SPOP are stated for all arguments, refused ones
  included, against a declarative reading of their options; the shared body of the integer commands, the shared body of the
  rank queries and the iteration of SCAN against what they should compute. The glob matcher's backtracking decides a
  declarative relation over stars and single items; what an item matches is the code's own test.
  \<^item> The wire: within the limits of the codec, frames are read back as they were written and commands are taken correctly however
  the network cuts them. A snapshot is read back as it was written, but each score becomes what its text is read as.
  \<^item> Replication: replaying what a command logs gives what the command gave; whatever the network does to frames, a
  replica is never ahead of its master and a slot that has applied everything equals the master's; a poll's answer is
  accepted whole and brings the replica forward; repeated polls of a master whose data rest, its logs being maintained
  in between or not, end with every slot of the replica readable and equal to the master's, and with every read answered
  as the master answers it, SCAN and SRANDMEMBER apart; over sockets, a round delivers exactly the frames of that answer. All
  of this is about runs in which the scores the master holds at a poll survive their text, and what a poll brings about also
  about slots of at most a million elements, since the code breaks both otherwise.
  \<^item> The server: pipelined commands are answered in order, no input makes a connection or a poll loop, a replica
  serves no writes, and every accepted descriptor is in exactly one place.
  \<^item> Background work: sweeping deletes exactly the expired keys, maintenance meets the log budget, and garbage
  collection keeps what a replica still needs. The loop of a master never throws, keeps the budget and changes no read; the
  loop of a replica gets through its polls whatever its master sends.

  \<^bold>\<open>Loops.\<close> No definition has fuel. Loops over data are structural recursion; the others are \<open>function\<close> with a
  termination proof. The four loops whose end depends on what a library call consumes, or on backtracking
  (\<open>CommandLoop\<close>, \<open>FrameLoop\<close>, \<open>drain\<close>, \<open>MatchAt_loop\<close>), are partial functions to \<open>option\<close>; that they
  return is part of the properties about them.

  \<^bold>\<open>What the model takes as given.\<close>

  \<^item> The laws of the two third-party libraries, as locale assumptions, and that the random engine of SPOP and
  SRANDMEMBER returns an index in range (\<open>rng_ok\<close>).
  \<^item> The clock is an argument: \<^verbatim>\<open>NowMicros\<close> is read where the code reads it, and no property relies on its
  value beyond what its statement says.
  \<^item> A system call is modelled by its result, taken from a list in the order of the calls (theory \<open>Socket\<close>).
  A call that has no result yet is one that blocks.
  \<^item> Mutual exclusion: methods that hold a slot's or a replicator's mutex for their whole body are one step. A poll of the
  master and the maintenance of its logs exclude each other through this mutex; commands of other threads are
  modelled between polls. \<open>Replication\<close> is about one master process and one replica; sessions of other replicas
  may be present.
  \<^item> The properties about positions assume that a slot does not reach the number \<open>2 ^ 64 - 1\<close> of writes.

  \<^bold>\<open>Not modelled.\<close> Reading the clock (\<^verbatim>\<open>common/time.h\<close>), creating sockets and threads, the switches between
  coroutines, signal handling, sleeping, and the joining of threads at exit: calls of the operating system or of a
  library with no logic of this program around them. \<^verbatim>\<open>EmitIfGlobMatches\<close> calls its argument on a match and nothing
  else. A worker's \<^verbatim>\<open>ReapFdsRoutine\<close> repeats \<^verbatim>\<open>ReapFds\<close> every millisecond; what it repeats is modelled.
  Memory reclamation has no counterpart in a model of values.

  \<^bold>\<open>What modelling showed.\<close> A score printed with a point and an exponent that ends in zeros loses these (\<^verbatim>\<open>FormatScore\<close> of
  \<^verbatim>\<open>zset_cmd.cpp\<close> and of \<^verbatim>\<open>snapshot_codec.cpp\<close>), so a snapshot can change a score; an image of more than a million
  elements is encoded but refused by the decoder, so such a slot never comes online; and in a glob class a range
  may swallow the closing bracket.
\<close>

end
